(* ===== verification/Prelude.thy ===== *)
theory Prelude
  imports Main "HOL-Library.Word" "HOL-Library.Signed_Division"
begin

text \<open>
  Shared vocabulary of the development: the ways an invocation of a Soroban contract
  aborts, the result type of every modelled entry point, the integers of the contracts
  (\<open>i128\<close> as \<open>int\<close>, \<open>u64\<close> and \<open>u32\<close> as \<open>nat\<close>, each with its range
  check written out: the workspace's release profile sets \<open>overflow-checks = true\<close>, so an
  overflowing \<open>+\<close>, \<open>-\<close> or \<open>*\<close> panics and the whole invocation reverts), the
  invocation environment, and the generic lemmas about them that carry the proofs of the
  component theories.
\<close>

section \<open>Aborts and results\<close>

text \<open>
  \<open>Error e\<close> is \<open>panic_with_error!\<close> (or an \<open>Err\<close> return) with the contract's own
  error, \<open>Overflow\<close> a failed overflow check (or a zero divisor), \<open>Unwrap\<close> an
  \<open>unwrap()\<close> on nothing or an index out of range, \<open>NoAuth\<close> a failed
  \<open>require_auth\<close> and \<open>HostTrap\<close> a trap of a called contract (a token transfer that
  does not go through). In each case the host discards every storage write, so the model
  returns no state.
\<close>

datatype 'e abort = Error 'e | Overflow | Unwrap | NoAuth | HostTrap

type_synonym ('e, 'a) res = "'e abort + 'a"

fun rbind :: "('e, 'a) res \<Rightarrow> ('a \<Rightarrow> ('e, 'b) res) \<Rightarrow> ('e, 'b) res" where
  "rbind (Inl e) f = Inl e"
| "rbind (Inr x) f = f x"

fun is_ok :: "('e, 'a) res \<Rightarrow> bool" where
  "is_ok (Inl _) = False"
| "is_ok (Inr _) = True"

text \<open>A transaction that aborts leaves the state as it was.\<close>

fun commit :: "'s \<Rightarrow> ('e, 's) res \<Rightarrow> 's" where
  "commit s (Inl _) = s"
| "commit s (Inr s') = s'"

lemma rbind_eq_Inr [simp]: "rbind m f = Inr y \<longleftrightarrow> (\<exists>x. m = Inr x \<and> f x = Inr y)"
  by (cases m) auto

lemma rbindE:
  assumes "rbind m f = Inr y"
  obtains x where "m = Inr x" "f x = Inr y"
  using assms by (cases m) auto

lemma guardE:
  assumes "(if c then Inl e else m) = Inr y"
  obtains "\<not> c" "m = Inr y"
  using assms by (cases c) auto

lemma condE:
  assumes "(if c then m else m') = Inr y"
  obtains "c" "m = Inr y" | "\<not> c" "m' = Inr y"
  using assms by (cases c) auto

lemma case_optionE:
  assumes "(case x of None \<Rightarrow> m | Some v \<Rightarrow> f v) = Inr y"
  obtains "x = None" "m = Inr y" | v where "x = Some v" "f v = Inr y"
  using assms by (cases x) auto

lemma rbind_eq_Inl: "rbind m f = Inl e \<longleftrightarrow> m = Inl e \<or> (\<exists>x. m = Inr x \<and> f x = Inl e)"
  by (cases m) auto

lemma rbind_assoc: "rbind (rbind m f) g = rbind m (\<lambda>x. rbind (f x) g)"
  by (cases m) auto

lemma rbind_Inr_right [simp]: "rbind m Inr = m"
  by (cases m) auto

lemma is_ok_iff: "is_ok m \<longleftrightarrow> (\<exists>x. m = Inr x)"
  by (cases m) auto

lemma commit_case: "commit s m = (case m of Inl _ \<Rightarrow> s | Inr s' \<Rightarrow> s')"
  by (cases m) auto

lemma commit_cases:
  obtains (aborted) e where "m = Inl e" "commit s m = s"
  | (committed) s' where "m = Inr s'" "commit s m = s'"
  by (cases m) auto

text \<open>\<open>unwrap()\<close>, and \<open>unwrap_or(0)\<close> on a stored amount.\<close>

fun unwrap :: "'a option \<Rightarrow> ('e, 'a) res" where
  "unwrap None = Inl Unwrap"
| "unwrap (Some x) = Inr x"

lemma unwrap_eq_Inr [simp]: "unwrap x = Inr y \<longleftrightarrow> x = Some y"
  by (cases x) auto

definition or0 :: "int option \<Rightarrow> int" where
  "or0 x = (case x of None \<Rightarrow> 0 | Some v \<Rightarrow> v)"

text \<open>
  Reading a storage key: \<open>unwrap_or_else(panic_with_error)\<close>, and a counter that
  defaults to zero.
\<close>

definition need :: "'e \<Rightarrow> 'a option \<Rightarrow> ('e, 'a) res" where
  "need err x = (case x of None \<Rightarrow> Inl (Error err) | Some v \<Rightarrow> Inr v)"

lemma need_eq_Inr [simp]: "need err x = Inr v \<longleftrightarrow> x = Some v"
  by (auto simp: need_def split: option.splits)

definition nat0 :: "nat option \<Rightarrow> nat" where
  "nat0 x = (case x of None \<Rightarrow> 0 | Some n \<Rightarrow> n)"

lemma nat0_simps [simp]: "nat0 None = 0" "nat0 (Some n) = n"
  by (simp_all add: nat0_def)

text \<open>\<open>Vec::get\<close>: an index out of range yields \<open>None\<close>.\<close>

definition vec_get :: "'a list \<Rightarrow> nat \<Rightarrow> 'a option" where
  "vec_get xs i = (if i < length xs then Some (xs ! i) else None)"

lemma vec_get_eq_Some [simp]: "vec_get xs i = Some x \<longleftrightarrow> i < length xs \<and> x = xs ! i"
  by (auto simp: vec_get_def)

lemma vec_get_eq_None [simp]: "vec_get xs i = None \<longleftrightarrow> length xs \<le> i"
  by (auto simp: vec_get_def)

section \<open>Integers\<close>

definition i128_max :: int where "i128_max = 2 ^ 127 - 1"
definition i128_min :: int where "i128_min = - (2 ^ 127)"
definition u64_max :: nat where "u64_max = 2 ^ 64 - 1"
definition u32_max :: nat where "u32_max = 2 ^ 32 - 1"

definition in_i128 :: "int \<Rightarrow> bool" where
  "in_i128 x \<longleftrightarrow> i128_min \<le> x \<and> x \<le> i128_max"

text \<open>\<open>checked_add\<close>, \<open>checked_mul\<close>, \<dots> return an option; a plain operator panics.\<close>

definition checked_i128 :: "int \<Rightarrow> int option" where
  "checked_i128 x = (if in_i128 x then Some x else None)"

definition i128 :: "int \<Rightarrow> ('e, int) res" where
  "i128 x = (if in_i128 x then Inr x else Inl Overflow)"

definition u64 :: "nat \<Rightarrow> ('e, nat) res" where
  "u64 n = (if n \<le> u64_max then Inr n else Inl Overflow)"

definition u32 :: "nat \<Rightarrow> ('e, nat) res" where
  "u32 n = (if n \<le> u32_max then Inr n else Inl Overflow)"

definition sat_i128 :: "int \<Rightarrow> int" where
  "sat_i128 x = max i128_min (min i128_max x)"

definition sat_u64 :: "nat \<Rightarrow> nat" where
  "sat_u64 n = min n u64_max"

definition sat_u32 :: "nat \<Rightarrow> nat" where
  "sat_u32 n = min n u32_max"

text \<open>The cast \<open>x as u64\<close> of a signed value keeps its low 64 bits.\<close>

definition as_u64 :: "int \<Rightarrow> nat" where
  "as_u64 x = nat (x mod 2 ^ 64)"

lemma checked_i128_eq_Some [simp]: "checked_i128 x = Some y \<longleftrightarrow> in_i128 x \<and> y = x"
  by (auto simp: checked_i128_def)

lemma checked_i128_eq_None [simp]: "checked_i128 x = None \<longleftrightarrow> \<not> in_i128 x"
  by (auto simp: checked_i128_def)

lemma i128_eq_Inr [simp]: "i128 x = Inr y \<longleftrightarrow> in_i128 x \<and> y = x"
  by (auto simp: i128_def)

lemma u64_eq_Inr [simp]: "u64 n = Inr m \<longleftrightarrow> n \<le> u64_max \<and> m = n"
  by (auto simp: u64_def)

lemma u32_eq_Inr [simp]: "u32 n = Inr m \<longleftrightarrow> n \<le> u32_max \<and> m = n"
  by (auto simp: u32_def)

lemma in_i128_between: "in_i128 a \<Longrightarrow> in_i128 b \<Longrightarrow> a \<le> x \<Longrightarrow> x \<le> b \<Longrightarrow> in_i128 x"
  by (auto simp: in_i128_def)

lemma in_i128_small: "- (10 ^ 38) \<le> x \<Longrightarrow> x \<le> 10 ^ 38 \<Longrightarrow> in_i128 x"
  by (simp add: in_i128_def i128_min_def i128_max_def)

lemma in_i128_0 [simp]: "in_i128 0"
  by (simp add: in_i128_def i128_min_def i128_max_def)

lemma sat_i128_id [simp]: "in_i128 x \<Longrightarrow> sat_i128 x = x"
  by (simp add: sat_i128_def in_i128_def)

lemma sat_i128_in [simp]: "in_i128 (sat_i128 x)"
  by (simp add: sat_i128_def in_i128_def i128_min_def i128_max_def)

lemma as_u64_small: "0 \<le> x \<Longrightarrow> x < 2 ^ 64 \<Longrightarrow> as_u64 x = nat x"
  by (simp add: as_u64_def)

text \<open>
  Rust's \<open>/\<close> and \<open>%\<close> on signed integers truncate towards zero: \<open>sdiv\<close> and
  \<open>smod\<close> of the library. On the nonnegative operands that dominate here they are
  \<open>div\<close> and \<open>mod\<close>.
\<close>

lemma sdiv_nonneg: "0 \<le> a \<Longrightarrow> 0 < b \<Longrightarrow> (a::int) sdiv b = a div b"
  by (cases "a = 0") (simp_all add: signed_divide_int_def sgn_if)

lemma smod_nonneg: "0 \<le> a \<Longrightarrow> 0 < b \<Longrightarrow> (a::int) smod b = a mod b"
  by (cases "a = 0") (simp_all add: signed_modulo_int_def sgn_if)

lemma sdiv_neg: "a < 0 \<Longrightarrow> 0 < b \<Longrightarrow> (a::int) sdiv b = - ((- a) div b)"
  by (simp add: signed_divide_int_def sgn_if)

lemma smod_neg: "a < 0 \<Longrightarrow> 0 < b \<Longrightarrow> (a::int) smod b = - ((- a) mod b)"
  by (simp add: signed_modulo_int_def sgn_if)

text \<open>Division by a positive number: the facts about \<open>div\<close> the bounds rest on.\<close>

lemma div_mult_le_self: "0 < (b::int) \<Longrightarrow> a div b * b \<le> a"
  using pos_mod_sign [of b a] by (simp add: minus_mod_eq_div_mult [symmetric])

lemma less_div_mult_add:
  assumes b: "0 < (b::int)"
  shows "a < a div b * b + b"
proof -
  have "a mod b < b" using b by simp
  with div_mult_mod_eq [of a b] show ?thesis by linarith
qed

lemma mult_div_le:
  assumes a: "0 \<le> (a::int)" and bc: "b \<le> c" and c: "0 < c"
  shows "a * b div c \<le> a"
proof -
  have "a * b div c \<le> a * c div c"
    by (rule zdiv_mono1 [OF mult_left_mono [OF bc a] c])
  with c show ?thesis by simp
qed

lemma mult_div_nonneg: "0 \<le> (a::int) \<Longrightarrow> 0 \<le> b \<Longrightarrow> 0 < c \<Longrightarrow> 0 \<le> a * b div c"
  by (simp add: pos_imp_zdiv_nonneg_iff)

section \<open>Addresses, hashes and token transfers\<close>

type_synonym address = nat
type_synonym bytes32 = "256 word"

text \<open>
  One call \<open>token::Client::transfer(from, to, amount)\<close> on the token contract \<open>x_token\<close>.
\<close>

record xfer =
  x_token :: address
  x_from :: address
  x_to :: address
  x_amount :: int

text \<open>
  What an invocation sees besides its arguments and its storage: the ledger's timestamp
  and sequence number, the contract's own address, the addresses whose authorisation the transaction carries,
  and the token contracts. Token contracts are not part of the repository: they enter as
  two parameters, which may depend on the transfers already made in this invocation.
  \<open>tok_ok\<close> says whether a transfer goes through (otherwise the token traps and the
  invocation reverts), \<open>tok_delta\<close> is the change of the receiver's balance that a caller
  observes by reading the balance before and after the transfer.
\<close>

record env =
  now :: nat
  sequence :: nat
  self :: address
  authed :: "address \<Rightarrow> bool"
  tok_ok :: "xfer list \<Rightarrow> xfer \<Rightarrow> bool"
  tok_delta :: "xfer list \<Rightarrow> xfer \<Rightarrow> int"

text \<open>
  The environment the examples run in: every authorisation is present and every token moves
  exactly what it is asked to.
\<close>

definition plain_env :: "nat \<Rightarrow> env" where
  "plain_env t = \<lparr>now = t, sequence = t, self = 5, authed = (\<lambda>_. True), tok_ok = (\<lambda>_ _. True),
     tok_delta = (\<lambda>_ x. x_amount x)\<rparr>"

lemma plain_env_simps [simp]:
  "now (plain_env t) = t" "sequence (plain_env t) = t" "self (plain_env t) = 5" "authed (plain_env t) a"
  "tok_ok (plain_env t) tr x" "tok_delta (plain_env t) tr x = x_amount x"
  by (simp_all add: plain_env_def)

definition transfer :: "env \<Rightarrow> address \<Rightarrow> address \<Rightarrow> address \<Rightarrow> int \<Rightarrow> xfer list
    \<Rightarrow> ('e, xfer list) res" where
  "transfer e tok from to amt tr =
     (let x = \<lparr>x_token = tok, x_from = from, x_to = to, x_amount = amt\<rparr>
      in if tok_ok e tr x then Inr (tr @ [x]) else Inl HostTrap)"

definition require_auth :: "env \<Rightarrow> address \<Rightarrow> ('e, unit) res" where
  "require_auth e a = (if authed e a then Inr () else Inl NoAuth)"

lemma transfer_eq_Inr:
  "transfer e tok from to amt tr = Inr tr' \<longleftrightarrow>
     tok_ok e tr \<lparr>x_token = tok, x_from = from, x_to = to, x_amount = amt\<rparr> \<and>
     tr' = tr @ [\<lparr>x_token = tok, x_from = from, x_to = to, x_amount = amt\<rparr>]"
  by (auto simp: transfer_def Let_def)

lemma require_auth_eq_Inr [simp]: "require_auth e a = Inr u \<longleftrightarrow> authed e a"
  by (auto simp: require_auth_def)

text \<open>
  The net amount of \<open>tok\<close> that a list of transfers moves into the account \<open>a\<close>.
\<close>

definition x_net :: "address \<Rightarrow> address \<Rightarrow> xfer \<Rightarrow> int" where
  "x_net tok a x =
     (if x_token x = tok
      then (if x_to x = a then x_amount x else 0) - (if x_from x = a then x_amount x else 0)
      else 0)"

definition net_in :: "address \<Rightarrow> address \<Rightarrow> xfer list \<Rightarrow> int" where
  "net_in tok a tr = (\<Sum>x\<leftarrow>tr. x_net tok a x)"

lemma net_in_Nil [simp]: "net_in tok a [] = 0"
  by (simp add: net_in_def)

lemma net_in_Cons [simp]: "net_in tok a (x # tr) = x_net tok a x + net_in tok a tr"
  by (simp add: net_in_def)

lemma net_in_append [simp]: "net_in tok a (tr @ tr') = net_in tok a tr + net_in tok a tr'"
  by (simp add: net_in_def)

section \<open>Bytes\<close>

text \<open>The big-endian bytes of a number, in a field of fixed width.\<close>

type_synonym byte = "8 word"

fun be_bytes :: "nat \<Rightarrow> nat \<Rightarrow> byte list" where
  "be_bytes 0 x = []"
| "be_bytes (Suc n) x = be_bytes n (x div 256) @ [of_nat (x mod 256)]"

lemma length_be_bytes [simp]: "length (be_bytes n x) = n"
  by (induction n arbitrary: x) auto

section \<open>Collections of facts\<close>

text \<open>
  \<open>op_defs\<close>: the definitions of guards and small helpers, unfolded when an operation is
  inverted. \<open>keeps\<close>: the preservation lemmas of the operations, one per operation and
  invariant.
\<close>

named_theorems op_defs
named_theorems keeps

lemmas [op_defs] = transfer_eq_Inr

end
