(* ===== verification/Vortex_Common.thy ===== *)
theory Vortex_Common
  imports Prelude
begin

text \<open>
  The shared crate \<open>vortex-common\<close>: basis-point arithmetic with its three rounding
  directions, the tier slash rate, and the stored-admin check.
\<close>

section \<open>Constants\<close>

definition BPS :: int where "BPS = 10000"
definition TIER_SLASH_BPS_STEP :: int where "TIER_SLASH_BPS_STEP = 100"

section \<open>Basis-point arithmetic\<close>

datatype Rounding = Floor | Ceil | Nearest

definition bps_mul_div :: "int \<Rightarrow> int \<Rightarrow> int option" where
  "bps_mul_div amount bps =
     (case checked_i128 (amount * bps) of
        None \<Rightarrow> None
      | Some p \<Rightarrow> checked_i128 (p sdiv BPS))"

definition bps_mul_div_round :: "int \<Rightarrow> int \<Rightarrow> Rounding \<Rightarrow> int option" where
  "bps_mul_div_round amount bps rounding =
     (case checked_i128 (amount * bps) of
        None \<Rightarrow> None
      | Some p \<Rightarrow>
          (let q = p sdiv BPS; r = p smod BPS
           in case rounding of
                Floor \<Rightarrow> Some q
              | Ceil \<Rightarrow> if r > 0 then checked_i128 (q + 1) else Some q
              | Nearest \<Rightarrow> if r * 2 \<ge> BPS then checked_i128 (q + 1) else Some q))"

definition bps_mul_div_ceil :: "int \<Rightarrow> int \<Rightarrow> int option" where
  "bps_mul_div_ceil amount bps =
     (case checked_i128 (amount * bps) of
        None \<Rightarrow> None
      | Some p \<Rightarrow>
          (let q = p sdiv BPS; r = p smod BPS
           in if r = 0 then Some q
              else if p > 0 then checked_i128 (q + 1)
              else Some q))"

definition compute_slash_bps :: "nat \<Rightarrow> int" where
  "compute_slash_bps tier =
     min (case checked_i128 (int tier * TIER_SLASH_BPS_STEP) of None \<Rightarrow> 0 | Some x \<Rightarrow> x) BPS"

section \<open>Admin check\<close>

datatype CommonError = Unauthorized | NotInitialized

definition common_require_admin :: "address option \<Rightarrow> address \<Rightarrow> (CommonError, unit) res" where
  "common_require_admin stored caller =
     (case stored of
        None \<Rightarrow> Inl (Error NotInitialized)
      | Some admin \<Rightarrow> if admin \<noteq> caller then Inl (Error Unauthorized) else Inr ())"

section \<open>The three roundings\<close>

text \<open>
  Truncation is the floor of a nonnegative product and the ceiling of a negative one; the
  lemmas below bring both to \<open>div\<close>, after which every rounding claim is linear.
\<close>

lemma BPS_pos [simp]: "0 < BPS"
  by (simp add: BPS_def)

lemma sdiv_BPS_in_i128: "in_i128 p \<Longrightarrow> in_i128 (p sdiv BPS)"
  by (cases "0 \<le> p")
    (auto simp: sdiv_nonneg sdiv_neg in_i128_def i128_min_def i128_max_def BPS_def)

lemma sdiv_BPS_succ_in_i128: "in_i128 p \<Longrightarrow> in_i128 (p sdiv BPS + 1)"
  by (cases "0 \<le> p")
    (auto simp: sdiv_nonneg sdiv_neg in_i128_def i128_min_def i128_max_def BPS_def)

lemma checked_sdiv_BPS [simp]: "in_i128 p \<Longrightarrow> checked_i128 (p sdiv BPS) = Some (p sdiv BPS)"
  by (simp add: sdiv_BPS_in_i128)

lemma checked_sdiv_BPS_succ [simp]:
  "in_i128 p \<Longrightarrow> checked_i128 (p sdiv BPS + 1) = Some (p sdiv BPS + 1)"
  by (simp add: sdiv_BPS_succ_in_i128)

lemma bps_mul_div_eq:
  "bps_mul_div a b = (if in_i128 (a * b) then Some ((a * b) sdiv BPS) else None)"
  by (simp add: bps_mul_div_def checked_i128_def sdiv_BPS_in_i128)

lemma bps_mul_div_ceil_eq:
  "bps_mul_div_ceil a b =
     (if in_i128 (a * b)
      then Some (if (a * b) smod BPS \<noteq> 0 \<and> 0 < a * b
                 then (a * b) sdiv BPS + 1 else (a * b) sdiv BPS)
      else None)"
  by (simp add: bps_mul_div_ceil_def checked_i128_def Let_def sdiv_BPS_succ_in_i128)

text \<open>The ceiling in closed form: the least integer whose \<open>BPS\<close>-fold reaches the product.\<close>

lemma ceil_spec:
  fixes p :: int
  defines "q \<equiv> if p smod BPS \<noteq> 0 \<and> 0 < p then p sdiv BPS + 1 else p sdiv BPS"
  shows "p \<le> q * BPS" and "(q - 1) * BPS < p"
proof -
  have "p \<le> q * BPS \<and> (q - 1) * BPS < p"
  proof (cases "0 \<le> p")
    case True
    have "0 \<le> p mod 10000" "p mod 10000 < 10000" by simp_all
    with True show ?thesis
      by (auto simp: q_def sdiv_nonneg smod_nonneg BPS_def left_diff_distrib distrib_right
          minus_mod_eq_div_mult [symmetric])
  next
    case False
    have "0 \<le> (- p) mod 10000" "(- p) mod 10000 < 10000" by simp_all
    with False show ?thesis
      by (simp add: q_def sdiv_neg BPS_def left_diff_distrib
          minus_mod_eq_div_mult [symmetric])
  qed
  then show "p \<le> q * BPS" and "(q - 1) * BPS < p" by simp_all
qed

lemma ceil_unique:
  fixes p :: int
  assumes "p \<le> q * BPS" "(q - 1) * BPS < p" "p \<le> r * BPS" "(r - 1) * BPS < p"
  shows "q = r"
  using assms by (simp add: BPS_def)

text \<open>
  \<open>bps_mul_div_ceil\<close> fails exactly when the product overflows
  \<open>i128\<close>, and otherwise returns the exact ceiling of the quotient, for operands
  of either sign.
\<close>

theorem bps_ceil_exact:
  "(bps_mul_div_ceil a b = None) = (\<not> in_i128 (a * b)) \<and>
   (bps_mul_div_ceil a b = Some q) =
     (in_i128 (a * b) \<and> a * b \<le> q * BPS \<and> (q - 1) * BPS < a * b)"
  unfolding bps_mul_div_ceil_eq
  using ceil_spec [of "a * b"] ceil_unique [OF _ _ ceil_spec [of "a * b"], of q]
  by (cases "in_i128 (a * b)") (auto simp del: BPS_pos)

text \<open>
  The rounding variant agrees with the two dedicated functions in its
  \<open>Floor\<close> and \<open>Ceil\<close> modes, overflow included.
\<close>

theorem bps_roundings_agree:
  "bps_mul_div_round a b Floor = bps_mul_div a b \<and>
   bps_mul_div_round a b Ceil = bps_mul_div_ceil a b"
proof -
  have "0 < p smod BPS \<longleftrightarrow> p smod BPS \<noteq> 0 \<and> 0 < p" for p :: int
  proof (cases "0 \<le> p")
    case True
    then show ?thesis by (cases "p = 0") (auto simp: smod_nonneg BPS_def)
  next
    case False
    then show ?thesis by (simp add: smod_neg not_less)
  qed
  then show ?thesis
    by (simp add: bps_mul_div_round_def bps_mul_div_eq bps_mul_div_ceil_eq checked_i128_def
        Let_def sdiv_BPS_succ_in_i128)
qed

text \<open>
  \<open>Nearest\<close> is the nearest integer, halves up, on nonnegative products; on negative ones
  it truncates, because the remainder is never positive there.
\<close>

lemma nearest_spec:
  fixes p :: int
  assumes "0 \<le> p"
  defines "q \<equiv> if p smod BPS * 2 \<ge> BPS then p sdiv BPS + 1 else p sdiv BPS"
  shows "2 * p < 2 * q * BPS + BPS" and "2 * q * BPS \<le> 2 * p + BPS"
proof -
  have "2 * p < 2 * q * BPS + BPS \<and> 2 * q * BPS \<le> 2 * p + BPS"
    using assms(1) minus_mod_eq_div_mult [of p 10000] pos_mod_bound [of 10000 p]
    by (auto simp: q_def sdiv_nonneg smod_nonneg BPS_def)
  then show "2 * p < 2 * q * BPS + BPS" and "2 * q * BPS \<le> 2 * p + BPS" by simp_all
qed

lemma bps_nearest_eq:
  "bps_mul_div_round a b Nearest =
     (if in_i128 (a * b)
      then Some (if (a * b) smod BPS * 2 \<ge> BPS then (a * b) sdiv BPS + 1 else (a * b) sdiv BPS)
      else None)"
  by (simp add: bps_mul_div_round_def checked_i128_def Let_def sdiv_BPS_succ_in_i128)

lemma bps_nearest_nonneg:
  assumes "0 \<le> a * b" and "bps_mul_div_round a b Nearest = Some q"
  shows "2 * (a * b) < 2 * q * BPS + BPS \<and> 2 * q * BPS \<le> 2 * (a * b) + BPS"
proof -
  have "q = (if (a * b) smod BPS * 2 \<ge> BPS then (a * b) sdiv BPS + 1 else (a * b) sdiv BPS)"
    using assms(2) by (cases "in_i128 (a * b)") (simp_all add: bps_nearest_eq)
  with nearest_spec [OF assms(1)] show ?thesis by simp
qed

lemma bps_nearest_negative: "a * b < 0 \<Longrightarrow> bps_mul_div_round a b Nearest = bps_mul_div a b"
proof -
  assume neg: "a * b < 0"
  then have "0 \<le> (- (a * b)) mod BPS" by simp
  then have "(a * b) smod BPS \<le> 0" using neg by (simp add: smod_neg)
  then show ?thesis by (simp add: bps_nearest_eq bps_mul_div_eq BPS_def)
qed

section \<open>Slash rate and admin check\<close>

lemma compute_slash_bps_bounds: "0 \<le> compute_slash_bps tier \<and> compute_slash_bps tier \<le> BPS"
  by (auto simp: compute_slash_bps_def TIER_SLASH_BPS_STEP_def BPS_def split: option.splits)

lemma common_require_admin_iff:
  "common_require_admin stored caller = Inr () \<longleftrightarrow> stored = Some caller"
  by (auto simp: common_require_admin_def split: option.splits)

end
