(* ===== verification/Settlement_Math.thy ===== *)
theory Settlement_Math
  imports Vortex_Common
begin

text \<open>
  The pure arithmetic of \<open>intent_settlement/src/math.rs\<close>: slash amounts, the fill window
  of a tier, the protocol fee and its volume discount, the Dutch-auction price and the
  big-endian fields of a proof payload.
\<close>

section \<open>Constants\<close>

definition BPS_DENOMINATOR :: int where "BPS_DENOMINATOR = 10000"
definition SLASH_BPS :: int where "SLASH_BPS = 1000"
definition TIER_FILL_WINDOW_BONUS_BPS :: "nat list" where
  "TIER_FILL_WINDOW_BONUS_BPS = [0, 1000, 2000, 3000, 5000]"
definition TIER_SLASH_BPS :: "int list" where
  "TIER_SLASH_BPS = [1000, 1000, 800, 600, 500]"
definition MIN_SLASH_BPS :: int where "MIN_SLASH_BPS = 500"

section \<open>Slash amounts\<close>

definition compute_slash_amount :: "int \<Rightarrow> int \<Rightarrow> int" where
  "compute_slash_amount bond unfilled_amount =
     (if bond \<le> 0 then 0
      else
        let exposure = min (max unfilled_amount 0) bond;
            proportional = exposure sdiv 10;
            cap = (bond sdiv BPS_DENOMINATOR) * SLASH_BPS;
            cap = max (min cap bond) 1
        in min (max proportional 1) cap)"

definition slash_bps_for_tier :: "nat \<Rightarrow> int" where
  "slash_bps_for_tier tier =
     (let idx = min tier (length TIER_SLASH_BPS - 1) in TIER_SLASH_BPS ! idx)"

definition compute_slash_amount_tiered :: "int \<Rightarrow> int \<Rightarrow> nat \<Rightarrow> int" where
  "compute_slash_amount_tiered bond unfilled_amount tier =
     (if bond \<le> 0 then 0
      else
        let idx = min tier (length TIER_SLASH_BPS - 1);
            slash_bps = TIER_SLASH_BPS ! idx;
            exposure = min (max unfilled_amount 0) bond;
            proportional = exposure sdiv 10;
            cap = (bond sdiv BPS_DENOMINATOR) * slash_bps;
            cap = max (min cap bond) 1
        in min (max proportional 1) cap)"

section \<open>Fill window, fee, discount\<close>

definition fill_window_bonus_bps_for_tier :: "nat \<Rightarrow> nat" where
  "fill_window_bonus_bps_for_tier tier =
     (let idx = min tier (length TIER_FILL_WINDOW_BONUS_BPS - 1)
      in TIER_FILL_WINDOW_BONUS_BPS ! idx)"

definition tier_fill_window :: "nat \<Rightarrow> nat \<Rightarrow> nat" where
  "tier_fill_window tier base_fill_window =
     (let idx = min tier (length TIER_FILL_WINDOW_BONUS_BPS - 1);
          bonus_bps = TIER_FILL_WINDOW_BONUS_BPS ! idx
      in sat_u64 (base_fill_window * (10000 + bonus_bps)) div 10000)"

definition compute_fee :: "int \<Rightarrow> int \<Rightarrow> int option" where
  "compute_fee fill_amount effective_fee_bps =
     (if effective_fee_bps < 0 \<or> effective_fee_bps > BPS_DENOMINATOR then None
      else map_option (\<lambda>p. p sdiv BPS_DENOMINATOR)
             (checked_i128 (fill_amount * effective_fee_bps)))"

definition apply_discount :: "int \<Rightarrow> int \<Rightarrow> ('e, int) res" where
  "apply_discount base_fee_bps discount_bps =
     (if base_fee_bps \<le> 0 then Inr 0
      else
        let capped_discount = max (min discount_bps BPS_DENOMINATOR) 0
        in rbind (i128 (base_fee_bps * capped_discount)) (\<lambda>p.
             let reduction = p sdiv BPS_DENOMINATOR
             in rbind (i128 (base_fee_bps - reduction)) (\<lambda>d. Inr (max d 0))))"

section \<open>Dutch-auction price\<close>

definition dutch_decay ::
    "nat \<Rightarrow> int option \<Rightarrow> int \<Rightarrow> nat option \<Rightarrow> nat option \<Rightarrow> ('e, int) res" where
  "dutch_decay t start_dst_amount min_dst_amount decay_start decay_end =
     (case (start_dst_amount, decay_start, decay_end) of
        (Some start, Some ds, Some de) \<Rightarrow>
          if de > ds \<and> start \<ge> min_dst_amount then
            if t \<ge> de then Inr min_dst_amount
            else if t \<le> ds then Inr start
            else
              let elapsed = t - ds; total_duration = de - ds
              in rbind (i128 (start - min_dst_amount)) (\<lambda>decay_amount.
                 rbind (i128 (decay_amount * int elapsed)) (\<lambda>p.
                 i128 (start - p sdiv int total_duration)))
          else Inr min_dst_amount
      | _ \<Rightarrow> Inr min_dst_amount)"

section \<open>Big-endian payload fields\<close>

text \<open>
  The contracts are compiled for \<open>wasm32\<close>, so \<open>usize\<close> has 32 bits. Bytes are
  \<open>8 word\<close>, and \<open>from_be_bytes\<close> is Horner's scheme over them, read as two's complement
  for a signed target.
\<close>

definition be_nat :: "byte list \<Rightarrow> nat" where
  "be_nat bs = foldl (\<lambda>a b. a * 256 + unat b) 0 bs"

definition field_at :: "byte list \<Rightarrow> nat \<Rightarrow> nat \<Rightarrow> nat option" where
  "field_at bytes offset n =
     (if offset + n > u32_max then None
      else if offset + n > length bytes then None
      else Some (be_nat (take n (drop offset bytes))))"

definition to_i128 :: "nat \<Rightarrow> int" where
  "to_i128 n = (if n < 2 ^ 127 then int n else int n - 2 ^ 128)"

definition decode_i128_be :: "byte list \<Rightarrow> nat \<Rightarrow> int option" where
  "decode_i128_be bytes offset = map_option to_i128 (field_at bytes offset 16)"

definition decode_u32_be :: "byte list \<Rightarrow> nat \<Rightarrow> nat option" where
  "decode_u32_be bytes offset = field_at bytes offset 4"

definition decode_u16_be :: "byte list \<Rightarrow> nat \<Rightarrow> nat option" where
  "decode_u16_be bytes offset = field_at bytes offset 2"

definition decode_payload_chain_id :: "byte list \<Rightarrow> nat option" where
  "decode_payload_chain_id payload =
     (if length payload \<noteq> 102 then None else decode_u16_be payload 52)"

definition decode_payload_src_amount :: "byte list \<Rightarrow> int option" where
  "decode_payload_src_amount payload =
     (if length payload \<noteq> 102 then None else decode_i128_be payload 86)"

section \<open>Facts about the tables\<close>

lemmas tier_table_simps = TIER_SLASH_BPS_def TIER_FILL_WINDOW_BONUS_BPS_def

lemma tier_cases:
  fixes t :: nat
  obtains "min t 4 = 0" | "min t 4 = 1" | "min t 4 = 2" | "min t 4 = 3" | "min t 4 = 4"
  by linarith

lemma slash_bps_for_tier_eq:
  "slash_bps_for_tier t =
     (if t \<le> 1 then 1000 else if t = 2 then 800 else if t = 3 then 600 else 500)"
  by (rule tier_cases [of t])
    (auto simp: slash_bps_for_tier_def tier_table_simps min_def Let_def split: if_splits)

lemma slash_bps_for_tier_range:
  "MIN_SLASH_BPS \<le> slash_bps_for_tier t \<and> slash_bps_for_tier t \<le> SLASH_BPS"
  by (simp add: slash_bps_for_tier_eq MIN_SLASH_BPS_def SLASH_BPS_def)

lemma slash_bps_for_tier_antimono: "t \<le> t' \<Longrightarrow> slash_bps_for_tier t' \<le> slash_bps_for_tier t"
  by (simp add: slash_bps_for_tier_eq)

lemma fill_window_bonus_eq:
  "fill_window_bonus_bps_for_tier t =
     (if t = 0 then 0 else if t = 1 then 1000 else if t = 2 then 2000
      else if t = 3 then 3000 else 5000)"
  by (rule tier_cases [of t])
    (auto simp: fill_window_bonus_bps_for_tier_def tier_table_simps min_def Let_def
      split: if_splits)

lemma tier_fill_window_eq:
  "tier_fill_window t w = sat_u64 (w * (10000 + fill_window_bonus_bps_for_tier t)) div 10000"
  by (simp add: tier_fill_window_def fill_window_bonus_bps_for_tier_def Let_def)

section \<open>Slashing\<close>

text \<open>
  Both slash routines are one formula in the rate: a tenth of the exposure, at least one
  unit, at most the cap. The flat routine is the tiered one at the lowest tier.
\<close>

definition slash_at :: "int \<Rightarrow> int \<Rightarrow> int \<Rightarrow> int" where
  "slash_at rate bond unfilled =
     (if bond \<le> 0 then 0
      else min (max (min (max unfilled 0) bond div 10) 1) (max (min (bond div 10000 * rate) bond) 1))"

lemma compute_slash_amount_eq: "compute_slash_amount b u = slash_at SLASH_BPS b u"
  by (simp add: compute_slash_amount_def slash_at_def Let_def sdiv_nonneg BPS_DENOMINATOR_def)

lemma compute_slash_amount_tiered_eq:
  "compute_slash_amount_tiered b u t = slash_at (slash_bps_for_tier t) b u"
  by (simp add: compute_slash_amount_tiered_def slash_at_def slash_bps_for_tier_def Let_def
      sdiv_nonneg BPS_DENOMINATOR_def)

lemma slash_at_nonneg: "0 \<le> slash_at r b u"
  by (auto simp: slash_at_def min_le_iff_disj le_max_iff_disj)

lemma slash_at_le: "0 \<le> b \<Longrightarrow> slash_at r b u \<le> b"
  by (auto simp: slash_at_def min_le_iff_disj)

lemma slash_at_pos: "0 < b \<Longrightarrow> 1 \<le> slash_at r b u"
  by (simp add: slash_at_def)

lemma slash_at_cap:
  assumes "0 < b" "0 \<le> r"
  shows "slash_at r b u \<le> max 1 (b * r div 10000)"
proof -
  have "b div 10000 * r = (b div 10000 * 10000) * r div 10000" by simp
  also have "\<dots> \<le> b * r div 10000"
    using assms by (intro zdiv_mono1 mult_right_mono div_mult_le_self) simp_all
  finally show ?thesis using assms(1)
    by (auto simp: slash_at_def min_le_iff_disj le_max_iff_disj)
qed

lemma slash_at_mono_rate:
  assumes "0 \<le> b" "r \<le> r'"
  shows "slash_at r b u \<le> slash_at r' b u"
proof -
  have "b div 10000 * r \<le> b div 10000 * r'"
    using assms by (intro mult_left_mono) (simp_all add: pos_imp_zdiv_nonneg_iff)
  then have "max (min (b div 10000 * r) b) 1 \<le> max (min (b div 10000 * r') b) 1"
    by (intro max.mono min.mono order_refl)
  then have "min x (max (min (b div 10000 * r) b) 1) \<le> min x (max (min (b div 10000 * r') b) 1)"
    for x by (rule min.mono [OF order_refl])
  then show ?thesis unfolding slash_at_def by (cases "b \<le> 0") (simp_all only: if_True if_False order_refl)
qed

lemma slash_at_full_exposure:
  assumes "0 < b" "b \<le> u"
  shows "b div 10 - 1000 < slash_at 1000 b u"
  using assms by (simp add: slash_at_def min_def max_def) linarith

text \<open>
  \<open>compute_slash_amount\<close> of a positive bond is at least 1, at most the bond and
  at most the larger of 1 and ten percent of it; when nothing of the bond was filled it falls
  short of the ten percent by less than 1000 units.
\<close>

theorem slash_amount_bounds:
  assumes "0 < bond"
  shows "1 \<le> compute_slash_amount bond unfilled \<and>
         compute_slash_amount bond unfilled \<le> bond \<and>
         compute_slash_amount bond unfilled \<le> max 1 (bond * SLASH_BPS div BPS_DENOMINATOR) \<and>
         (bond \<le> unfilled \<longrightarrow>
            bond * SLASH_BPS div BPS_DENOMINATOR - SLASH_BPS < compute_slash_amount bond unfilled)"
proof -
  have "bond * 1000 div 10000 = bond div 10"
    using zdiv_zmult2_eq [of 1000 "bond * 1000" 10] by (simp add: mult.commute)
  then show ?thesis
    using assms slash_at_cap [of bond 1000 unfilled] slash_at_full_exposure [of bond unfilled]
    by (simp add: compute_slash_amount_eq slash_at_pos slash_at_le SLASH_BPS_def
        BPS_DENOMINATOR_def)
qed

theorem slash_amount_bounds_witness:
  "1 \<le> compute_slash_amount 500000000 500000000 \<and>
   500000000 * SLASH_BPS div BPS_DENOMINATOR - SLASH_BPS < compute_slash_amount 500000000 500000000"
  using slash_amount_bounds [of 500000000 500000000] by simp

text \<open>
  The cap divides before it multiplies, so it is not the \<open>bond * SLASH_BPS / 10_000\<close> of
  the comment above the code: on the bond of the crate's own unit test
  \<open>slash_proportional_formula\<close>, which expects 100, the code takes 1.
\<close>

theorem slash_cap_divides_first:
  "compute_slash_amount 1000 1000 = 1 \<and> 1000 * SLASH_BPS div BPS_DENOMINATOR = 100"
  by (simp add: compute_slash_amount_eq slash_at_def SLASH_BPS_def BPS_DENOMINATOR_def)

text \<open>
  The tiered slash falls as the tier rises, is never negative and never above the untiered
  slash.
\<close>

theorem slash_tiered_antimono:
  assumes "0 \<le> bond" "t \<le> t'"
  shows "compute_slash_amount_tiered bond unfilled t' \<le> compute_slash_amount_tiered bond unfilled t \<and>
         compute_slash_amount_tiered bond unfilled t \<le> compute_slash_amount bond unfilled \<and>
         0 \<le> compute_slash_amount_tiered bond unfilled t'"
  unfolding compute_slash_amount_tiered_eq compute_slash_amount_eq
  using assms slash_bps_for_tier_antimono slash_bps_for_tier_range
  by (intro conjI slash_at_mono_rate slash_at_nonneg) auto

theorem slash_tiered_antimono_witness:
  "compute_slash_amount_tiered 500000000 500000000 4
     \<le> compute_slash_amount_tiered 500000000 500000000 2"
  using slash_tiered_antimono [of 500000000 2 4 500000000] by simp

section \<open>Fill windows, fees and discounts\<close>

text \<open>
  The window of a tier is the base window plus its bonus, and never shorter, as long as the
  intermediate product fits into \<open>u64\<close>. At saturation the quotient is below the base.
\<close>

lemma tier_fill_window_range:
  assumes "w * 15000 \<le> u64_max"
  shows "w \<le> tier_fill_window t w" and "tier_fill_window t w \<le> w * 3 div 2"
proof -
  let ?b = "10000 + fill_window_bonus_bps_for_tier t"
  have b: "10000 \<le> ?b" "?b \<le> 15000" by (simp_all add: fill_window_bonus_eq)
  have le: "w * ?b \<le> w * 15000" by (rule mult_le_mono2 [OF b(2)])
  have eq: "tier_fill_window t w = w * ?b div 10000"
    unfolding tier_fill_window_eq sat_u64_def min_absorb1 [OF order_trans [OF le assms]] ..
  have "w * 10000 div 10000 \<le> w * ?b div 10000"
    by (rule div_le_mono [OF mult_le_mono2 [OF b(1)]])
  then show "w \<le> tier_fill_window t w" by (simp add: eq)
  have "w * ?b div 10000 \<le> w * 15000 div 10000" by (rule div_le_mono [OF le])
  also have "w * 15000 div 10000 = w * 3 div 2"
    using div_mult2_eq [of "w * 15000" 5000 2] div_mult_self1_is_m [of 5000 "w * 3"]
    by (simp add: mult.commute)
  finally show "tier_fill_window t w \<le> w * 3 div 2" by (simp add: eq)
qed

lemma tier_fill_window_saturates: "tier_fill_window 0 u64_max < u64_max"
  by (simp add: tier_fill_window_eq sat_u64_def u64_max_def)

lemma compute_fee_eq:
  "compute_fee a bps =
     (if 0 \<le> bps \<and> bps \<le> BPS_DENOMINATOR \<and> in_i128 (a * bps)
      then Some ((a * bps) sdiv BPS_DENOMINATOR) else None)"
  by (auto simp: compute_fee_def checked_i128_def)

lemma compute_fee_bounds:
  assumes "0 \<le> a" and "compute_fee a bps = Some fee"
  shows "0 \<le> fee \<and> fee \<le> a \<and> fee * BPS_DENOMINATOR \<le> a * bps \<and>
         a * bps < (fee + 1) * BPS_DENOMINATOR"
proof -
  have bps: "0 \<le> bps" "bps \<le> BPS_DENOMINATOR" and fee: "fee = a * bps div BPS_DENOMINATOR"
    using assms by (auto simp: compute_fee_eq sdiv_nonneg BPS_DENOMINATOR_def split: if_splits)
  show ?thesis
    using bps assms(1) mult_div_nonneg [of a bps BPS_DENOMINATOR]
      mult_div_le [of a bps BPS_DENOMINATOR] div_mult_le_self [of BPS_DENOMINATOR "a * bps"]
      less_div_mult_add [of BPS_DENOMINATOR "a * bps"]
    by (simp add: fee BPS_DENOMINATOR_def distrib_right)
qed

lemma apply_discount_ok:
  assumes "0 < base" "in_i128 (base * BPS_DENOMINATOR)"
  shows "apply_discount base d =
           Inr (base - base * max (min d BPS_DENOMINATOR) 0 div BPS_DENOMINATOR)"
proof -
  let ?c = "max (min d BPS_DENOMINATOR) 0"
  have c: "0 \<le> ?c" "?c \<le> BPS_DENOMINATOR" by (auto simp: BPS_DENOMINATOR_def)
  have p: "0 \<le> base * ?c" "base * ?c \<le> base * BPS_DENOMINATOR"
    using assms(1) c by (simp_all add: mult_left_mono)
  have ip: "in_i128 (base * ?c)"
    using p assms(2) by (auto intro: in_i128_between [OF in_i128_0])
  have q: "0 \<le> base * ?c div BPS_DENOMINATOR" "base * ?c div BPS_DENOMINATOR \<le> base"
    using assms(1) c mult_div_nonneg [of base ?c BPS_DENOMINATOR] mult_div_le [of base ?c BPS_DENOMINATOR]
    by (simp_all add: BPS_DENOMINATOR_def)
  have "base \<le> base * BPS_DENOMINATOR" using assms(1) by (simp add: BPS_DENOMINATOR_def)
  then have d: "in_i128 (base - base * ?c div BPS_DENOMINATOR)"
    using q assms(1) by (intro in_i128_between [OF in_i128_0 assms(2)]) linarith+
  have s: "(base * ?c) sdiv BPS_DENOMINATOR = base * ?c div BPS_DENOMINATOR"
    using p(1) by (simp add: sdiv_nonneg BPS_DENOMINATOR_def)
  show ?thesis
    unfolding apply_discount_def Let_def
    using assms(1) ip d q(2) by (simp add: i128_def s max_absorb1)
qed

text \<open>
  \<open>apply_discount\<close> succeeds when its product fits, stays between zero and
  the base fee and falls as the discount grows; a discount that is not positive leaves the
  fee, one of 100\% or more removes it.
\<close>

theorem discount_bounded_antimono:
  assumes "0 \<le> base" "in_i128 (base * BPS_DENOMINATOR)" "d \<le> d'"
  shows "\<exists>r r'. apply_discount base d = Inr r \<and> apply_discount base d' = Inr r' \<and>
           0 \<le> r' \<and> r' \<le> r \<and> r \<le> base \<and>
           (d \<le> 0 \<longrightarrow> r = base) \<and> (BPS_DENOMINATOR \<le> d' \<longrightarrow> r' = 0)"
proof (cases "base = 0")
  case True
  then show ?thesis by (simp add: apply_discount_def)
next
  case False
  with assms(1) have base: "0 < base" by simp
  let ?c = "\<lambda>d. max (min d BPS_DENOMINATOR) 0"
  have c: "?c d \<le> ?c d'" "0 \<le> ?c d" "?c d' \<le> BPS_DENOMINATOR"
    using assms(3) by (auto simp: BPS_DENOMINATOR_def)
  have m: "base * ?c d div BPS_DENOMINATOR \<le> base * ?c d' div BPS_DENOMINATOR"
    using base c by (intro zdiv_mono1 mult_left_mono) (simp_all add: BPS_DENOMINATOR_def)
  have n: "0 \<le> base * ?c d div BPS_DENOMINATOR"
    using base c by (intro mult_div_nonneg) (simp_all add: BPS_DENOMINATOR_def)
  have u: "base * ?c d' div BPS_DENOMINATOR \<le> base"
    using base c by (intro mult_div_le) (simp_all add: BPS_DENOMINATOR_def)
  have z: "?c d = 0" if "d \<le> 0" using that by (auto simp: BPS_DENOMINATOR_def)
  have w: "?c d' = BPS_DENOMINATOR" if "BPS_DENOMINATOR \<le> d'"
    using that by (auto simp: BPS_DENOMINATOR_def)
  show ?thesis
    unfolding apply_discount_ok [OF base assms(2)]
  proof (intro exI conjI impI)
    show "0 \<le> base - base * ?c d' div BPS_DENOMINATOR" using u by simp
    show "base - base * ?c d' div BPS_DENOMINATOR \<le> base - base * ?c d div BPS_DENOMINATOR"
      using m by simp
    show "base - base * ?c d div BPS_DENOMINATOR \<le> base" using n by simp
    show "base - base * ?c d div BPS_DENOMINATOR = base" if "d \<le> 0" by (simp add: z [OF that])
    show "base - base * ?c d' div BPS_DENOMINATOR = 0" if "BPS_DENOMINATOR \<le> d'"
      by (simp add: w [OF that]) (simp add: BPS_DENOMINATOR_def)
  qed simp_all
qed

theorem discount_bounded_antimono_witness:
  "\<exists>r r'. apply_discount 5 2000 = (Inr r :: (unit, int) res) \<and>
          apply_discount 5 10000 = (Inr r' :: (unit, int) res) \<and> r' \<le> r \<and> r \<le> 5 \<and> r' = 0"
  using discount_bounded_antimono [of 5 2000 10000, where ?'a = unit]
  by (auto simp: BPS_DENOMINATOR_def in_i128_def i128_min_def i128_max_def)

section \<open>The Dutch auction\<close>

text \<open>
  The price in closed form: the share of the spread that has decayed after \<open>t - ds\<close>
  seconds, clamped to the auction's duration.
\<close>

definition decayed :: "int \<Rightarrow> nat \<Rightarrow> nat \<Rightarrow> int" where
  "decayed spread elapsed dur = spread * int (min elapsed dur) div int dur"

lemma decayed_nonneg: "0 \<le> spread \<Longrightarrow> 0 < dur \<Longrightarrow> 0 \<le> decayed spread el dur"
  by (simp add: decayed_def mult_div_nonneg)

lemma decayed_le: "0 \<le> spread \<Longrightarrow> 0 < dur \<Longrightarrow> decayed spread el dur \<le> spread"
  unfolding decayed_def by (rule mult_div_le) simp_all

lemma decayed_mono:
  "0 \<le> spread \<Longrightarrow> 0 < dur \<Longrightarrow> el \<le> el' \<Longrightarrow> decayed spread el dur \<le> decayed spread el' dur"
  unfolding decayed_def by (intro zdiv_mono1 mult_left_mono) simp_all

lemma decayed_0 [simp]: "decayed spread 0 dur = 0"
  by (simp add: decayed_def)

lemma decayed_full: "0 < dur \<Longrightarrow> dur \<le> el \<Longrightarrow> decayed spread el dur = spread"
  by (simp add: decayed_def min_absorb2)

lemma dutch_decay_eq:
  assumes "m \<le> start" "ds < de"
    and range: "in_i128 start" "in_i128 m" "in_i128 (start - m)"
      "in_i128 ((start - m) * int (de - ds))"
  shows "dutch_decay t (Some start) m (Some ds) (Some de) =
           Inr (start - decayed (start - m) (t - ds) (de - ds))"
proof (cases "ds < t \<and> t < de")
  case False
  then have "t \<le> ds \<or> de \<le> t" by linarith
  then show ?thesis
    using assms(1,2) by (auto simp: dutch_decay_def decayed_full)
next
  case True
  let ?s = "start - m" and ?el = "t - ds" and ?T = "de - ds"
  have s: "0 \<le> ?s" using assms(1) by simp
  have el: "min ?el ?T = ?el" "?el \<le> ?T" "0 < ?T" using True by auto
  have "0 \<le> ?s * int ?el" "?s * int ?el \<le> ?s * int ?T"
    using s el by (simp_all add: mult_left_mono)
  then have p: "in_i128 (?s * int ?el)" by (rule in_i128_between [OF in_i128_0 range(4)])
  have d: "0 \<le> decayed ?s ?el ?T" "decayed ?s ?el ?T \<le> ?s"
    using s el(3) by (simp_all add: decayed_nonneg decayed_le)
  have q: "?s * int ?el sdiv int ?T = decayed ?s ?el ?T"
    using \<open>0 \<le> ?s * int ?el\<close> el by (simp add: sdiv_nonneg decayed_def)
  have r: "in_i128 (start - decayed ?s ?el ?T)"
    using d by (intro in_i128_between [OF range(2,1)]) linarith+
  show ?thesis
    using True assms(1) p r q range(3) unfolding dutch_decay_def Let_def
    by (simp add: i128_def)
qed

text \<open>
  The Dutch auction's required output exists, lies between the minimum and the start amount,
  falls with time, is the start amount up to the start of the decay and the minimum from its
  end on.
\<close>

theorem dutch_price_falls:
  assumes "m \<le> start" "ds < de"
    and "in_i128 start" "in_i128 m" "in_i128 (start - m)"
      "in_i128 ((start - m) * int (de - ds))"
    and "t \<le> t'"
  shows "\<exists>p p'. dutch_decay t (Some start) m (Some ds) (Some de) = Inr p \<and>
           dutch_decay t' (Some start) m (Some ds) (Some de) = Inr p' \<and>
           m \<le> p' \<and> p' \<le> p \<and> p \<le> start \<and>
           (t \<le> ds \<longrightarrow> p = start) \<and> (de \<le> t' \<longrightarrow> p' = m)"
proof -
  have s: "0 \<le> start - m" "0 < de - ds" using assms(1,2) by simp_all
  have "decayed (start - m) (t - ds) (de - ds) \<le> decayed (start - m) (t' - ds) (de - ds)"
    using s assms(7) by (intro decayed_mono diff_le_mono) simp_all
  then show ?thesis
    using s decayed_nonneg [OF s, of "t - ds"] decayed_le [OF s, of "t' - ds"] assms(2)
      decayed_full [OF s(2), of "t' - ds" "start - m"]
    by (auto simp: dutch_decay_eq [OF assms(1-6)])
qed

theorem dutch_price_falls_witness:
  "\<exists>p p'. dutch_decay 150 (Some 1000) 400 (Some 100) (Some 200) = (Inr p :: (unit, int) res) \<and>
          dutch_decay 200 (Some 1000) 400 (Some 100) (Some 200) = (Inr p' :: (unit, int) res) \<and>
          400 \<le> p' \<and> p' \<le> p \<and> p \<le> 1000 \<and> p' = 400"
  using dutch_price_falls [of 400 1000 100 200 150 200, where ?'a = unit]
  by (auto simp: in_i128_def i128_min_def i128_max_def)

section \<open>Payload fields\<close>

lemma be_nat_snoc: "be_nat (bs @ [b]) = be_nat bs * 256 + unat b"
  by (simp add: be_nat_def)

lemma unat_byte: "unat (of_nat (x mod 256) :: byte) = x mod 256"
  by (simp add: unat_of_nat)

lemma be_nat_be_bytes: "x < 256 ^ n \<Longrightarrow> be_nat (be_bytes n x) = x"
proof (induction n arbitrary: x)
  case 0
  then show ?case by (simp add: be_nat_def)
next
  case (Suc n)
  then have "x div 256 < 256 ^ n" by (simp add: less_mult_imp_div_less mult.commute)
  with Suc.IH show ?case by (simp add: be_nat_snoc unat_byte del: of_nat_mod)
qed

lemma be_nat_bound: "be_nat bs < 256 ^ length bs"
proof (induction bs rule: rev_induct)
  case Nil
  then show ?case by (simp add: be_nat_def)
next
  case (snoc b bs)
  have "unat b < 256" using unsigned_less [where ?'a = nat, of b] by simp
  with snoc show ?case by (simp add: be_nat_snoc)
qed

lemma field_at_encoded:
  assumes "x < 256 ^ n" "length pre = offset" "offset + n \<le> u32_max"
  shows "field_at (pre @ be_bytes n x @ post) offset n = Some x"
  using assms by (simp add: field_at_def be_nat_be_bytes)

lemma to_i128_of: "in_i128 v \<Longrightarrow> to_i128 (nat (v mod 2 ^ 128)) = v"
proof -
  assume v: "in_i128 v"
  show "to_i128 (nat (v mod 2 ^ 128)) = v"
  proof (cases "0 \<le> v")
    case True
    with v have "v mod 2 ^ 128 = v" by (simp add: in_i128_def i128_max_def)
    with True v show ?thesis by (simp add: to_i128_def in_i128_def i128_max_def nat_less_iff)
  next
    case False
    have "v mod 2 ^ 128 = (v + 2 ^ 128) mod 2 ^ 128" by simp
    also have "\<dots> = v + 2 ^ 128"
      using False v by (intro mod_pos_pos_trivial) (simp_all add: in_i128_def i128_min_def)
    finally show ?thesis
      using False v by (simp add: to_i128_def in_i128_def i128_min_def nat_less_iff)
  qed
qed

text \<open>
  Decoding the chain id and the source amount of a 102-byte payload that was laid out with a
  16-bit chain id at offset 52 and a 128-bit two's-complement amount at offset 86 gives them
  back, negative amounts included.
\<close>

theorem payload_fields_roundtrip:
  assumes "length pre = 52" "length token = 32" "chain < 2 ^ 16" "in_i128 amount"
  defines "payload \<equiv> pre @ be_bytes 2 chain @ token @ be_bytes 16 (nat (amount mod 2 ^ 128))"
  shows "length payload = 102 \<and> decode_payload_chain_id payload = Some chain \<and>
         decode_payload_src_amount payload = Some amount"
proof -
  have len: "length payload = 102" using assms by simp
  have c: "field_at payload 52 2 = Some chain"
    unfolding payload_def using assms(1,3) by (intro field_at_encoded) (simp_all add: u32_max_def)
  have n: "nat (amount mod 2 ^ 128) < 256 ^ 16" by (simp add: nat_less_iff)
  have "field_at ((pre @ be_bytes 2 chain @ token) @ be_bytes 16 (nat (amount mod 2 ^ 128)) @ [])
          86 16 = Some (nat (amount mod 2 ^ 128))"
    using assms(1,2) n by (intro field_at_encoded) (simp_all add: u32_max_def)
  then have a: "field_at payload 86 16 = Some (nat (amount mod 2 ^ 128))"
    by (simp add: payload_def)
  show ?thesis
    using len c a to_i128_of [OF assms(4)]
    by (simp add: decode_payload_chain_id_def decode_payload_src_amount_def decode_u16_be_def
        decode_i128_be_def)
qed

theorem payload_fields_roundtrip_witness:
  "decode_payload_src_amount
     (replicate 52 0 @ be_bytes 2 2 @ replicate 32 1 @ be_bytes 16 (nat ((-7) mod 2 ^ 128))) =
   Some (-7)"
  using payload_fields_roundtrip [of "replicate 52 0" "replicate 32 1" 2 "-7"]
  by (simp add: in_i128_def i128_min_def i128_max_def)

end
