(* ===== verification/Indexed_Sets.thy ===== *)
theory Indexed_Sets
  imports Prelude
begin

text \<open>
  The indexed collections of \<open>intent_settlement/src/lib.rs\<close>: the paged lists behind the
  solver directory and the destination-token allowlist (\<open>add_to_solver_list\<close>,
  \<open>remove_from_solver_list\<close> and their \<open>dst_token\<close> twins, the same code over other
  storage keys), and the per-solver list of accepted intents with its position index
  (\<open>solver_intents_add\<close>, \<open>solver_intents_remove\<close>).
\<close>

section \<open>The paged list\<close>

definition PAGED_SET_PAGE_SIZE :: nat where "PAGED_SET_PAGE_SIZE = 64"

text \<open>The three families of storage keys: the pages, the count, and the flat index of a member.\<close>

record 'a paged =
  pg_pages :: "nat \<Rightarrow> 'a option list option"
  pg_count :: "nat option"
  pg_idx :: "'a \<Rightarrow> nat option"

definition page_of :: "'a paged \<Rightarrow> nat \<Rightarrow> 'a option list" where
  "page_of s pg = (case pg_pages s pg of None \<Rightarrow> [] | Some page \<Rightarrow> page)"

definition paged_add :: "'a \<Rightarrow> 'a paged \<Rightarrow> ('e, 'a paged) res" where
  "paged_add x s =
     (if pg_idx s x \<noteq> None then Inr s
      else
        let total = nat0 (pg_count s);
            pg = total div PAGED_SET_PAGE_SIZE;
            slot = total mod PAGED_SET_PAGE_SIZE;
            page = page_of s pg @ [Some x];
            flat_idx = pg * PAGED_SET_PAGE_SIZE + slot
        in rbind (u32 (total + 1)) (\<lambda>n.
             Inr (s\<lparr>pg_pages := (pg_pages s)(pg \<mapsto> page), pg_idx := (pg_idx s)(x \<mapsto> flat_idx),
                    pg_count := Some n\<rparr>)))"

text \<open>\<open>Vec::set\<close> traps on an index out of range.\<close>

definition vec_set :: "'a list \<Rightarrow> nat \<Rightarrow> 'a \<Rightarrow> ('e, 'a list) res" where
  "vec_set xs i x = (if i < length xs then Inr (xs[i := x]) else Inl Unwrap)"

text \<open>
  Both pages are read before either is written, and the last page is written after the
  target page.
\<close>

definition paged_remove :: "'a \<Rightarrow> 'a paged \<Rightarrow> ('e, 'a paged) res" where
  "paged_remove x s =
     (case pg_idx s x of
        None \<Rightarrow> Inr s
      | Some flat_idx \<Rightarrow>
          let total = nat0 (pg_count s);
              last_flat = total - 1;
              target_pg = flat_idx div PAGED_SET_PAGE_SIZE;
              target_slot = flat_idx mod PAGED_SET_PAGE_SIZE
          in rbind
               (if flat_idx \<noteq> last_flat then
                  let last_pg = last_flat div PAGED_SET_PAGE_SIZE;
                      last_slot = last_flat mod PAGED_SET_PAGE_SIZE;
                      last_page = page_of s last_pg;
                      target_page = page_of s target_pg
                  in rbind (unwrap (vec_get last_page last_slot)) (\<lambda>moved.
                     rbind (vec_set target_page target_slot moved) (\<lambda>target_page'.
                     rbind (vec_set last_page last_slot None) (\<lambda>last_page'.
                       Inr (s\<lparr>pg_pages := (pg_pages s)(target_pg \<mapsto> target_page', last_pg \<mapsto> last_page'),
                              pg_idx := (case moved of None \<Rightarrow> pg_idx s
                                         | Some y \<Rightarrow> (pg_idx s)(y \<mapsto> flat_idx))\<rparr>))))
                else
                  rbind (vec_set (page_of s target_pg) target_slot None) (\<lambda>target_page'.
                    Inr (s\<lparr>pg_pages := (pg_pages s)(target_pg \<mapsto> target_page')\<rparr>)))
               (\<lambda>s1. Inr (s1\<lparr>pg_idx := (pg_idx s1)(x := None),
                            pg_count := (if total > 0 then Some last_flat else pg_count s1)\<rparr>)))"

text \<open>\<open>list_allowed_dst_tokens\<close>: the entries of the pages that the count covers.\<close>

definition paged_list :: "'a paged \<Rightarrow> 'a list" where
  "paged_list s =
     (let num_pages = (nat0 (pg_count s) + (PAGED_SET_PAGE_SIZE - 1)) div PAGED_SET_PAGE_SIZE
      in concat (map (\<lambda>pg. List.map_filter id (page_of s pg)) [0..<num_pages]))"

definition paged_empty :: "'a paged" where
  "paged_empty = \<lparr>pg_pages = Map.empty, pg_count = None, pg_idx = Map.empty\<rparr>"

section \<open>A solver's accepted intents\<close>

record solver_intents =
  si_list :: "address \<Rightarrow> bytes32 list option"
  si_idx :: "address \<times> bytes32 \<Rightarrow> nat option"

definition intents_of :: "solver_intents \<Rightarrow> address \<Rightarrow> bytes32 list" where
  "intents_of s solver = (case si_list s solver of None \<Rightarrow> [] | Some l \<Rightarrow> l)"

definition solver_intents_add :: "address \<Rightarrow> bytes32 \<Rightarrow> solver_intents \<Rightarrow> solver_intents" where
  "solver_intents_add solver intent_id s =
     (if si_idx s (solver, intent_id) \<noteq> None then s
      else
        let l = intents_of s solver
        in s\<lparr>si_list := (si_list s)(solver \<mapsto> l @ [intent_id]),
             si_idx := (si_idx s)((solver, intent_id) \<mapsto> length l)\<rparr>)"

definition solver_intents_remove :: "address \<Rightarrow> bytes32 \<Rightarrow> solver_intents \<Rightarrow> ('e, solver_intents) res" where
  "solver_intents_remove solver intent_id s =
     (case si_idx s (solver, intent_id) of
        None \<Rightarrow> Inr s
      | Some pos \<Rightarrow>
          case si_list s solver of
            None \<Rightarrow> Inr s
          | Some l \<Rightarrow>
              let lst = length l - 1
              in rbind
                   (if pos \<noteq> lst then
                      rbind (unwrap (vec_get l lst)) (\<lambda>tail_id.
                      rbind (vec_set l pos tail_id) (\<lambda>l1.
                        Inr (l1, (si_idx s)((solver, tail_id) \<mapsto> pos))))
                    else Inr (l, si_idx s))
                   (\<lambda>(l1, idx). Inr (s\<lparr>si_list := (si_list s)(solver \<mapsto> butlast l1),
                                       si_idx := idx((solver, intent_id) := None)\<rparr>)))"

section \<open>The index is exact\<close>

text \<open>The index of a solver's list maps exactly its elements to their positions.\<close>

definition si_ok :: "solver_intents \<Rightarrow> bool" where
  "si_ok s \<longleftrightarrow> (\<forall>a i p. si_idx s (a, i) = Some p \<longleftrightarrow> p < length (intents_of s a) \<and> intents_of s a ! p = i)"

definition si_members :: "solver_intents \<Rightarrow> address \<Rightarrow> bytes32 set" where
  "si_members s a = set (intents_of s a)"

lemma si_ok_member: "si_ok s \<Longrightarrow> si_idx s (a, i) \<noteq> None \<longleftrightarrow> i \<in> si_members s a"
  unfolding si_ok_def si_members_def in_set_conv_nth by (metis not_None_eq)

lemma si_ok_distinct: "si_ok s \<Longrightarrow> distinct (intents_of s a)"
  unfolding si_ok_def distinct_conv_nth by (metis option.inject)

lemma solver_intents_add_ok:
  assumes "si_ok s"
  shows "si_ok (solver_intents_add a i s)"
    "si_members (solver_intents_add a i s) b = (if b = a then insert i (si_members s a) else si_members s b)"
proof -
  have "si_ok (solver_intents_add a i s) \<and>
    si_members (solver_intents_add a i s) b = (if b = a then insert i (si_members s a) else si_members s b)"
  proof (cases "si_idx s (a, i)")
    case (Some p)
    with si_ok_member [OF assms, of a i] assms show ?thesis
      by (auto simp: solver_intents_add_def)
  next
    case None
    then have new: "i \<notin> set (intents_of s a)"
      using si_ok_member [OF assms, of a i] by (simp add: si_members_def)
    have list: "intents_of (solver_intents_add a i s) c = (if c = a then intents_of s a @ [i] else intents_of s c)" for c
      using None by (simp add: solver_intents_add_def Let_def intents_of_def)
    have idx: "si_idx (solver_intents_add a i s) = (si_idx s)((a, i) \<mapsto> length (intents_of s a))"
      using None by (simp add: solver_intents_add_def Let_def)
    have old: "si_idx s (c, j) = Some p \<longleftrightarrow> p < length (intents_of s c) \<and> intents_of s c ! p = j" for c j p
      using assms by (simp add: si_ok_def)
    have "si_ok (solver_intents_add a i s)"
      unfolding si_ok_def idx list using old new by (auto simp: nth_append less_Suc_eq dest: nth_mem)
    then show ?thesis by (auto simp: si_members_def list)
  qed
  then show "si_ok (solver_intents_add a i s)"
    "si_members (solver_intents_add a i s) b = (if b = a then insert i (si_members s a) else si_members s b)"
    by blast+
qed

text \<open>Removing moves the last element into the gap.\<close>

definition swap_remove :: "nat \<Rightarrow> 'a list \<Rightarrow> 'a list" where
  "swap_remove p l = butlast (l[p := last l])"

lemma length_swap_remove [simp]: "length (swap_remove p l) = length l - 1"
  by (simp add: swap_remove_def)

lemma nth_swap_remove:
  "q < length l - 1 \<Longrightarrow> swap_remove p l ! q = (if q = p then last l else l ! q)"
  by (simp add: swap_remove_def nth_butlast nth_list_update)

lemma swap_remove_index:
  assumes "distinct l" "p < length l"
  shows "(q < length (swap_remove p l) \<and> swap_remove p l ! q = j) \<longleftrightarrow>
    (j \<noteq> l ! p \<and> (if j = last l then q = p else q < length l \<and> l ! q = j))"
proof -
  have last: "last l = l ! (length l - 1)" using assms(2) by (intro last_conv_nth) auto
  show ?thesis
  proof (cases "p = length l - 1")
    case True
    then have "l ! p = last l" by (simp add: last)
    with True assms show ?thesis
      by (auto simp: nth_swap_remove last nth_eq_iff_index_eq)
  next
    case False
    with assms show ?thesis
      by (auto simp: nth_swap_remove last nth_eq_iff_index_eq less_diff_conv split: if_splits)
  qed
qed

lemma set_swap_remove:
  assumes "distinct l" "p < length l"
  shows "set (swap_remove p l) = set l - {l ! p}"
proof -
  have "last l \<in> set l" using assms(2) by (intro last_in_set) auto
  then have "j \<in> set (swap_remove p l) \<longleftrightarrow> j \<in> set l - {l ! p}" for j
    unfolding in_set_conv_nth [of j "swap_remove p l"] swap_remove_index [OF assms] Diff_iff
    by (cases "j = last l") (simp_all, auto simp: in_set_conv_nth)
  then show ?thesis by blast
qed

lemma solver_intents_remove_eq:
  assumes "si_ok s" "si_idx s (a, i) = Some p"
  shows "solver_intents_remove a i s =
    Inr (s\<lparr>si_list := (si_list s)(a \<mapsto> swap_remove p (intents_of s a)),
           si_idx := ((si_idx s)((a, last (intents_of s a)) \<mapsto> p))((a, i) := None)\<rparr>)"
proof -
  let ?l = "intents_of s a"
  have p: "p < length ?l" "?l ! p = i" using assms by (simp_all add: si_ok_def)
  then have l: "si_list s a = Some ?l" by (auto simp: intents_of_def split: option.splits)
  have last: "last ?l = ?l ! (length ?l - 1)" using p by (intro last_conv_nth) auto
  show ?thesis
  proof (cases "p = length ?l - 1")
    case True
    then have "?l[p := last ?l] = ?l" "last ?l = i" using p last by (metis list_update_id)+
    then show ?thesis
      using assms(2) l True by (simp add: solver_intents_remove_def swap_remove_def fun_upd_twist)
  next
    case False
    then show ?thesis
      using p(1) l assms(2) unfolding swap_remove_def last
      by (simp add: solver_intents_remove_def vec_get_def vec_set_def Let_def)
  qed
qed

lemma solver_intents_remove_ok:
  assumes "si_ok s"
  shows "\<exists>s'. solver_intents_remove a i s = Inr s' \<and> si_ok s' \<and>
    (\<forall>b. si_members s' b = (if b = a then si_members s a - {i} else si_members s b))"
proof (cases "si_idx s (a, i)")
  case None
  with assms si_ok_member [OF assms, of a i] show ?thesis by (auto simp: solver_intents_remove_def)
next
  case (Some p)
  let ?l = "intents_of s a"
  let ?s = "s\<lparr>si_list := (si_list s)(a \<mapsto> swap_remove p ?l),
              si_idx := ((si_idx s)((a, last ?l) \<mapsto> p))((a, i) := None)\<rparr>"
  have p: "p < length ?l" "?l ! p = i" using assms Some by (simp_all add: si_ok_def)
  have d: "distinct ?l" by (rule si_ok_distinct [OF assms])
  have list: "intents_of ?s b = (if b = a then swap_remove p ?l else intents_of s b)" for b
    by (simp add: intents_of_def)
  have "si_ok ?s"
    unfolding si_ok_def
  proof (intro allI)
    fix b j q
    show "si_idx ?s (b, j) = Some q \<longleftrightarrow> q < length (intents_of ?s b) \<and> intents_of ?s b ! q = j"
    proof (cases "b = a")
      case True
      show ?thesis
        unfolding list using True assms swap_remove_index [OF d p(1), of q j] p(2)
        by (auto simp: si_ok_def)
    next
      case False
      then show ?thesis unfolding list using assms by (simp add: si_ok_def)
    qed
  qed
  moreover have "si_members ?s b = (if b = a then si_members s a - {i} else si_members s b)" for b
    unfolding si_members_def list using set_swap_remove [OF d p(1)] p(2) by simp
  ultimately show ?thesis using solver_intents_remove_eq [OF assms Some] by blast
qed

section \<open>What a client of an indexed set may rely on\<close>

text \<open>
  Sets of values per key, kept by an add and a remove operation. Over any run of operations
  the elements are those of the plain sets.
\<close>

datatype ('k, 'v) set_op = Add 'k 'v | Remove 'k 'v

fun abstract_op :: "('k, 'v) set_op \<Rightarrow> ('k \<Rightarrow> 'v set) \<Rightarrow> 'k \<Rightarrow> 'v set" where
  "abstract_op (Add k v) m = m(k := insert v (m k))"
| "abstract_op (Remove k v) m = m(k := m k - {v})"

fun run_ops :: "('k \<Rightarrow> 'v \<Rightarrow> 's \<Rightarrow> 's) \<Rightarrow> ('k \<Rightarrow> 'v \<Rightarrow> 's \<Rightarrow> ('e, 's) res) \<Rightarrow> ('k, 'v) set_op list
    \<Rightarrow> 's \<Rightarrow> ('e, 's) res" where
  "run_ops add remove [] s = Inr s"
| "run_ops add remove (Add k v # ops) s = run_ops add remove ops (add k v s)"
| "run_ops add remove (Remove k v # ops) s = rbind (remove k v s) (run_ops add remove ops)"

locale indexed_set =
  fixes ok :: "'s \<Rightarrow> bool"
    and elems :: "'s \<Rightarrow> 'k \<Rightarrow> 'v set"
    and add :: "'k \<Rightarrow> 'v \<Rightarrow> 's \<Rightarrow> 's"
    and remove :: "'k \<Rightarrow> 'v \<Rightarrow> 's \<Rightarrow> ('e, 's) res"
  assumes add_ok: "ok s \<Longrightarrow> ok (add k v s)"
    and add_elems: "ok s \<Longrightarrow> elems (add k v s) = (elems s)(k := insert v (elems s k))"
    and remove_ok: "ok s \<Longrightarrow> \<exists>s'. remove k v s = Inr s' \<and> ok s' \<and> elems s' = (elems s)(k := elems s k - {v})"
begin

lemma run_refines:
  "ok s \<Longrightarrow> \<exists>s'. run_ops add remove ops s = Inr s' \<and> ok s' \<and> elems s' = fold abstract_op ops (elems s)"
proof (induction ops arbitrary: s)
  case (Cons op ops)
  show ?case
  proof (cases op)
    case (Add k v)
    from Cons.IH [OF add_ok [OF Cons.prems, of k v]] show ?thesis
      by (simp add: Add add_elems [OF Cons.prems] fun_upd_def)
  next
    case (Remove k v)
    obtain t where t: "remove k v s = Inr t" "ok t" "elems t = (elems s)(k := elems s k - {v})"
      using remove_ok [OF Cons.prems] by blast
    from Cons.IH [OF t(2)] show ?thesis by (simp add: Remove t fun_upd_def)
  qed
qed simp

lemma add_remove_elems:
  "ok s \<Longrightarrow> v \<notin> elems s k \<Longrightarrow> \<exists>s'. remove k v (add k v s) = Inr s' \<and> ok s' \<and> elems s' = elems s"
  using remove_ok [OF add_ok, of s k v k v] by (auto simp: add_elems)

end

interpretation accepted: indexed_set si_ok si_members solver_intents_add solver_intents_remove
proof
  show "si_ok s \<Longrightarrow> si_ok (solver_intents_add k v s)" for s k v
    by (rule solver_intents_add_ok(1))
  show "si_ok s \<Longrightarrow> si_members (solver_intents_add k v s) = (si_members s)(k := insert v (si_members s k))" for s k v
    using solver_intents_add_ok(2) by fastforce
  show "si_ok s \<Longrightarrow> \<exists>s'. solver_intents_remove k v s = Inr s' \<and> si_ok s' \<and>
      si_members s' = (si_members s)(k := si_members s k - {v})" for s k v
    using solver_intents_remove_ok [of s k v] by (metis (no_types, lifting) fun_upd_def ext)
qed

definition si_empty :: solver_intents where
  "si_empty = \<lparr>si_list = Map.empty, si_idx = Map.empty\<rparr>"

lemma si_empty_ok: "si_ok si_empty" "si_members si_empty a = {}"
  by (simp_all add: si_ok_def si_members_def si_empty_def intents_of_def)

text \<open>
  C33: The indexed vector of a solver's accepted intents refines a set: on every reachable
  vector, adding and removing implement insertion and deletion, and never fail.
\<close>

theorem solver_intents_refine_sets:
  "\<exists>s. run_ops solver_intents_add solver_intents_remove ops si_empty = (Inr s :: ('e, solver_intents) res) \<and>
     (\<forall>a. distinct (intents_of s a) \<and> set (intents_of s a) = fold abstract_op ops (\<lambda>_. {}) a) \<and>
     (\<forall>a i p. si_idx s (a, i) = Some p \<longleftrightarrow> p < length (intents_of s a) \<and> intents_of s a ! p = i)"
proof -
  have "si_members si_empty = (\<lambda>_. {})" by (rule ext) (rule si_empty_ok(2))
  with accepted.run_refines [OF si_empty_ok(1), of ops] obtain s where
    s: "run_ops solver_intents_add solver_intents_remove ops si_empty = (Inr s :: ('e, solver_intents) res)"
      "si_ok s" "si_members s = fold abstract_op ops (\<lambda>_. {})" by auto
  have "set (intents_of s a) = fold abstract_op ops (\<lambda>_. {}) a" for a
    using s(3) by (simp add: si_members_def fun_eq_iff)
  with s(1) si_ok_distinct [OF s(2)] s(2) [unfolded si_ok_def] show ?thesis by blast
qed

section \<open>The paged list: dense while nothing is removed\<close>

definition chunk :: "'a list \<Rightarrow> nat \<Rightarrow> 'a list" where
  "chunk xs pg = take PAGED_SET_PAGE_SIZE (drop (pg * PAGED_SET_PAGE_SIZE) xs)"

definition paged_ok :: "'a paged \<Rightarrow> 'a list \<Rightarrow> bool" where
  "paged_ok s xs \<longleftrightarrow> distinct xs \<and> nat0 (pg_count s) = length xs \<and>
     (\<forall>x p. pg_idx s x = Some p \<longleftrightarrow> p < length xs \<and> xs ! p = x) \<and>
     (\<forall>pg. page_of s pg = map Some (chunk xs pg))"

lemma chunk_snoc:
  "chunk (xs @ [x]) pg =
     (if pg = length xs div PAGED_SET_PAGE_SIZE then chunk xs pg @ [x] else chunk xs pg)"
proof -
  let ?P = "PAGED_SET_PAGE_SIZE"
  have P: "?P = 64" by (rule PAGED_SET_PAGE_SIZE_def)
  consider "pg = length xs div 64" | "pg < length xs div 64" | "length xs div 64 < pg" by linarith
  then show ?thesis
  proof cases
    case 1
    then have "pg * 64 \<le> length xs" "length xs - pg * 64 < 64"
      by (auto simp: minus_div_mult_eq_mod)
    with 1 show ?thesis by (simp add: chunk_def P)
  next
    case 2
    then have "pg * 64 + 64 \<le> length xs" by linarith
    with 2 show ?thesis by (simp add: chunk_def P)
  next
    case 3
    then have "length xs < pg * 64" by linarith
    with 3 show ?thesis by (simp add: chunk_def P)
  qed
qed

lemma concat_chunks:
  "concat (map (chunk xs) [0..<n]) = take (n * PAGED_SET_PAGE_SIZE) xs"
proof (induction n)
  case (Suc n)
  then show ?case
    using take_add [of "n * PAGED_SET_PAGE_SIZE" PAGED_SET_PAGE_SIZE xs]
    by (simp add: chunk_def add.commute)
qed simp

lemma map_filter_Some: "List.map_filter id (map Some xs) = xs"
  by (induction xs) (simp_all add: List.map_filter_def)

lemma paged_ok_list:
  assumes "paged_ok s xs"
  shows "paged_list s = xs"
proof -
  have pages: "page_of s pg = map Some (chunk xs pg)" for pg using assms by (simp add: paged_ok_def)
  let ?n = "(length xs + (PAGED_SET_PAGE_SIZE - 1)) div PAGED_SET_PAGE_SIZE"
  have "length xs \<le> ?n * PAGED_SET_PAGE_SIZE" by (simp add: PAGED_SET_PAGE_SIZE_def)
  moreover have "paged_list s = concat (map (chunk xs) [0..<?n])"
    using assms by (simp add: paged_list_def pages map_filter_Some paged_ok_def)
  ultimately show ?thesis by (simp add: concat_chunks)
qed

lemma paged_ok_empty: "paged_ok paged_empty []"
  by (simp add: paged_ok_def paged_empty_def page_of_def chunk_def)

lemma paged_add_ok:
  assumes ok: "paged_ok s xs" and room: "length xs < u32_max"
  shows "\<exists>s'. paged_add x s = (Inr s' :: ('e, 'a paged) res) \<and> paged_ok s' (if x \<in> set xs then xs else xs @ [x])"
proof (cases "pg_idx s x")
  case (Some p)
  with ok have "x \<in> set xs" by (auto simp: paged_ok_def)
  with Some ok show ?thesis by (simp add: paged_add_def)
next
  case None
  with ok have "\<not> (p < length xs \<and> xs ! p = x)" for p
    unfolding paged_ok_def by (metis option.distinct(1))
  then have new: "x \<notin> set xs" by (auto simp: in_set_conv_nth)
  let ?pg = "length xs div PAGED_SET_PAGE_SIZE"
  let ?s = "s\<lparr>pg_pages := (pg_pages s)(?pg \<mapsto> page_of s ?pg @ [Some x]),
              pg_idx := (pg_idx s)(x \<mapsto> length xs), pg_count := Some (length xs + 1)\<rparr>"
  have "paged_add x s = (Inr ?s :: ('e, 'a paged) res)"
    using None ok room by (simp add: paged_add_def Let_def paged_ok_def)
  moreover have "paged_ok ?s (xs @ [x])"
    using ok new unfolding paged_ok_def
    by (auto simp: page_of_def chunk_snoc nth_append less_Suc_eq dest: nth_mem)
  ultimately show ?thesis using new by simp
qed

text \<open>
  On the first page a removal that is not of the last element writes the page back without
  the replacement: the target page and the last page are the same, and the last write wins.
\<close>

lemma paged_remove_first_page:
  assumes ok: "paged_ok s xs" and small: "length xs \<le> PAGED_SET_PAGE_SIZE"
    and i: "i < length xs - 1"
  shows "\<exists>s'. paged_remove (xs ! i) s = (Inr s' :: ('e, 'a paged) res) \<and> pg_count s' = Some (length xs - 1) \<and>
    page_of s' 0 = map Some (butlast xs) @ [None] \<and> pg_idx s' (xs ! i) = None \<and> pg_idx s' (last xs) = Some i"
proof -
  let ?n = "length xs"
  have n: "?n - 1 < 64" "i < 64" "xs \<noteq> []" using small i by (auto simp: PAGED_SET_PAGE_SIZE_def)
  have idx: "pg_idx s (xs ! i) = Some i" and count: "nat0 (pg_count s) = ?n" and d: "distinct xs"
    using ok i by (auto simp: paged_ok_def)
  have page: "page_of s 0 = map Some xs" using ok small by (simp add: paged_ok_def chunk_def)
  have last: "last xs = xs ! (?n - 1)" by (rule last_conv_nth [OF n(3)])
  have ne: "xs ! i \<noteq> last xs" using d i n(3) unfolding last by (simp add: nth_eq_iff_index_eq)
  let ?s = "s\<lparr>pg_pages := (pg_pages s)(0 \<mapsto> (map Some xs)[?n - 1 := None]),
     pg_idx := ((pg_idx s)(last xs \<mapsto> i))(xs ! i := None), pg_count := Some (?n - 1)\<rparr>"
  have "paged_remove (xs ! i) s = (Inr ?s :: ('e, 'a paged) res)"
    using idx count i n page
    by (simp add: paged_remove_def Let_def PAGED_SET_PAGE_SIZE_def vec_get_def vec_set_def last)
  moreover have "(map Some xs)[?n - 1 := None] = map Some (butlast xs) @ [None]"
    using n(3) by (cases xs rule: rev_cases) (simp_all add: list_update_append)
  ultimately show ?thesis using ne by (simp add: page_of_def)
qed

fun paged_add_all :: "'a list \<Rightarrow> 'a paged \<Rightarrow> ('e, 'a paged) res" where
  "paged_add_all [] s = Inr s"
| "paged_add_all (x # xs) s = rbind (paged_add x s) (paged_add_all xs)"

lemma paged_add_all_ok:
  "paged_ok s xs \<Longrightarrow> distinct (xs @ ys) \<Longrightarrow> length (xs @ ys) \<le> u32_max \<Longrightarrow>
   \<exists>s'. paged_add_all ys s = (Inr s' :: ('e, 'a paged) res) \<and> paged_ok s' (xs @ ys)"
proof (induction ys arbitrary: s xs)
  case (Cons y ys)
  from paged_add_ok [OF Cons.prems(1), of y] Cons.prems(2,3) obtain t where
    t: "paged_add y s = (Inr t :: ('e, 'a paged) res)" "paged_ok t (xs @ [y])" by auto
  from Cons.IH [OF t(2)] Cons.prems(2,3) show ?case by (simp add: t(1))
qed simp

text \<open>
  Removing a member of the paged directory whose page also holds the last member leaves the
  removed member listed and drops the last one.
\<close>

theorem paged_remove_keeps_removed:
  assumes "distinct xs" "length xs \<le> PAGED_SET_PAGE_SIZE" "i < length xs - 1"
  shows "\<exists>s s'. paged_add_all xs paged_empty = (Inr s :: ('e, 'a paged) res) \<and> paged_list s = xs \<and>
     paged_remove (xs ! i) s = (Inr s' :: ('e, 'a paged) res) \<and>
     paged_list s' = butlast xs \<and> xs ! i \<in> set (paged_list s') \<and> last xs \<notin> set (paged_list s') \<and>
     pg_idx s' (xs ! i) = None \<and> pg_idx s' (last xs) = Some i"
proof -
  have "length xs \<le> u32_max" using assms(2) by (simp add: PAGED_SET_PAGE_SIZE_def u32_max_def)
  with paged_add_all_ok [OF paged_ok_empty, of xs] assms(1) obtain s where
    s: "paged_add_all xs paged_empty = (Inr s :: ('e, 'a paged) res)" "paged_ok s xs" by auto
  from paged_remove_first_page [OF s(2) assms(2,3)] obtain s' where
    s': "paged_remove (xs ! i) s = (Inr s' :: ('e, 'a paged) res)" "pg_count s' = Some (length xs - 1)"
      "page_of s' 0 = map Some (butlast xs) @ [None]"
      "pg_idx s' (xs ! i) = None" "pg_idx s' (last xs) = Some i" by blast
  have pages: "(length xs - 1 + (64 - 1)) div 64 = Suc 0"
    using assms(2,3) unfolding PAGED_SET_PAGE_SIZE_def by linarith
  have "List.map_filter id (map Some (butlast xs) @ [None]) = butlast xs"
    using map_filter_Some [of "butlast xs"] by (simp add: List.map_filter_def)
  moreover have "paged_list s' = List.map_filter id (page_of s' 0)"
    unfolding paged_list_def s'(2) nat0_simps Let_def PAGED_SET_PAGE_SIZE_def pages by simp
  ultimately have list: "paged_list s' = butlast xs" by (simp only: s'(3))
  have "xs ! i = butlast xs ! i" "i < length (butlast xs)" using assms(3) by (simp_all add: nth_butlast)
  then have "xs ! i \<in> set (butlast xs)" by (metis nth_mem)
  moreover have "last xs \<notin> set (butlast xs)"
    using assms(1,3) by (cases xs rule: rev_cases) auto
  ultimately show ?thesis
    using s s' list paged_ok_list [OF s(2)] by (intro exI [of _ s] exI [of _ s']) simp
qed

theorem paged_remove_keeps_removed_witness:
  "\<exists>s s' :: nat paged. paged_list s = [7, 8, 9] \<and> paged_remove 8 s = (Inr s' :: (unit, nat paged) res) \<and>
     paged_list s' = [7, 8]"
  using paged_remove_keeps_removed [of "[7, 8, 9 :: nat]" 1]
  by (auto simp: PAGED_SET_PAGE_SIZE_def)

end
