(* ===== verification/Settlement_State.thy ===== *)
theory Settlement_State
  imports Settlement_Math Indexed_Sets
begin

text \<open>
  The settlement contract's data and storage (\<open>intent_settlement/src/lib.rs\<close>), the helper
  functions its entry points share, and the oracle adapter (\<open>oracle.rs\<close>). What the contract
  calls and the repository does not contain enters through the record \<open>world\<close>: token
  decimals, oracle prices, the registry's answer to \<open>get_tier\<close>, the policy contract, the
  proof registry, hashing and XDR, and the helpers that the source calls without defining
  (\<open>adjust_token_liabilities\<close>, \<open>add_to_open_intent_list\<close>,
  \<open>remove_from_open_intent_list\<close> and the constants \<open>SLASH_GRACE_SECS\<close> and
  \<open>MAX_TOTAL_EXTENSION\<close>).
\<close>

section \<open>Constants\<close>

definition INTENT_EXPIRY :: nat where "INTENT_EXPIRY = 1800"
definition FILL_WINDOW :: nat where "FILL_WINDOW = 300"
definition DISPUTE_WINDOW :: nat where "DISPUTE_WINDOW = 3600"
definition ARBITER_WINDOW :: nat where "ARBITER_WINDOW = 86400"
definition MIN_BOND :: int where "MIN_BOND = 50 * 10000000"
definition PROTOCOL_FEE_BPS :: int where "PROTOCOL_FEE_BPS = 5"
definition MAX_BOND_TOKENS :: nat where "MAX_BOND_TOKENS = 8"
definition USER_INTENT_BUCKET_SIZE :: nat where "USER_INTENT_BUCKET_SIZE = 64"
definition SLASH_COOLDOWN :: nat where "SLASH_COOLDOWN = 3600"
definition CANCEL_COOLDOWN :: nat where "CANCEL_COOLDOWN = 60"
definition AMENDMENT_COOLDOWN :: nat where "AMENDMENT_COOLDOWN = 60"
definition ADMIN_TIMELOCK_DELAY :: nat where "ADMIN_TIMELOCK_DELAY = 172800"
definition MAX_ACTIVE_DEFAULT :: nat where "MAX_ACTIVE_DEFAULT = 10"
definition MAX_PROTOCOL_FEE_BPS :: int where "MAX_PROTOCOL_FEE_BPS = 1000"
definition MIN_FILL_WINDOW_SECS :: nat where "MIN_FILL_WINDOW_SECS = 60"
definition MIN_INTENT_EXPIRY_SECS :: nat where "MIN_INTENT_EXPIRY_SECS = 300"
definition MIN_BOND_FLOOR :: int where "MIN_BOND_FLOOR = 10000000"
definition MIGRATION_VERSION :: nat where "MIGRATION_VERSION = 1"
definition MAX_AMOUNT :: int where "MAX_AMOUNT = 10 ^ 30"
definition MAX_WHOLE_UNITS :: int where "MAX_WHOLE_UNITS = 10 ^ 12"
definition DEFAULT_INTENT_RETENTION_SECS :: nat where "DEFAULT_INTENT_RETENTION_SECS = 2592000"
definition MAX_PAGE_SIZE :: nat where "MAX_PAGE_SIZE = 100"
definition MAX_BATCH_SIZE :: nat where "MAX_BATCH_SIZE = 20"
definition MAX_EXTENSION_DURATION :: nat where "MAX_EXTENSION_DURATION = 300"
definition MAX_ROUTE_ENTRIES :: nat where "MAX_ROUTE_ENTRIES = 20"
definition MAX_BACKSTOP_INTENT_BPS :: int where "MAX_BACKSTOP_INTENT_BPS = 1000"
definition MAX_BACKSTOP_USER_EPOCH_CLAIM :: int where "MAX_BACKSTOP_USER_EPOCH_CLAIM = 5 * 50 * 10000000"
definition BACKSTOP_EPOCH_SECS :: nat where "BACKSTOP_EPOCH_SECS = 86400"
definition MAX_PRICE_AGE_SECS :: nat where "MAX_PRICE_AGE_SECS = 300"
definition MAX_PRICE_DEVIATION_BPS :: int where "MAX_PRICE_DEVIATION_BPS = 200"

section \<open>Data\<close>

datatype DisputeResolution = Upheld | Dismissed

datatype IntentState =
    Open | Accepted | PartiallyFilled | Filled | Cancelled | Expired | Slashed | Bidding
  | Filling | Disputed | Resolved

text \<open>The errors that the modelled entry points raise.\<close>

datatype (plugins only:) StError =
    AlreadyInitialized | Unauthorized | IntentNotFound | IntentNotOpen | IntentExpired
  | IntentNotAccepted | SolverNotRegistered | SolverBondTooLow | InsufficientOutput
  | FillWindowExpired | CannotCancelAccepted | SolverInactive | ZeroAmount | InvalidDeadline
  | IntentAlreadyFilled | NotInitialized | SolverHasActiveIntents | ContractPaused
  | DeadlineNotReached | InsufficientBond | DstTokenNotAllowed | IntentAlreadyExists
  | FeeOverflow | NoPendingFeeRecipient | SrcChainNotAllowed
  | RescueProtectedToken | InvalidSrcToken | ProofRegistryNotSet | ProofNotFound
  | ProofChainMismatch | ProofAmountInsufficient | SrcChainNotSupported | SelfReferral
  | InvalidConfig | TimelockNotElapsed | NoPendingAdminTransfer | NoPendingDstTokenChange
  | CancelCooldownNotExpired | AmountTooLarge | ImplausibleDstAmount
  | MaxActiveIntentsCapReached | BondTokenNotAllowed
  | AlreadyMigrated | BidWindowClosed | BidWindowStillOpen
  | BidNotHigher | IntentNotBidding | IntentNotFilling | IntentNotDisputed | NotArbiter
  | DisputeWindowStillOpen
  | DisputeWindowClosed | NoPendingUpgrade | IntentNotAcceptedForFill
  | TooManyBondTokens | BatchTooLarge
  | ExposureExceeded | NoPendingOracle
  | OracleTimelockNotElapsed | IntentNotTerminal | RetentionPeriodNotElapsed
  | PolicyRejected | NoPendingPolicy | IntentNotAmendable | InvalidAmendmentDeadline
  | AmendmentTooTightening | AmendmentCooldownActive
  | NoPendingChainOnboarding | ChainAlreadyConfigured | ChainNotConfigured
  | ExtensionAlreadyGranted | ExtensionCapExceeded | BackstopAlreadyClaimed | BackstopPoolEmpty
  | TooManyRouteEntries | OutboundIntentNotFound

record ProtocolConfig =
  cf_min_bond :: int
  cf_fill_window :: nat
  cf_intent_expiry :: nat
  cf_protocol_fee_bps :: int
  cf_max_active :: nat
  cf_max_slash_cycles :: nat
  cf_referral_share_bps :: int
  cf_backstop_vault_share_bps :: int
  cf_coverage_multiplier :: int

record IntentRecord =
  in_id :: bytes32
  in_user :: address
  in_src_chain :: string
  in_src_token :: string
  in_src_amount :: int
  in_dst_token :: address
  in_min_dst :: int
  in_solver :: "address option"
  in_state :: IntentState
  in_created_at :: nat
  in_deadline :: nat
  in_filled_at :: "nat option"
  in_fill_amount :: "int option"
  in_total_filled :: int
  in_bond_token :: address
  in_dispute_deadline :: "nat option"
  in_dispute_raised_at :: "nat option"
  in_resolution :: "DisputeResolution option"
  in_solver_tier :: nat
  in_referrer :: "address option"
  in_slash_cycles :: nat
  in_terminal_at :: "nat option"

record SolverRecord =
  so_address :: address
  so_bond_amount :: int
  so_completed :: nat
  so_failed :: nat
  so_volume :: int
  so_active :: bool
  so_registered_at :: nat
  so_active_intents :: nat
  so_last_slash :: nat
  so_bond_tokens :: "address list"

record BestBidRecord =
  bb_solver :: address
  bb_quoted :: int

record ChainConfig =
  ch_name :: string
  ch_wormhole_id :: nat
  ch_axelar_name :: string
  ch_emitter :: bytes32
  ch_axelar_source :: string
  ch_token_format :: string

datatype OutboundIntentState =
    EscrowLocked | SolverAccepted | ProofVerified | EscrowReleased | UserRefunded | SolverSlashed

record OutboundIntentRecord =
  ob_id :: bytes32
  ob_user :: address
  ob_token :: address
  ob_amount :: int
  ob_dst_chain :: string
  ob_dst_token :: string
  ob_dst_recipient :: string
  ob_min_dst :: int
  ob_solver :: "address option"
  ob_state :: OutboundIntentState
  ob_created_at :: nat
  ob_deadline :: nat
  ob_proof_verified_at :: "nat option"
  ob_bond_token :: address
  ob_escrow_released_at :: "nat option"
  ob_solver_tier :: nat

section \<open>Storage\<close>

text \<open>
  The keys of \<open>DataKey\<close>, in five groups: roles and settings, allowlists, bonds, intents, and
  what surrounds them (retention, extensions, backstop claims, chains, routes, outbound intents).
\<close>

record st_roles =
  ro_admin :: "address option"
  ro_pending_admin :: "(address \<times> nat) option"
  ro_fee_recipient :: "address option"
  ro_pending_fee :: "(address \<times> nat) option"
  ro_pauser :: "address option"
  ro_paused :: "bool option"
  ro_arbiter :: "address option"
  ro_pending_upgrade :: "(bytes32 \<times> nat) option"
  ro_migration :: "nat option"
  ro_config :: "ProtocolConfig option"
  ro_policy :: "address option"
  ro_pending_policy :: "(address option \<times> nat) option"
  ro_oracle :: "address option"
  ro_pending_oracle :: "(address \<times> nat) option"
  ro_registry :: "address option"
  ro_proof_registry :: "address option"

record st_allow =
  al_dst :: "address \<Rightarrow> bool option"
  al_dst_enabled :: "bool option"
  al_dst_list :: "address paged"
  al_dst_add :: "address \<Rightarrow> nat option"
  al_dst_remove :: "address \<Rightarrow> nat option"
  al_src :: "string \<Rightarrow> bool option"
  al_src_enabled :: "bool option"
  al_multiplier :: "address \<Rightarrow> int option"

record st_bonds =
  bo_token :: "address option"
  bo_allowed :: "address \<Rightarrow> bool option"
  bo_min :: "address \<Rightarrow> int option"
  bo_solvers :: "address \<Rightarrow> SolverRecord option"
  bo_extra :: "address \<times> address \<Rightarrow> int option"
  bo_total_bonded :: "int option"
  bo_total_solvers :: "nat option"
  bo_list :: "address paged"
  bo_exposure :: "address \<Rightarrow> int option"
  bo_intents :: solver_intents
  bo_liabilities :: "address \<Rightarrow> int option"
  bo_pool :: "int option"

record st_book =
  bk_intents :: "bytes32 \<Rightarrow> IntentRecord option"
  bk_tombstone :: "bytes32 \<Rightarrow> bool option"
  bk_total :: "nat option"
  bk_open :: "nat option"
  bk_volume :: "int option"
  bk_nonce :: "address \<Rightarrow> nat option"
  bk_user_count :: "address \<Rightarrow> nat option"
  bk_user_pages :: "address \<times> nat \<Rightarrow> bytes32 option list option"
  bk_cancel_cooldown :: "address \<Rightarrow> nat option"
  bk_amend_cooldown :: "address \<Rightarrow> nat option"
  bk_best_bid :: "bytes32 \<Rightarrow> BestBidRecord option"
  bk_bid_enabled :: "bool option"
  bk_open_list :: "bytes32 list option"

record st_extra =
  ex_retention :: "nat option"
  ex_extension :: "bytes32 \<Rightarrow> nat option"
  ex_claimed :: "bytes32 \<Rightarrow> bool option"
  ex_epoch_claim :: "address \<times> nat \<Rightarrow> int option"
  ex_chain :: "string \<Rightarrow> ChainConfig option"
  ex_pending_chain :: "string \<Rightarrow> (ChainConfig \<times> nat) option"
  ex_routes :: "address \<Rightarrow> (string list \<times> address list) option"
  ex_outbound :: "bytes32 \<Rightarrow> OutboundIntentRecord option"
  ex_user_outbound :: "address \<Rightarrow> bytes32 list option"

record settlement =
  roles :: st_roles
  allow :: st_allow
  bonds :: st_bonds
  book :: st_book
  extra :: st_extra

text \<open>What lies outside the repository, or is called without being defined in it.\<close>

record world =
  w_decimals :: "address \<Rightarrow> nat option"
  w_price :: "address \<Rightarrow> address \<Rightarrow> (int \<times> nat \<times> nat) option"
  w_get_tier :: "address \<Rightarrow> address \<Rightarrow> nat option"
  w_policy :: "address \<Rightarrow> address \<Rightarrow> address \<Rightarrow> int \<Rightarrow> bool option"
  w_proof :: "address \<Rightarrow> bytes32 \<Rightarrow> (nat \<times> int) option"
  w_sha256 :: "byte list \<Rightarrow> bytes32"
  w_address_xdr :: "address \<Rightarrow> byte list"
  w_string_xdr :: "string \<Rightarrow> byte list"
  w_network_id :: "byte list"
  w_liabilities :: "address \<Rightarrow> int \<Rightarrow> (address \<Rightarrow> int option) \<Rightarrow> address \<Rightarrow> int option"
  w_list_add :: "bytes32 \<Rightarrow> bytes32 list option \<Rightarrow> bytes32 list option"
  w_list_remove :: "bytes32 \<Rightarrow> bytes32 list option \<Rightarrow> bytes32 list option"
  w_slash_grace :: nat
  w_max_total_extension :: nat
  w_configure_chain :: "address \<Rightarrow> nat \<Rightarrow> bytes32 \<Rightarrow> bool"
  w_remove_chain :: "address \<Rightarrow> nat \<Rightarrow> bool"

type_synonym 'a st = "(StError, 'a) res"

end
