(* ===== verification/Settlement_Helpers.thy ===== *)
theory Settlement_Helpers
  imports Settlement_State
begin

text \<open>
  The private helpers that the settlement contract's entry points share, and the oracle
  adapter: configuration, guards, bonds per token, exposure in units of the bond token,
  identifiers. Their lemmas say what each leaves alone.
\<close>

section \<open>Configuration and guards\<close>

definition default_config :: ProtocolConfig where
  "default_config = \<lparr>cf_min_bond = MIN_BOND, cf_fill_window = FILL_WINDOW,
     cf_intent_expiry = INTENT_EXPIRY, cf_protocol_fee_bps = PROTOCOL_FEE_BPS,
     cf_max_active = MAX_ACTIVE_DEFAULT, cf_max_slash_cycles = 3, cf_referral_share_bps = 0,
     cf_backstop_vault_share_bps = 0, cf_coverage_multiplier = 10\<rparr>"

definition load_config :: "settlement \<Rightarrow> ProtocolConfig" where
  "load_config s = (case ro_config (roles s) of None \<Rightarrow> default_config | Some c \<Rightarrow> c)"

definition st_require_admin :: "env \<Rightarrow> settlement \<Rightarrow> unit st" where
  "st_require_admin e s =
     rbind (need NotInitialized (ro_admin (roles s))) (\<lambda>admin. require_auth e admin)"

definition require_admin_or_pauser :: "env \<Rightarrow> settlement \<Rightarrow> address \<Rightarrow> unit st" where
  "require_admin_or_pauser e s caller =
     rbind (need NotInitialized (ro_admin (roles s))) (\<lambda>admin.
       let is_pauser = (case ro_pauser (roles s) of None \<Rightarrow> False | Some p \<Rightarrow> p = caller)
       in if caller \<noteq> admin \<and> \<not> is_pauser then Inl (Error Unauthorized)
          else require_auth e caller)"

definition is_paused :: "settlement \<Rightarrow> bool" where
  "is_paused s = (case ro_paused (roles s) of None \<Rightarrow> False | Some b \<Rightarrow> b)"

definition require_not_paused :: "settlement \<Rightarrow> unit st" where
  "require_not_paused s = (if is_paused s then Inl (Error ContractPaused) else Inr ())"

definition load_bond_token :: "settlement \<Rightarrow> address st" where
  "load_bond_token s = need NotInitialized (bo_token (bonds s))"

definition load_arbiter :: "settlement \<Rightarrow> address st" where
  "load_arbiter s =
     (case ro_arbiter (roles s) of
        Some a \<Rightarrow> Inr a
      | None \<Rightarrow> need NotInitialized (ro_admin (roles s)))"

definition load_intent :: "settlement \<Rightarrow> bytes32 \<Rightarrow> IntentRecord st" where
  "load_intent s intent_id = need IntentNotFound (bk_intents (book s) intent_id)"

definition save_intent :: "bytes32 \<Rightarrow> IntentRecord \<Rightarrow> settlement \<Rightarrow> settlement" where
  "save_intent intent_id intent s =
     s\<lparr>book := (book s)\<lparr>bk_intents := (bk_intents (book s))(intent_id \<mapsto> intent)\<rparr>\<rparr>"

definition load_solver :: "settlement \<Rightarrow> address \<Rightarrow> SolverRecord st" where
  "load_solver s solver = need SolverNotRegistered (bo_solvers (bonds s) solver)"

definition save_solver :: "address \<Rightarrow> SolverRecord \<Rightarrow> settlement \<Rightarrow> settlement" where
  "save_solver solver record s =
     s\<lparr>bonds := (bonds s)\<lparr>bo_solvers := (bo_solvers (bonds s))(solver \<mapsto> record)\<rparr>\<rparr>"

definition set_open :: "nat \<Rightarrow> settlement \<Rightarrow> settlement" where
  "set_open n s = s\<lparr>book := (book s)\<lparr>bk_open := Some n\<rparr>\<rparr>"

definition set_volume :: "int \<Rightarrow> settlement \<Rightarrow> settlement" where
  "set_volume v s = s\<lparr>book := (book s)\<lparr>bk_volume := Some v\<rparr>\<rparr>"

definition set_exposure :: "address \<Rightarrow> int \<Rightarrow> settlement \<Rightarrow> settlement" where
  "set_exposure solver v s =
     s\<lparr>bonds := (bonds s)\<lparr>bo_exposure := (bo_exposure (bonds s))(solver \<mapsto> v)\<rparr>\<rparr>"

definition set_total_bonded :: "int \<Rightarrow> settlement \<Rightarrow> settlement" where
  "set_total_bonded v s = s\<lparr>bonds := (bonds s)\<lparr>bo_total_bonded := Some v\<rparr>\<rparr>"

definition adjust_token_liabilities :: "world \<Rightarrow> address \<Rightarrow> int \<Rightarrow> settlement \<Rightarrow> settlement" where
  "adjust_token_liabilities w token delta s =
     s\<lparr>bonds := (bonds s)\<lparr>bo_liabilities := w_liabilities w token delta (bo_liabilities (bonds s))\<rparr>\<rparr>"

definition add_to_open_intent_list :: "world \<Rightarrow> bytes32 \<Rightarrow> settlement \<Rightarrow> settlement" where
  "add_to_open_intent_list w intent_id s =
     s\<lparr>book := (book s)\<lparr>bk_open_list := w_list_add w intent_id (bk_open_list (book s))\<rparr>\<rparr>"

definition remove_from_open_intent_list :: "world \<Rightarrow> bytes32 \<Rightarrow> settlement \<Rightarrow> settlement" where
  "remove_from_open_intent_list w intent_id s =
     s\<lparr>book := (book s)\<lparr>bk_open_list := w_list_remove w intent_id (bk_open_list (book s))\<rparr>\<rparr>"

text \<open>The invocation context: instance values read once, the dirty ones written by \<open>commit\<close>.\<close>

record InvocationCtx =
  ic_config :: ProtocolConfig
  ic_fee_recipient :: address
  ic_open :: nat
  ic_volume :: int
  ic_open_dirty :: bool
  ic_volume_dirty :: bool

definition ctx_load :: "settlement \<Rightarrow> InvocationCtx st" where
  "ctx_load s =
     rbind (need NotInitialized (ro_fee_recipient (roles s))) (\<lambda>fee_recipient.
       Inr \<lparr>ic_config = load_config s, ic_fee_recipient = fee_recipient,
            ic_open = nat0 (bk_open (book s)), ic_volume = or0 (bk_volume (book s)),
            ic_open_dirty = False, ic_volume_dirty = False\<rparr>)"

definition decrement_open_intents :: "InvocationCtx \<Rightarrow> InvocationCtx" where
  "decrement_open_intents c = c\<lparr>ic_open := ic_open c - 1, ic_open_dirty := True\<rparr>"

definition increment_open_intents :: "InvocationCtx \<Rightarrow> InvocationCtx st" where
  "increment_open_intents c =
     rbind (u64 (ic_open c + 1)) (\<lambda>n. Inr (c\<lparr>ic_open := n, ic_open_dirty := True\<rparr>))"

definition add_volume :: "int \<Rightarrow> InvocationCtx \<Rightarrow> InvocationCtx st" where
  "add_volume amount c =
     rbind (i128 (ic_volume c + amount)) (\<lambda>v. Inr (c\<lparr>ic_volume := v, ic_volume_dirty := True\<rparr>))"

definition ctx_commit :: "InvocationCtx \<Rightarrow> settlement \<Rightarrow> settlement" where
  "ctx_commit c s =
     (let s1 = (if ic_open_dirty c then set_open (ic_open c) s else s)
      in if ic_volume_dirty c then set_volume (ic_volume c) s1 else s1)"

section \<open>Time windows\<close>

definition fill_window_open :: "nat \<Rightarrow> nat \<Rightarrow> bool" where
  "fill_window_open t deadline \<longleftrightarrow> t < deadline"

definition slash_eligible :: "world \<Rightarrow> nat \<Rightarrow> nat \<Rightarrow> bool" where
  "slash_eligible w t deadline \<longleftrightarrow> t \<ge> sat_u64 (deadline + w_slash_grace w)"

definition dispute_window_open :: "nat \<Rightarrow> nat \<Rightarrow> bool" where
  "dispute_window_open t dispute_deadline \<longleftrightarrow> t < dispute_deadline"

definition arbiter_timeout_reached :: "nat \<Rightarrow> nat \<Rightarrow> bool" where
  "arbiter_timeout_reached t raised_at \<longleftrightarrow> t \<ge> sat_u64 (raised_at + ARBITER_WINDOW)"

definition check_fill_guards :: "IntentRecord \<Rightarrow> address \<Rightarrow> nat \<Rightarrow> StError + unit" where
  "check_fill_guards intent solver t =
     (if t \<ge> in_deadline intent then Inl FillWindowExpired
      else case in_state intent of
        Accepted \<Rightarrow> if in_solver intent \<noteq> Some solver then Inl Unauthorized else Inr ()
      | Filled \<Rightarrow> Inl IntentAlreadyFilled
      | _ \<Rightarrow> Inl IntentNotAccepted)"

definition slash_cooldown_remaining :: "nat \<Rightarrow> nat \<Rightarrow> nat st" where
  "slash_cooldown_remaining last_slash_time t =
     (if last_slash_time = 0 then Inr 0
      else rbind (u64 (last_slash_time + SLASH_COOLDOWN)) (\<lambda>cooldown_end. Inr (cooldown_end - t)))"

section \<open>Bonds per token\<close>

definition min_bond_for_token :: "settlement \<Rightarrow> address \<Rightarrow> int st" where
  "min_bond_for_token s token =
     rbind (load_bond_token s) (\<lambda>default_token.
       if token = default_token then Inr (cf_min_bond (load_config s))
       else Inr (case bo_min (bonds s) token of None \<Rightarrow> MIN_BOND | Some m \<Rightarrow> m))"

definition is_bond_token_allowed :: "settlement \<Rightarrow> address \<Rightarrow> bool st" where
  "is_bond_token_allowed s token =
     rbind (load_bond_token s) (\<lambda>default_token.
       Inr (token = default_token \<or> bo_allowed (bonds s) token \<noteq> None))"

definition get_solver_bond_amount :: "settlement \<Rightarrow> SolverRecord \<Rightarrow> address \<Rightarrow> int st" where
  "get_solver_bond_amount s record token =
     rbind (load_bond_token s) (\<lambda>default_token.
       Inr (if token = default_token then so_bond_amount record
            else or0 (bo_extra (bonds s) (so_address record, token))))"

text \<open>The amount of a token, and the list of the tokens with a positive amount.\<close>

definition set_solver_bond_amount :: "settlement \<Rightarrow> SolverRecord \<Rightarrow> address \<Rightarrow> int
    \<Rightarrow> (settlement \<times> SolverRecord) st" where
  "set_solver_bond_amount s record token amount =
     rbind (load_bond_token s) (\<lambda>default_token.
       let r1 = (if token = default_token then record\<lparr>so_bond_amount := amount\<rparr> else record);
           s1 = (if token = default_token then s
                 else s\<lparr>bonds := (bonds s)\<lparr>bo_extra := (bo_extra (bonds s))
                   ((so_address record, token) := (if amount > 0 then Some amount else None))\<rparr>\<rparr>);
           present = token \<in> set (so_bond_tokens r1);
           r2 = (if amount > 0 \<and> \<not> present then r1\<lparr>so_bond_tokens := so_bond_tokens r1 @ [token]\<rparr>
                 else if amount = 0 \<and> present
                 then r1\<lparr>so_bond_tokens := filter (\<lambda>t. t \<noteq> token) (so_bond_tokens r1)\<rparr>
                 else r1)
       in Inr (s1, r2))"

definition get_adjusted_min_bond :: "settlement \<Rightarrow> address \<Rightarrow> int st" where
  "get_adjusted_min_bond s dst_token =
     (let base_bond = cf_min_bond (load_config s);
          multiplier = (case al_multiplier (allow s) dst_token of None \<Rightarrow> 10 | Some m \<Rightarrow> m)
      in rbind (i128 (base_bond * multiplier)) (\<lambda>p. Inr (p sdiv 10)))"

text \<open>\<open>pull_exact\<close>: what the contract's own balance gained.\<close>

definition pull_exact :: "env \<Rightarrow> address \<Rightarrow> address \<Rightarrow> int \<Rightarrow> xfer list \<Rightarrow> (xfer list \<times> int) st" where
  "pull_exact e token from amount tr =
     rbind (transfer e token from (self e) amount tr) (\<lambda>tr'.
       Inr (tr', tok_delta e tr \<lparr>x_token = token, x_from = from, x_to = self e, x_amount = amount\<rparr>))"

section \<open>The oracle adapter\<close>

datatype OracleFault = NotAvailable | Stale | ZeroOrNegative

text \<open>\<open>try_lastprice\<close> of a trapping oracle is \<open>None\<close> as well; the ages are compared in \<open>u64\<close>.\<close>

definition fetch_price :: "world \<Rightarrow> env \<Rightarrow> address \<Rightarrow> address \<Rightarrow> OracleFault + (int \<times> nat)" where
  "fetch_price w e oracle_addr asset =
     (case w_price w oracle_addr asset of
        None \<Rightarrow> Inl NotAvailable
      | Some (price, decs, timestamp) \<Rightarrow>
          if now e > timestamp \<and> now e - timestamp > MAX_PRICE_AGE_SECS then Inl Stale
          else if price \<le> 0 then Inl ZeroOrNegative
          else Inr (price, decs))"

definition pow10 :: "nat \<Rightarrow> int option" where
  "pow10 n = checked_i128 (10 ^ n)"

definition scaled_price :: "int \<Rightarrow> nat \<Rightarrow> int \<Rightarrow> nat \<Rightarrow> int option" where
  "scaled_price pf df pt dt =
     Option.bind (pow10 dt) (\<lambda>a.
     Option.bind (checked_i128 (pf * a)) (\<lambda>n0.
     Option.bind (checked_i128 (n0 * 10000)) (\<lambda>n.
     Option.bind (pow10 df) (\<lambda>b.
     Option.bind (checked_i128 (pt * b)) (\<lambda>d.
       if d = 0 then None else checked_i128 (n sdiv d))))))"

definition weight_bps :: "world \<Rightarrow> env \<Rightarrow> address option \<Rightarrow> address \<Rightarrow> address \<Rightarrow> int" where
  "weight_bps w e oracle_addr from to =
     (case oracle_addr of
        None \<Rightarrow> 10000
      | Some oracle \<Rightarrow>
          if from = to then 10000
          else case (fetch_price w e oracle from, fetch_price w e oracle to) of
            (Inr (pf, df), Inr (pt, dt)) \<Rightarrow>
              (case scaled_price pf df pt dt of
                 Some x \<Rightarrow> if x > 0 then x else 10000
               | None \<Rightarrow> 10000)
          | _ \<Rightarrow> 10000)"

definition prices_agree :: "int \<Rightarrow> nat \<Rightarrow> int \<Rightarrow> nat \<Rightarrow> bool st" where
  "prices_agree price_a dec_a price_b dec_b =
     (if price_a \<le> 0 \<or> price_b \<le> 0 then Inr False
      else
        rbind (if dec_a \<ge> dec_b
               then rbind (i128 (10 ^ (dec_a - dec_b))) (\<lambda>scale. Inr (price_a, sat_i128 (price_b * scale)))
               else rbind (i128 (10 ^ (dec_b - dec_a))) (\<lambda>scale. Inr (sat_i128 (price_a * scale), price_b)))
          (\<lambda>(a, b).
             let diff = \<bar>a - b\<bar>; denom = max a b
             in Inr (sat_i128 (diff * 10000) \<le> sat_i128 (MAX_PRICE_DEVIATION_BPS * denom))))"

text \<open>The exposure an amount of the destination token stands for, in units of the bond token.\<close>

definition exposure_notional :: "world \<Rightarrow> env \<Rightarrow> settlement \<Rightarrow> address \<Rightarrow> address \<Rightarrow> int \<Rightarrow> int" where
  "exposure_notional w e s dst_token bond_token amount =
     (let weight = weight_bps w e (ro_oracle (roles s)) dst_token bond_token
      in (case checked_i128 (amount * weight) of None \<Rightarrow> amount | Some p \<Rightarrow> p) sdiv BPS_DENOMINATOR)"

section \<open>Tiers\<close>

definition solver_tier :: "world \<Rightarrow> settlement \<Rightarrow> address \<Rightarrow> nat" where
  "solver_tier w s solver =
     (case ro_registry (roles s) of
        None \<Rightarrow> 0
      | Some registry \<Rightarrow>
          (case w_get_tier w registry solver of
             Some tier \<Rightarrow> min tier (length TIER_SLASH_BPS - 1)
           | None \<Rightarrow> 0))"

definition st_tier_fill_window :: "nat \<Rightarrow> nat \<Rightarrow> nat" where
  "st_tier_fill_window tier base_fill_window =
     (let bonus_bps = (case vec_get TIER_FILL_WINDOW_BONUS_BPS tier of None \<Rightarrow> 0 | Some b \<Rightarrow> b)
      in sat_u64 (base_fill_window * (10000 + bonus_bps)) div 10000)"

text \<open>The slash on a bond, capped at a tenth of it; computed by \<open>/ 10\<close> and a cap in whole units.\<close>

definition st_slash_amount :: "int \<Rightarrow> int \<Rightarrow> int" where
  "st_slash_amount bond unfilled_amount =
     (if bond \<le> 0 then 0
      else
        let exposure = min (max unfilled_amount 0) bond;
            proportional = exposure sdiv 10;
            cap = max (min ((bond sdiv 10000) * SLASH_BPS) bond) 1
        in min (max proportional 1) cap)"

section \<open>Identifiers\<close>

definition vortex_tag :: "byte list" where
  "vortex_tag = map (of_nat \<circ> of_char) ''vortex-intent-v1''"

definition compute_intent_id :: "world \<Rightarrow> env \<Rightarrow> address \<Rightarrow> string \<Rightarrow> int \<Rightarrow> address \<Rightarrow> int \<Rightarrow> nat \<Rightarrow> bytes32" where
  "compute_intent_id w e user src_chain src_amount dst_token min_dst_amount nonce =
     (let params = w_string_xdr w src_chain @ be_bytes 16 (nat (src_amount mod 2 ^ 128)) @
            w_address_xdr w dst_token @ be_bytes 16 (nat (min_dst_amount mod 2 ^ 128));
          params_hash = w_sha256 w params
      in w_sha256 w (vortex_tag @ w_address_xdr w (self e) @ w_network_id w @ w_address_xdr w user @
           be_bytes 8 nonce @ be_bytes 32 (unat params_hash)))"

definition wormhole_chain_id :: "string \<Rightarrow> nat st" where
  "wormhole_chain_id src_chain =
     (if length src_chain = 0 \<or> length src_chain > 16 then Inl (Error SrcChainNotSupported)
      else if src_chain = ''solana'' then Inr 1
      else if src_chain = ''ethereum'' then Inr 2
      else if src_chain = ''bsc'' then Inr 4
      else if src_chain = ''polygon'' then Inr 5
      else if src_chain = ''avalanche'' then Inr 6
      else if src_chain = ''arbitrum'' then Inr 23
      else if src_chain = ''optimism'' then Inr 24
      else if src_chain = ''base'' then Inr 30
      else Inl (Error SrcChainNotSupported))"

definition validate_proof :: "world \<Rightarrow> settlement \<Rightarrow> IntentRecord \<Rightarrow> bytes32 \<Rightarrow> unit st" where
  "validate_proof w s intent intent_id =
     rbind (need ProofRegistryNotSet (ro_proof_registry (roles s))) (\<lambda>registry.
     rbind (need ProofNotFound (w_proof w registry intent_id)) (\<lambda>(src_chain_id, src_amount).
     rbind (wormhole_chain_id (in_src_chain intent)) (\<lambda>want_chain_id.
       if src_chain_id \<noteq> want_chain_id then Inl (Error ProofChainMismatch)
       else if src_amount < in_src_amount intent then Inl (Error ProofAmountInsufficient)
       else Inr ())))"

text \<open>The shape of a source token: a 20-byte hex address on EVM chains, base 58 on Solana.\<close>

definition is_hex_char :: "char \<Rightarrow> bool" where
  "is_hex_char c \<longleftrightarrow> (let n = of_char c :: nat in 48 \<le> n \<and> n \<le> 57 \<or> 97 \<le> n \<and> n \<le> 102 \<or> 65 \<le> n \<and> n \<le> 70)"

definition is_base58_char :: "char \<Rightarrow> bool" where
  "is_base58_char c \<longleftrightarrow> (let n = of_char c :: nat in
     49 \<le> n \<and> n \<le> 57 \<or> 65 \<le> n \<and> n \<le> 72 \<or> 74 \<le> n \<and> n \<le> 78 \<or> 80 \<le> n \<and> n \<le> 90 \<or>
     97 \<le> n \<and> n \<le> 107 \<or> 109 \<le> n \<and> n \<le> 122)"

definition validate_src_token :: "string \<Rightarrow> string \<Rightarrow> unit st" where
  "validate_src_token src_chain src_token =
     (let is_evm = src_chain \<in> {''ethereum'', ''base'', ''polygon'', ''arbitrum'', ''optimism''};
          is_solana = src_chain = ''solana''
      in if \<not> is_evm \<and> \<not> is_solana then Inr ()
         else if length src_token > 64 then Inl (Error InvalidSrcToken)
         else if is_evm then
           (if length src_token \<noteq> 42 \<or> src_token ! 0 \<noteq> CHR ''0'' \<or> src_token ! 1 \<noteq> CHR ''x''
            then Inl (Error InvalidSrcToken)
            else if list_all is_hex_char (drop 2 src_token) then Inr () else Inl (Error InvalidSrcToken))
         else if length src_token < 32 \<or> length src_token > 44 then Inl (Error InvalidSrcToken)
         else if src_token ! 0 = CHR ''0'' \<and> src_token ! 1 = CHR ''x'' then Inl (Error InvalidSrcToken)
         else if list_all is_base58_char src_token then Inr () else Inl (Error InvalidSrcToken))"

definition check_policy :: "world \<Rightarrow> settlement \<Rightarrow> address \<Rightarrow> address \<Rightarrow> int \<Rightarrow> unit st" where
  "check_policy w s user dst_token amount =
     (case ro_policy (roles s) of
        None \<Rightarrow> Inr ()
      | Some addr \<Rightarrow>
          (case w_policy w addr user dst_token amount of
             None \<Rightarrow> Inl HostTrap
           | Some allowed \<Rightarrow> if \<not> allowed then Inl (Error PolicyRejected) else Inr ()))"

text \<open>The user's own list of intents, in buckets.\<close>

definition user_intents_append :: "address \<Rightarrow> bytes32 \<Rightarrow> settlement \<Rightarrow> settlement st" where
  "user_intents_append user intent_id s =
     (let count = nat0 (bk_user_count (book s) user);
          bucket = count div USER_INTENT_BUCKET_SIZE;
          page = (case bk_user_pages (book s) (user, bucket) of None \<Rightarrow> [] | Some p \<Rightarrow> p) @ [Some intent_id]
      in rbind (u32 (count + 1)) (\<lambda>n.
           Inr (s\<lparr>book := (book s)\<lparr>bk_user_pages := (bk_user_pages (book s))((user, bucket) \<mapsto> page),
                                   bk_user_count := (bk_user_count (book s))(user \<mapsto> n)\<rparr>\<rparr>)))"

definition is_solver_eligible :: "env \<Rightarrow> settlement \<Rightarrow> address \<Rightarrow> bool st" where
  "is_solver_eligible e s solver =
     (case bo_solvers (bonds s) solver of
        None \<Rightarrow> Inr False
      | Some record \<Rightarrow>
          rbind (slash_cooldown_remaining (so_last_slash record) (now e)) (\<lambda>cooldown.
            Inr (so_active record \<and> so_bond_amount record \<ge> cf_min_bond (load_config s) \<and>
                 so_active_intents record < cf_max_active (load_config s) \<and> cooldown = 0)))"

end
