(* ===== verification/Timelocked_Slot.thy ===== *)
theory Timelocked_Slot
  imports Prelude
begin

text \<open>
  The propose/accept pattern that the settlement contract and the solver registry use for
  every privileged address: a proposal is stored with the earliest time it may be accepted,
  and accepting installs it. The locale states what a client may rely on; the contracts'
  theories interpret it on their own entry points.
\<close>

datatype 'v slot_tx = Propose 'v | Accept 'v | CancelProposal

text \<open>One transaction against a slot; a transaction that aborts changes nothing.\<close>

fun slot_apply :: "(env \<Rightarrow> 'v \<Rightarrow> 's \<Rightarrow> ('e, 's) res) \<Rightarrow> (env \<Rightarrow> 'v \<Rightarrow> 's \<Rightarrow> ('e, 's) res) \<Rightarrow>
    (env \<Rightarrow> 's \<Rightarrow> ('e, 's) res) \<Rightarrow> env \<times> 'v slot_tx \<Rightarrow> 's \<Rightarrow> 's" where
  "slot_apply propose accept withdraw (e, Propose v) s = commit s (propose e v s)"
| "slot_apply propose accept withdraw (e, Accept v) s = commit s (accept e v s)"
| "slot_apply propose accept withdraw (e, CancelProposal) s = commit s (withdraw e s)"

text \<open>A run of committed transactions of a whole contract.\<close>

fun contract_run :: "(env \<Rightarrow> 'ev \<Rightarrow> 's \<Rightarrow> 's) \<Rightarrow> (env \<times> 'ev) list \<Rightarrow> 's \<Rightarrow> 's" where
  "contract_run step [] s = s"
| "contract_run step ((e, ev) # txs) s = contract_run step txs (step e ev s)"

lemma contract_run_append:
  "contract_run step (txs @ txs') s = contract_run step txs' (contract_run step txs s)"
  by (induction txs arbitrary: s) auto

lemma contract_run_invariant:
  "(\<And>e ev s. P s \<Longrightarrow> P (step e ev s)) \<Longrightarrow> P s \<Longrightarrow> P (contract_run step txs s)"
  by (induction txs arbitrary: s) auto

locale timelocked_slot =
  fixes pending :: "'s \<Rightarrow> ('v \<times> nat) option"
    and current :: "'s \<Rightarrow> 'v option"
    and propose :: "env \<Rightarrow> 'v \<Rightarrow> 's \<Rightarrow> ('e, 's) res"
    and accept :: "env \<Rightarrow> 'v \<Rightarrow> 's \<Rightarrow> ('e, 's) res"
    and withdraw :: "env \<Rightarrow> 's \<Rightarrow> ('e, 's) res"
    and delay :: "nat"
  assumes propose_pending: "propose e v s = Inr s' \<Longrightarrow> pending s' = Some (v, now e + delay)"
    and propose_current: "propose e v s = Inr s' \<Longrightarrow> current s' = current s"
    and accept_needs: "accept e v s = Inr s' \<Longrightarrow> \<exists>eta. pending s = Some (v, eta) \<and> eta \<le> now e"
    and accept_current: "accept e v s = Inr s' \<Longrightarrow> current s' = Some v"
    and accept_pending: "accept e v s = Inr s' \<Longrightarrow> pending s' = None"
    and withdraw_pending: "withdraw e s = Inr s' \<Longrightarrow> pending s' = None"
    and withdraw_current: "withdraw e s = Inr s' \<Longrightarrow> current s' = current s"
begin

lemma accept_after_delay:
  assumes "propose e v s = Inr s1" "accept e' w s1 = Inr s2"
  shows "w = v \<and> now e + delay \<le> now e' \<and> current s2 = Some v \<and> pending s2 = None"
  using propose_pending [OF assms(1)] accept_needs [OF assms(2)] accept_current [OF assms(2)]
    accept_pending [OF assms(2)] by auto

lemma no_second_accept: "accept e v s = Inr s1 \<Longrightarrow> accept e' w s1 \<noteq> Inr s2"
  using accept_pending accept_needs by (metis option.distinct(1))

lemma pending_step:
  assumes "pending (slot_apply propose accept withdraw (e, a) s) = Some (v, eta)"
  shows "pending s = Some (v, eta) \<or> a = Propose v \<and> eta = now e + delay"
proof (cases a)
  case (Propose w)
  with assms propose_pending [of e w s] show ?thesis by (cases "propose e w s") auto
next
  case (Accept w)
  with assms accept_pending [of e w s] show ?thesis by (cases "accept e w s") auto
next
  case CancelProposal
  with assms withdraw_pending [of e s] show ?thesis by (cases "withdraw e s") auto
qed

lemma current_step:
  assumes after: "current (slot_apply propose accept withdraw (e, a) s) = Some v"
    and before: "current s \<noteq> Some v"
  shows "a = Accept v \<and> is_ok (accept e v s)"
proof (cases a)
  case (Propose w)
  show ?thesis
  proof (cases "propose e w s")
    case (Inr t)
    from propose_current [OF this] show ?thesis using Inr Propose after before by simp
  qed (use Propose after before in simp)
next
  case (Accept w)
  show ?thesis
  proof (cases "accept e w s")
    case (Inr t)
    from accept_current [OF this] show ?thesis using Inr Accept after by simp
  qed (use Accept after before in simp)
next
  case CancelProposal
  show ?thesis
  proof (cases "withdraw e s")
    case (Inr t)
    from withdraw_current [OF this] show ?thesis using Inr CancelProposal after before by simp
  qed (use CancelProposal after before in simp)
qed

lemma current_kept: "current s \<noteq> None \<Longrightarrow> current (slot_apply propose accept withdraw (e, a) s) \<noteq> None"
proof (cases a)
  case (Propose w)
  assume "current s \<noteq> None"
  with Propose propose_current [of e w s] show ?thesis by (cases "propose e w s") auto
next
  case (Accept w)
  assume "current s \<noteq> None"
  with Accept accept_current [of e w s] show ?thesis by (cases "accept e w s") auto
next
  case CancelProposal
  assume "current s \<noteq> None"
  with CancelProposal withdraw_current [of e s] show ?thesis by (cases "withdraw e s") auto
qed

end

text \<open>
  A contract with such a slot among its transactions: the ones \<open>slot_of\<close> recognises act
  on the slot, every other one leaves the pending proposal alone and may at most fill a slot
  that is still empty. \<open>good\<close> is an invariant of the contract that the last of these may need.
\<close>

locale timelocked_contract = timelocked_slot pending current propose accept withdraw delay
  for pending :: "'s \<Rightarrow> ('v \<times> nat) option" and current :: "'s \<Rightarrow> 'v option"
    and propose :: "env \<Rightarrow> 'v \<Rightarrow> 's \<Rightarrow> ('e, 's) res" and accept :: "env \<Rightarrow> 'v \<Rightarrow> 's \<Rightarrow> ('e, 's) res"
    and withdraw :: "env \<Rightarrow> 's \<Rightarrow> ('e, 's) res" and delay :: nat +
  fixes step :: "env \<Rightarrow> 'ev \<Rightarrow> 's \<Rightarrow> 's"
    and slot_of :: "'ev \<Rightarrow> 'v slot_tx option"
    and good :: "'s \<Rightarrow> bool"
  assumes step_good: "good s \<Longrightarrow> good (step e ev s)"
    and step_slot: "slot_of ev = Some a \<Longrightarrow> step e ev s = slot_apply propose accept withdraw (e, a) s"
    and step_pending: "slot_of ev = None \<Longrightarrow> pending (step e ev s) = pending s"
    and step_current: "good s \<Longrightarrow> slot_of ev = None \<Longrightarrow> current s \<noteq> None \<Longrightarrow> current (step e ev s) = current s"
begin

text \<open>
  Whatever is pending at the end of a run was either pending before it or proposed in it,
  and the value in force changes only by accepting such a proposal after its delay.
\<close>

lemma pending_announced:
  "pending (contract_run step txs s) = Some (v, eta) \<Longrightarrow>
   pending s = Some (v, eta) \<or>
   (\<exists>e ev. (e, ev) \<in> set txs \<and> slot_of ev = Some (Propose v) \<and> eta = now e + delay)"
proof (induction txs arbitrary: s)
  case (Cons tx txs)
  obtain e ev where tx: "tx = (e, ev)" by (cases tx)
  let ?s1 = "step e ev s"
  from Cons.prems have "pending (contract_run step txs ?s1) = Some (v, eta)" by (simp add: tx)
  from Cons.IH [OF this] consider "pending ?s1 = Some (v, eta)"
    | e' ev' where "(e', ev') \<in> set txs" "slot_of ev' = Some (Propose v)" "eta = now e' + delay" by blast
  then show ?case
  proof cases
    case 1
    show ?thesis
    proof (cases "slot_of ev")
      case None
      with 1 step_pending show ?thesis by simp
    next
      case (Some a)
      with 1 have "pending (slot_apply propose accept withdraw (e, a) s) = Some (v, eta)"
        by (simp add: step_slot)
      from pending_step [OF this] Some show ?thesis by (auto simp: tx)
    qed
  next
    case 2
    then show ?thesis by auto
  qed
qed simp

lemma run_good: "good s \<Longrightarrow> good (contract_run step txs s)"
  by (induction txs arbitrary: s) (auto simp: step_good)

lemma run_current_kept: "good s \<Longrightarrow> current s \<noteq> None \<Longrightarrow> current (contract_run step txs s) \<noteq> None"
proof (induction txs arbitrary: s)
  case (Cons tx txs)
  obtain e ev where tx: "tx = (e, ev)" by (cases tx)
  have "current (step e ev s) \<noteq> None"
    using Cons.prems current_kept [of s e] step_slot [of ev] step_current [of s ev e]
    by (cases "slot_of ev") auto
  from Cons.IH [OF step_good [OF Cons.prems(1)] this] show ?case by (simp add: tx)
qed simp

lemma change_announced:
  assumes "good s" "pending s = None" "current s \<noteq> None" "current (contract_run step txs s) = Some v" "current s \<noteq> Some v"
  shows "\<exists>i j e ev e' ev'. i < j \<and> j < length txs \<and> txs ! i = (e, ev) \<and> slot_of ev = Some (Propose v) \<and>
           txs ! j = (e', ev') \<and> slot_of ev' = Some (Accept v) \<and> now e + delay \<le> now e'"
  using assms(4)
proof (induction txs rule: rev_induct)
  case Nil
  with assms(5) show ?case by simp
next
  case (snoc tx txs)
  obtain e' ev' where tx: "tx = (e', ev')" by (cases tx)
  let ?s1 = "contract_run step txs s"
  have later: "current (step e' ev' ?s1) = Some v" using snoc.prems by (simp add: contract_run_append tx)
  show ?case
  proof (cases "current ?s1 = Some v")
    case True
    from snoc.IH [OF this] obtain i j e1 ev1 e2 ev2 where
      "i < j" "j < length txs" "txs ! i = (e1, ev1)" "slot_of ev1 = Some (Propose v)"
      "txs ! j = (e2, ev2)" "slot_of ev2 = Some (Accept v)" "now e1 + delay \<le> now e2" by blast
    then show ?thesis
      by (intro exI [of _ i] exI [of _ j] exI [of _ e1] exI [of _ ev1] exI [of _ e2] exI [of _ ev2])
        (simp add: nth_append)
  next
    case False
    have "slot_of ev' \<noteq> None"
      using step_current [of ?s1 ev' e'] run_good [OF assms(1), of txs] run_current_kept [OF assms(1,3), of txs] later False by auto
    then obtain a where a: "slot_of ev' = Some a" by blast
    have "current (slot_apply propose accept withdraw (e', a) ?s1) = Some v"
      using later by (simp add: step_slot [OF a])
    from current_step [OF this False] have acc: "a = Accept v" and "is_ok (accept e' v ?s1)"
      by simp_all
    then obtain eta where "pending ?s1 = Some (v, eta)" "eta \<le> now e'"
      using accept_needs unfolding is_ok_iff by blast
    with pending_announced [of txs s v eta] assms(2) obtain e ev where
      ann: "(e, ev) \<in> set txs" "slot_of ev = Some (Propose v)" "now e + delay \<le> now e'"
      by auto
    then obtain i where "i < length txs" "txs ! i = (e, ev)" by (auto simp: in_set_conv_nth)
    then show ?thesis
      using tx a acc ann
      by (intro exI [of _ i] exI [of _ "length txs"] exI [of _ e] exI [of _ ev] exI [of _ e'] exI [of _ ev'])
        (simp add: nth_append)
  qed
qed

end

end
