(* ===== verification/Settlement_Admin.thy ===== *)
theory Settlement_Admin
  imports Settlement_Helpers Timelocked_Slot
begin

text \<open>
  The settlement contract's administration: initialisation, the two timelocked role
  transfers, upgrades and migration, the configuration and its bounds, the allowlists for
  destination tokens and source chains, pausing, token rescue, the policy, oracle, arbiter and
  bond-token settings.
\<close>

section \<open>Updating one group of keys\<close>

definition upd_roles :: "(st_roles \<Rightarrow> st_roles) \<Rightarrow> settlement \<Rightarrow> settlement" where
  "upd_roles f s = s\<lparr>roles := f (roles s)\<rparr>"

definition upd_allow :: "(st_allow \<Rightarrow> st_allow) \<Rightarrow> settlement \<Rightarrow> settlement" where
  "upd_allow f s = s\<lparr>allow := f (allow s)\<rparr>"

definition upd_bonds :: "(st_bonds \<Rightarrow> st_bonds) \<Rightarrow> settlement \<Rightarrow> settlement" where
  "upd_bonds f s = s\<lparr>bonds := f (bonds s)\<rparr>"

lemma upd_simps [simp]:
  "roles (upd_roles f s) = f (roles s)" "allow (upd_roles f s) = allow s"
  "bonds (upd_roles f s) = bonds s" "book (upd_roles f s) = book s"
  "roles (upd_allow g s) = roles s" "allow (upd_allow g s) = g (allow s)"
  "bonds (upd_allow g s) = bonds s" "book (upd_allow g s) = book s"
  "roles (upd_bonds h s) = roles s" "allow (upd_bonds h s) = allow s"
  "bonds (upd_bonds h s) = h (bonds s)" "book (upd_bonds h s) = book s"
  by (simp_all add: upd_roles_def upd_allow_def upd_bonds_def)

definition by_admin :: "env \<Rightarrow> settlement \<Rightarrow> settlement \<Rightarrow> settlement st" where
  "by_admin e s s' = rbind (st_require_admin e s) (\<lambda>_. Inr s')"

definition decimals_of :: "world \<Rightarrow> address \<Rightarrow> nat st" where
  "decimals_of w token = (case w_decimals w token of None \<Rightarrow> Inl HostTrap | Some d \<Rightarrow> Inr d)"

section \<open>Initialisation\<close>

definition st_initialize :: "world \<Rightarrow> env \<Rightarrow> address \<Rightarrow> address \<Rightarrow> address \<Rightarrow> settlement \<Rightarrow> settlement st" where
  "st_initialize w e admin fee_recipient bond_token s =
     (if ro_admin (roles s) \<noteq> None then Inl (Error AlreadyInitialized)
      else
        rbind (require_auth e admin) (\<lambda>_.
        rbind (decimals_of w bond_token) (\<lambda>_.
          Inr (s\<lparr>roles := (roles s)\<lparr>ro_admin := Some admin, ro_fee_recipient := Some fee_recipient,
                   ro_config := Some default_config, ro_migration := Some MIGRATION_VERSION\<rparr>,
                 bonds := (bonds s)\<lparr>bo_token := Some bond_token, bo_total_solvers := Some 0,
                   bo_total_bonded := Some 0\<rparr>,
                 book := (book s)\<lparr>bk_total := Some 0, bk_volume := Some 0, bk_open := Some 0\<rparr>\<rparr>))))"

section \<open>The fee recipient and the admin\<close>

definition propose_fee_recipient :: "env \<Rightarrow> address \<Rightarrow> settlement \<Rightarrow> settlement st" where
  "propose_fee_recipient e new_fee_recipient s =
     rbind (need NotInitialized (ro_admin (roles s))) (\<lambda>admin.
     rbind (require_auth e admin) (\<lambda>_.
     rbind (u64 (now e + ADMIN_TIMELOCK_DELAY)) (\<lambda>eta.
       Inr (upd_roles (\<lambda>r. r\<lparr>ro_pending_fee := Some (new_fee_recipient, eta)\<rparr>) s))))"

definition accept_fee_recipient :: "env \<Rightarrow> address \<Rightarrow> settlement \<Rightarrow> settlement st" where
  "accept_fee_recipient e new_fee_recipient s =
     rbind (need NoPendingFeeRecipient (ro_pending_fee (roles s))) (\<lambda>(pending, eta).
       if pending \<noteq> new_fee_recipient then Inl (Error Unauthorized)
       else if now e < eta then Inl (Error TimelockNotElapsed)
       else
         rbind (require_auth e new_fee_recipient) (\<lambda>_.
           Inr (upd_roles (\<lambda>r. r\<lparr>ro_fee_recipient := Some new_fee_recipient, ro_pending_fee := None\<rparr>) s)))"

definition cancel_pending_fee_recipient :: "env \<Rightarrow> settlement \<Rightarrow> settlement st" where
  "cancel_pending_fee_recipient e s =
     rbind (require_auth e (self e)) (\<lambda>_.
     rbind (need NoPendingFeeRecipient (ro_pending_fee (roles s))) (\<lambda>_.
       Inr (upd_roles (\<lambda>r. r\<lparr>ro_pending_fee := None\<rparr>) s)))"

definition propose_admin_transfer :: "env \<Rightarrow> address \<Rightarrow> settlement \<Rightarrow> settlement st" where
  "propose_admin_transfer e new_admin s =
     rbind (need NotInitialized (ro_admin (roles s))) (\<lambda>admin.
     rbind (require_auth e admin) (\<lambda>_.
     rbind (u64 (now e + ADMIN_TIMELOCK_DELAY)) (\<lambda>eta.
       Inr (upd_roles (\<lambda>r. r\<lparr>ro_pending_admin := Some (new_admin, eta)\<rparr>) s))))"

definition accept_admin_transfer :: "env \<Rightarrow> address \<Rightarrow> settlement \<Rightarrow> settlement st" where
  "accept_admin_transfer e new_admin s =
     rbind (need NoPendingAdminTransfer (ro_pending_admin (roles s))) (\<lambda>(pending, eta).
       if pending \<noteq> new_admin then Inl (Error Unauthorized)
       else if now e < eta then Inl (Error TimelockNotElapsed)
       else
         rbind (require_auth e new_admin) (\<lambda>_.
           Inr (upd_roles (\<lambda>r. r\<lparr>ro_admin := Some new_admin, ro_pending_admin := None\<rparr>) s)))"

section \<open>Upgrade, migration, configuration\<close>

definition propose_upgrade :: "env \<Rightarrow> bytes32 \<Rightarrow> settlement \<Rightarrow> settlement st" where
  "propose_upgrade e new_wasm_hash s =
     rbind (st_require_admin e s) (\<lambda>_.
     rbind (u64 (now e + ADMIN_TIMELOCK_DELAY)) (\<lambda>eta.
       Inr (upd_roles (\<lambda>r. r\<lparr>ro_pending_upgrade := Some (new_wasm_hash, eta)\<rparr>) s)))"

definition execute_upgrade :: "env \<Rightarrow> bytes32 \<Rightarrow> settlement \<Rightarrow> settlement st" where
  "execute_upgrade e new_wasm_hash s =
     rbind (st_require_admin e s) (\<lambda>_.
     rbind (need NoPendingUpgrade (ro_pending_upgrade (roles s))) (\<lambda>(pending, eta).
       if pending \<noteq> new_wasm_hash then Inl (Error Unauthorized)
       else if now e < eta then Inl (Error TimelockNotElapsed)
       else Inr (upd_roles (\<lambda>r. r\<lparr>ro_pending_upgrade := None\<rparr>) s)))"

definition migrate :: "env \<Rightarrow> settlement \<Rightarrow> settlement st" where
  "migrate e s =
     rbind (st_require_admin e s) (\<lambda>_.
       if nat0 (ro_migration (roles s)) \<ge> MIGRATION_VERSION then Inl (Error AlreadyMigrated)
       else Inr (upd_roles (\<lambda>r. r\<lparr>ro_migration := Some MIGRATION_VERSION\<rparr>) s))"

definition set_config :: "env \<Rightarrow> int \<Rightarrow> nat \<Rightarrow> nat \<Rightarrow> int \<Rightarrow> nat \<Rightarrow> settlement \<Rightarrow> settlement st" where
  "set_config e min_bond fill_window intent_expiry protocol_fee_bps max_active s =
     rbind (st_require_admin e s) (\<lambda>_.
       if \<not> (0 \<le> protocol_fee_bps \<and> protocol_fee_bps \<le> MAX_PROTOCOL_FEE_BPS) then Inl (Error InvalidConfig)
       else if fill_window < MIN_FILL_WINDOW_SECS then Inl (Error InvalidConfig)
       else if intent_expiry < MIN_INTENT_EXPIRY_SECS \<or> intent_expiry \<le> fill_window then Inl (Error InvalidConfig)
       else if min_bond < MIN_BOND_FLOOR then Inl (Error InvalidConfig)
       else if max_active = 0 then Inl (Error InvalidConfig)
       else
         let cfg = (load_config s)\<lparr>cf_min_bond := min_bond, cf_fill_window := fill_window,
               cf_intent_expiry := intent_expiry, cf_protocol_fee_bps := protocol_fee_bps,
               cf_max_active := max_active\<rparr>
         in Inr (upd_roles (\<lambda>r. r\<lparr>ro_config := Some cfg\<rparr>) s))"

section \<open>Destination tokens\<close>

definition propose_add_dst_token :: "world \<Rightarrow> env \<Rightarrow> address \<Rightarrow> settlement \<Rightarrow> settlement st" where
  "propose_add_dst_token w e token s =
     rbind (st_require_admin e s) (\<lambda>_.
     rbind (decimals_of w token) (\<lambda>_.
     rbind (u64 (now e + ADMIN_TIMELOCK_DELAY)) (\<lambda>eta.
       Inr (upd_allow (\<lambda>a. a\<lparr>al_dst_add := (al_dst_add a)(token \<mapsto> eta)\<rparr>) s))))"

text \<open>The allowlist's pages are written by the routine of the solver directory, over other keys.\<close>

definition add_to_dst_token_list :: "address \<Rightarrow> address paged \<Rightarrow> address paged st" where
  [simp]: "add_to_dst_token_list token list = paged_add token list"

definition remove_from_dst_token_list :: "address \<Rightarrow> address paged \<Rightarrow> address paged st" where
  [simp]: "remove_from_dst_token_list token list = paged_remove token list"

definition execute_add_dst_token :: "env \<Rightarrow> address \<Rightarrow> settlement \<Rightarrow> settlement st" where
  "execute_add_dst_token e token s =
     rbind (need NoPendingDstTokenChange (al_dst_add (allow s) token)) (\<lambda>eta.
       if now e < eta then Inl (Error TimelockNotElapsed)
       else
         rbind (add_to_dst_token_list token (al_dst_list (allow s))) (\<lambda>l.
           Inr (upd_allow (\<lambda>a. a\<lparr>al_dst_add := (al_dst_add a)(token := None),
                                 al_dst := (al_dst a)(token \<mapsto> True), al_dst_list := l\<rparr>) s)))"

definition cancel_pending_dst_token_add :: "env \<Rightarrow> address \<Rightarrow> settlement \<Rightarrow> settlement st" where
  "cancel_pending_dst_token_add e token s =
     rbind (st_require_admin e s) (\<lambda>_.
     rbind (need NoPendingDstTokenChange (al_dst_add (allow s) token)) (\<lambda>_.
       Inr (upd_allow (\<lambda>a. a\<lparr>al_dst_add := (al_dst_add a)(token := None)\<rparr>) s)))"

definition propose_remove_dst_token :: "env \<Rightarrow> address \<Rightarrow> settlement \<Rightarrow> settlement st" where
  "propose_remove_dst_token e token s =
     rbind (st_require_admin e s) (\<lambda>_.
     rbind (u64 (now e + ADMIN_TIMELOCK_DELAY)) (\<lambda>eta.
       Inr (upd_allow (\<lambda>a. a\<lparr>al_dst_remove := (al_dst_remove a)(token \<mapsto> eta)\<rparr>) s)))"

definition execute_remove_dst_token :: "env \<Rightarrow> address \<Rightarrow> settlement \<Rightarrow> settlement st" where
  "execute_remove_dst_token e token s =
     rbind (need NoPendingDstTokenChange (al_dst_remove (allow s) token)) (\<lambda>eta.
       if now e < eta then Inl (Error TimelockNotElapsed)
       else
         rbind (remove_from_dst_token_list token (al_dst_list (allow s))) (\<lambda>l.
           Inr (upd_allow (\<lambda>a. a\<lparr>al_dst_remove := (al_dst_remove a)(token := None),
                                 al_dst := (al_dst a)(token := None), al_dst_list := l\<rparr>) s)))"

definition cancel_pending_dst_token_remove :: "env \<Rightarrow> address \<Rightarrow> settlement \<Rightarrow> settlement st" where
  "cancel_pending_dst_token_remove e token s =
     rbind (st_require_admin e s) (\<lambda>_.
     rbind (need NoPendingDstTokenChange (al_dst_remove (allow s) token)) (\<lambda>_.
       Inr (upd_allow (\<lambda>a. a\<lparr>al_dst_remove := (al_dst_remove a)(token := None)\<rparr>) s)))"

definition is_dst_token_allowed :: "settlement \<Rightarrow> address \<Rightarrow> bool" where
  "is_dst_token_allowed s token \<longleftrightarrow> al_dst (allow s) token \<noteq> None"

definition is_dst_allowlist_enabled :: "settlement \<Rightarrow> bool" where
  "is_dst_allowlist_enabled s = (case al_dst_enabled (allow s) of None \<Rightarrow> False | Some b \<Rightarrow> b)"

definition set_dst_allowlist_enabled :: "env \<Rightarrow> bool \<Rightarrow> settlement \<Rightarrow> settlement st" where
  "set_dst_allowlist_enabled e enabled s =
     by_admin e s (upd_allow (\<lambda>a. a\<lparr>al_dst_enabled := Some enabled\<rparr>) s)"

definition list_allowed_dst_tokens :: "settlement \<Rightarrow> address list" where
  "list_allowed_dst_tokens s = paged_list (al_dst_list (allow s))"

definition set_min_bond_multiplier :: "env \<Rightarrow> address \<Rightarrow> int \<Rightarrow> settlement \<Rightarrow> settlement st" where
  "set_min_bond_multiplier e token multiplier s =
     rbind (st_require_admin e s) (\<lambda>_.
       if multiplier \<le> 0 then Inl (Error ZeroAmount)
       else Inr (upd_allow (\<lambda>a. a\<lparr>al_multiplier := (al_multiplier a)(token \<mapsto> multiplier)\<rparr>) s))"

section \<open>Source chains\<close>

definition add_allowed_src_chain :: "env \<Rightarrow> string \<Rightarrow> settlement \<Rightarrow> settlement st" where
  "add_allowed_src_chain e chain s =
     by_admin e s (upd_allow (\<lambda>a. a\<lparr>al_src := (al_src a)(chain \<mapsto> True)\<rparr>) s)"

definition remove_allowed_src_chain :: "env \<Rightarrow> string \<Rightarrow> settlement \<Rightarrow> settlement st" where
  "remove_allowed_src_chain e chain s =
     by_admin e s (upd_allow (\<lambda>a. a\<lparr>al_src := (al_src a)(chain := None)\<rparr>) s)"

definition is_src_chain_allowed :: "settlement \<Rightarrow> string \<Rightarrow> bool" where
  "is_src_chain_allowed s chain \<longleftrightarrow> al_src (allow s) chain \<noteq> None"

definition set_src_chain_allowlist_enabled :: "env \<Rightarrow> bool \<Rightarrow> settlement \<Rightarrow> settlement st" where
  "set_src_chain_allowlist_enabled e enabled s =
     by_admin e s (upd_allow (\<lambda>a. a\<lparr>al_src_enabled := Some enabled\<rparr>) s)"

definition is_src_chain_allowlist_enabled :: "settlement \<Rightarrow> bool" where
  "is_src_chain_allowlist_enabled s = (case al_src_enabled (allow s) of None \<Rightarrow> False | Some b \<Rightarrow> b)"

section \<open>Pausing, rescue, and the other settings\<close>

definition set_pauser :: "env \<Rightarrow> address \<Rightarrow> settlement \<Rightarrow> settlement st" where
  "set_pauser e pauser s = by_admin e s (upd_roles (\<lambda>r. r\<lparr>ro_pauser := Some pauser\<rparr>) s)"

definition st_pause :: "env \<Rightarrow> address \<Rightarrow> settlement \<Rightarrow> settlement st" where
  "st_pause e caller s =
     rbind (require_admin_or_pauser e s caller) (\<lambda>_.
       Inr (upd_roles (\<lambda>r. r\<lparr>ro_paused := Some True\<rparr>) s))"

definition st_unpause :: "env \<Rightarrow> settlement \<Rightarrow> settlement st" where
  "st_unpause e s = by_admin e s (upd_roles (\<lambda>r. r\<lparr>ro_paused := Some False\<rparr>) s)"

definition set_proof_registry :: "env \<Rightarrow> address \<Rightarrow> settlement \<Rightarrow> settlement st" where
  "set_proof_registry e registry s =
     by_admin e s (upd_roles (\<lambda>r. r\<lparr>ro_proof_registry := Some registry\<rparr>) s)"

definition propose_set_policy :: "env \<Rightarrow> address option \<Rightarrow> settlement \<Rightarrow> settlement st" where
  "propose_set_policy e policy s =
     rbind (st_require_admin e s) (\<lambda>_.
     rbind (u64 (now e + ADMIN_TIMELOCK_DELAY)) (\<lambda>eta.
       Inr (upd_roles (\<lambda>r. r\<lparr>ro_pending_policy := Some (policy, eta)\<rparr>) s)))"

definition execute_set_policy :: "env \<Rightarrow> settlement \<Rightarrow> settlement st" where
  "execute_set_policy e s =
     rbind (st_require_admin e s) (\<lambda>_.
     rbind (need NoPendingPolicy (ro_pending_policy (roles s))) (\<lambda>(policy, eta).
       if now e < eta then Inl (Error TimelockNotElapsed)
       else Inr (upd_roles (\<lambda>r. r\<lparr>ro_policy := policy, ro_pending_policy := None\<rparr>) s)))"

definition rescue_tokens :: "env \<Rightarrow> address \<Rightarrow> address \<Rightarrow> int \<Rightarrow> settlement \<Rightarrow> (settlement \<times> xfer list) st" where
  "rescue_tokens e token to amount s =
     rbind (st_require_admin e s) (\<lambda>_.
       if amount \<le> 0 then Inl (Error ZeroAmount)
       else
         rbind (load_bond_token s) (\<lambda>bond_token.
           if token = bond_token then Inl (Error RescueProtectedToken)
           else rbind (transfer e token (self e) to amount []) (\<lambda>tr. Inr (s, tr))))"

definition propose_oracle :: "env \<Rightarrow> address \<Rightarrow> settlement \<Rightarrow> settlement st" where
  "propose_oracle e oracle s =
     rbind (st_require_admin e s) (\<lambda>_.
     rbind (u64 (now e + ADMIN_TIMELOCK_DELAY)) (\<lambda>eta.
       Inr (upd_roles (\<lambda>r. r\<lparr>ro_pending_oracle := Some (oracle, eta)\<rparr>) s)))"

definition execute_oracle :: "env \<Rightarrow> settlement \<Rightarrow> settlement st" where
  "execute_oracle e s =
     rbind (need NoPendingOracle (ro_pending_oracle (roles s))) (\<lambda>(pending, eta).
       if now e < eta then Inl (Error OracleTimelockNotElapsed)
       else Inr (upd_roles (\<lambda>r. r\<lparr>ro_oracle := Some pending, ro_pending_oracle := None\<rparr>) s))"

definition set_arbiter :: "env \<Rightarrow> address \<Rightarrow> settlement \<Rightarrow> settlement st" where
  "set_arbiter e arbiter s = by_admin e s (upd_roles (\<lambda>r. r\<lparr>ro_arbiter := Some arbiter\<rparr>) s)"

definition set_arbiter_panel :: "env \<Rightarrow> address \<Rightarrow> settlement \<Rightarrow> settlement st" where
  "set_arbiter_panel e panel s = by_admin e s (upd_roles (\<lambda>r. r\<lparr>ro_arbiter := Some panel\<rparr>) s)"

definition add_allowed_bond_token :: "world \<Rightarrow> env \<Rightarrow> address \<Rightarrow> settlement \<Rightarrow> settlement st" where
  "add_allowed_bond_token w e token s =
     rbind (st_require_admin e s) (\<lambda>_.
     rbind (decimals_of w token) (\<lambda>_.
       Inr (upd_bonds (\<lambda>b. b\<lparr>bo_allowed := (bo_allowed b)(token \<mapsto> True)\<rparr>) s)))"

definition remove_allowed_bond_token :: "env \<Rightarrow> address \<Rightarrow> settlement \<Rightarrow> settlement st" where
  "remove_allowed_bond_token e token s =
     by_admin e s (upd_bonds (\<lambda>b. b\<lparr>bo_allowed := (bo_allowed b)(token := None)\<rparr>) s)"

definition set_bond_token_min :: "env \<Rightarrow> address \<Rightarrow> int \<Rightarrow> settlement \<Rightarrow> settlement st" where
  "set_bond_token_min e token amount s =
     rbind (st_require_admin e s) (\<lambda>_.
       if amount \<le> 0 then Inl (Error ZeroAmount)
       else Inr (upd_bonds (\<lambda>b. b\<lparr>bo_min := (bo_min b)(token \<mapsto> amount)\<rparr>) s))"

definition set_bid_window_enabled :: "env \<Rightarrow> bool \<Rightarrow> settlement \<Rightarrow> settlement st" where
  "set_bid_window_enabled e enabled s =
     by_admin e s (s\<lparr>book := (book s)\<lparr>bk_bid_enabled := Some enabled\<rparr>\<rparr>)"

section \<open>One administrative transaction\<close>

datatype admin_event =
    AInit address address address
  | AProposeFee address | AAcceptFee address | ACancelFee
  | AProposeAdmin address | AAcceptAdmin address
  | AProposeUpgrade bytes32 | AExecuteUpgrade bytes32 | AMigrate
  | ASetConfig int nat nat int nat
  | AProposeAddDst address | AExecuteAddDst address | ACancelAddDst address
  | AProposeRemoveDst address | AExecuteRemoveDst address | ACancelRemoveDst address
  | ASetDstEnabled bool | ASetMultiplier address int
  | AAddSrc string | ARemoveSrc string | ASetSrcEnabled bool
  | ASetPauser address | APause address | AUnpause
  | ASetProofRegistry address | AProposePolicy "address option" | AExecutePolicy
  | ARescue address address int
  | AProposeOracle address | AExecuteOracle
  | ASetArbiter address | ASetArbiterPanel address
  | AAddBondToken address | ARemoveBondToken address | ASetBondMin address int
  | ASetBidWindow bool

definition no_transfer :: "settlement st \<Rightarrow> (settlement \<times> xfer list) st" where
  "no_transfer m = rbind m (\<lambda>s. Inr (s, []))"

lemma no_transfer_eq_Inr [simp]: "no_transfer m = Inr (s, tr) \<longleftrightarrow> m = Inr s \<and> tr = []"
  by (auto simp: no_transfer_def)

fun admin_apply :: "world \<Rightarrow> env \<Rightarrow> admin_event \<Rightarrow> settlement \<Rightarrow> (settlement \<times> xfer list) st" where
  "admin_apply w e (AInit a f b) s = no_transfer (st_initialize w e a f b s)"
| "admin_apply w e (AProposeFee a) s = no_transfer (propose_fee_recipient e a s)"
| "admin_apply w e (AAcceptFee a) s = no_transfer (accept_fee_recipient e a s)"
| "admin_apply w e ACancelFee s = no_transfer (cancel_pending_fee_recipient e s)"
| "admin_apply w e (AProposeAdmin a) s = no_transfer (propose_admin_transfer e a s)"
| "admin_apply w e (AAcceptAdmin a) s = no_transfer (accept_admin_transfer e a s)"
| "admin_apply w e (AProposeUpgrade h) s = no_transfer (propose_upgrade e h s)"
| "admin_apply w e (AExecuteUpgrade h) s = no_transfer (execute_upgrade e h s)"
| "admin_apply w e AMigrate s = no_transfer (migrate e s)"
| "admin_apply w e (ASetConfig mb fw ie fee n) s = no_transfer (set_config e mb fw ie fee n s)"
| "admin_apply w e (AProposeAddDst t) s = no_transfer (propose_add_dst_token w e t s)"
| "admin_apply w e (AExecuteAddDst t) s = no_transfer (execute_add_dst_token e t s)"
| "admin_apply w e (ACancelAddDst t) s = no_transfer (cancel_pending_dst_token_add e t s)"
| "admin_apply w e (AProposeRemoveDst t) s = no_transfer (propose_remove_dst_token e t s)"
| "admin_apply w e (AExecuteRemoveDst t) s = no_transfer (execute_remove_dst_token e t s)"
| "admin_apply w e (ACancelRemoveDst t) s = no_transfer (cancel_pending_dst_token_remove e t s)"
| "admin_apply w e (ASetDstEnabled b) s = no_transfer (set_dst_allowlist_enabled e b s)"
| "admin_apply w e (ASetMultiplier t m) s = no_transfer (set_min_bond_multiplier e t m s)"
| "admin_apply w e (AAddSrc c) s = no_transfer (add_allowed_src_chain e c s)"
| "admin_apply w e (ARemoveSrc c) s = no_transfer (remove_allowed_src_chain e c s)"
| "admin_apply w e (ASetSrcEnabled b) s = no_transfer (set_src_chain_allowlist_enabled e b s)"
| "admin_apply w e (ASetPauser p) s = no_transfer (set_pauser e p s)"
| "admin_apply w e (APause c) s = no_transfer (st_pause e c s)"
| "admin_apply w e AUnpause s = no_transfer (st_unpause e s)"
| "admin_apply w e (ASetProofRegistry r) s = no_transfer (set_proof_registry e r s)"
| "admin_apply w e (AProposePolicy p) s = no_transfer (propose_set_policy e p s)"
| "admin_apply w e AExecutePolicy s = no_transfer (execute_set_policy e s)"
| "admin_apply w e (ARescue t to v) s = rescue_tokens e t to v s"
| "admin_apply w e (AProposeOracle a) s = no_transfer (propose_oracle e a s)"
| "admin_apply w e AExecuteOracle s = no_transfer (execute_oracle e s)"
| "admin_apply w e (ASetArbiter a) s = no_transfer (set_arbiter e a s)"
| "admin_apply w e (ASetArbiterPanel a) s = no_transfer (set_arbiter_panel e a s)"
| "admin_apply w e (AAddBondToken t) s = no_transfer (add_allowed_bond_token w e t s)"
| "admin_apply w e (ARemoveBondToken t) s = no_transfer (remove_allowed_bond_token e t s)"
| "admin_apply w e (ASetBondMin t v) s = no_transfer (set_bond_token_min e t v s)"
| "admin_apply w e (ASetBidWindow b) s = no_transfer (set_bid_window_enabled e b s)"

end
