(* ===== verification/Settlement_Bonds.thy ===== *)
theory Settlement_Bonds
  imports Settlement_Helpers
begin

text \<open>
  Registering and bonding solvers in the settlement contract, in the default bond token and
  in further allowed tokens; withdrawing and deregistering.
\<close>

section \<open>Registration\<close>

definition fresh_solver :: "env \<Rightarrow> address \<Rightarrow> SolverRecord" where
  "fresh_solver e solver =
     \<lparr>so_address = solver, so_bond_amount = 0, so_completed = 0, so_failed = 0, so_volume = 0,
      so_active = True, so_registered_at = now e, so_active_intents = 0, so_last_slash = 0,
      so_bond_tokens = []\<rparr>"

text \<open>The counter and the paged directory, for a solver that is new.\<close>

definition count_new_solver :: "address \<Rightarrow> settlement \<Rightarrow> settlement st" where
  "count_new_solver solver s =
     rbind (u32 (nat0 (bo_total_solvers (bonds s)) + 1)) (\<lambda>n.
     rbind (paged_add solver (bo_list (bonds s))) (\<lambda>l.
       Inr (s\<lparr>bonds := (bonds s)\<lparr>bo_total_solvers := Some n, bo_list := l\<rparr>\<rparr>)))"

definition register_solver_inner :: "world \<Rightarrow> env \<Rightarrow> address \<Rightarrow> address \<Rightarrow> int \<Rightarrow> settlement
    \<Rightarrow> (settlement \<times> xfer list) st" where
  "register_solver_inner w e solver bond_token bond_amount s =
     rbind (require_auth e solver) (\<lambda>_.
     rbind (require_not_paused s) (\<lambda>_.
       if bond_amount \<le> 0 then Inl (Error ZeroAmount)
       else
         rbind (is_bond_token_allowed s bond_token) (\<lambda>allowed.
           if \<not> allowed then Inl (Error BondTokenNotAllowed)
           else
             let existing = bo_solvers (bonds s) solver;
                 is_new_solver = (existing = None);
                 record = (case existing of Some r \<Rightarrow> r\<lparr>so_active := True\<rparr> | None \<Rightarrow> fresh_solver e solver)
             in rbind (get_solver_bond_amount s record bond_token) (\<lambda>existing_bond.
                rbind (i128 (existing_bond + bond_amount)) (\<lambda>new_bond.
                rbind (min_bond_for_token s bond_token) (\<lambda>floor_bond.
                  if new_bond < floor_bond then Inl (Error SolverBondTooLow)
                  else if existing_bond = 0 \<and> length (so_bond_tokens record) \<ge> MAX_BOND_TOKENS
                  then Inl (Error TooManyBondTokens)
                  else
                    rbind (set_solver_bond_amount s record bond_token new_bond) (\<lambda>(s1, record1).
                    let s2 = save_solver solver record1 s1
                    in rbind (i128 (or0 (bo_total_bonded (bonds s2)) + bond_amount)) (\<lambda>total.
                       let s3 = adjust_token_liabilities w bond_token bond_amount (set_total_bonded total s2)
                       in rbind (if is_new_solver then count_new_solver solver s3 else Inr s3) (\<lambda>s4.
                          rbind (pull_exact e bond_token solver bond_amount []) (\<lambda>(tr, received).
                            if received \<noteq> bond_amount then
                              rbind (i128 (existing_bond + received)) (\<lambda>corrected.
                              rbind (set_solver_bond_amount s4 record1 bond_token corrected) (\<lambda>(s5, record2).
                                Inr (save_solver solver record2 s5, tr)))
                            else Inr (s4, tr))))))))))) "

definition register_solver :: "world \<Rightarrow> env \<Rightarrow> address \<Rightarrow> int \<Rightarrow> settlement \<Rightarrow> (settlement \<times> xfer list) st" where
  "register_solver w e solver bond_amount s =
     rbind (load_bond_token s) (\<lambda>bond_token. register_solver_inner w e solver bond_token bond_amount s)"

definition register_solver_with_token :: "world \<Rightarrow> env \<Rightarrow> address \<Rightarrow> address \<Rightarrow> int \<Rightarrow> settlement
    \<Rightarrow> (settlement \<times> xfer list) st" where
  "register_solver_with_token w e solver bond_token bond_amount s =
     register_solver_inner w e solver bond_token bond_amount s"

section \<open>Deregistration\<close>

text \<open>
  The refunds: the default bond, then the loop over the record's tokens, which appends every further
  token that still has a positive amount.
\<close>

fun refund_loop :: "settlement \<Rightarrow> address \<Rightarrow> address \<Rightarrow> address list \<Rightarrow> (address \<times> int) list \<Rightarrow> (address \<times> int) list" where
  "refund_loop s solver default_token [] refunds = refunds"
| "refund_loop s solver default_token (t # ts) refunds =
     (if t = default_token then refund_loop s solver default_token ts refunds
      else let amt = or0 (bo_extra (bonds s) (solver, t))
           in refund_loop s solver default_token ts (if amt > 0 then refunds @ [(t, amt)] else refunds))"

definition solver_refunds :: "settlement \<Rightarrow> address \<Rightarrow> SolverRecord \<Rightarrow> address \<Rightarrow> (address \<times> int) list" where
  "solver_refunds s solver record default_token =
     refund_loop s solver default_token (so_bond_tokens record)
       (if so_bond_amount record > 0 then [(default_token, so_bond_amount record)] else [])"

fun clear_extras :: "address \<Rightarrow> address \<Rightarrow> (address \<times> int) list \<Rightarrow> settlement \<Rightarrow> settlement" where
  "clear_extras solver default_token [] s = s"
| "clear_extras solver default_token ((t, _) # rs) s =
     clear_extras solver default_token rs
       (if t \<noteq> default_token
        then s\<lparr>bonds := (bonds s)\<lparr>bo_extra := (bo_extra (bonds s))((solver, t) := None)\<rparr>\<rparr> else s)"

fun pay_refunds :: "world \<Rightarrow> env \<Rightarrow> address \<Rightarrow> (address \<times> int) list \<Rightarrow> settlement \<Rightarrow> xfer list
    \<Rightarrow> (settlement \<times> xfer list) st" where
  "pay_refunds w e solver [] s tr = Inr (s, tr)"
| "pay_refunds w e solver ((t, amt) # rs) s tr =
     (let s1 = adjust_token_liabilities w t (- amt) s
      in rbind (transfer e t (self e) solver amt tr) (\<lambda>tr1. pay_refunds w e solver rs s1 tr1))"

definition deregister_solver :: "world \<Rightarrow> env \<Rightarrow> address \<Rightarrow> settlement \<Rightarrow> (settlement \<times> xfer list) st" where
  "deregister_solver w e solver s =
     rbind (require_auth e solver) (\<lambda>_.
     rbind (require_not_paused s) (\<lambda>_.
     rbind (load_solver s solver) (\<lambda>record.
       if so_active_intents record > 0 then Inl (Error SolverHasActiveIntents)
       else
         rbind (load_bond_token s) (\<lambda>default_token.
         let refunds = solver_refunds s solver record default_token;
             s1 = clear_extras solver default_token refunds s;
             s2 = s1\<lparr>bonds := (bonds s1)\<lparr>bo_solvers := (bo_solvers (bonds s1))(solver := None),
                    bo_total_solvers := Some (nat0 (bo_total_solvers (bonds s1)) - 1)\<rparr>\<rparr>
         in rbind (paged_remove solver (bo_list (bonds s2))) (\<lambda>l.
              pay_refunds w e solver refunds (s2\<lparr>bonds := (bonds s2)\<lparr>bo_list := l\<rparr>\<rparr>) [])))))"

section \<open>Withdrawing\<close>

definition withdraw_bond_inner :: "env \<Rightarrow> address \<Rightarrow> address \<Rightarrow> int \<Rightarrow> settlement
    \<Rightarrow> (settlement \<times> xfer list) st" where
  "withdraw_bond_inner e solver bond_token amount s =
     rbind (require_auth e solver) (\<lambda>_.
     rbind (require_not_paused s) (\<lambda>_.
       if amount \<le> 0 then Inl (Error ZeroAmount)
       else
         rbind (load_solver s solver) (\<lambda>record.
           if so_active_intents record > 0 then Inl (Error SolverHasActiveIntents)
           else
             rbind (get_solver_bond_amount s record bond_token) (\<lambda>current.
               if amount > current then Inl (Error InsufficientBond)
               else
                 rbind (i128 (current - amount)) (\<lambda>remaining.
                 rbind (min_bond_for_token s bond_token) (\<lambda>floor_bond.
                   if remaining < floor_bond then Inl (Error SolverBondTooLow)
                   else
                     rbind (set_solver_bond_amount s record bond_token remaining) (\<lambda>(s1, record1).
                     rbind (transfer e bond_token (self e) solver amount []) (\<lambda>tr.
                       Inr (save_solver solver record1 s1, tr)))))))))"

definition withdraw_bond :: "env \<Rightarrow> address \<Rightarrow> int \<Rightarrow> settlement \<Rightarrow> (settlement \<times> xfer list) st" where
  "withdraw_bond e solver amount s =
     rbind (load_bond_token s) (\<lambda>bond_token. withdraw_bond_inner e solver bond_token amount s)"

definition withdraw_bond_token :: "env \<Rightarrow> address \<Rightarrow> address \<Rightarrow> int \<Rightarrow> settlement \<Rightarrow> (settlement \<times> xfer list) st" where
  "withdraw_bond_token e solver bond_token amount s = withdraw_bond_inner e solver bond_token amount s"

text \<open>The views.\<close>

definition get_solver_bond :: "settlement \<Rightarrow> address \<Rightarrow> address \<Rightarrow> int st" where
  "get_solver_bond s solver token =
     (case bo_solvers (bonds s) solver of
        Some record \<Rightarrow> get_solver_bond_amount s record token
      | None \<Rightarrow> Inr 0)"

text \<open>The list of a solver's bonds, with a loop of its own.\<close>

fun bonds_loop :: "settlement \<Rightarrow> address \<Rightarrow> address \<Rightarrow> address list \<Rightarrow> (address \<times> int) list \<Rightarrow> (address \<times> int) list" where
  "bonds_loop s solver default_token [] out = out"
| "bonds_loop s solver default_token (t # ts) out =
     (if t = default_token then bonds_loop s solver default_token ts out
      else let amt = or0 (bo_extra (bonds s) (solver, t))
           in bonds_loop s solver default_token ts (if amt > 0 then out @ [(t, amt)] else out))"

definition get_solver_bonds :: "settlement \<Rightarrow> address \<Rightarrow> (address \<times> int) list st" where
  "get_solver_bonds s solver =
     (case bo_solvers (bonds s) solver of
        None \<Rightarrow> Inr []
      | Some record \<Rightarrow>
          rbind (load_bond_token s) (\<lambda>default_token.
            Inr (bonds_loop s solver default_token (so_bond_tokens record)
              (if so_bond_amount record > 0 then [(default_token, so_bond_amount record)] else []))))"

section \<open>The two loops over a record's tokens\<close>

definition positive_extras :: "settlement \<Rightarrow> address \<Rightarrow> address \<Rightarrow> address list \<Rightarrow> (address \<times> int) list" where
  "positive_extras s solver default_token ts =
     filter (\<lambda>(_, amt). amt > 0)
       (map (\<lambda>t. (t, or0 (bo_extra (bonds s) (solver, t)))) (filter (\<lambda>t. t \<noteq> default_token) ts))"

lemma refund_loop_eq: "refund_loop s a d ts acc = acc @ positive_extras s a d ts"
  by (induction ts arbitrary: acc) (simp_all add: positive_extras_def Let_def)

lemma bonds_loop_eq: "bonds_loop s a d ts acc = acc @ positive_extras s a d ts"
  by (induction ts arbitrary: acc) (simp_all add: positive_extras_def Let_def)

lemma solver_refunds_eq: "solver_refunds s solver record default_token =
     (if so_bond_amount record > 0 then [(default_token, so_bond_amount record)] else []) @
     filter (\<lambda>(_, amt). amt > 0)
       (map (\<lambda>t. (t, or0 (bo_extra (bonds s) (solver, t))))
         (filter (\<lambda>t. t \<noteq> default_token) (so_bond_tokens record)))"
  by (simp add: solver_refunds_def refund_loop_eq positive_extras_def)

end
