(* ===== verification/Settlement_Intents.thy ===== *)
theory Settlement_Intents
  imports Settlement_Admin Settlement_Bonds
begin

text \<open>
  The intent entry points of the settlement contract: submitting, accepting, filling,
  cancelling, amending, slashing, expiring, and the sealed bid window. Several handlers of the
  source read \<open>cfg\<close> or \<open>fee_recipient\<close> without binding them; the model reads the fields of
  the invocation context that the same function has loaded.
\<close>

section \<open>Submitting\<close>

definition submit_intent_inner :: "world \<Rightarrow> env \<Rightarrow> address \<Rightarrow> string \<Rightarrow> string \<Rightarrow> int \<Rightarrow> address \<Rightarrow> int
    \<Rightarrow> nat option \<Rightarrow> address option \<Rightarrow> settlement \<Rightarrow> (settlement \<times> bytes32) st" where
  "submit_intent_inner w e user src_chain src_token src_amount dst_token min_dst_amount deadline referrer s =
     rbind (require_not_paused s) (\<lambda>_.
       if src_amount \<le> 0 \<or> min_dst_amount \<le> 0 then Inl (Error ZeroAmount)
       else if src_amount > MAX_AMOUNT \<or> min_dst_amount > MAX_AMOUNT then Inl (Error AmountTooLarge)
       else if is_dst_allowlist_enabled s \<and> \<not> is_dst_token_allowed s dst_token
       then Inl (Error DstTokenNotAllowed)
       else if is_src_chain_allowlist_enabled s \<and> \<not> is_src_chain_allowed s src_chain
       then Inl (Error SrcChainNotAllowed)
       else
         rbind (validate_src_token src_chain src_token) (\<lambda>_.
         rbind (decimals_of w dst_token) (\<lambda>dst_decimals.
           case Option.bind (pow10 dst_decimals) (\<lambda>unit. checked_i128 (unit * MAX_WHOLE_UNITS)) of
             None \<Rightarrow> Inl (Error ImplausibleDstAmount)
           | Some bound \<Rightarrow>
               if min_dst_amount > bound then Inl (Error ImplausibleDstAmount)
               else
                 rbind (check_policy w s user dst_token min_dst_amount) (\<lambda>_.
                 rbind (u64 (now e + cf_intent_expiry (load_config s))) (\<lambda>latest.
                   let expiry = (case deadline of Some d \<Rightarrow> d | None \<Rightarrow> latest) in
                   if expiry \<le> now e then Inl (Error InvalidDeadline)
                   else if referrer = Some user then Inl (Error SelfReferral)
                   else
                     let nonce = nat0 (bk_nonce (book s) user)
                     in rbind (u64 (nonce + 1)) (\<lambda>nonce'.
                        let s1 = s\<lparr>book := (book s)\<lparr>bk_nonce := (bk_nonce (book s))(user \<mapsto> nonce')\<rparr>\<rparr>;
                            intent_id = compute_intent_id w e user src_chain src_amount dst_token min_dst_amount nonce
                        in if bk_intents (book s1) intent_id \<noteq> None \<or> bk_tombstone (book s1) intent_id \<noteq> None
                           then Inl (Error IntentAlreadyExists)
                           else
                             rbind (load_bond_token s1) (\<lambda>bond_token.
                             let intent = \<lparr>in_id = intent_id, in_user = user, in_src_chain = src_chain,
                                   in_src_token = src_token, in_src_amount = src_amount,
                                   in_dst_token = dst_token, in_min_dst = min_dst_amount, in_solver = None,
                                   in_state = Open, in_created_at = now e, in_deadline = expiry,
                                   in_filled_at = None, in_fill_amount = None, in_total_filled = 0,
                                   in_bond_token = bond_token, in_dispute_deadline = None,
                                   in_dispute_raised_at = None, in_resolution = None, in_solver_tier = 0,
                                   in_referrer = referrer, in_slash_cycles = 0, in_terminal_at = None\<rparr>
                             in rbind (user_intents_append user intent_id (save_intent intent_id intent s1)) (\<lambda>s2.
                                rbind (u64 (nat0 (bk_total (book s2)) + 1)) (\<lambda>total.
                                rbind (u64 (nat0 (bk_open (book s2)) + 1)) (\<lambda>open.
                                let s3 = set_open open (s2\<lparr>book := (book s2)\<lparr>bk_total := Some total\<rparr>\<rparr>)
                                in Inr (add_to_open_intent_list w intent_id s3, intent_id)))))))))))"

definition submit_intent :: "world \<Rightarrow> env \<Rightarrow> address \<Rightarrow> string \<Rightarrow> string \<Rightarrow> int \<Rightarrow> address \<Rightarrow> int
    \<Rightarrow> nat option \<Rightarrow> address option \<Rightarrow> settlement \<Rightarrow> (settlement \<times> bytes32) st" where
  "submit_intent w e user src_chain src_token src_amount dst_token min_dst_amount deadline referrer s =
     rbind (require_auth e user) (\<lambda>_.
       submit_intent_inner w e user src_chain src_token src_amount dst_token min_dst_amount deadline referrer s)"

section \<open>Accepting\<close>

definition in_slash_cooldown :: "SolverRecord \<Rightarrow> nat \<Rightarrow> bool st" where
  "in_slash_cooldown r t =
     (if so_last_slash r > 0
      then rbind (u64 (so_last_slash r + SLASH_COOLDOWN)) (\<lambda>c. Inr (t < c))
      else Inr False)"

text \<open>The coverage check and the exposure it records.\<close>

definition take_exposure :: "world \<Rightarrow> env \<Rightarrow> InvocationCtx \<Rightarrow> address \<Rightarrow> SolverRecord \<Rightarrow> IntentRecord \<Rightarrow> settlement
    \<Rightarrow> settlement st" where
  "take_exposure w e ctx solver solver_record intent s =
     (let notional = exposure_notional w e s (in_dst_token intent) (in_bond_token intent) (in_min_dst intent);
          new_exposure = sat_i128 (or0 (bo_exposure (bonds s) solver) + notional)
      in rbind (get_solver_bond_amount s solver_record (in_bond_token intent)) (\<lambda>bond.
         let capacity = (case checked_i128 (bond * cf_coverage_multiplier (ic_config ctx)) of
                           None \<Rightarrow> i128_max | Some c \<Rightarrow> c)
         in if new_exposure > capacity then Inl (Error ExposureExceeded)
            else Inr (set_exposure solver new_exposure s)))"

definition accept_intent_body :: "world \<Rightarrow> env \<Rightarrow> address \<Rightarrow> bytes32 \<Rightarrow> address \<Rightarrow> settlement \<Rightarrow> settlement st" where
  "accept_intent_body w e solver intent_id bond_token s =
     rbind (require_not_paused s) (\<lambda>_.
     rbind (ctx_load s) (\<lambda>ctx.
     rbind (load_solver s solver) (\<lambda>solver_record.
       if \<not> so_active solver_record then Inl (Error SolverInactive)
       else
         rbind (in_slash_cooldown solver_record (now e)) (\<lambda>cooling.
           if cooling then Inl (Error SolverInactive)
           else
             rbind (is_bond_token_allowed s bond_token) (\<lambda>allowed.
               if \<not> allowed then Inl (Error BondTokenNotAllowed)
               else
                 rbind (load_intent s intent_id) (\<lambda>intent.
                 rbind (load_bond_token s) (\<lambda>default_token.
                 rbind (if bond_token = default_token then get_adjusted_min_bond s (in_dst_token intent)
                        else min_bond_for_token s bond_token) (\<lambda>required_bond.
                 rbind (get_solver_bond_amount s solver_record bond_token) (\<lambda>bond.
                   if bond < required_bond then Inl (Error SolverBondTooLow)
                   else if now e \<ge> in_deadline intent then Inl (Error IntentExpired)
                   else if in_state intent \<noteq> Open \<and> in_state intent \<noteq> PartiallyFilled
                   then Inl (Error IntentNotOpen)
                   else if so_active_intents solver_record \<ge> cf_max_active (ic_config ctx)
                   then Inl (Error MaxActiveIntentsCapReached)
                   else
                     let tier = solver_tier w s solver
                     in rbind (u64 (now e + st_tier_fill_window tier (cf_fill_window (ic_config ctx)))) (\<lambda>deadline.
                        let intent' = intent\<lparr>in_solver := Some solver, in_state := Accepted,
                              in_bond_token := bond_token, in_solver_tier := tier, in_deadline := deadline\<rparr>
                        in rbind (u32 (so_active_intents solver_record + 1)) (\<lambda>n.
                           let solver_record' = solver_record\<lparr>so_active_intents := n\<rparr>
                           in rbind (take_exposure w e ctx solver solver_record' intent' s) (\<lambda>s1.
                              let s2 = save_solver solver solver_record' s1;
                                  s3 = s2\<lparr>bonds := (bonds s2)\<lparr>bo_intents :=
                                         solver_intents_add solver intent_id (bo_intents (bonds s2))\<rparr>\<rparr>;
                                  s4 = remove_from_open_intent_list w intent_id s3
                              in Inr (save_intent intent_id intent'
                                   (ctx_commit (decrement_open_intents ctx) s4)))))))))))))) "

definition accept_intent_inner :: "world \<Rightarrow> env \<Rightarrow> address \<Rightarrow> bytes32 \<Rightarrow> address \<Rightarrow> settlement \<Rightarrow> settlement st" where
  "accept_intent_inner w e solver intent_id bond_token s =
     rbind (require_auth e solver) (\<lambda>_. accept_intent_body w e solver intent_id bond_token s)"

definition accept_intent :: "world \<Rightarrow> env \<Rightarrow> address \<Rightarrow> bytes32 \<Rightarrow> settlement \<Rightarrow> settlement st" where
  "accept_intent w e solver intent_id s =
     rbind (require_auth e solver) (\<lambda>_.
     rbind (load_bond_token s) (\<lambda>bond_token. accept_intent_inner w e solver intent_id bond_token s))"

definition accept_intent_with_bond :: "world \<Rightarrow> env \<Rightarrow> address \<Rightarrow> bytes32 \<Rightarrow> address \<Rightarrow> settlement \<Rightarrow> settlement st" where
  "accept_intent_with_bond w e solver intent_id bond_token s =
     rbind (require_auth e solver) (\<lambda>_. accept_intent_inner w e solver intent_id bond_token s)"

section \<open>Filling\<close>

definition protocol_fee :: "int \<Rightarrow> int \<Rightarrow> int st" where
  "protocol_fee amount fee_bps =
     (case checked_i128 (amount * fee_bps) of
        None \<Rightarrow> Inl (Error FeeOverflow)
      | Some p \<Rightarrow> Inr (p sdiv 10000))"

definition solver_leaves :: "address \<Rightarrow> bytes32 \<Rightarrow> settlement \<Rightarrow> settlement st" where
  "solver_leaves solver intent_id s =
     rbind (solver_intents_remove solver intent_id (bo_intents (bonds s))) (\<lambda>l.
       Inr (s\<lparr>bonds := (bonds s)\<lparr>bo_intents := l\<rparr>\<rparr>))"

definition release_exposure :: "address \<Rightarrow> int \<Rightarrow> settlement \<Rightarrow> settlement" where
  "release_exposure solver released s =
     set_exposure solver (sat_i128 (or0 (bo_exposure (bonds s) solver) - released)) s"

definition fill_intent_inner :: "world \<Rightarrow> env \<Rightarrow> address \<Rightarrow> bytes32 \<Rightarrow> int \<Rightarrow> bool \<Rightarrow> settlement
    \<Rightarrow> (settlement \<times> xfer list) st" where
  "fill_intent_inner w e solver intent_id fill_amount require_proof s =
     rbind (require_not_paused s) (\<lambda>_.
     rbind (load_intent s intent_id) (\<lambda>intent.
       case check_fill_guards intent solver (now e) of
         Inl err \<Rightarrow> Inl (Error err)
       | Inr _ \<Rightarrow>
           if fill_amount \<le> 0 then Inl (Error ZeroAmount)
           else if fill_amount > MAX_AMOUNT then Inl (Error AmountTooLarge)
           else
             rbind (if require_proof then validate_proof w s intent intent_id else Inr ()) (\<lambda>_.
             rbind (ctx_load s) (\<lambda>ctx.
             rbind (protocol_fee fill_amount (cf_protocol_fee_bps (ic_config ctx))) (\<lambda>fee.
             rbind (i128 (in_total_filled intent + fill_amount)) (\<lambda>cumulative.
             rbind (unwrap (bo_solvers (bonds s) solver)) (\<lambda>record.
             rbind (i128 (so_volume record + fill_amount)) (\<lambda>volume.
             let record1 = record\<lparr>so_volume := volume, so_active_intents := so_active_intents record - 1\<rparr>;
                 intent1 = intent\<lparr>in_total_filled := cumulative, in_fill_amount := Some cumulative\<rparr>
             in rbind
                  (if cumulative \<ge> in_min_dst intent then
                     rbind (u32 (so_completed record + 1)) (\<lambda>n.
                     rbind (solver_leaves solver intent_id s) (\<lambda>s1.
                       Inr (s1, intent1\<lparr>in_state := Filled, in_filled_at := Some (now e),
                                        in_terminal_at := Some (now e)\<rparr>,
                            record1\<lparr>so_completed := n\<rparr>, ctx, in_min_dst intent)))
                   else
                     rbind (u64 (now e + INTENT_EXPIRY)) (\<lambda>deadline.
                     rbind (solver_leaves solver intent_id s) (\<lambda>s1.
                     rbind (increment_open_intents ctx) (\<lambda>ctx1.
                       Inr (add_to_open_intent_list w intent_id s1,
                            intent1\<lparr>in_state := PartiallyFilled, in_solver := None, in_solver_tier := 0,
                                    in_deadline := deadline\<rparr>,
                            record1, ctx1, fill_amount)))))
                  (\<lambda>(s1, intent2, record2, ctx1, released_amount).
                     let released = exposure_notional w e s1 (in_dst_token intent2) (in_bond_token intent2)
                           released_amount;
                         s2 = save_solver solver record2 (release_exposure solver released s1)
                     in rbind (add_volume fill_amount ctx1) (\<lambda>ctx2.
                        let s3 = save_intent intent_id intent2 (ctx_commit ctx2 s2)
                        in rbind (transfer e (in_dst_token intent2) solver (in_user intent2) fill_amount []) (\<lambda>tr.
                           rbind (if fee > 0
                                  then transfer e (in_dst_token intent2) solver (ic_fee_recipient ctx2) fee tr
                                  else Inr tr) (\<lambda>tr1. Inr (s3, tr1)))))))))))))"

definition fill_intent :: "world \<Rightarrow> env \<Rightarrow> address \<Rightarrow> bytes32 \<Rightarrow> int \<Rightarrow> bool \<Rightarrow> settlement
    \<Rightarrow> (settlement \<times> xfer list) st" where
  "fill_intent w e solver intent_id fill_amount require_proof s =
     rbind (require_auth e solver) (\<lambda>_. fill_intent_inner w e solver intent_id fill_amount require_proof s)"

section \<open>Cancelling and amending\<close>

definition check_cancel_cooldown :: "settlement \<Rightarrow> address \<Rightarrow> nat \<Rightarrow> unit st" where
  "check_cancel_cooldown s user t =
     (case bk_cancel_cooldown (book s) user of
        None \<Rightarrow> Inr ()
      | Some last_cancel_time \<Rightarrow>
          rbind (u64 (last_cancel_time + CANCEL_COOLDOWN)) (\<lambda>c.
            if t < c then Inl (Error CancelCooldownNotExpired) else Inr ()))"

definition stamp_cancel_cooldown :: "address \<Rightarrow> nat \<Rightarrow> settlement \<Rightarrow> settlement" where
  "stamp_cancel_cooldown user t s =
     s\<lparr>book := (book s)\<lparr>bk_cancel_cooldown := (bk_cancel_cooldown (book s))(user \<mapsto> t)\<rparr>\<rparr>"

definition cancel_intent_core :: "env \<Rightarrow> address \<Rightarrow> bytes32 \<Rightarrow> settlement \<Rightarrow> settlement st" where
  "cancel_intent_core e user intent_id s =
     rbind (load_intent s intent_id) (\<lambda>intent.
       if in_user intent \<noteq> user then Inl (Error Unauthorized)
       else if in_state intent = Accepted then Inl (Error CannotCancelAccepted)
       else if in_state intent \<noteq> Open \<and> in_state intent \<noteq> PartiallyFilled then Inl (Error IntentNotOpen)
       else
         let intent' = intent\<lparr>in_state := Cancelled, in_terminal_at := Some (now e)\<rparr>;
             s1 = save_intent intent_id intent' s
         in Inr (set_open (nat0 (bk_open (book s1)) - 1) s1))"

definition cancel_intent :: "env \<Rightarrow> address \<Rightarrow> bytes32 \<Rightarrow> settlement \<Rightarrow> settlement st" where
  "cancel_intent e user intent_id s =
     rbind (require_auth e user) (\<lambda>_.
     rbind (check_cancel_cooldown s user (now e)) (\<lambda>_.
     rbind (cancel_intent_core e user intent_id s) (\<lambda>s1.
       Inr (stamp_cancel_cooldown user (now e) s1))))"

definition check_amendment_cooldown :: "settlement \<Rightarrow> address \<Rightarrow> nat \<Rightarrow> unit st" where
  "check_amendment_cooldown s user t =
     (case bk_amend_cooldown (book s) user of
        None \<Rightarrow> Inr ()
      | Some last_amendment_time \<Rightarrow>
          rbind (u64 (last_amendment_time + AMENDMENT_COOLDOWN)) (\<lambda>c.
            if t < c then Inl (Error AmendmentCooldownActive) else Inr ()))"

definition stamp_amendment_cooldown :: "address \<Rightarrow> nat \<Rightarrow> settlement \<Rightarrow> settlement" where
  "stamp_amendment_cooldown user t s =
     s\<lparr>book := (book s)\<lparr>bk_amend_cooldown := (bk_amend_cooldown (book s))(user \<mapsto> t)\<rparr>\<rparr>"

definition amend_intent :: "env \<Rightarrow> address \<Rightarrow> bytes32 \<Rightarrow> int \<Rightarrow> nat \<Rightarrow> settlement \<Rightarrow> settlement st" where
  "amend_intent e user intent_id new_min_dst_amount new_deadline s =
     rbind (require_auth e user) (\<lambda>_.
     rbind (check_amendment_cooldown s user (now e)) (\<lambda>_.
     rbind (load_intent s intent_id) (\<lambda>intent.
       if in_user intent \<noteq> user then Inl (Error Unauthorized)
       else if in_state intent \<noteq> Open \<and> in_state intent \<noteq> Bidding then Inl (Error IntentNotAmendable)
       else if new_deadline \<le> now e then Inl (Error InvalidAmendmentDeadline)
       else
         rbind (u64 (now e + cf_intent_expiry (load_config s))) (\<lambda>latest.
           if new_deadline > latest then Inl (Error InvalidAmendmentDeadline)
           else
             let is_tightening = (new_min_dst_amount > in_min_dst intent \<or> new_deadline < in_deadline intent)
             in if is_tightening \<and> in_state intent \<noteq> Open then Inl (Error AmendmentTooTightening)
                else
                  let intent' = intent\<lparr>in_min_dst := new_min_dst_amount, in_deadline := new_deadline\<rparr>
                  in Inr (stamp_amendment_cooldown user (now e) (save_intent intent_id intent' s))))))"

section \<open>Slashing and expiry\<close>

text \<open>
  The payout of a slash: the share of the fee recipient, the vault's share into the backstop
  pool, and then a transfer of the whole amount to the fee recipient.
\<close>

definition slash_payout :: "env \<Rightarrow> InvocationCtx \<Rightarrow> address \<Rightarrow> int \<Rightarrow> settlement \<Rightarrow> (settlement \<times> xfer list) st" where
  "slash_payout e ctx bond_token slash_amount s =
     (if slash_amount > 0 then
        let bps = cf_backstop_vault_share_bps (ic_config ctx);
            vault_share = (if bps > 0
              then (case checked_i128 (slash_amount * bps) of None \<Rightarrow> 0 | Some p \<Rightarrow> p) sdiv BPS_DENOMINATOR
              else 0)
        in rbind (i128 (slash_amount - vault_share)) (\<lambda>fee_recipient_share.
           rbind (if fee_recipient_share > 0
                  then transfer e bond_token (self e) (ic_fee_recipient ctx) fee_recipient_share []
                  else Inr []) (\<lambda>tr.
           rbind (if vault_share > 0
                  then rbind (i128 (or0 (bo_pool (bonds s)) + vault_share)) (\<lambda>p.
                         Inr (s\<lparr>bonds := (bonds s)\<lparr>bo_pool := Some p\<rparr>\<rparr>))
                  else Inr s) (\<lambda>s1.
           rbind (transfer e bond_token (self e) (ic_fee_recipient ctx) slash_amount tr) (\<lambda>tr1.
             Inr (s1, tr1)))))
      else Inr (s, []))"

definition slash_solver :: "world \<Rightarrow> env \<Rightarrow> bytes32 \<Rightarrow> settlement \<Rightarrow> (settlement \<times> xfer list) st" where
  "slash_solver w e intent_id s =
     rbind (load_intent s intent_id) (\<lambda>intent.
       if in_state intent \<noteq> Accepted then Inl (Error IntentNotAccepted)
       else if \<not> slash_eligible w (now e) (in_deadline intent) then Inl (Error FillWindowExpired)
       else
         rbind (unwrap (in_solver intent)) (\<lambda>solver_addr.
         rbind (unwrap (bo_solvers (bonds s) solver_addr)) (\<lambda>record.
         rbind (ctx_load s) (\<lambda>ctx.
         let bond_token = in_bond_token intent
         in rbind (i128 (in_min_dst intent - in_total_filled intent)) (\<lambda>unfilled.
            rbind (get_solver_bond_amount s record bond_token) (\<lambda>bond_before.
            let slash_amount = st_slash_amount bond_before unfilled
            in rbind (i128 (bond_before - slash_amount)) (\<lambda>bond_after.
               rbind (set_solver_bond_amount s record bond_token bond_after) (\<lambda>(s1, record1).
               rbind (u32 (so_failed record1 + 1)) (\<lambda>failed.
               let record2 = record1\<lparr>so_failed := failed, so_last_slash := now e,
                     so_active_intents := so_active_intents record1 - 1\<rparr>
               in rbind (solver_leaves solver_addr intent_id s1) (\<lambda>s2.
                  let released = exposure_notional w e s2 (in_dst_token intent) bond_token (sat_i128 unfilled);
                      s3 = release_exposure solver_addr released s2
                  in rbind (i128 (or0 (bo_total_bonded (bonds s3)) - slash_amount)) (\<lambda>total.
                     let s4 = set_total_bonded total s3
                     in rbind (get_solver_bond_amount s4 record2 bond_token) (\<lambda>left_bond.
                        rbind (min_bond_for_token s4 bond_token) (\<lambda>floor_bond.
                        let record3 = (if left_bond < floor_bond then record2\<lparr>so_active := False\<rparr> else record2)
                        in rbind (u64 (now e + cf_intent_expiry (ic_config ctx))) (\<lambda>deadline.
                           rbind (u64 (nat0 (bk_open (book s4)) + 1)) (\<lambda>open.
                           let intent' = intent\<lparr>in_solver := None, in_solver_tier := 0,
                                 in_deadline := deadline, in_state := Open\<rparr>;
                               s5 = add_to_open_intent_list w intent_id (set_open open s4);
                               s6 = save_intent intent_id intent' (save_solver solver_addr record3 s5)
                           in slash_payout e ctx bond_token slash_amount s6))))))))))))))) "

definition expire_intent :: "env \<Rightarrow> bytes32 \<Rightarrow> settlement \<Rightarrow> settlement st" where
  "expire_intent e intent_id s =
     rbind (load_intent s intent_id) (\<lambda>intent.
       if in_state intent \<noteq> Open \<and> in_state intent \<noteq> PartiallyFilled then Inl (Error IntentNotOpen)
       else if now e < in_deadline intent then Inl (Error DeadlineNotReached)
       else
         let s1 = save_intent intent_id
               (intent\<lparr>in_state := Expired, in_terminal_at := Some (now e)\<rparr>) s
         in Inr (set_open (nat0 (bk_open (book s1)) - 1) s1))"

section \<open>The bid window\<close>

definition bid_intent :: "env \<Rightarrow> address \<Rightarrow> bytes32 \<Rightarrow> int \<Rightarrow> settlement \<Rightarrow> settlement st" where
  "bid_intent e solver intent_id quoted_dst_amount s =
     rbind (require_auth e solver) (\<lambda>_.
     rbind (require_not_paused s) (\<lambda>_.
       if quoted_dst_amount \<le> 0 then Inl (Error ZeroAmount)
       else
         rbind (load_intent s intent_id) (\<lambda>intent.
           if in_state intent \<noteq> Bidding then Inl (Error IntentNotBidding)
           else if now e \<ge> in_deadline intent then Inl (Error BidWindowClosed)
           else
             rbind (is_solver_eligible e s solver) (\<lambda>eligible.
               if \<not> eligible then Inl (Error SolverInactive)
               else
                 let put = s\<lparr>book := (book s)\<lparr>bk_best_bid := (bk_best_bid (book s))
                       (intent_id \<mapsto> \<lparr>bb_solver = solver, bb_quoted = quoted_dst_amount\<rparr>)\<rparr>\<rparr>
                 in (case bk_best_bid (book s) intent_id of
                       Some best \<Rightarrow> if quoted_dst_amount \<le> bb_quoted best then Inl (Error BidNotHigher)
                                    else Inr put
                     | None \<Rightarrow> Inr put)))))"

definition eligible_bid :: "env \<Rightarrow> settlement \<Rightarrow> BestBidRecord option \<Rightarrow> BestBidRecord option st" where
  "eligible_bid e s best =
     (case best of
        None \<Rightarrow> Inr None
      | Some b \<Rightarrow> rbind (is_solver_eligible e s (bb_solver b)) (\<lambda>ok. Inr (if ok then Some b else None)))"

definition settle_bids :: "env \<Rightarrow> bytes32 \<Rightarrow> settlement \<Rightarrow> settlement st" where
  "settle_bids e intent_id s =
     rbind (load_intent s intent_id) (\<lambda>intent.
       if in_state intent \<noteq> Bidding then Inl (Error IntentNotBidding)
       else if now e < in_deadline intent then Inl (Error BidWindowStillOpen)
       else
         let cfg = load_config s;
             best = bk_best_bid (book s) intent_id;
             s1 = s\<lparr>book := (book s)\<lparr>bk_best_bid := (bk_best_bid (book s))(intent_id := None)\<rparr>\<rparr>
         in rbind (eligible_bid e s1 best) (\<lambda>winner.
            case winner of
              Some b \<Rightarrow>
                rbind (unwrap (bo_solvers (bonds s1) (bb_solver b))) (\<lambda>record.
                rbind (u32 (so_active_intents record + 1)) (\<lambda>n.
                rbind (load_bond_token s1) (\<lambda>bond_token.
                rbind (u64 (now e + cf_fill_window cfg)) (\<lambda>deadline.
                let s2 = save_solver (bb_solver b) (record\<lparr>so_active_intents := n\<rparr>) s1;
                    intent' = intent\<lparr>in_solver := Some (bb_solver b), in_state := Accepted,
                      in_bond_token := bond_token, in_deadline := deadline\<rparr>;
                    s3 = set_open (nat0 (bk_open (book s2)) - 1) s2
                in Inr (save_intent intent_id intent' s3)))))
            | None \<Rightarrow>
                rbind (u64 (now e + cf_intent_expiry cfg)) (\<lambda>deadline.
                  Inr (save_intent intent_id (intent\<lparr>in_state := Open, in_deadline := deadline\<rparr>) s1))))"

end
