(* ===== verification/Settlement_Disputes.thy ===== *)
theory Settlement_Disputes
  imports Settlement_Intents
begin

text \<open>
  The two-step fill of the settlement contract: \<open>begin_fill\<close> escrows the output, the user
  may dispute it while the window is open, the arbiter resolves, and \<open>release_fill\<close> pays out
  when nobody acts. The source declares \<open>begin_fill\<close> twice; the model is the second
  declaration, the one that escrows.
\<close>

definition begin_fill :: "env \<Rightarrow> address \<Rightarrow> bytes32 \<Rightarrow> int \<Rightarrow> settlement \<Rightarrow> (settlement \<times> xfer list) st" where
  "begin_fill e solver intent_id fill_amount s =
     rbind (require_auth e solver) (\<lambda>_.
     rbind (require_not_paused s) (\<lambda>_.
     rbind (load_intent s intent_id) (\<lambda>intent.
       if in_state intent \<noteq> Accepted then Inl (Error IntentNotAcceptedForFill)
       else if in_solver intent \<noteq> Some solver then Inl (Error Unauthorized)
       else if \<not> fill_window_open (now e) (in_deadline intent) then Inl (Error FillWindowExpired)
       else if fill_amount \<le> 0 then Inl (Error ZeroAmount)
       else
         rbind (i128 (in_total_filled intent + fill_amount)) (\<lambda>total.
           if total < in_min_dst intent then Inl (Error InsufficientOutput)
           else
             rbind (u64 (now e + DISPUTE_WINDOW)) (\<lambda>dispute_deadline.
             let intent1 = intent\<lparr>in_state := Filling, in_dispute_deadline := Some dispute_deadline,
                   in_fill_amount := Some fill_amount\<rparr>;
                 s1 = save_intent intent_id intent1 s
             in rbind (pull_exact e (in_dst_token intent1) solver fill_amount []) (\<lambda>(tr, escrowed).
                  if escrowed \<noteq> fill_amount
                  then Inr (save_intent intent_id (intent1\<lparr>in_fill_amount := Some escrowed\<rparr>) s1, tr)
                  else Inr (s1, tr)))))))"

definition dispute_fill :: "env \<Rightarrow> address \<Rightarrow> bytes32 \<Rightarrow> settlement \<Rightarrow> settlement st" where
  "dispute_fill e user intent_id s =
     rbind (require_auth e user) (\<lambda>_.
     rbind (load_intent s intent_id) (\<lambda>intent.
       if in_state intent \<noteq> Filling then Inl (Error IntentNotFilling)
       else if in_user intent \<noteq> user then Inl (Error Unauthorized)
       else if now e \<ge> nat0 (in_dispute_deadline intent) then Inl (Error DisputeWindowClosed)
       else Inr (save_intent intent_id
              (intent\<lparr>in_state := Disputed, in_dispute_raised_at := Some (now e)\<rparr>) s)))"

definition dispute_parties :: "settlement \<Rightarrow> bytes32 \<Rightarrow> (address \<times> address) st" where
  "dispute_parties s intent_id =
     rbind (load_intent s intent_id) (\<lambda>intent.
       if in_state intent \<noteq> Disputed then Inl (Error IntentNotDisputed)
       else rbind (need IntentNotDisputed (in_solver intent)) (\<lambda>solver. Inr (in_user intent, solver)))"

text \<open>The transfers that end an escrow: the user's part, then the fee, then a slash.\<close>

definition pay_escrow :: "env \<Rightarrow> IntentRecord \<Rightarrow> address \<Rightarrow> int \<Rightarrow> int \<Rightarrow> xfer list st" where
  "pay_escrow e intent fee_recipient escrow fee =
     rbind (i128 (escrow - fee)) (\<lambda>net.
     rbind (transfer e (in_dst_token intent) (self e) (in_user intent) net []) (\<lambda>tr.
       if fee > 0 then transfer e (in_dst_token intent) (self e) fee_recipient fee tr else Inr tr))"

definition uphold :: "env \<Rightarrow> IntentRecord \<Rightarrow> SolverRecord \<Rightarrow> settlement
    \<Rightarrow> (settlement \<times> SolverRecord \<times> int) st" where
  "uphold e intent record s =
     rbind (i128 (in_min_dst intent - in_total_filled intent)) (\<lambda>unfilled.
     rbind (get_solver_bond_amount s record (in_bond_token intent)) (\<lambda>bond_before.
     let slash_amount = st_slash_amount bond_before unfilled
     in rbind (i128 (bond_before - slash_amount)) (\<lambda>bond_after.
        rbind (set_solver_bond_amount s record (in_bond_token intent) bond_after) (\<lambda>(s1, record1).
        rbind (u32 (so_failed record1 + 1)) (\<lambda>failed.
        let record2 = record1\<lparr>so_failed := failed, so_last_slash := now e\<rparr>
        in rbind (get_solver_bond_amount s1 record2 (in_bond_token intent)) (\<lambda>left_bond.
           rbind (min_bond_for_token s1 (in_bond_token intent)) (\<lambda>floor_bond.
             Inr (s1, if left_bond < floor_bond then record2\<lparr>so_active := False\<rparr> else record2,
                  slash_amount))))))))"

definition credit_fill :: "int \<Rightarrow> SolverRecord \<Rightarrow> SolverRecord st" where
  "credit_fill escrow record =
     rbind (u32 (so_completed record + 1)) (\<lambda>n.
     rbind (i128 (so_volume record + escrow)) (\<lambda>v. Inr (record\<lparr>so_completed := n, so_volume := v\<rparr>)))"

definition resolve_dispute :: "env \<Rightarrow> address \<Rightarrow> bytes32 \<Rightarrow> DisputeResolution \<Rightarrow> settlement
    \<Rightarrow> (settlement \<times> xfer list) st" where
  "resolve_dispute e arbiter intent_id resolution s =
     rbind (require_auth e arbiter) (\<lambda>_.
     rbind (load_arbiter s) (\<lambda>the_arbiter.
       if arbiter \<noteq> the_arbiter then Inl (Error NotArbiter)
       else
         rbind (load_intent s intent_id) (\<lambda>intent.
           if in_state intent \<noteq> Disputed then Inl (Error IntentNotDisputed)
           else
             let escrow = or0 (in_fill_amount intent)
             in rbind (unwrap (in_solver intent)) (\<lambda>solver_addr.
                rbind (unwrap (bo_solvers (bonds s) solver_addr)) (\<lambda>record0.
                let record = record0\<lparr>so_active_intents := so_active_intents record0 - 1\<rparr>
                in rbind (unwrap (ro_fee_recipient (roles s))) (\<lambda>fee_recipient.
                   rbind (case resolution of
                            Upheld \<Rightarrow> rbind (uphold e intent record s) (\<lambda>(s1, r, sl). Inr (s1, r, sl, 0))
                          | Dismissed \<Rightarrow>
                              rbind (protocol_fee escrow PROTOCOL_FEE_BPS) (\<lambda>fee.
                              rbind (credit_fill escrow record) (\<lambda>r. Inr (s, r, 0, fee))))
                     (\<lambda>(s1, record1, slash_amount, fee).
                     rbind (i128 (in_total_filled intent + escrow)) (\<lambda>total.
                     let intent1 = intent\<lparr>in_total_filled := total, in_fill_amount := Some total,
                           in_filled_at := Some (now e), in_state := Resolved,
                           in_terminal_at := Some (now e), in_resolution := Some resolution\<rparr>;
                         s2 = save_intent intent_id intent1 (save_solver solver_addr record1 s1)
                     in rbind (if resolution = Dismissed
                               then rbind (i128 (or0 (bk_volume (book s2)) + escrow)) (\<lambda>v. Inr (set_volume v s2))
                               else Inr s2) (\<lambda>s3.
                        rbind (pay_escrow e intent1 fee_recipient escrow fee) (\<lambda>tr.
                        rbind (if slash_amount > 0
                               then transfer e (in_bond_token intent1) (self e) fee_recipient slash_amount tr
                               else Inr tr) (\<lambda>tr1. Inr (s3, tr1)))))))))))) "

definition release_fill :: "env \<Rightarrow> bytes32 \<Rightarrow> settlement \<Rightarrow> (settlement \<times> xfer list) st" where
  "release_fill e intent_id s =
     rbind (load_intent s intent_id) (\<lambda>intent.
     let escrow = or0 (in_fill_amount intent)
     in rbind (unwrap (in_solver intent)) (\<lambda>solver_addr.
        rbind (unwrap (bo_solvers (bonds s) solver_addr)) (\<lambda>record0.
        let record = record0\<lparr>so_active_intents := so_active_intents record0 - 1\<rparr>
        in rbind (unwrap (ro_fee_recipient (roles s))) (\<lambda>fee_recipient.
           rbind (case in_state intent of
                    Filling \<Rightarrow>
                      if now e < nat0 (in_dispute_deadline intent) then Inl (Error DisputeWindowStillOpen)
                      else
                        rbind (protocol_fee escrow PROTOCOL_FEE_BPS) (\<lambda>fee.
                        rbind (credit_fill escrow record) (\<lambda>r.
                          Inr (fee, r, intent\<lparr>in_state := Filled, in_terminal_at := Some (now e)\<rparr>)))
                  | Disputed \<Rightarrow>
                      rbind (u64 (nat0 (in_dispute_raised_at intent) + ARBITER_WINDOW)) (\<lambda>timeout.
                        if now e < timeout then Inl (Error DisputeWindowStillOpen)
                        else Inr (0, record, intent\<lparr>in_state := Resolved, in_terminal_at := Some (now e),
                                    in_resolution := None\<rparr>))
                  | _ \<Rightarrow> Inl (Error IntentNotFilling)) (\<lambda>(fee, record1, intent1).
             rbind (i128 (in_total_filled intent + escrow)) (\<lambda>total.
             let intent2 = intent1\<lparr>in_total_filled := total, in_fill_amount := Some total,
                   in_filled_at := Some (now e)\<rparr>;
                 s1 = save_intent intent_id intent2 (save_solver solver_addr record1 s)
             in rbind (i128 (or0 (bk_volume (book s1)) + escrow)) (\<lambda>v.
                rbind (pay_escrow e intent2 fee_recipient escrow fee) (\<lambda>tr.
                  Inr (set_volume v s1, tr)))))))))"

end
