(* ===== verification/Settlement_Extras.thy ===== *)
theory Settlement_Extras
  imports Settlement_Disputes
begin

text \<open>
  The remaining entry points of the settlement contract: onboarding source chains, batches,
  deadline extensions, backstop claims, closing terminal intents and their retention, solver
  routes, outbound intents, and the paginated views.
\<close>

definition upd_extra :: "(st_extra \<Rightarrow> st_extra) \<Rightarrow> settlement \<Rightarrow> settlement" where
  "upd_extra f s = s\<lparr>extra := f (extra s)\<rparr>"

lemma upd_extra_simps [simp]:
  "roles (upd_extra f s) = roles s" "allow (upd_extra f s) = allow s"
  "bonds (upd_extra f s) = bonds s" "book (upd_extra f s) = book s"
  "extra (upd_extra f s) = f (extra s)"
  by (simp_all add: upd_extra_def)

section \<open>Source chains in one step\<close>

definition propose_chain_onboarding :: "env \<Rightarrow> ChainConfig \<Rightarrow> settlement \<Rightarrow> settlement st" where
  "propose_chain_onboarding e config s =
     rbind (st_require_admin e s) (\<lambda>_.
     rbind (u64 (now e + ADMIN_TIMELOCK_DELAY)) (\<lambda>eta.
       Inr (upd_extra (\<lambda>x. x\<lparr>ex_pending_chain := (ex_pending_chain x)(ch_name config \<mapsto> (config, eta))\<rparr>) s)))"

definition execute_chain_onboarding :: "world \<Rightarrow> env \<Rightarrow> string \<Rightarrow> settlement \<Rightarrow> settlement st" where
  "execute_chain_onboarding w e name s =
     rbind (st_require_admin e s) (\<lambda>_.
     rbind (need NoPendingChainOnboarding (ex_pending_chain (extra s) name)) (\<lambda>(config, eta).
       if now e < eta then Inl (Error TimelockNotElapsed)
       else if ex_chain (extra s) name \<noteq> None then Inl (Error ChainAlreadyConfigured)
       else
         let s1 = upd_allow (\<lambda>a. a\<lparr>al_src := (al_src a)(ch_name config \<mapsto> True)\<rparr>) s
         in rbind (case ro_proof_registry (roles s1) of
                     None \<Rightarrow> Inr ()
                   | Some registry \<Rightarrow>
                       if w_configure_chain w registry (ch_wormhole_id config) (ch_emitter config)
                       then Inr () else Inl HostTrap) (\<lambda>_.
              Inr (upd_extra (\<lambda>x. x\<lparr>ex_chain := (ex_chain x)(ch_name config \<mapsto> config),
                                    ex_pending_chain := (ex_pending_chain x)(name := None)\<rparr>) s1))))"

definition execute_chain_offboarding :: "world \<Rightarrow> env \<Rightarrow> string \<Rightarrow> settlement \<Rightarrow> settlement st" where
  "execute_chain_offboarding w e name s =
     rbind (st_require_admin e s) (\<lambda>_.
     rbind (need ChainNotConfigured (ex_chain (extra s) name)) (\<lambda>config.
       let s1 = upd_allow (\<lambda>a. a\<lparr>al_src := (al_src a)(name := None)\<rparr>) s
       in rbind (case ro_proof_registry (roles s1) of
                   None \<Rightarrow> Inr ()
                 | Some registry \<Rightarrow>
                     if w_remove_chain w registry (ch_wormhole_id config) then Inr () else Inl HostTrap) (\<lambda>_.
            Inr (upd_extra (\<lambda>x. x\<lparr>ex_chain := (ex_chain x)(name := None)\<rparr>) s1))))"

section \<open>Batches\<close>

text \<open>One handler after the other over a list; the first abort reverts the whole invocation.\<close>

fun each :: "('a \<Rightarrow> 's \<Rightarrow> ('e, 's) res) \<Rightarrow> 'a list \<Rightarrow> 's \<Rightarrow> ('e, 's) res" where
  "each f [] s = Inr s"
| "each f (x # xs) s = rbind (f x s) (each f xs)"

definition batch_submit_intent :: "world \<Rightarrow> env \<Rightarrow> address
    \<Rightarrow> (string \<times> string \<times> int \<times> address \<times> int \<times> nat option) list \<Rightarrow> settlement
    \<Rightarrow> (settlement \<times> bytes32 list) st" where
  "batch_submit_intent w e user intents s =
     (if length intents > MAX_BATCH_SIZE then Inl (Error BatchTooLarge)
      else
        rbind (require_auth e user) (\<lambda>_.
          each (\<lambda>(src_chain, src_token, src_amount, dst_token, min_dst_amount, deadline) (s, ids).
              rbind (submit_intent_inner w e user src_chain src_token src_amount dst_token
                       min_dst_amount deadline None s) (\<lambda>(s1, intent_id). Inr (s1, ids @ [intent_id])))
            intents (s, [])))"

definition batch_accept_intent :: "world \<Rightarrow> env \<Rightarrow> address \<Rightarrow> bytes32 list \<Rightarrow> settlement \<Rightarrow> settlement st" where
  "batch_accept_intent w e solver intent_ids s =
     (if length intent_ids > MAX_BATCH_SIZE then Inl (Error BatchTooLarge)
      else
        rbind (require_auth e solver) (\<lambda>_.
        rbind (load_bond_token s) (\<lambda>bond_token.
          each (\<lambda>intent_id s.
              rbind (accept_intent_body w e solver intent_id bond_token s) (\<lambda>s1.
                accept_intent_inner w e solver intent_id bond_token s1))
            intent_ids s)))"

text \<open>Each fill starts its own list of transfers; a batch makes them all.\<close>

definition batch_fill_intent :: "world \<Rightarrow> env \<Rightarrow> address \<Rightarrow> (bytes32 \<times> int) list \<Rightarrow> settlement
    \<Rightarrow> (settlement \<times> xfer list) st" where
  "batch_fill_intent w e solver fills s =
     (if length fills > MAX_BATCH_SIZE then Inl (Error BatchTooLarge)
      else
        rbind (require_auth e solver) (\<lambda>_.
          each (\<lambda>(intent_id, fill_amount) (s, tr).
              rbind (fill_intent_inner w e solver intent_id fill_amount False s) (\<lambda>(s1, tr1).
                Inr (s1, tr @ tr1)))
            fills (s, [])))"

definition batch_cancel_intent :: "env \<Rightarrow> address \<Rightarrow> bytes32 list \<Rightarrow> settlement \<Rightarrow> settlement st" where
  "batch_cancel_intent e user intent_ids s =
     (if length intent_ids > MAX_BATCH_SIZE then Inl (Error BatchTooLarge)
      else
        rbind (require_auth e user) (\<lambda>_.
        rbind (check_cancel_cooldown s user (now e)) (\<lambda>_.
        rbind (each (cancel_intent_core e user) intent_ids s) (\<lambda>s1.
          Inr (stamp_cancel_cooldown user (now e) s1)))))"

section \<open>Reputation and extensions\<close>

definition REPUTATION_VOLUME_SCALE :: int where "REPUTATION_VOLUME_SCALE = 1000 * 100 * 10000000"

definition compute_reputation_score :: "SolverRecord \<Rightarrow> nat st" where
  "compute_reputation_score record =
     (let total_fills = so_completed record + so_failed record
      in if total_fills = 0 then Inr 0
         else
           let base_bps = so_completed record * 10000 div total_fills;
               vol = max (so_volume record) 0
           in rbind (i128 (REPUTATION_VOLUME_SCALE + vol + 1)) (\<lambda>d.
              rbind (if as_u64 d = 0 then Inl Overflow
                     else Inr (as_u64 REPUTATION_VOLUME_SCALE * 10000 div as_u64 d)) (\<lambda>decay_bps.
              if decay_bps div 10 > 10000 then Inl Overflow
              else
                let multiplier_bps = 10000 - decay_bps div 10
                in Inr (base_bps * multiplier_bps div 10000))))"

definition extension_cap_secs :: "world \<Rightarrow> settlement \<Rightarrow> address \<Rightarrow> nat st" where
  "extension_cap_secs w s solver =
     (let base = MAX_EXTENSION_DURATION
      in rbind (case bo_solvers (bonds s) solver of
                  None \<Rightarrow> Inr base
                | Some r \<Rightarrow>
                    rbind (compute_reputation_score r) (\<lambda>score.
                      let fills = so_completed r
                      in Inr (if fills \<ge> 1000 \<and> score \<ge> 9000 then base * 150 div 100
                              else if fills \<ge> 200 \<and> score \<ge> 8500 then base * 130 div 100
                              else if fills \<ge> 50 \<and> score \<ge> 7000 then base * 120 div 100
                              else if fills \<ge> 10 \<and> score \<ge> 5000 then base * 110 div 100
                              else base))) (\<lambda>cap.
           Inr (min cap (w_max_total_extension w))))"

definition request_extension :: "world \<Rightarrow> env \<Rightarrow> address \<Rightarrow> bytes32 \<Rightarrow> settlement \<Rightarrow> settlement st" where
  "request_extension w e solver intent_id s =
     rbind (require_auth e solver) (\<lambda>_.
     rbind (load_intent s intent_id) (\<lambda>intent.
       if in_state intent \<noteq> Accepted then Inl (Error IntentNotAccepted)
       else if in_solver intent \<noteq> Some solver then Inl (Error Unauthorized)
       else if ex_extension (extra s) intent_id \<noteq> None then Inl (Error ExtensionAlreadyGranted)
       else
         let used = nat0 (ex_extension (extra s) intent_id)
         in rbind (extension_cap_secs w s solver) (\<lambda>cap.
            let new_used = sat_u64 (used + MAX_EXTENSION_DURATION)
            in if new_used > cap then Inl (Error ExtensionCapExceeded)
               else
                 rbind (u64 (in_deadline intent + MAX_EXTENSION_DURATION)) (\<lambda>deadline.
                   Inr (save_intent intent_id (intent\<lparr>in_deadline := deadline\<rparr>)
                     (upd_extra (\<lambda>x. x\<lparr>ex_extension := (ex_extension x)(intent_id \<mapsto> new_used)\<rparr>) s))))))"

section \<open>Backstop claims\<close>

definition backstop_cap :: "IntentRecord \<Rightarrow> int" where
  "backstop_cap intent =
     max ((case checked_i128 (in_min_dst intent * MAX_BACKSTOP_INTENT_BPS) of
             None \<Rightarrow> in_min_dst intent | Some p \<Rightarrow> p) sdiv BPS_DENOMINATOR) 1"

definition claim_backstop_compensation :: "env \<Rightarrow> bytes32 \<Rightarrow> settlement \<Rightarrow> (settlement \<times> xfer list) st" where
  "claim_backstop_compensation e intent_id s =
     rbind (load_intent s intent_id) (\<lambda>intent.
     rbind (require_auth e (in_user intent)) (\<lambda>_.
     let eligible = (case in_state intent of
           Slashed \<Rightarrow> True
         | Open \<Rightarrow> in_slash_cycles intent > 0
         | PartiallyFilled \<Rightarrow> in_slash_cycles intent > 0
         | _ \<Rightarrow> False)
     in if \<not> eligible then Inl (Error IntentNotAccepted)
        else if ex_claimed (extra s) intent_id \<noteq> None then Inl (Error BackstopAlreadyClaimed)
        else
          let pool = or0 (bo_pool (bonds s))
          in if pool \<le> 0 then Inl (Error BackstopPoolEmpty)
             else
               let intent_cap = backstop_cap intent;
                   epoch = now e div BACKSTOP_EPOCH_SECS;
                   epoch_claimed = or0 (ex_epoch_claim (extra s) (in_user intent, epoch));
                   epoch_remaining = sat_i128 (MAX_BACKSTOP_USER_EPOCH_CLAIM - epoch_claimed)
               in if epoch_remaining \<le> 0 then Inl (Error BackstopPoolEmpty)
                  else
                    let payout = max (min (min intent_cap epoch_remaining) pool) 1
                    in rbind (i128 (pool - payout)) (\<lambda>left.
                       rbind (i128 (epoch_claimed + payout)) (\<lambda>claimed.
                       let s1 = upd_extra (\<lambda>x. x\<lparr>ex_claimed := (ex_claimed x)(intent_id \<mapsto> True),
                                   ex_epoch_claim := (ex_epoch_claim x)((in_user intent, epoch) \<mapsto> claimed)\<rparr>)
                                 (s\<lparr>bonds := (bonds s)\<lparr>bo_pool := Some left\<rparr>\<rparr>)
                       in rbind (load_bond_token s1) (\<lambda>bond_token.
                          rbind (transfer e bond_token (self e) (in_user intent) payout []) (\<lambda>tr.
                            Inr (s1, tr)))))))"

section \<open>Closing\<close>

definition set_intent_retention :: "env \<Rightarrow> nat \<Rightarrow> settlement \<Rightarrow> settlement st" where
  "set_intent_retention e retention_secs s =
     by_admin e s (upd_extra (\<lambda>x. x\<lparr>ex_retention := Some retention_secs\<rparr>) s)"

definition get_intent_retention :: "settlement \<Rightarrow> nat" where
  "get_intent_retention s =
     (case ex_retention (extra s) of None \<Rightarrow> DEFAULT_INTENT_RETENTION_SECS | Some r \<Rightarrow> r)"

text \<open>The first slot of a page that holds the identifier, emptied.\<close>

fun clear_slot :: "bytes32 \<Rightarrow> bytes32 option list \<Rightarrow> bytes32 option list option" where
  "clear_slot i [] = None"
| "clear_slot i (x # xs) =
     (if x = Some i then Some (None # xs) else map_option ((#) x) (clear_slot i xs))"

fun clear_in_buckets :: "address \<Rightarrow> bytes32 \<Rightarrow> nat list
    \<Rightarrow> (address \<times> nat \<Rightarrow> bytes32 option list option) \<Rightarrow> address \<times> nat \<Rightarrow> bytes32 option list option" where
  "clear_in_buckets user i [] pages = pages"
| "clear_in_buckets user i (b # bs) pages =
     (case Option.bind (pages (user, b)) (clear_slot i) of
        Some page \<Rightarrow> pages((user, b) \<mapsto> page)
      | None \<Rightarrow> clear_in_buckets user i bs pages)"

definition close_intent :: "env \<Rightarrow> bytes32 \<Rightarrow> settlement \<Rightarrow> settlement st" where
  "close_intent e intent_id s =
     rbind (load_intent s intent_id) (\<lambda>intent.
     let is_terminal = (in_state intent \<in> {Filled, Cancelled, Expired, Resolved, Slashed})
     in if \<not> is_terminal then Inl (Error IntentNotTerminal)
        else
          let retention = get_intent_retention s;
              terminal_at = (case in_terminal_at intent of None \<Rightarrow> in_created_at intent | Some t \<Rightarrow> t)
          in if now e < sat_u64 (terminal_at + retention) then Inl (Error RetentionPeriodNotElapsed)
             else
               let count = nat0 (bk_user_count (book s) (in_user intent));
                   buckets = [0 ..< sat_u32 (count + (USER_INTENT_BUCKET_SIZE - 1)) div USER_INTENT_BUCKET_SIZE];
                   s1 = upd_extra (\<lambda>x. x\<lparr>ex_extension := (ex_extension x)(intent_id := None)\<rparr>) s;
                   s2 = s1\<lparr>book := (book s1)\<lparr>bk_best_bid := (bk_best_bid (book s1))(intent_id := None),
                          bk_user_pages := clear_in_buckets (in_user intent) intent_id buckets
                            (bk_user_pages (book s1))\<rparr>\<rparr>
               in rbind (case in_solver intent of
                           None \<Rightarrow> Inr s2
                         | Some solver \<Rightarrow> solver_leaves solver intent_id s2) (\<lambda>s3.
                  let s4 = upd_extra (\<lambda>x. x\<lparr>ex_claimed := (ex_claimed x)(intent_id := None)\<rparr>) s3
                  in Inr (s4\<lparr>book := (book s4)\<lparr>bk_intents := (bk_intents (book s4))(intent_id := None),
                            bk_tombstone := (bk_tombstone (book s4))(intent_id \<mapsto> True)\<rparr>\<rparr>)))"

section \<open>Routes and outbound intents\<close>

definition set_solver_routes :: "env \<Rightarrow> address \<Rightarrow> string list \<Rightarrow> address list \<Rightarrow> settlement \<Rightarrow> settlement st" where
  "set_solver_routes e solver src_chains dst_tokens s =
     rbind (require_auth e solver) (\<lambda>_.
       if length src_chains > MAX_ROUTE_ENTRIES \<or> length dst_tokens > MAX_ROUTE_ENTRIES
       then Inl (Error TooManyRouteEntries)
       else Inr (upd_extra (\<lambda>x. x\<lparr>ex_routes := (ex_routes x)(solver \<mapsto> (src_chains, dst_tokens))\<rparr>) s))"

definition get_solver_routes :: "settlement \<Rightarrow> address \<Rightarrow> string list \<times> address list" where
  "get_solver_routes s solver = (case ex_routes (extra s) solver of None \<Rightarrow> ([], []) | Some r \<Rightarrow> r)"

definition compute_outbound_intent_id :: "world \<Rightarrow> address \<Rightarrow> address \<Rightarrow> int \<Rightarrow> nat \<Rightarrow> nat \<Rightarrow> bytes32" where
  "compute_outbound_intent_id w user token amount timestamp nonce =
     w_sha256 w (w_address_xdr w user @ w_address_xdr w token @
       be_bytes 16 (nat (amount mod 2 ^ 128)) @ be_bytes 8 timestamp @ be_bytes 8 nonce)"

definition submit_outbound_intent :: "world \<Rightarrow> env \<Rightarrow> address \<Rightarrow> address \<Rightarrow> int \<Rightarrow> string \<Rightarrow> string \<Rightarrow> string
    \<Rightarrow> int \<Rightarrow> nat option \<Rightarrow> settlement \<Rightarrow> (settlement \<times> bytes32) st" where
  "submit_outbound_intent w e user token amount dst_chain dst_token dst_recipient min_dst_amount deadline s =
     rbind (require_auth e user) (\<lambda>_.
       if amount \<le> 0 \<or> min_dst_amount \<le> 0 then Inl (Error ZeroAmount)
       else if amount > MAX_AMOUNT \<or> min_dst_amount > MAX_AMOUNT then Inl (Error AmountTooLarge)
       else
         rbind (u64 (now e + cf_intent_expiry (load_config s))) (\<lambda>latest.
         let expiry = (case deadline of Some d \<Rightarrow> d | None \<Rightarrow> latest)
         in if expiry \<le> now e then Inl (Error InvalidDeadline)
            else
              rbind (decimals_of w token) (\<lambda>_.
              let nonce = nat0 (bk_nonce (book s) user)
              in rbind (u64 (nonce + 1)) (\<lambda>nonce'.
                 let s1 = s\<lparr>book := (book s)\<lparr>bk_nonce := (bk_nonce (book s))(user \<mapsto> nonce')\<rparr>\<rparr>;
                     oid = compute_outbound_intent_id w user token amount (now e) nonce
                 in if ex_outbound (extra s1) oid \<noteq> None then Inl (Error IntentAlreadyExists)
                    else
                      rbind (load_bond_token s1) (\<lambda>bond_token.
                      let r = \<lparr>ob_id = oid, ob_user = user, ob_token = token, ob_amount = amount,
                            ob_dst_chain = dst_chain, ob_dst_token = dst_token,
                            ob_dst_recipient = dst_recipient, ob_min_dst = min_dst_amount,
                            ob_solver = None, ob_state = EscrowLocked, ob_created_at = now e,
                            ob_deadline = expiry, ob_proof_verified_at = None, ob_bond_token = bond_token,
                            ob_escrow_released_at = None, ob_solver_tier = 0\<rparr>;
                          mine = (case ex_user_outbound (extra s1) user of None \<Rightarrow> [] | Some l \<Rightarrow> l) @ [oid]
                      in Inr (upd_extra (\<lambda>x. x\<lparr>ex_outbound := (ex_outbound x)(oid \<mapsto> r),
                                ex_user_outbound := (ex_user_outbound x)(user \<mapsto> mine)\<rparr>) s1, oid))))))"

definition accept_outbound_intent :: "world \<Rightarrow> env \<Rightarrow> address \<Rightarrow> bytes32 \<Rightarrow> int \<Rightarrow> address \<Rightarrow> settlement
    \<Rightarrow> settlement st" where
  "accept_outbound_intent w e solver oid bond_amount bond_token s =
     rbind (require_auth e solver) (\<lambda>_.
     rbind (need OutboundIntentNotFound (ex_outbound (extra s) oid)) (\<lambda>r.
       if ob_state r \<noteq> EscrowLocked then Inl (Error IntentNotOpen)
       else if now e \<ge> ob_deadline r then Inl (Error IntentExpired)
       else
         rbind (get_adjusted_min_bond s bond_token) (\<lambda>min_bond.
           if bond_amount < min_bond then Inl (Error SolverBondTooLow)
           else Inr (upd_extra (\<lambda>x. x\<lparr>ex_outbound := (ex_outbound x)
                  (oid \<mapsto> r\<lparr>ob_solver := Some solver, ob_state := SolverAccepted,
                     ob_bond_token := bond_token, ob_solver_tier := solver_tier w s solver\<rparr>)\<rparr>) s))))"

section \<open>Views\<close>

definition get_effective_intent_state :: "env \<Rightarrow> settlement \<Rightarrow> bytes32 \<Rightarrow> IntentState option" where
  "get_effective_intent_state e s intent_id =
     Option.bind (bk_intents (book s) intent_id) (\<lambda>intent.
       Some (if (in_state intent = Open \<or> in_state intent = PartiallyFilled) \<and> now e \<ge> in_deadline intent
             then Expired else in_state intent))"

definition get_solver_exposure :: "settlement \<Rightarrow> address \<Rightarrow> int \<times> int" where
  "get_solver_exposure s solver =
     (or0 (bo_exposure (bonds s) solver),
      case bo_solvers (bonds s) solver of
        None \<Rightarrow> 0
      | Some rec \<Rightarrow>
          (case checked_i128 (so_bond_amount rec * cf_coverage_multiplier (load_config s)) of
             None \<Rightarrow> i128_max | Some c \<Rightarrow> c))"

definition get_solver_intents :: "settlement \<Rightarrow> address \<Rightarrow> nat \<Rightarrow> nat \<Rightarrow> bytes32 list" where
  "get_solver_intents s solver start limit =
     (let list = intents_of (bo_intents (bonds s)) solver; capped = min limit MAX_PAGE_SIZE
      in if start \<ge> length list \<or> capped = 0 then []
         else map (\<lambda>i. list ! i) [start ..< min (sat_u32 (start + capped)) (length list)])"

definition list_intents_by_user :: "settlement \<Rightarrow> address \<Rightarrow> nat \<Rightarrow> nat \<Rightarrow> bytes32 list" where
  "list_intents_by_user s user start limit =
     (let total = nat0 (bk_user_count (book s) user); capped = min limit MAX_PAGE_SIZE
      in if start \<ge> total \<or> capped = 0 then []
         else
           List.map_filter (\<lambda>flat_idx.
               Option.bind (bk_user_pages (book s) (user, flat_idx div USER_INTENT_BUCKET_SIZE)) (\<lambda>page.
               Option.bind (vec_get page (flat_idx mod USER_INTENT_BUCKET_SIZE)) (\<lambda>entry. entry)))
             [start ..< min (sat_u32 (start + capped)) total])"

definition list_solvers :: "settlement \<Rightarrow> nat \<Rightarrow> nat \<Rightarrow> address list" where
  "list_solvers s start limit =
     (let total = nat0 (pg_count (bo_list (bonds s))); capped = min limit MAX_PAGE_SIZE
      in if start \<ge> total \<or> capped = 0 then []
         else
           List.map_filter (\<lambda>flat_idx.
               Option.bind (pg_pages (bo_list (bonds s)) (flat_idx div PAGED_SET_PAGE_SIZE)) (\<lambda>entries.
               Option.bind (vec_get entries (flat_idx mod PAGED_SET_PAGE_SIZE)) (\<lambda>entry. entry)))
             [start ..< min (sat_u32 (start + capped)) total])"

definition preview_intent_id :: "world \<Rightarrow> env \<Rightarrow> settlement \<Rightarrow> address \<Rightarrow> string \<Rightarrow> int \<Rightarrow> address \<Rightarrow> int \<Rightarrow> bytes32" where
  "preview_intent_id w e s user src_chain src_amount dst_token min_dst_amount =
     compute_intent_id w e user src_chain src_amount dst_token min_dst_amount (nat0 (bk_nonce (book s) user))"

definition st_get_reputation_score :: "settlement \<Rightarrow> address \<Rightarrow> nat option st" where
  "st_get_reputation_score s solver =
     (case bo_solvers (bonds s) solver of
        None \<Rightarrow> Inr None
      | Some record \<Rightarrow> rbind (compute_reputation_score record) (\<lambda>x. Inr (Some x)))"

end
