(* ===== verification/Intent_Machine.thy ===== *)
theory Intent_Machine
  imports Settlement_State
begin

text \<open>
  What the settlement contract promises about intents, as an abstract machine: the steps one
  intent can make (\<open>intent_step\<close>), the steps of the whole ledger of intents and tombstones
  (\<open>ledger_step\<close>), and the invariants of both, by rule induction. \<open>Settlement_Lifecycle\<close>
  shows that the contract's entry points refine this machine.
\<close>

type_synonym ledger = "(bytes32 \<Rightarrow> IntentRecord option) \<times> (bytes32 \<Rightarrow> bool option)"

section \<open>One intent\<close>

inductive intent_step :: "env \<Rightarrow> IntentRecord \<Rightarrow> IntentRecord \<Rightarrow> bool" for e where
  accept: "\<lbrakk>in_state i = Open \<or> in_state i = PartiallyFilled; now e < in_deadline i\<rbrakk> \<Longrightarrow>
    intent_step e i (i\<lparr>in_solver := Some a, in_state := Accepted, in_bond_token := b,
      in_solver_tier := k, in_deadline := d\<rparr>)"
| win_bid: "\<lbrakk>in_state i = Bidding; in_deadline i \<le> now e\<rbrakk> \<Longrightarrow>
    intent_step e i (i\<lparr>in_solver := Some a, in_state := Accepted, in_bond_token := b, in_deadline := d\<rparr>)"
| no_bid: "\<lbrakk>in_state i = Bidding; in_deadline i \<le> now e\<rbrakk> \<Longrightarrow>
    intent_step e i (i\<lparr>in_state := Open, in_deadline := d\<rparr>)"
| fill: "\<lbrakk>in_state i = Accepted; now e < in_deadline i; 0 < v; c = in_total_filled i + v; in_min_dst i \<le> c\<rbrakk> \<Longrightarrow>
    intent_step e i (i\<lparr>in_total_filled := c, in_fill_amount := Some c, in_state := Filled,
      in_filled_at := Some (now e), in_terminal_at := Some (now e)\<rparr>)"
| part: "\<lbrakk>in_state i = Accepted; now e < in_deadline i; 0 < v; c = in_total_filled i + v; c < in_min_dst i\<rbrakk> \<Longrightarrow>
    intent_step e i (i\<lparr>in_total_filled := c, in_fill_amount := Some c, in_state := PartiallyFilled,
      in_solver := None, in_solver_tier := 0, in_deadline := d\<rparr>)"
| begin_fill: "\<lbrakk>in_state i = Accepted; in_solver i = Some a; now e < in_deadline i; 0 < v;
      in_min_dst i \<le> in_total_filled i + v;
      x = tok_delta e [] \<lparr>x_token = in_dst_token i, x_from = a, x_to = self e, x_amount = v\<rparr>\<rbrakk> \<Longrightarrow>
    intent_step e i (i\<lparr>in_state := Filling, in_dispute_deadline := Some (now e + DISPUTE_WINDOW),
      in_fill_amount := Some x\<rparr>)"
| dispute: "\<lbrakk>in_state i = Filling; now e < nat0 (in_dispute_deadline i)\<rbrakk> \<Longrightarrow>
    intent_step e i (i\<lparr>in_state := Disputed, in_dispute_raised_at := Some (now e)\<rparr>)"
| resolve: "\<lbrakk>in_state i = Disputed; c = in_total_filled i + or0 (in_fill_amount i)\<rbrakk> \<Longrightarrow>
    intent_step e i (i\<lparr>in_total_filled := c, in_fill_amount := Some c, in_filled_at := Some (now e),
      in_state := Resolved, in_terminal_at := Some (now e), in_resolution := Some r\<rparr>)"
| release: "\<lbrakk>in_state i = Filling; nat0 (in_dispute_deadline i) \<le> now e;
      c = in_total_filled i + or0 (in_fill_amount i)\<rbrakk> \<Longrightarrow>
    intent_step e i (i\<lparr>in_state := Filled, in_terminal_at := Some (now e), in_total_filled := c,
      in_fill_amount := Some c, in_filled_at := Some (now e)\<rparr>)"
| timeout: "\<lbrakk>in_state i = Disputed; nat0 (in_dispute_raised_at i) + ARBITER_WINDOW \<le> now e;
      c = in_total_filled i + or0 (in_fill_amount i)\<rbrakk> \<Longrightarrow>
    intent_step e i (i\<lparr>in_state := Resolved, in_terminal_at := Some (now e), in_resolution := None,
      in_total_filled := c, in_fill_amount := Some c, in_filled_at := Some (now e)\<rparr>)"
| withdraw: "\<lbrakk>in_state i = Open \<or> in_state i = PartiallyFilled\<rbrakk> \<Longrightarrow>
    intent_step e i (i\<lparr>in_state := Cancelled, in_terminal_at := Some (now e)\<rparr>)"
| expire: "\<lbrakk>in_state i = Open \<or> in_state i = PartiallyFilled; in_deadline i \<le> now e\<rbrakk> \<Longrightarrow>
    intent_step e i (i\<lparr>in_state := Expired, in_terminal_at := Some (now e)\<rparr>)"
| amend: "\<lbrakk>in_state i = Open \<or> in_state i = Bidding; now e < d\<rbrakk> \<Longrightarrow>
    intent_step e i (i\<lparr>in_min_dst := m, in_deadline := d\<rparr>)"
| slash: "\<lbrakk>in_state i = Accepted; sat_u64 (in_deadline i) \<le> now e\<rbrakk> \<Longrightarrow>
    intent_step e i (i\<lparr>in_solver := None, in_solver_tier := 0, in_deadline := d, in_state := Open\<rparr>)"
| extend: "\<lbrakk>in_state i = Accepted; d = in_deadline i + MAX_EXTENSION_DURATION\<rbrakk> \<Longrightarrow>
    intent_step e i (i\<lparr>in_deadline := d\<rparr>)"

definition terminal :: "IntentRecord \<Rightarrow> bool" where
  "terminal i \<longleftrightarrow> in_state i \<in> {Filled, Cancelled, Expired, Resolved, Slashed}"

fun next_states :: "IntentState \<Rightarrow> IntentState set" where
  "next_states Open = {Open, Accepted, Cancelled, Expired}"
| "next_states PartiallyFilled = {Accepted, Cancelled, Expired}"
| "next_states Accepted = {Accepted, Filled, PartiallyFilled, Filling, Open}"
| "next_states Bidding = {Bidding, Accepted, Open}"
| "next_states Filling = {Disputed, Filled}"
| "next_states Disputed = {Resolved}"
| "next_states _ = {}"

text \<open>The part of an order that its user fixed when submitting it.\<close>

definition order_of :: "IntentRecord \<Rightarrow> bytes32 \<times> address \<times> string \<times> string \<times> int \<times> address \<times> nat \<times> address option" where
  "order_of i = (in_id i, in_user i, in_src_chain i, in_src_token i, in_src_amount i, in_dst_token i,
     in_created_at i, in_referrer i)"

lemma intent_step_next: "intent_step e i j \<Longrightarrow> in_state j \<in> next_states (in_state i)"
  by (induction rule: intent_step.induct) auto

lemma intent_step_order: "intent_step e i j \<Longrightarrow> order_of j = order_of i"
  by (induction rule: intent_step.induct) (auto simp: order_of_def)

lemma intent_step_cycles: "intent_step e i j \<Longrightarrow> in_slash_cycles j = in_slash_cycles i"
  by (induction rule: intent_step.induct) auto

lemma intent_step_not_terminal: "intent_step e i j \<Longrightarrow> \<not> terminal i"
  by (induction rule: intent_step.induct) (auto simp: terminal_def)

section \<open>Invariants of one intent\<close>

text \<open>The fields that go with each state.\<close>

definition order_ok :: "IntentRecord \<Rightarrow> bool" where
  "order_ok i \<longleftrightarrow>
     in_state i \<noteq> Bidding \<and> in_state i \<noteq> Slashed \<and> in_slash_cycles i = 0 \<and>
     (in_state i \<in> {Accepted, Filling, Disputed} \<longrightarrow> in_solver i \<noteq> None) \<and>
     (in_state i \<in> {Filling, Disputed} \<longrightarrow> in_fill_amount i \<noteq> None \<and> in_dispute_deadline i \<noteq> None) \<and>
     (in_state i = Disputed \<longrightarrow> in_dispute_raised_at i \<noteq> None) \<and>
     (terminal i \<longleftrightarrow> in_terminal_at i \<noteq> None)"

lemma order_ok_step: "intent_step e i j \<Longrightarrow> order_ok i \<Longrightarrow> order_ok j"
  by (induction rule: intent_step.induct) (auto simp: order_ok_def terminal_def)

text \<open>What a user has been or will be sent, when tokens move exactly what they are asked to.\<close>

definition exact_tokens :: "env \<Rightarrow> bool" where
  "exact_tokens e \<longleftrightarrow> (\<forall>tr x. tok_delta e tr x = x_amount x)"

definition delivered_ok :: "IntentRecord \<Rightarrow> bool" where
  "delivered_ok i \<longleftrightarrow> 0 \<le> in_total_filled i \<and>
     (in_state i \<in> {Filling, Disputed} \<longrightarrow>
        0 < or0 (in_fill_amount i) \<and> in_min_dst i \<le> in_total_filled i + or0 (in_fill_amount i)) \<and>
     (in_state i \<in> {Filled, Resolved} \<longrightarrow> in_min_dst i \<le> in_total_filled i)"

lemma delivered_ok_step: "intent_step e i j \<Longrightarrow> exact_tokens e \<Longrightarrow> delivered_ok i \<Longrightarrow> delivered_ok j"
  by (induction rule: intent_step.induct) (auto simp: delivered_ok_def exact_tokens_def or0_def)

section \<open>The ledger\<close>

definition fresh_order :: "env \<Rightarrow> IntentRecord \<Rightarrow> bool" where
  "fresh_order e r \<longleftrightarrow> in_state r = Open \<and> in_solver r = None \<and> in_total_filled r = 0 \<and>
     in_slash_cycles r = 0 \<and> in_terminal_at r = None \<and> in_created_at r = now e \<and>
     now e < in_deadline r \<and> 0 < in_min_dst r \<and> in_min_dst r \<le> MAX_AMOUNT \<and>
     0 < in_src_amount r \<and> in_src_amount r \<le> MAX_AMOUNT \<and> in_referrer r \<noteq> Some (in_user r)"

inductive ledger_step :: "env \<Rightarrow> ledger \<Rightarrow> ledger \<Rightarrow> bool" for e where
  submit: "\<lbrakk>m i = None; t i = None; in_id r = i; fresh_order e r\<rbrakk> \<Longrightarrow> ledger_step e (m, t) (m(i \<mapsto> r), t)"
| move: "\<lbrakk>m i = Some r; intent_step e r r'\<rbrakk> \<Longrightarrow> ledger_step e (m, t) (m(i \<mapsto> r'), t)"
| close: "\<lbrakk>m i = Some r; terminal r\<rbrakk> \<Longrightarrow> ledger_step e (m, t) (m(i := None), t(i \<mapsto> True))"

inductive_cases ledger_stepE: "ledger_step e l l'"

definition ledger_ok :: "ledger \<Rightarrow> bool" where
  "ledger_ok l \<longleftrightarrow> (\<forall>i r. fst l i = Some r \<longrightarrow> in_id r = i \<and> snd l i = None \<and> order_ok r)"

lemma order_of_id: "order_of j = order_of i \<Longrightarrow> in_id j = in_id i"
  by (simp add: order_of_def)

lemma fresh_order_ok: "fresh_order e r \<Longrightarrow> order_ok r \<and> delivered_ok r"
  by (simp add: fresh_order_def order_ok_def delivered_ok_def terminal_def)

lemma ledger_ok_step: "ledger_step e l l' \<Longrightarrow> ledger_ok l \<Longrightarrow> ledger_ok l'"
proof (induction rule: ledger_step.induct)
  case (submit m i t r)
  then show ?case using fresh_order_ok [of e r] by (auto simp: ledger_ok_def)
next
  case (move m i r r' t)
  then have "in_id r = i" "t i = None" "order_ok r" by (auto simp: ledger_ok_def)
  with move order_ok_step [of e r r'] order_of_id [OF intent_step_order [of e r r']]
  show ?case by (auto simp: ledger_ok_def)
next
  case (close m i r t)
  then show ?case by (auto simp: ledger_ok_def)
qed

definition ledger_delivered :: "ledger \<Rightarrow> bool" where
  "ledger_delivered l \<longleftrightarrow> (\<forall>i r. fst l i = Some r \<longrightarrow> delivered_ok r)"

lemma ledger_delivered_step:
  "ledger_step e l l' \<Longrightarrow> exact_tokens e \<Longrightarrow> ledger_delivered l \<Longrightarrow> ledger_delivered l'"
proof (induction rule: ledger_step.induct)
  case (submit m i t r)
  then show ?case using fresh_order_ok [of e r] by (auto simp: ledger_delivered_def)
next
  case (move m i r r' t)
  then have "delivered_ok r'" using delivered_ok_step [of e r r'] by (auto simp: ledger_delivered_def)
  with move show ?case by (auto simp: ledger_delivered_def)
qed (auto simp: ledger_delivered_def)

text \<open>
  The life of one identifier: a terminal record never changes again before it is closed, and a
  tombstone is forever.
\<close>

definition settled :: "bytes32 \<Rightarrow> IntentRecord \<Rightarrow> ledger \<Rightarrow> bool" where
  "settled i r l \<longleftrightarrow> terminal r \<and> (fst l i = Some r \<or> fst l i = None \<and> snd l i = Some True)"

lemma settled_step: "ledger_step e l l' \<Longrightarrow> settled i r l \<Longrightarrow> settled i r l'"
  by (induction rule: ledger_step.induct) (auto simp: settled_def dest: intent_step_not_terminal)

lemma taken_step:
  "ledger_step e l l' \<Longrightarrow> fst l i \<noteq> None \<or> snd l i \<noteq> None \<Longrightarrow> fst l' i \<noteq> None \<or> snd l' i \<noteq> None"
  by (induction rule: ledger_step.induct) auto

lemma order_kept_step:
  "ledger_step e l l' \<Longrightarrow> fst l i = Some r \<Longrightarrow> fst l' i = Some r' \<Longrightarrow> ledger_ok l \<Longrightarrow> order_of r' = order_of r"
  by (induction rule: ledger_step.induct) (auto dest: intent_step_order split: if_splits)

text \<open>Invariants lift to any number of steps.\<close>

lemma steps_keep:
  assumes "(ledger_step e)\<^sup>*\<^sup>* l l'" "\<And>l l'. ledger_step e l l' \<Longrightarrow> P l \<Longrightarrow> P l'" "P l"
  shows "P l'"
  using assms(1,3) by (induction rule: rtranclp_induct) (auto intro: assms(2))

end
