(* ===== verification/Settlement_Frames.thy ===== *)
theory Settlement_Frames
  imports Settlement_Extras Intent_Machine
begin

text \<open>
  What the helpers of the settlement contract leave alone. \<open>settings\<close> collects the
  groups of keys that only administration writes; \<open>ledger_of\<close> is the part of the storage
  that holds the intents: their records and the tombstones of the closed ones.
\<close>

definition ledger_of :: "settlement \<Rightarrow> ledger" where
  "ledger_of s = (bk_intents (book s), bk_tombstone (book s))"

definition settings :: "settlement \<Rightarrow> st_roles \<times> st_allow" where
  "settings s = (roles s, allow s)"

section \<open>Helpers that cannot abort\<close>

named_theorems helper_defs

lemmas [helper_defs] = save_intent_def save_solver_def set_open_def set_volume_def set_exposure_def
  set_total_bonded_def adjust_token_liabilities_def add_to_open_intent_list_def
  remove_from_open_intent_list_def release_exposure_def stamp_cancel_cooldown_def
  stamp_amendment_cooldown_def upd_roles_def upd_allow_def upd_bonds_def upd_extra_def

lemma settings_simps [simp]:
  "settings (save_intent i r t) = settings t"
  "settings (save_solver a q t) = settings t"
  "settings (set_open n t) = settings t"
  "settings (set_volume v t) = settings t"
  "settings (set_exposure a v t) = settings t"
  "settings (set_total_bonded v t) = settings t"
  "settings (adjust_token_liabilities w a v t) = settings t"
  "settings (add_to_open_intent_list w i t) = settings t"
  "settings (remove_from_open_intent_list w i t) = settings t"
  "settings (release_exposure a v t) = settings t"
  "settings (stamp_cancel_cooldown a n t) = settings t"
  "settings (stamp_amendment_cooldown a n t) = settings t"
  "settings (upd_bonds f t) = settings t"
  "settings (upd_extra g t) = settings t"
  "settings (t\<lparr>bonds := b\<rparr>) = settings t"
  "settings (t\<lparr>book := k\<rparr>) = settings t"
  "settings (ctx_commit c t) = settings t"
  by (simp_all add: settings_def helper_defs ctx_commit_def Let_def)

lemma ledger_of_simps [simp]:
  "ledger_of (save_intent i r t) = ((fst (ledger_of t))(i \<mapsto> r), snd (ledger_of t))"
  "ledger_of (save_solver a q t) = ledger_of t"
  "ledger_of (set_open n t) = ledger_of t"
  "ledger_of (set_volume v t) = ledger_of t"
  "ledger_of (set_exposure a v t) = ledger_of t"
  "ledger_of (set_total_bonded v t) = ledger_of t"
  "ledger_of (adjust_token_liabilities w a v t) = ledger_of t"
  "ledger_of (add_to_open_intent_list w i t) = ledger_of t"
  "ledger_of (remove_from_open_intent_list w i t) = ledger_of t"
  "ledger_of (release_exposure a v t) = ledger_of t"
  "ledger_of (stamp_cancel_cooldown a n t) = ledger_of t"
  "ledger_of (stamp_amendment_cooldown a n t) = ledger_of t"
  "ledger_of (upd_roles p t) = ledger_of t"
  "ledger_of (upd_allow l t) = ledger_of t"
  "ledger_of (upd_bonds f t) = ledger_of t"
  "ledger_of (upd_extra g t) = ledger_of t"
  "ledger_of (t\<lparr>bonds := b\<rparr>) = ledger_of t"
  "ledger_of (ctx_commit c t) = ledger_of t"
  by (simp_all add: ledger_of_def helper_defs ctx_commit_def Let_def)

lemma ledger_of_book [simp]:
  "ledger_of (t\<lparr>book := (book u)\<lparr>bk_best_bid := v1\<rparr>\<rparr>) = ledger_of u"
  "ledger_of (t\<lparr>book := (book u)\<lparr>bk_nonce := v2\<rparr>\<rparr>) = ledger_of u"
  "ledger_of (t\<lparr>book := (book u)\<lparr>bk_total := v3\<rparr>\<rparr>) = ledger_of u"
  "ledger_of (t\<lparr>book := (book u)\<lparr>bk_bid_enabled := v4\<rparr>\<rparr>) = ledger_of u"
  "ledger_of (t\<lparr>book := (book u)\<lparr>bk_user_pages := v5, bk_user_count := v6\<rparr>\<rparr>) = ledger_of u"
  "ledger_of (t\<lparr>book := (book u)\<lparr>bk_best_bid := v1, bk_user_pages := v5\<rparr>\<rparr>) = ledger_of u"
  "ledger_of (t\<lparr>book := (book u)\<lparr>bk_total := v3, bk_volume := v7, bk_open := v8\<rparr>\<rparr>) = ledger_of u"
  by (simp_all add: ledger_of_def)

lemma ledger_of_put: "ledger_of (t\<lparr>book := b\<rparr>) = (bk_intents b, bk_tombstone b)"
  by (simp add: ledger_of_def)

lemma fst_ledger_of: "fst (ledger_of s) = bk_intents (book s)"
  by (simp add: ledger_of_def)

lemma snd_ledger_of: "snd (ledger_of s) = bk_tombstone (book s)"
  by (simp add: ledger_of_def)

text \<open>Both at once: a state change that is silent for the settings and the intents.\<close>

definition quiet :: "settlement \<Rightarrow> settlement \<Rightarrow> bool" where
  "quiet s s' \<longleftrightarrow> settings s' = settings s \<and> ledger_of s' = ledger_of s"

lemma quietI: "settings s' = settings s \<Longrightarrow> ledger_of s' = ledger_of s \<Longrightarrow> quiet s s'"
  by (simp add: quiet_def)

section \<open>Helpers that may abort\<close>

lemma set_solver_bond_amount_quiet:
  "set_solver_bond_amount s r t v = Inr p \<Longrightarrow> settings (fst p) = settings s \<and> ledger_of (fst p) = ledger_of s"
  by (auto simp: set_solver_bond_amount_def Let_def)

lemma solver_leaves_quiet:
  "solver_leaves a i s = Inr s' \<Longrightarrow> settings s' = settings s \<and> ledger_of s' = ledger_of s"
  by (auto simp: solver_leaves_def)

lemma take_exposure_quiet:
  "take_exposure w e c a q i s = Inr s' \<Longrightarrow> settings s' = settings s \<and> ledger_of s' = ledger_of s"
  by (auto simp: take_exposure_def Let_def split: if_splits)

lemma count_new_solver_quiet:
  "count_new_solver a s = Inr s' \<Longrightarrow> settings s' = settings s \<and> ledger_of s' = ledger_of s"
  by (auto simp: count_new_solver_def)

lemma user_intents_append_quiet:
  "user_intents_append a i s = Inr s' \<Longrightarrow> settings s' = settings s \<and> ledger_of s' = ledger_of s"
  by (auto simp: user_intents_append_def Let_def)

lemma clear_extras_quiet [simp]:
  "settings (clear_extras a d rs s) = settings s" "ledger_of (clear_extras a d rs s) = ledger_of s"
  by (induction a d rs s rule: clear_extras.induct) auto

lemma pay_refunds_quiet:
  "pay_refunds w e a rs s tr = Inr (s', tr') \<Longrightarrow> settings s' = settings s \<and> ledger_of s' = ledger_of s"
proof (induction w e a rs s tr rule: pay_refunds.induct)
  case (2 w e a t v rs s tr)
  from 2(2) obtain tr1 where
    "pay_refunds w e a rs (adjust_token_liabilities w t (- v) s) tr1 = Inr (s', tr')"
    by (auto simp: Let_def)
  from 2(1) [OF refl this] show ?case by simp
qed simp

lemma slash_payout_quiet:
  "slash_payout e c t v s = Inr (s', tr) \<Longrightarrow> settings s' = settings s \<and> ledger_of s' = ledger_of s"
  by (auto simp: slash_payout_def Let_def split: if_splits)

lemmas helpers_quiet = set_solver_bond_amount_quiet solver_leaves_quiet take_exposure_quiet
  count_new_solver_quiet user_intents_append_quiet pay_refunds_quiet slash_payout_quiet

section \<open>Solver transactions\<close>

text \<open>The handlers of \<open>Settlement_Bonds\<close> touch neither the settings nor the intents.\<close>

lemma register_solver_inner_quiet:
  "register_solver_inner w e a t v s = Inr (s', tr) \<Longrightarrow> settings s' = settings s \<and> ledger_of s' = ledger_of s"
  unfolding register_solver_inner_def Let_def split_beta
  by (elim rbindE guardE condE) (auto dest!: helpers_quiet)

lemma deregister_solver_quiet:
  "deregister_solver w e a s = Inr (s', tr) \<Longrightarrow> settings s' = settings s \<and> ledger_of s' = ledger_of s"
  unfolding deregister_solver_def Let_def
  by (elim rbindE guardE condE) (auto dest!: helpers_quiet)

lemma withdraw_bond_inner_quiet:
  "withdraw_bond_inner e a t v s = Inr (s', tr) \<Longrightarrow> settings s' = settings s \<and> ledger_of s' = ledger_of s"
  unfolding withdraw_bond_inner_def split_beta
  by (elim rbindE guardE condE) (auto dest!: helpers_quiet)

end
