(* ===== verification/Settlement_Lifecycle.thy ===== *)
theory Settlement_Lifecycle
  imports Settlement_Frames
begin

text \<open>
  The settlement contract as a transition system: one event per entry point, the refinement of
  the abstract intent machine, and the invariants it gives for every run of transactions.
\<close>

section \<open>Handlers that move one intent\<close>

definition moves :: "env \<Rightarrow> settlement \<Rightarrow> settlement \<Rightarrow> bool" where
  "moves e s s' \<longleftrightarrow> settings s' = settings s \<and>
     (\<exists>i r r'. fst (ledger_of s) i = Some r \<and> intent_step e r r' \<and>
        ledger_of s' = ((fst (ledger_of s))(i \<mapsto> r'), snd (ledger_of s)))"

lemma movesI:
  assumes "load_intent s i = Inr r"
    "ledger_of s' = ((fst (ledger_of s))(i \<mapsto> r'), snd (ledger_of s))" "settings s' = settings s"
    "intent_step e r r'"
  shows "moves e s s'"
  using assms unfolding moves_def load_intent_def by (auto simp: fst_ledger_of)

lemma accept_intent_body_moves:
  "accept_intent_body w e a i b s = Inr s' \<Longrightarrow> moves e s s'"
  unfolding accept_intent_body_def Let_def
  by (elim rbindE guardE, erule movesI) (auto dest!: helpers_quiet intro!: intent_step.accept)

lemma cancel_intent_core_moves: "cancel_intent_core e u i s = Inr s' \<Longrightarrow> moves e s s'"
  unfolding cancel_intent_core_def Let_def
  by (elim rbindE guardE, erule movesI) (auto intro!: intent_step.withdraw)

lemma amend_intent_moves: "amend_intent e u i m d s = Inr s' \<Longrightarrow> moves e s s'"
  unfolding amend_intent_def Let_def
  by (elim rbindE guardE, erule movesI) (auto intro!: intent_step.amend)

lemma expire_intent_moves: "expire_intent e i s = Inr s' \<Longrightarrow> moves e s s'"
  unfolding expire_intent_def Let_def
  by (elim rbindE guardE, erule movesI) (auto intro!: intent_step.expire)

lemma dispute_fill_moves: "dispute_fill e u i s = Inr s' \<Longrightarrow> moves e s s'"
  unfolding dispute_fill_def
  by (elim rbindE guardE, erule movesI) (auto intro!: intent_step.dispute)

lemma request_extension_moves: "request_extension w e a i s = Inr s' \<Longrightarrow> moves e s s'"
  unfolding request_extension_def Let_def
  by (elim rbindE guardE, erule movesI) (auto intro!: intent_step.extend)

lemma check_fill_guards_Inr:
  "check_fill_guards i a t = Inr u \<longleftrightarrow> t < in_deadline i \<and> in_state i = Accepted \<and> in_solver i = Some a"
  by (auto simp: check_fill_guards_def split: IntentState.splits if_splits)

lemma guard_sumE:
  assumes "(case x of Inl err \<Rightarrow> Inl (Error err) | Inr u \<Rightarrow> m u) = Inr y"
  obtains u where "x = Inr u" "m u = Inr y"
  using assms by (cases x) auto

lemma fill_outcomeE:
  assumes "(if c \<ge> n then rbind m (\<lambda>x. rbind (k x) (\<lambda>t. Inr (f x t)))
            else rbind m' (\<lambda>x. rbind (k' x) (\<lambda>t. rbind z (\<lambda>q. Inr (f' x t q))))) = Inr y"
  obtains (complete) x t where "c \<ge> (n :: int)" "m = Inr x" "k x = Inr t" "y = f x t"
  | (partial) x t q where "c < n" "m' = Inr x" "k' x = Inr t" "z = Inr q" "y = f' x t q"
  using assms by (cases "c \<ge> n") (auto elim!: rbindE)

lemma fill_intent_inner_moves:
  "fill_intent_inner w e a i v p s = Inr (s', tr) \<Longrightarrow> moves e s s'"
  unfolding fill_intent_inner_def Let_def split_beta
  apply (elim rbindE guardE guard_sumE; erule fill_outcomeE; erule movesI)
  apply (simp_all add: check_fill_guards_Inr)
  apply (auto dest!: solver_leaves_quiet intro!: intent_step.fill [where v = v] intent_step.part [where v = v])
  done

lemma slash_eligible_deadline:
  "slash_eligible w t d \<Longrightarrow> sat_u64 d \<le> t"
  by (auto simp: slash_eligible_def sat_u64_def)

lemma slash_solver_moves: "slash_solver w e i s = Inr (s', tr) \<Longrightarrow> moves e s s'"
  unfolding slash_solver_def Let_def split_beta
  by (elim rbindE guardE, erule movesI)
    (auto dest!: helpers_quiet slash_eligible_deadline intro!: intent_step.slash)

lemma settle_bids_moves: "settle_bids e i s = Inr s' \<Longrightarrow> moves e s s'"
  unfolding settle_bids_def Let_def
  by (elim rbindE guardE case_optionE; erule movesI)
    (auto intro!: intent_step.win_bid intent_step.no_bid)

lemma begin_fill_moves: "begin_fill e a i v s = Inr (s', tr) \<Longrightarrow> moves e s s'"
  unfolding begin_fill_def Let_def split_beta
  by (elim rbindE guardE condE; erule movesI)
    (auto simp: pull_exact_def fill_window_open_def intro!: intent_step.begin_fill [where a = a and v = v])

lemma resolve_dispute_moves: "resolve_dispute e a i q s = Inr (s', tr) \<Longrightarrow> moves e s s'"
  unfolding resolve_dispute_def uphold_def Let_def split_beta
  by (cases q; simp only: DisputeResolution.case; elim rbindE guardE condE; erule movesI)
    (auto dest!: helpers_quiet intro!: intent_step.resolve)

lemma release_caseE:
  assumes "(case st of Filling \<Rightarrow> m | Disputed \<Rightarrow> m' | _ \<Rightarrow> Inl err) = Inr y"
  obtains "st = Filling" "m = Inr y" | "st = Disputed" "m' = Inr y"
  using assms by (cases st) auto

lemma release_fill_moves: "release_fill e i s = Inr (s', tr) \<Longrightarrow> moves e s s'"
  unfolding release_fill_def Let_def split_beta
  by (elim rbindE release_caseE guardE; erule movesI)
    (auto intro!: intent_step.release intent_step.timeout)

section \<open>Handlers that open or close an intent\<close>

definition opens :: "env \<Rightarrow> settlement \<Rightarrow> bytes32 \<Rightarrow> settlement \<Rightarrow> bool" where
  "opens e s i s' \<longleftrightarrow> settings s' = settings s \<and>
     (\<exists>r. fst (ledger_of s) i = None \<and> snd (ledger_of s) i = None \<and> in_id r = i \<and> fresh_order e r \<and>
        ledger_of s' = ((fst (ledger_of s))(i \<mapsto> r), snd (ledger_of s)))"

definition closes :: "settlement \<Rightarrow> settlement \<Rightarrow> bool" where
  "closes s s' \<longleftrightarrow> settings s' = settings s \<and>
     (\<exists>i r. fst (ledger_of s) i = Some r \<and> terminal r \<and>
        ledger_of s' = ((fst (ledger_of s))(i := None), (snd (ledger_of s))(i \<mapsto> True)))"

lemma moves_steps: "moves e s s' \<Longrightarrow> ledger_step e (ledger_of s) (ledger_of s')"
  unfolding moves_def by (cases "ledger_of s") (auto intro: ledger_step.move)

lemma opens_steps: "opens e s i s' \<Longrightarrow> ledger_step e (ledger_of s) (ledger_of s')"
  unfolding opens_def by (cases "ledger_of s") (auto intro: ledger_step.submit)

lemma closes_steps: "closes s s' \<Longrightarrow> ledger_step e (ledger_of s) (ledger_of s')"
  unfolding closes_def by (cases "ledger_of s") (auto intro: ledger_step.close)

lemma moves_settings: "moves e s s' \<Longrightarrow> settings s' = settings s"
  and opens_settings: "opens e s i s' \<Longrightarrow> settings s' = settings s"
  and closes_settings: "closes s s' \<Longrightarrow> settings s' = settings s"
  by (simp_all add: moves_def opens_def closes_def)

lemma opensI:
  assumes "ledger_of s' = ((fst (ledger_of s))(i \<mapsto> r), snd (ledger_of s))" "settings s' = settings s"
    "bk_intents (book s) i = None" "bk_tombstone (book s) i = None" "in_id r = i" "fresh_order e r"
  shows "opens e s i s'"
  using assms unfolding opens_def by (auto simp: fst_ledger_of snd_ledger_of)

lemma closesI:
  assumes "load_intent s i = Inr r" "terminal r"
    "ledger_of s' = ((fst (ledger_of s))(i := None), (snd (ledger_of s))(i \<mapsto> True))"
    "settings s' = settings s"
  shows "closes s s'"
  using assms unfolding closes_def load_intent_def by (auto simp: fst_ledger_of)

lemma submit_intent_inner_opens:
  "submit_intent_inner w e u c q v d m dl rf s = Inr (s', i) \<Longrightarrow> opens e s i s'"
  unfolding submit_intent_inner_def Let_def
  by (elim rbindE guardE case_optionE; (simp; fail)?; rule opensI)
    (auto simp: fresh_order_def fst_ledger_of snd_ledger_of dest!: user_intents_append_quiet)

lemma ledger_of_tables: "bk_intents (book s) = fst (ledger_of s)" "bk_tombstone (book s) = snd (ledger_of s)"
  by (simp_all add: ledger_of_def)

lemma close_intent_closes: "close_intent e i s = Inr s' \<Longrightarrow> closes s s'"
  unfolding close_intent_def Let_def
  by (elim rbindE guardE case_optionE; erule closesI)
    (auto simp: terminal_def ledger_of_tables ledger_of_put dest!: solver_leaves_quiet)

section \<open>Progress\<close>

text \<open>Any number of steps of the abstract machine, with the settings untouched.\<close>

definition progress :: "env \<Rightarrow> settlement \<Rightarrow> settlement \<Rightarrow> bool" where
  "progress e s s' \<longleftrightarrow> settings s' = settings s \<and> (ledger_step e)\<^sup>*\<^sup>* (ledger_of s) (ledger_of s')"

lemma progress_refl [simp]: "progress e s s"
  by (simp add: progress_def)

lemma progress_trans: "progress e s s1 \<Longrightarrow> progress e s1 s2 \<Longrightarrow> progress e s s2"
  unfolding progress_def by (metis rtranclp_trans)

lemma quiet_progress: "settings s' = settings s \<and> ledger_of s' = ledger_of s \<Longrightarrow> progress e s s'"
  by (simp add: progress_def)

lemma moves_progress: "moves e s s' \<Longrightarrow> progress e s s'"
  using moves_steps moves_settings unfolding progress_def by blast

lemma opens_progress: "opens e s i s' \<Longrightarrow> progress e s s'"
  using opens_steps opens_settings unfolding progress_def by blast

lemma closes_progress: "closes s s' \<Longrightarrow> progress e s s'"
  using closes_steps closes_settings unfolding progress_def by blast

lemma progress_put [simp]:
  "progress e s (stamp_cancel_cooldown u n t) = progress e s t"
  "progress e s (stamp_amendment_cooldown u n t) = progress e s t"
  "progress e s (upd_extra g t) = progress e s t"
  by (simp_all add: progress_def)

lemma each_progress:
  assumes "\<And>x p p'. f x p = Inr p' \<Longrightarrow> progress e (g p) (g p')" "each f xs p = Inr p'"
  shows "progress e (g p) (g p')"
  using assms(2) by (induction xs arbitrary: p) (auto intro: progress_trans dest: assms(1))

lemma batch_submit_intent_progress:
  "batch_submit_intent w e u orders s = Inr (s', ids) \<Longrightarrow> progress e s s'"
  unfolding batch_submit_intent_def
  by (elim rbindE guardE, drule each_progress [where g = fst and e = e, rotated])
    (auto intro: opens_progress [OF submit_intent_inner_opens])

lemma accept_intent_inner_moves: "accept_intent_inner w e a i b s = Inr s' \<Longrightarrow> moves e s s'"
  unfolding accept_intent_inner_def by (elim rbindE) (rule accept_intent_body_moves)

lemma batch_accept_intent_progress: "batch_accept_intent w e a ids s = Inr s' \<Longrightarrow> progress e s s'"
  unfolding batch_accept_intent_def
  by (elim rbindE guardE, drule each_progress [where g = "\<lambda>s. s" and e = e, rotated])
    (auto intro: progress_trans moves_progress accept_intent_body_moves accept_intent_inner_moves)

lemma batch_fill_intent_progress: "batch_fill_intent w e a fills s = Inr (s', tr) \<Longrightarrow> progress e s s'"
  unfolding batch_fill_intent_def
  by (elim rbindE guardE, drule each_progress [where g = fst and e = e, rotated])
    (auto intro: moves_progress [OF fill_intent_inner_moves])

lemma batch_cancel_intent_progress: "batch_cancel_intent e u ids s = Inr s' \<Longrightarrow> progress e s s'"
  unfolding batch_cancel_intent_def
  by (elim rbindE guardE, drule each_progress [where g = "\<lambda>s. s" and e = e, rotated])
    (auto intro: moves_progress [OF cancel_intent_core_moves])

section \<open>One transaction\<close>

datatype st_event =
    Admin admin_event
  | ProposeChain ChainConfig | ExecuteChain string | RemoveChain string | SetRetention nat
  | Register address int | RegisterWith address address int | Deregister address
  | Withdraw address int | WithdrawToken address address int
  | SetRoutes address "string list" "address list"
  | Submit address string string int address int "nat option" "address option"
  | BatchSubmit address "(string \<times> string \<times> int \<times> address \<times> int \<times> nat option) list"
  | AcceptIntent address bytes32 | AcceptWith address bytes32 address | BatchAccept address "bytes32 list"
  | Fill address bytes32 int bool | BatchFill address "(bytes32 \<times> int) list"
  | Cancel address bytes32 | BatchCancel address "bytes32 list"
  | Amend address bytes32 int nat | Slash bytes32 | Expire bytes32
  | Bid address bytes32 int | SettleBids bytes32
  | BeginFill address bytes32 int | DisputeFill address bytes32
  | Resolve address bytes32 DisputeResolution | Release bytes32
  | RequestExtension address bytes32 | ClaimBackstop bytes32 | CloseIntent bytes32
  | SubmitOutbound address address int string string string int "nat option"
  | AcceptOutbound address bytes32 int address

definition drop_result :: "(settlement \<times> 'a) st \<Rightarrow> (settlement \<times> xfer list) st" where
  "drop_result m = rbind m (\<lambda>(s, _). Inr (s, []))"

lemma drop_result_eq_Inr [simp]: "drop_result m = Inr (s, tr) \<longleftrightarrow> tr = [] \<and> (\<exists>x. m = Inr (s, x))"
  by (auto simp: drop_result_def split_beta)

fun st_apply :: "world \<Rightarrow> env \<Rightarrow> st_event \<Rightarrow> settlement \<Rightarrow> (settlement \<times> xfer list) st" where
  "st_apply w e (Admin a) s = admin_apply w e a s"
| "st_apply w e (ProposeChain c) s = no_transfer (propose_chain_onboarding e c s)"
| "st_apply w e (ExecuteChain n) s = no_transfer (execute_chain_onboarding w e n s)"
| "st_apply w e (RemoveChain n) s = no_transfer (execute_chain_offboarding w e n s)"
| "st_apply w e (SetRetention n) s = no_transfer (set_intent_retention e n s)"
| "st_apply w e (Register a v) s = register_solver w e a v s"
| "st_apply w e (RegisterWith a t v) s = register_solver_with_token w e a t v s"
| "st_apply w e (Deregister a) s = deregister_solver w e a s"
| "st_apply w e (Withdraw a v) s = withdraw_bond e a v s"
| "st_apply w e (WithdrawToken a t v) s = withdraw_bond_token e a t v s"
| "st_apply w e (SetRoutes a cs ts) s = no_transfer (set_solver_routes e a cs ts s)"
| "st_apply w e (Submit u c q v d m dl rf) s = drop_result (submit_intent w e u c q v d m dl rf s)"
| "st_apply w e (BatchSubmit u orders) s = drop_result (batch_submit_intent w e u orders s)"
| "st_apply w e (AcceptIntent a i) s = no_transfer (accept_intent w e a i s)"
| "st_apply w e (AcceptWith a i b) s = no_transfer (accept_intent_with_bond w e a i b s)"
| "st_apply w e (BatchAccept a ids) s = no_transfer (batch_accept_intent w e a ids s)"
| "st_apply w e (Fill a i v p) s = fill_intent w e a i v p s"
| "st_apply w e (BatchFill a fills) s = batch_fill_intent w e a fills s"
| "st_apply w e (Cancel u i) s = no_transfer (cancel_intent e u i s)"
| "st_apply w e (BatchCancel u ids) s = no_transfer (batch_cancel_intent e u ids s)"
| "st_apply w e (Amend u i m d) s = no_transfer (amend_intent e u i m d s)"
| "st_apply w e (Slash i) s = slash_solver w e i s"
| "st_apply w e (Expire i) s = no_transfer (expire_intent e i s)"
| "st_apply w e (Bid a i v) s = no_transfer (bid_intent e a i v s)"
| "st_apply w e (SettleBids i) s = no_transfer (settle_bids e i s)"
| "st_apply w e (BeginFill a i v) s = begin_fill e a i v s"
| "st_apply w e (DisputeFill u i) s = no_transfer (dispute_fill e u i s)"
| "st_apply w e (Resolve a i q) s = resolve_dispute e a i q s"
| "st_apply w e (Release i) s = release_fill e i s"
| "st_apply w e (RequestExtension a i) s = no_transfer (request_extension w e a i s)"
| "st_apply w e (ClaimBackstop i) s = claim_backstop_compensation e i s"
| "st_apply w e (CloseIntent i) s = no_transfer (close_intent e i s)"
| "st_apply w e (SubmitOutbound u t v c q r m dl) s = drop_result (submit_outbound_intent w e u t v c q r m dl s)"
| "st_apply w e (AcceptOutbound a i v t) s = no_transfer (accept_outbound_intent w e a i v t s)"

lemmas admin_defs = st_initialize_def propose_fee_recipient_def accept_fee_recipient_def
  cancel_pending_fee_recipient_def propose_admin_transfer_def accept_admin_transfer_def
  propose_upgrade_def execute_upgrade_def migrate_def set_config_def propose_add_dst_token_def
  execute_add_dst_token_def cancel_pending_dst_token_add_def propose_remove_dst_token_def
  execute_remove_dst_token_def cancel_pending_dst_token_remove_def set_dst_allowlist_enabled_def
  set_min_bond_multiplier_def add_allowed_src_chain_def remove_allowed_src_chain_def
  set_src_chain_allowlist_enabled_def set_pauser_def st_pause_def st_unpause_def
  set_proof_registry_def propose_set_policy_def execute_set_policy_def rescue_tokens_def
  propose_oracle_def execute_oracle_def set_arbiter_def set_arbiter_panel_def
  add_allowed_bond_token_def remove_allowed_bond_token_def set_bond_token_min_def
  set_bid_window_enabled_def by_admin_def

lemma admin_apply_ledger: "admin_apply w e a s = Inr (s', tr) \<Longrightarrow> ledger_of s' = ledger_of s"
  by (cases a; simp add: admin_defs split_beta Let_def;
      (elim exE conjE guardE rbindE)?; (auto simp: ledger_of_put ledger_of_tables; fail)?)

lemma chain_quiet:
  "propose_chain_onboarding e c s = Inr s1 \<Longrightarrow> settings s1 = settings s \<and> ledger_of s1 = ledger_of s"
  "execute_chain_onboarding w e n s = Inr s2 \<Longrightarrow> roles s2 = roles s \<and> ledger_of s2 = ledger_of s"
  "execute_chain_offboarding w e n s = Inr s3 \<Longrightarrow> roles s3 = roles s \<and> ledger_of s3 = ledger_of s"
  unfolding propose_chain_onboarding_def execute_chain_onboarding_def execute_chain_offboarding_def
    Let_def split_beta
  by (elim rbindE guardE; auto)+

lemma extras_quiet:
  "set_intent_retention e n s = Inr s1 \<Longrightarrow> settings s1 = settings s \<and> ledger_of s1 = ledger_of s"
  "set_solver_routes e a cs ts s = Inr s2 \<Longrightarrow> settings s2 = settings s \<and> ledger_of s2 = ledger_of s"
  "bid_intent e a i v s = Inr s3 \<Longrightarrow> settings s3 = settings s \<and> ledger_of s3 = ledger_of s"
  "claim_backstop_compensation e i s = Inr (s4, tr) \<Longrightarrow> settings s4 = settings s \<and> ledger_of s4 = ledger_of s"
  "submit_outbound_intent w e u t v c q r m dl s = Inr (s5, oid) \<Longrightarrow> settings s5 = settings s \<and> ledger_of s5 = ledger_of s"
  "accept_outbound_intent w e a i v t s = Inr s6 \<Longrightarrow> settings s6 = settings s \<and> ledger_of s6 = ledger_of s"
proof -
  show "settings s4 = settings s \<and> ledger_of s4 = ledger_of s" if "claim_backstop_compensation e i s = Inr (s4, tr)"
    using that unfolding claim_backstop_compensation_def Let_def
    by (elim rbindE guardE) (drule Inr_inject, elim Pair_inject, hypsubst, simp (no_asm))
qed (unfold set_intent_retention_def by_admin_def set_solver_routes_def bid_intent_def
    submit_outbound_intent_def accept_outbound_intent_def Let_def; (elim rbindE guardE case_optionE; auto))+

end
