(* ===== verification/Settlement_Runs.thy ===== *)
theory Settlement_Runs
  imports Settlement_Lifecycle
begin

text \<open>
  Runs of committed settlement transactions: every step refines the abstract intent machine, so
  its invariants hold along every run; the contract before its first transaction; and a small
  concrete run, with the bundles of definitions that evaluate it, for the examples.
\<close>

section \<open>Refinement of the intent machine\<close>

lemma submit_intent_opens: "submit_intent w e u c q v d m dl rf s = Inr (s', i) \<Longrightarrow> opens e s i s'"
  unfolding submit_intent_def by (elim rbindE) (rule submit_intent_inner_opens)

lemma accept_moves:
  "accept_intent w e a i s = Inr s1 \<Longrightarrow> moves e s s1"
  "accept_intent_with_bond w e a i b s = Inr s2 \<Longrightarrow> moves e s s2"
  unfolding accept_intent_def accept_intent_with_bond_def
  by (elim rbindE; erule accept_intent_inner_moves)+

lemma fill_intent_moves: "fill_intent w e a i v p s = Inr (s', tr) \<Longrightarrow> moves e s s'"
  unfolding fill_intent_def by (elim rbindE) (rule fill_intent_inner_moves)

lemma cancel_intent_progress: "cancel_intent e u i s = Inr s' \<Longrightarrow> progress e s s'"
  unfolding cancel_intent_def
  by (elim rbindE) (auto intro: moves_progress [OF cancel_intent_core_moves])

lemmas tx_moves = accept_moves fill_intent_moves amend_intent_moves slash_solver_moves
  expire_intent_moves settle_bids_moves begin_fill_moves dispute_fill_moves resolve_dispute_moves
  release_fill_moves request_extension_moves

lemmas tx_quiet = register_solver_inner_quiet deregister_solver_quiet withdraw_bond_inner_quiet
  extras_quiet chain_quiet(1)

lemmas tx_progress = tx_moves [THEN moves_progress] submit_intent_opens [THEN opens_progress]
  close_intent_closes [THEN closes_progress] tx_quiet [THEN quiet_progress] cancel_intent_progress
  batch_submit_intent_progress batch_accept_intent_progress batch_fill_intent_progress
  batch_cancel_intent_progress

lemma st_apply_progress:
  assumes "st_apply w e ev s = Inr (s', tr)" "\<nexists>a. ev = Admin a"
  shows "roles s' = roles s \<and> (ledger_step e)\<^sup>*\<^sup>* (ledger_of s) (ledger_of s')"
proof -
  have P: "progress e s s' \<Longrightarrow> ?thesis" by (auto simp: progress_def settings_def)
  have Q: "roles s' = roles s \<and> ledger_of s' = ledger_of s \<Longrightarrow> ?thesis" by simp
  show ?thesis
    using assms
    by - (cases ev; simp add: register_solver_def register_solver_with_token_def withdraw_bond_def
          withdraw_bond_token_def;
        (elim exE conjE)?; ((rule P, erule tx_progress) | (rule Q, erule chain_quiet)))
qed

section \<open>Runs\<close>

text \<open>
  A step of a run carries the world it sees (prices, policies and called contracts change
  between transactions) and commits nothing when it aborts.
\<close>

definition st_step :: "env \<Rightarrow> world \<times> st_event \<Rightarrow> settlement \<Rightarrow> settlement" where
  "st_step e ev s = (case st_apply (fst ev) e (snd ev) s of Inl _ \<Rightarrow> s | Inr p \<Rightarrow> fst p)"

abbreviation st_run :: "(env \<times> world \<times> st_event) list \<Rightarrow> settlement \<Rightarrow> settlement" where
  "st_run \<equiv> contract_run st_step"

lemma st_step_ledger: "(ledger_step e)\<^sup>*\<^sup>* (ledger_of s) (ledger_of (st_step e ev s))"
proof (cases "st_apply (fst ev) e (snd ev) s")
  case (Inr p)
  have "(ledger_step e)\<^sup>*\<^sup>* (ledger_of s) (ledger_of (fst p))"
  proof (cases "\<exists>a. snd ev = Admin a")
    case True
    with Inr admin_apply_ledger [of "fst ev" e _ s "fst p" "snd p"] show ?thesis by auto
  next
    case False
    with st_apply_progress [of "fst ev" e "snd ev" s "fst p" "snd p"] Inr show ?thesis by simp
  qed
  with Inr show ?thesis by (simp add: st_step_def)
qed (simp add: st_step_def)

lemma run_keeps:
  assumes "\<And>e ev l l'. (e, ev) \<in> set txs \<Longrightarrow> ledger_step e l l' \<Longrightarrow> P l \<Longrightarrow> P l'" "P (ledger_of s)"
  shows "P (ledger_of (st_run txs s))"
  using assms
proof (induction txs arbitrary: s)
  case (Cons tx txs)
  obtain e ev where tx: "tx = (e, ev)" by (cases tx)
  have step: "ledger_step e l l' \<Longrightarrow> P l \<Longrightarrow> P l'" for l l'
    using Cons.prems(1) [of e ev l l'] by (simp add: tx)
  have "P (ledger_of (st_step e ev s))"
    by (rule steps_keep [where P = P, OF st_step_ledger step Cons.prems(2)])
  then have "P (ledger_of (st_run txs (st_step e ev s)))"
    by (rule Cons.IH [rotated]) (rule Cons.prems(1), rule list.set_intros(2))
  then show ?case by (simp add: tx)
qed simp

text \<open>The contract before its first transaction.\<close>

definition no_roles :: st_roles where
  "no_roles = \<lparr>ro_admin = None, ro_pending_admin = None, ro_fee_recipient = None, ro_pending_fee = None,
     ro_pauser = None, ro_paused = None, ro_arbiter = None, ro_pending_upgrade = None,
     ro_migration = None, ro_config = None, ro_policy = None, ro_pending_policy = None,
     ro_oracle = None, ro_pending_oracle = None, ro_registry = None, ro_proof_registry = None\<rparr>"

definition no_allow :: st_allow where
  "no_allow = \<lparr>al_dst = Map.empty, al_dst_enabled = None, al_dst_list = paged_empty, al_dst_add = Map.empty,
     al_dst_remove = Map.empty, al_src = Map.empty, al_src_enabled = None, al_multiplier = Map.empty\<rparr>"

definition no_bonds :: st_bonds where
  "no_bonds = \<lparr>bo_token = None, bo_allowed = Map.empty, bo_min = Map.empty, bo_solvers = Map.empty,
     bo_extra = Map.empty, bo_total_bonded = None, bo_total_solvers = None, bo_list = paged_empty,
     bo_exposure = Map.empty, bo_intents = si_empty, bo_liabilities = Map.empty, bo_pool = None\<rparr>"

definition no_book :: st_book where
  "no_book = \<lparr>bk_intents = Map.empty, bk_tombstone = Map.empty, bk_total = None, bk_open = None,
     bk_volume = None, bk_nonce = Map.empty, bk_user_count = Map.empty, bk_user_pages = Map.empty,
     bk_cancel_cooldown = Map.empty, bk_amend_cooldown = Map.empty, bk_best_bid = Map.empty,
     bk_bid_enabled = None, bk_open_list = None\<rparr>"

definition no_extra :: st_extra where
  "no_extra = \<lparr>ex_retention = None, ex_extension = Map.empty, ex_claimed = Map.empty,
     ex_epoch_claim = Map.empty, ex_chain = Map.empty, ex_pending_chain = Map.empty,
     ex_routes = Map.empty, ex_outbound = Map.empty, ex_user_outbound = Map.empty\<rparr>"

definition st_empty :: settlement where
  "st_empty = \<lparr>roles = no_roles, allow = no_allow, bonds = no_bonds, book = no_book, extra = no_extra\<rparr>"

lemma st_empty_ledger: "ledger_of st_empty = (Map.empty, Map.empty)"
  by (simp add: ledger_of_def st_empty_def no_book_def)

lemma run_ledger_ok: "ledger_ok (ledger_of (st_run txs st_empty))"
proof (rule run_keeps)
  show "ledger_ok (ledger_of st_empty)" by (simp add: st_empty_ledger ledger_ok_def)
qed (rule ledger_ok_step)

lemma run_order_ok:
  assumes "bk_intents (book (st_run txs st_empty)) i = Some r"
  shows "in_id r = i" "bk_tombstone (book (st_run txs st_empty)) i = None" "order_ok r"
  using run_ledger_ok [of txs] assms by (auto simp: ledger_ok_def ledger_of_def)

section \<open>A concrete run\<close>

text \<open>
  Seven decimals for every token, no oracle, registry or policy; the admin is 1, the fee
  recipient 2, the bond token 3; solver 8 accepts and fills the order of user 7.
\<close>

definition demo_world :: world where
  "demo_world = \<lparr>w_decimals = (\<lambda>_. Some 7), w_price = (\<lambda>_ _. None), w_get_tier = (\<lambda>_ _. None),
     w_policy = (\<lambda>_ _ _ _. None), w_proof = (\<lambda>_ _. None), w_sha256 = (\<lambda>_. 9),
     w_address_xdr = (\<lambda>_. []), w_string_xdr = (\<lambda>_. []), w_network_id = [],
     w_liabilities = (\<lambda>_ _ l. l), w_list_add = (\<lambda>_ l. l), w_list_remove = (\<lambda>_ l. l),
     w_slash_grace = 0, w_max_total_extension = 600, w_configure_chain = (\<lambda>_ _ _. True),
     w_remove_chain = (\<lambda>_ _. True)\<rparr>"

definition demo_run :: "(env \<times> world \<times> st_event) list" where
  "demo_run = map (\<lambda>ev. (plain_env 1000, demo_world, ev))
     [Admin (AInit 1 2 3), Register 8 600000000, Submit 7 ''stellar'' ''x'' 100 4 50 None None,
      AcceptIntent 8 9, Fill 8 9 60 False]"

lemmas eval_admin = st_step_def no_transfer_def st_initialize_def require_auth_def decimals_of_def demo_world_def
  st_empty_def no_roles_def no_allow_def no_bonds_def no_book_def no_extra_def MIGRATION_VERSION_def

lemmas eval_numbers = u64_def u64_max_def u32_def u32_max_def i128_def in_i128_def i128_min_def i128_max_def checked_i128_def
  need_def or0_def sat_i128_def sat_u64_def

lemmas eval_submit = drop_result_def submit_intent_def submit_intent_inner_def require_not_paused_def is_paused_def
  is_dst_allowlist_enabled_def is_src_chain_allowlist_enabled_def validate_src_token_def pow10_def
  check_policy_def load_config_def default_config_def INTENT_EXPIRY_def compute_intent_id_def
  load_bond_token_def save_intent_def user_intents_append_def USER_INTENT_BUCKET_SIZE_def
  add_to_open_intent_list_def set_open_def MAX_AMOUNT_def MAX_WHOLE_UNITS_def

lemmas eval_register = register_solver_def register_solver_inner_def is_bond_token_allowed_def fresh_solver_def
  get_solver_bond_amount_def min_bond_for_token_def MIN_BOND_def set_solver_bond_amount_def MAX_BOND_TOKENS_def
  save_solver_def adjust_token_liabilities_def set_total_bonded_def count_new_solver_def paged_add_def paged_empty_def
  page_of_def PAGED_SET_PAGE_SIZE_def pull_exact_def transfer_def

lemmas eval_accept = accept_intent_def accept_intent_inner_def accept_intent_body_def ctx_load_def load_solver_def
  in_slash_cooldown_def load_intent_def get_adjusted_min_bond_def solver_tier_def st_tier_fill_window_def
  TIER_FILL_WINDOW_BONUS_BPS_def FILL_WINDOW_def take_exposure_def exposure_notional_def weight_bps_def BPS_DENOMINATOR_def
  set_exposure_def solver_intents_add_def remove_from_open_intent_list_def ctx_commit_def decrement_open_intents_def
  MAX_ACTIVE_DEFAULT_def si_empty_def intents_of_def

lemmas eval_fill = fill_intent_def fill_intent_inner_def check_fill_guards_def protocol_fee_def PROTOCOL_FEE_BPS_def
  solver_leaves_def solver_intents_remove_def release_exposure_def add_volume_def set_volume_def

lemmas eval_run = demo_run_def eval_admin eval_numbers eval_submit eval_register eval_accept
  eval_fill Let_def sdiv_nonneg vec_get_def

lemma demo_filled: "map_option in_state (bk_intents (book (st_run demo_run st_empty)) 9) = Some Filled"
  by (simp add: eval_run)

end
