(* ===== verification/Settlement_Safety.thy ===== *)
theory Settlement_Safety
  imports Settlement_Runs
begin

text \<open>
  What holds of the intents in every run of settlement transactions: they follow the abstract
  machine, a terminal intent is final, an order keeps its terms and its identifier is never
  reused, outputs are delivered, and the entry points of the bid window and the backstop are
  out of reach.
\<close>

text \<open>
  C1: Every transaction of the settlement contract, batches included, refines the abstract
  intent machine: it changes the intents and tombstones only by steps that submit a fresh
  order, move one intent along its state machine, or close a terminal one.
\<close>

theorem settlement_refines_machine:
  "(ledger_step e)\<^sup>*\<^sup>* (ledger_of s) (ledger_of (st_step e (w, ev) s))"
  by (rule st_step_ledger)

text \<open>
  C6: An intent that is filled, cancelled, expired or resolved never changes again: after any
  run it is stored unchanged, or it is closed and its tombstone is set.
\<close>

theorem terminal_intent_final:
  assumes "bk_intents (book s) i = Some r" "terminal r"
  shows "bk_intents (book (st_run txs s)) i = Some r \<or>
    bk_intents (book (st_run txs s)) i = None \<and> bk_tombstone (book (st_run txs s)) i = Some True"
proof -
  have "settled i r (ledger_of (st_run txs s))"
  proof (rule run_keeps)
    show "settled i r (ledger_of s)" using assms by (simp add: settled_def ledger_of_def)
  qed (rule settled_step)
  then show ?thesis by (simp add: settled_def ledger_of_def)
qed

theorem terminal_intent_final_witness:
  "\<exists>r. in_state r = Filled \<and> bk_intents (book (st_run demo_run st_empty)) 9 = Some r \<and>
     (let s = st_run [(plain_env 2000, demo_world, Cancel 7 9), (plain_env 9000000, demo_world, CloseIntent 9)]
                (st_run demo_run st_empty)
      in bk_intents (book s) 9 = Some r \<or> bk_intents (book s) 9 = None \<and> bk_tombstone (book s) 9 = Some True)"
proof -
  obtain r where r: "bk_intents (book (st_run demo_run st_empty)) 9 = Some r" "in_state r = Filled"
    using demo_filled by auto
  show ?thesis
    unfolding Let_def
    by (rule exI [of _ r], intro conjI r, rule terminal_intent_final [OF r(1)]) (simp add: terminal_def r)
qed

text \<open>An identifier in use, with the terms of its order.\<close>

definition known_order where
  "known_order i ord l \<longleftrightarrow> (fst l i \<noteq> None \<or> snd l i \<noteq> None) \<and> (\<forall>r. fst l i = Some r \<longrightarrow> order_of r = ord)"

lemma known_order_step: "ledger_step e l l' \<Longrightarrow> known_order i ord l \<Longrightarrow> known_order i ord l'"
  by (induction rule: ledger_step.induct) (auto simp: known_order_def dest: intent_step_order)

lemma submit_intent_order:
  assumes "submit_intent w e u c q v d m dl rf s = Inr (s', i)"
  shows "known_order i (i, u, c, q, v, d, now e, rf) (ledger_of s')"
  using assms unfolding submit_intent_def submit_intent_inner_def Let_def
  by (elim rbindE guardE case_optionE; (simp; fail)?)
    (auto simp: known_order_def order_of_def dest!: user_intents_append_quiet)

text \<open>
  C15: After an order is submitted, whatever transactions follow, its user, source chain and
  token, source amount, destination token and referrer stay as submitted for as long as it is
  stored, and its identifier is never handed out again, even after it is closed.
\<close>

theorem submitted_order_fixed:
  assumes "submit_intent w e u c q v d m dl rf s = Inr (s1, i)"
  shows "(\<forall>r. bk_intents (book (st_run txs s1)) i = Some r \<longrightarrow>
       order_of r = (i, u, c, q, v, d, now e, rf)) \<and>
     submit_intent w' e' u' c' q' v' d' m' dl' rf' (st_run txs s1) \<noteq> Inr (s2, i)"
proof -
  let ?l = "ledger_of (st_run txs s1)"
  have known: "known_order i (i, u, c, q, v, d, now e, rf) ?l"
    by (rule run_keeps) (rule known_order_step submit_intent_order [OF assms]; assumption?)+
  have "submit_intent w' e' u' c' q' v' d' m' dl' rf' (st_run txs s1) \<noteq> Inr (s2, i)"
    using known submit_intent_opens [of w' e' u' c' q' v' d' m' dl' rf' "st_run txs s1" s2 i]
    by (auto simp: known_order_def opens_def)
  with known show ?thesis by (simp add: known_order_def ledger_of_def)
qed

theorem submitted_order_fixed_witness:
  "\<exists>s1. submit_intent demo_world (plain_env 1000) 7 ''stellar'' ''x'' 100 4 50 None None
       (st_run (take 1 demo_run) st_empty) = Inr (s1, 9) \<and>
     (\<forall>r. bk_intents (book (st_run [(plain_env 1001, demo_world, Cancel 7 9)] s1)) 9 = Some r \<longrightarrow>
        order_of r = (9, 7, ''stellar'', ''x'', 100, 4, 1000, None)) \<and>
     submit_intent demo_world (plain_env 1002) 7 ''stellar'' ''x'' 100 4 50 None None
       (st_run [(plain_env 1001, demo_world, Cancel 7 9)] s1) \<noteq> Inr (s1, 9)"
proof -
  obtain s1 where s1: "submit_intent demo_world (plain_env 1000) 7 ''stellar'' ''x'' 100 4 50 None None
       (st_run (take 1 demo_run) st_empty) = Inr (s1, 9)"
    by (simp add: eval_run)
  from submitted_order_fixed [OF this, of "[(plain_env 1001, demo_world, Cancel 7 9)]"] s1
  show ?thesis by auto
qed

text \<open>
  C34: In every reachable state each stored intent carries its own identifier, has no
  tombstone, has a solver while it is accepted, filling or disputed, has an escrow and a
  dispute deadline while it is filling or disputed, and has a terminal time exactly when its
  state is terminal.
\<close>

theorem intents_well_formed:
  assumes "bk_intents (book (st_run txs st_empty)) i = Some r"
  shows "in_id r = i \<and> bk_tombstone (book (st_run txs st_empty)) i = None \<and>
    (in_state r \<in> {Accepted, Filling, Disputed} \<longrightarrow> in_solver r \<noteq> None) \<and>
    (in_state r \<in> {Filling, Disputed} \<longrightarrow> in_fill_amount r \<noteq> None \<and> in_dispute_deadline r \<noteq> None) \<and>
    (in_state r = Disputed \<longrightarrow> in_dispute_raised_at r \<noteq> None) \<and>
    (in_terminal_at r \<noteq> None \<longleftrightarrow> in_state r \<in> {Filled, Cancelled, Expired, Resolved})"
  using run_order_ok [OF assms] by (cases "in_state r") (simp_all add: order_ok_def terminal_def)

theorem intents_well_formed_witness:
  "\<exists>r. bk_intents (book (st_run demo_run st_empty)) 9 = Some r \<and> in_id r = 9 \<and> in_terminal_at r \<noteq> None"
proof -
  obtain r where r: "bk_intents (book (st_run demo_run st_empty)) 9 = Some r" "in_state r = Filled"
    using demo_filled by auto
  from intents_well_formed [OF r(1)] r show ?thesis by (intro exI [of _ r]) simp
qed

text \<open>With tokens that move exactly what they are asked to, outputs are delivered in every run.\<close>

lemma run_delivered:
  assumes "\<forall>(e, ev) \<in> set txs. exact_tokens e"
  shows "ledger_delivered (ledger_of (st_run txs st_empty))"
proof (rule run_keeps)
  show "ledger_delivered (ledger_of st_empty)" by (simp add: ledger_delivered_def st_empty_ledger)
next
  fix e :: env and ev :: "world \<times> st_event" and l l'
  assume "(e, ev) \<in> set txs" "ledger_step e l l'" "ledger_delivered l"
  with assms show "ledger_delivered l'" by (auto intro: ledger_delivered_step)
qed

lemma bid_needs: "bid_intent e a i v s = Inr s' \<Longrightarrow> \<exists>r. bk_intents (book s) i = Some r \<and> in_state r = Bidding"
  unfolding bid_intent_def load_intent_def by (elim rbindE guardE) simp

lemma settle_needs: "settle_bids e i s = Inr s' \<Longrightarrow> \<exists>r. bk_intents (book s) i = Some r \<and> in_state r = Bidding"
  unfolding settle_bids_def load_intent_def by (elim rbindE guardE) simp

lemma claim_needs:
  assumes "claim_backstop_compensation e i s = Inr (s', tr)"
  shows "\<exists>r. bk_intents (book s) i = Some r \<and> (in_state r = Slashed \<or> 0 < in_slash_cycles r)"
proof -
  from assms obtain r where r: "bk_intents (book s) i = Some r"
    "case in_state r of Slashed \<Rightarrow> True | Open \<Rightarrow> in_slash_cycles r > 0
       | PartiallyFilled \<Rightarrow> in_slash_cycles r > 0 | _ \<Rightarrow> False"
    unfolding claim_backstop_compensation_def load_intent_def Let_def by (elim rbindE guardE) auto
  then show ?thesis by (cases "in_state r") auto
qed

text \<open>
  In every reachable state the bid window and the backstop are out of reach:
  \<open>bid_intent\<close>, \<open>settle_bids\<close> and
  \<open>claim_backstop_compensation\<close> fail for every intent and every caller.
\<close>

theorem bidding_and_backstop_unreachable:
  "\<not> is_ok (bid_intent e a i v (st_run txs st_empty)) \<and>
   \<not> is_ok (settle_bids e i (st_run txs st_empty)) \<and>
   \<not> is_ok (claim_backstop_compensation e i (st_run txs st_empty))"
  using run_order_ok [of txs i] bid_needs [of e a i v "st_run txs st_empty"]
    settle_needs [of e i "st_run txs st_empty"] claim_needs [of e i "st_run txs st_empty"]
  unfolding is_ok_iff order_ok_def by fastforce

end
