(* ===== verification/Token_Runs.thy ===== *)
theory Token_Runs
  imports Prelude
begin

text \<open>
  Contracts that hold tokens for others: runs that record every transfer, sums over the
  balances a contract keeps per key, and the interface under which such a contract is solvent.
  The vault, the streams and the arbiter panel interpret it in their own theories.
\<close>

section \<open>Sums of balances\<close>

definition amounts :: "('k \<Rightarrow> int option) \<Rightarrow> int" where
  "amounts f = (\<Sum>k \<in> dom f. or0 (f k))"

lemma or0_simps [simp]: "or0 None = 0" "or0 (Some x) = x"
  by (simp_all add: or0_def)

lemma amounts_upd:
  assumes "finite (dom f)"
  shows "amounts (f(k \<mapsto> x)) = amounts f - or0 (f k) + x"
proof -
  have "amounts (f(k \<mapsto> x)) = x + (\<Sum>j \<in> dom f - {k}. or0 (f j))"
    using assms by (simp add: amounts_def sum.insert_remove)
  moreover have "amounts f = or0 (f k) + (\<Sum>j \<in> dom f - {k}. or0 (f j))"
    using assms by (cases "k \<in> dom f") (auto simp: amounts_def sum.remove domIff)
  ultimately show ?thesis by simp
qed

lemma amounts_nonneg: "(\<And>k. 0 \<le> or0 (f k)) \<Longrightarrow> 0 \<le> amounts f"
  by (simp add: amounts_def sum_nonneg)

lemma amounts_empty [simp]: "amounts (\<lambda>_. None) = 0"
  by (simp add: amounts_def)

lemma amounts_member:
  assumes "finite (dom f)" "\<And>k. 0 \<le> or0 (f k)"
  shows "or0 (f k) \<le> amounts f"
proof (cases "k \<in> dom f")
  case True
  with assms show ?thesis
    using member_le_sum [of k "dom f" "\<lambda>k. or0 (f k)"] by (simp add: amounts_def)
qed (use amounts_nonneg [of f] assms(2) in \<open>auto simp: domIff\<close>)

section \<open>Runs\<close>

text \<open>
  One transaction of a contract whose entry points return the new state and the transfers made;
  one that aborts changes nothing and moves nothing.
\<close>

definition token_step :: "(env \<Rightarrow> 'ev \<Rightarrow> 's \<Rightarrow> ('e, 's \<times> xfer list) res) \<Rightarrow> env \<times> 'ev
    \<Rightarrow> 's \<times> xfer list \<Rightarrow> 's \<times> xfer list" where
  "token_step handle tx st =
     (case handle (fst tx) (snd tx) (fst st) of
        Inl _ \<Rightarrow> st
      | Inr (s', tr) \<Rightarrow> (s', snd st @ tr))"

definition token_run :: "(env \<Rightarrow> 'ev \<Rightarrow> 's \<Rightarrow> ('e, 's \<times> xfer list) res) \<Rightarrow> 's \<Rightarrow> (env \<times> 'ev) list
    \<Rightarrow> 's \<times> xfer list" where
  "token_run handle s txs = fold (token_step handle) txs (s, [])"

lemma token_run_Nil [simp]: "token_run handle s [] = (s, [])"
  by (simp add: token_run_def)

lemma token_run_snoc [simp]: "token_run handle s (txs @ [tx]) = token_step handle tx (token_run handle s txs)"
  by (simp add: token_run_def)

lemma token_step_cases:
  obtains (aborted) "token_step handle tx st = st"
  | (committed) s' tr where "handle (fst tx) (snd tx) (fst st) = Inr (s', tr)"
      "token_step handle tx st = (s', snd st @ tr)"
  by (cases "handle (fst tx) (snd tx) (fst st)") (auto simp: token_step_def)

text \<open>An entry point that moves no tokens.\<close>

definition silent :: "('e, 's) res \<Rightarrow> ('e, 's \<times> xfer list) res" where
  "silent m = rbind m (\<lambda>s. Inr (s, []))"

lemma silent_eq_Inr [simp]: "silent m = Inr (s, tr) \<longleftrightarrow> m = Inr s \<and> tr = []"
  by (auto simp: silent_def)

text \<open>The contract's address is \<open>me\<close> and it signs nothing for itself.\<close>

definition outside :: "address \<Rightarrow> (env \<times> 'ev) list \<Rightarrow> bool" where
  "outside me txs \<longleftrightarrow> (\<forall>tx \<in> set txs. self (fst tx) = me \<and> \<not> authed (fst tx) me)"

definition client_env :: "nat \<Rightarrow> env" where
  "client_env t = (plain_env t)\<lparr>authed := (\<lambda>a. a \<noteq> 5)\<rparr>"

lemma client_env_simps [simp]:
  "now (client_env t) = t" "sequence (client_env t) = t" "self (client_env t) = 5"
  "authed (client_env t) a \<longleftrightarrow> a \<noteq> 5" "tok_ok (client_env t) tr x" "tok_delta (client_env t) tr x = x_amount x"
  by (simp_all add: client_env_def)

text \<open>
  The interface, for one token and the contract's own address \<open>me\<close>: \<open>good\<close> is an invariant
  of the contract, \<open>owed s\<close> what its books say it holds of the token. Every transaction that
  satisfies \<open>ok\<close> moves at least as much in as it adds to the books.
\<close>

locale covered_books =
  fixes handle :: "env \<Rightarrow> 'ev \<Rightarrow> 's \<Rightarrow> ('e, 's \<times> xfer list) res"
    and start :: 's
    and good :: "'s \<Rightarrow> bool"
    and ok :: "env \<Rightarrow> 'ev \<Rightarrow> bool"
    and me :: address
    and tok :: address
    and owed :: "'s \<Rightarrow> int"
  assumes start_good: "good start"
    and start_owed: "owed start = 0"
    and step_good: "good s \<Longrightarrow> ok e ev \<Longrightarrow> handle e ev s = Inr (s', tr) \<Longrightarrow> good s'"
    and step_owed: "good s \<Longrightarrow> ok e ev \<Longrightarrow> handle e ev s = Inr (s', tr) \<Longrightarrow>
      owed s' - owed s \<le> net_in tok me tr"
begin

lemma run_covered:
  assumes "\<forall>tx \<in> set txs. ok (fst tx) (snd tx)"
  shows "good (fst (token_run handle start txs)) \<and>
    owed (fst (token_run handle start txs)) \<le> net_in tok me (snd (token_run handle start txs))"
  using assms
proof (induction txs rule: rev_induct)
  case (snoc tx txs)
  then have IH: "good (fst (token_run handle start txs))" "owed (fst (token_run handle start txs)) \<le>
      net_in tok me (snd (token_run handle start txs))"
    and tx: "ok (fst tx) (snd tx)" by auto
  show ?case
  proof (cases handle tx "token_run handle start txs" rule: token_step_cases)
    case aborted
    with IH show ?thesis by simp
  next
    case (committed s' tr)
    from step_good [OF IH(1) tx committed(1)] step_owed [OF IH(1) tx committed(1)] IH(2) committed(2)
    show ?thesis by simp
  qed
qed (simp add: start_owed start_good)

end

text \<open>
  The common case: the contract signs nothing for itself, and the conditions on a transaction are
  those of its event (\<open>fair\<close>).
\<close>

locale token_contract =
  fixes handle :: "env \<Rightarrow> 'ev \<Rightarrow> 's \<Rightarrow> ('e, 's \<times> xfer list) res"
    and start :: 's
    and good :: "'s \<Rightarrow> bool"
    and fair :: "'ev \<Rightarrow> bool"
    and me :: address
    and tok :: address
    and owed :: "'s \<Rightarrow> int"
  assumes start_good: "good start"
    and start_owed: "owed start = 0"
    and step_good: "good s \<Longrightarrow> self e = me \<Longrightarrow> \<not> authed e me \<Longrightarrow> fair ev \<Longrightarrow>
      handle e ev s = Inr (s', tr) \<Longrightarrow> good s'"
    and step_owed: "good s \<Longrightarrow> self e = me \<Longrightarrow> \<not> authed e me \<Longrightarrow> fair ev \<Longrightarrow>
      handle e ev s = Inr (s', tr) \<Longrightarrow> owed s' - owed s \<le> net_in tok me tr"

sublocale token_contract \<subseteq> exact: covered_books handle start good
  "\<lambda>e ev. self e = me \<and> \<not> authed e me \<and> fair ev" me tok owed
  by unfold_locales (auto simp: start_good start_owed intro: step_good dest: step_owed)

context token_contract
begin

lemma run_sound:
  assumes "outside me txs" "\<forall>tx \<in> set txs. fair (snd tx)"
  shows "good (fst (token_run handle start txs)) \<and>
    owed (fst (token_run handle start txs)) \<le> net_in tok me (snd (token_run handle start txs))"
  using exact.run_covered [of txs] assms by (auto simp: outside_def)

end

end
