(* ===== verification/Arbiter_Panel.thy ===== *)
theory Arbiter_Panel
  imports Token_Runs "HOL-Library.AList"
begin

text \<open>
  The bonded arbiter panel of \<open>arbiter_panel/src/lib.rs\<close>: arbiters stake a bond, a panel is drawn
  for a disputed intent, votes are public, and the tally resolves the dispute on the settlement
  contract, slashing dissenting and absent members. The settlement contract is reached through the
  two calls of its client trait; \<open>Panel_Settlement\<close> instantiates them with the model of that
  contract. The ledger's random generator is the parameter \<open>rng\<close>.
\<close>

section \<open>Data\<close>

definition VOTE_WINDOW :: nat where "VOTE_WINDOW = 86400"
definition AP_SLASH_BPS :: int where "AP_SLASH_BPS = 1000"

datatype Verdict = Upheld | Dismissed

record ArbiterRecord =
  ar_bond :: int
  ar_open :: nat

record Round =
  rd_panel :: "address list"
  rd_threshold :: nat
  rd_opened :: nat
  rd_votes :: "(address \<times> Verdict) list"
  rd_settled :: bool

datatype ApError =
    AlreadyInitialized | NotInitialized | InvalidConfig | AlreadyRegistered | NotRegistered
  | HasOpenVotes | RoundExists | RoundNotFound | NoEligibleArbiters | NotOnPanel | AlreadyVoted
  | VotingClosed | RoundSettled | QuorumNotReached

record panel =
  ap_admin :: "address option"
  ap_settlement :: "address option"
  ap_token :: "address option"
  ap_bond_amount :: "int option"
  ap_size :: "nat option"
  ap_threshold :: "nat option"
  ap_arbiters :: "address list option"
  ap_arbiter :: "address \<Rightarrow> ArbiterRecord option"
  ap_round :: "bytes32 \<Rightarrow> Round option"

text \<open>
  The client trait, over the settlement's state: the parties of a disputed intent, and the
  resolution of a dispute with the transfers it makes; \<open>None\<close> when the call traps.
\<close>

record 'st settlement_client =
  sc_parties :: "'st \<Rightarrow> bytes32 \<Rightarrow> (address \<times> address) option"
  sc_resolve :: "'st \<Rightarrow> address \<Rightarrow> bytes32 \<Rightarrow> Verdict \<Rightarrow> ('st \<times> xfer list) option"

section \<open>Helpers\<close>

definition ap_list :: "panel \<Rightarrow> address list" where
  "ap_list s = (case ap_arbiters s of None \<Rightarrow> [] | Some xs \<Rightarrow> xs)"

definition ap_load_arbiter :: "panel \<Rightarrow> address \<Rightarrow> (ApError, ArbiterRecord) res" where
  "ap_load_arbiter s a = need NotRegistered (ap_arbiter s a)"

definition save_arbiter :: "address \<Rightarrow> ArbiterRecord \<Rightarrow> panel \<Rightarrow> panel" where
  "save_arbiter a r s = s\<lparr>ap_arbiter := (ap_arbiter s)(a \<mapsto> r)\<rparr>"

definition load_round :: "panel \<Rightarrow> bytes32 \<Rightarrow> (ApError, Round) res" where
  "load_round s i = need RoundNotFound (ap_round s i)"

definition save_round :: "bytes32 \<Rightarrow> Round \<Rightarrow> panel \<Rightarrow> panel" where
  "save_round i r s = s\<lparr>ap_round := (ap_round s)(i \<mapsto> r)\<rparr>"

section \<open>Entry points\<close>

definition ap_initialize :: "address \<Rightarrow> address \<Rightarrow> address \<Rightarrow> int \<Rightarrow> nat \<Rightarrow> nat \<Rightarrow> panel \<Rightarrow> (ApError, panel) res" where
  "ap_initialize admin settlement bond_token bond_amount panel_size threshold s =
     (if ap_admin s \<noteq> None then Inl (Error AlreadyInitialized)
      else if bond_amount \<le> 0 \<or> threshold = 0 \<or> threshold > panel_size then Inl (Error InvalidConfig)
      else
        rbind (u32 (threshold * 2)) (\<lambda>t2.
          if t2 \<le> panel_size then Inl (Error InvalidConfig)
          else Inr (s\<lparr>ap_admin := Some admin, ap_settlement := Some settlement, ap_token := Some bond_token,
                      ap_bond_amount := Some bond_amount, ap_size := Some panel_size,
                      ap_threshold := Some threshold\<rparr>)))"

definition register_arbiter :: "env \<Rightarrow> address \<Rightarrow> panel \<Rightarrow> (ApError, panel \<times> xfer list) res" where
  "register_arbiter e arbiter s =
     rbind (require_auth e arbiter) (\<lambda>_.
       if ap_arbiter s arbiter \<noteq> None then Inl (Error AlreadyRegistered)
       else
         rbind (need NotInitialized (ap_bond_amount s)) (\<lambda>bond.
         rbind (need NotInitialized (ap_token s)) (\<lambda>tok.
         rbind (transfer e tok arbiter (self e) bond []) (\<lambda>tr.
           let s1 = save_arbiter arbiter \<lparr>ar_bond = bond, ar_open = 0\<rparr> s
           in Inr (s1\<lparr>ap_arbiters := Some (ap_list s1 @ [arbiter])\<rparr>, tr)))))"

definition deregister_arbiter :: "env \<Rightarrow> address \<Rightarrow> panel \<Rightarrow> (ApError, panel \<times> xfer list) res" where
  "deregister_arbiter e arbiter s =
     rbind (require_auth e arbiter) (\<lambda>_.
     rbind (ap_load_arbiter s arbiter) (\<lambda>r.
       if ar_open r > 0 then Inl (Error HasOpenVotes)
       else
         let s1 = s\<lparr>ap_arbiter := (ap_arbiter s)(arbiter := None)\<rparr>;
             s2 = s1\<lparr>ap_arbiters := Some (filter (\<lambda>a. a \<noteq> arbiter) (ap_list s1))\<rparr>
         in if ar_bond r > 0
            then rbind (need NotInitialized (ap_token s2)) (\<lambda>tok.
                 rbind (transfer e tok (self e) arbiter (ar_bond r) []) (\<lambda>tr. Inr (s2, tr)))
            else Inr (s2, [])))"

text \<open>The arbiters that may sit: neither party, and with the full bond.\<close>

fun eligible :: "address \<Rightarrow> address \<Rightarrow> int \<Rightarrow> panel \<Rightarrow> address list \<Rightarrow> (ApError, address list) res" where
  "eligible user solver bond_amount s [] = Inr []"
| "eligible user solver bond_amount s (a # as) =
     (if a \<noteq> user \<and> a \<noteq> solver then
        rbind (ap_load_arbiter s a) (\<lambda>r.
        rbind (eligible user solver bond_amount s as) (\<lambda>rest.
          Inr (if ar_bond r \<ge> bond_amount then a # rest else rest)))
      else eligible user solver bond_amount s as)"

text \<open>
  The partial Fisher-Yates shuffle: \<open>n\<close> more draws, from position \<open>i\<close> on. A draw beyond the
  vector would trap.
\<close>

fun draw :: "(nat \<Rightarrow> nat \<Rightarrow> nat) \<Rightarrow> nat \<Rightarrow> nat \<Rightarrow> address list \<Rightarrow> address list \<Rightarrow> panel
    \<Rightarrow> (ApError, address list \<times> panel) res" where
  "draw gen_range i 0 el chosen s = Inr (chosen, s)"
| "draw gen_range i (Suc n) el chosen s =
     (let j = gen_range i (length el - 1)
      in rbind (unwrap (vec_get el i)) (\<lambda>a.
         rbind (unwrap (vec_get el j)) (\<lambda>b.
         rbind (ap_load_arbiter s b) (\<lambda>r.
         rbind (u32 (ar_open r + 1)) (\<lambda>open'.
           draw gen_range (Suc i) n (el[i := b, j := a]) (chosen @ [b])
             (save_arbiter b (r\<lparr>ar_open := open'\<rparr>) s))))))"

definition open_vote :: "(bytes32 \<Rightarrow> nat \<Rightarrow> nat \<Rightarrow> nat) \<Rightarrow> 'st settlement_client \<Rightarrow> env \<Rightarrow> bytes32 \<Rightarrow> 'st \<Rightarrow> panel
    \<Rightarrow> (ApError, panel \<times> address list) res" where
  "open_vote rng client e i st s =
     (if ap_round s i \<noteq> None then Inl (Error RoundExists)
      else
        rbind (need NotInitialized (ap_settlement s)) (\<lambda>_.
        case sc_parties client st i of
          None \<Rightarrow> Inl HostTrap
        | Some (user, solver) \<Rightarrow>
            rbind (need NotInitialized (ap_bond_amount s)) (\<lambda>bond_amount.
            rbind (eligible user solver bond_amount s (ap_list s)) (\<lambda>el.
              if el = [] then Inl (Error NoEligibleArbiters)
              else
                rbind (need NotInitialized (ap_size s)) (\<lambda>n.
                rbind (need NotInitialized (ap_threshold s)) (\<lambda>m.
                  let k = min n (length el)
                  in rbind (draw (rng i) 0 k el [] s) (\<lambda>(chosen, s1).
                     rbind (u32 (m * k)) (\<lambda>mk.
                     rbind (u32 (mk + n)) (\<lambda>mkn.
                       if mkn = 0 \<or> n = 0 then Inl Overflow
                       else
                         let r = \<lparr>rd_panel = chosen, rd_threshold = max ((mkn - 1) div n) 1,
                                  rd_opened = now e, rd_votes = [], rd_settled = False\<rparr>
                         in Inr (save_round i r s1, chosen))))))))))"

definition ap_vote :: "env \<Rightarrow> address \<Rightarrow> bytes32 \<Rightarrow> Verdict \<Rightarrow> panel \<Rightarrow> (ApError, panel) res" where
  "ap_vote e arbiter i resolution s =
     rbind (require_auth e arbiter) (\<lambda>_.
     rbind (load_round s i) (\<lambda>r.
       if rd_settled r then Inl (Error RoundSettled)
       else
         rbind (u64 (rd_opened r + VOTE_WINDOW)) (\<lambda>deadline.
           if now e \<ge> deadline then Inl (Error VotingClosed)
           else if arbiter \<notin> set (rd_panel r) then Inl (Error NotOnPanel)
           else if map_of (rd_votes r) arbiter \<noteq> None then Inl (Error AlreadyVoted)
           else Inr (save_round i (r\<lparr>rd_votes := AList.update arbiter resolution (rd_votes r)\<rparr>) s))))"

definition votes_for :: "Verdict \<Rightarrow> Round \<Rightarrow> nat" where
  "votes_for v r = length (filter (\<lambda>(_, w). w = v) (rd_votes r))"

definition outcome_of :: "Round \<Rightarrow> Verdict option" where
  "outcome_of r =
     (if votes_for Upheld r \<ge> rd_threshold r then Some Upheld
      else if votes_for Dismissed r \<ge> rd_threshold r then Some Dismissed
      else None)"

text \<open>The loop that releases the panel's locks, collects the winners and slashes the others.\<close>

fun settle_loop :: "Verdict option \<Rightarrow> (address \<times> Verdict) list \<Rightarrow> address list \<Rightarrow> address list \<Rightarrow> int \<Rightarrow> panel
    \<Rightarrow> (ApError, address list \<times> int \<times> panel) res" where
  "settle_loop outcome votes [] winners slashed s = Inr (winners, slashed, s)"
| "settle_loop outcome votes (a # as) winners slashed s =
     rbind (ap_load_arbiter s a) (\<lambda>r0.
       let r = r0\<lparr>ar_open := ar_open r0 - 1\<rparr>
       in case outcome of
            None \<Rightarrow> settle_loop outcome votes as winners slashed (save_arbiter a r s)
          | Some v \<Rightarrow>
              if map_of votes a = Some v
              then settle_loop outcome votes as (winners @ [a]) slashed (save_arbiter a r s)
              else
                rbind (i128 (ar_bond r * AP_SLASH_BPS)) (\<lambda>p.
                let cut = p sdiv 10000
                in rbind (i128 (ar_bond r - cut)) (\<lambda>b.
                   rbind (i128 (slashed + cut)) (\<lambda>t.
                     settle_loop outcome votes as winners t (save_arbiter a (r\<lparr>ar_bond := b\<rparr>) s)))))"

fun share_loop :: "int \<Rightarrow> int \<Rightarrow> nat \<Rightarrow> address list \<Rightarrow> panel \<Rightarrow> (ApError, panel) res" where
  "share_loop share dust i [] s = Inr s"
| "share_loop share dust i (a # as) s =
     rbind (ap_load_arbiter s a) (\<lambda>r.
     rbind (i128 (share + (if i = 0 then dust else 0))) (\<lambda>x.
     rbind (i128 (ar_bond r + x)) (\<lambda>b.
       share_loop share dust (Suc i) as (save_arbiter a (r\<lparr>ar_bond := b\<rparr>) s))))"

definition share_slashed :: "address list \<Rightarrow> int \<Rightarrow> panel \<Rightarrow> (ApError, panel) res" where
  "share_slashed winners slashed s =
     (if winners \<noteq> [] \<and> slashed > 0
      then let share = slashed sdiv int (length winners)
           in rbind (i128 (share * int (length winners))) (\<lambda>given.
              rbind (i128 (slashed - given)) (\<lambda>dust. share_loop share dust 0 winners s))
      else Inr s)"

definition ap_tally :: "'st settlement_client \<Rightarrow> env \<Rightarrow> bytes32 \<Rightarrow> 'st \<Rightarrow> panel
    \<Rightarrow> (ApError, panel \<times> Verdict option \<times> 'st \<times> xfer list) res" where
  "ap_tally client e i st s =
     rbind (load_round s i) (\<lambda>r.
       if rd_settled r then Inl (Error RoundSettled)
       else
         let outcome = outcome_of r
         in rbind (if outcome = None
                   then rbind (u64 (rd_opened r + VOTE_WINDOW)) (\<lambda>deadline.
                          if now e < deadline then Inl (Error QuorumNotReached) else Inr ())
                   else Inr ()) (\<lambda>_.
            rbind (settle_loop outcome (rd_votes r) (rd_panel r) [] 0 (save_round i (r\<lparr>rd_settled := True\<rparr>) s))
              (\<lambda>(winners, slashed, s1).
            rbind (share_slashed winners slashed s1) (\<lambda>s2.
              case outcome of
                None \<Rightarrow> Inr (s2, None, st, [])
              | Some v \<Rightarrow>
                  rbind (need NotInitialized (ap_settlement s2)) (\<lambda>_.
                  case sc_resolve client st (self e) i v of
                    None \<Rightarrow> Inl HostTrap
                  | Some (st', tr) \<Rightarrow> Inr (s2, Some v, st', tr))))))"

section \<open>Transactions\<close>

datatype ap_event =
    ApInitialize address address address int nat nat
  | ApRegister address
  | ApDeregister address
  | ApOpenVote bytes32
  | ApVote address bytes32 Verdict
  | ApTally bytes32

text \<open>
  One transaction, with the settlement in the state \<open>st\<close>; the transfers listed are the panel's
  own, those of the settlement are made by that contract.
\<close>

fun ap_handle :: "(bytes32 \<Rightarrow> nat \<Rightarrow> nat \<Rightarrow> nat) \<Rightarrow> 'st settlement_client \<Rightarrow> env \<Rightarrow> 'st \<times> ap_event \<Rightarrow> panel
    \<Rightarrow> (ApError, panel \<times> xfer list) res" where
  "ap_handle rng client e (st, ApInitialize a b c d n m) s = silent (ap_initialize a b c d n m s)"
| "ap_handle rng client e (st, ApRegister a) s = register_arbiter e a s"
| "ap_handle rng client e (st, ApDeregister a) s = deregister_arbiter e a s"
| "ap_handle rng client e (st, ApOpenVote i) s = silent (rbind (open_vote rng client e i st s) (\<lambda>r. Inr (fst r)))"
| "ap_handle rng client e (st, ApVote a i v) s = silent (ap_vote e a i v s)"
| "ap_handle rng client e (st, ApTally i) s = silent (rbind (ap_tally client e i st s) (\<lambda>r. Inr (fst r)))"

definition ap_empty :: panel where
  "ap_empty = \<lparr>ap_admin = None, ap_settlement = None, ap_token = None, ap_bond_amount = None, ap_size = None,
     ap_threshold = None, ap_arbiters = None, ap_arbiter = (\<lambda>_. None), ap_round = (\<lambda>_. None)\<rparr>"

section \<open>The bonds on the books\<close>

definition bonds_of :: "panel \<Rightarrow> address \<Rightarrow> int option" where
  "bonds_of s a = map_option ar_bond (ap_arbiter s a)"

lemma bonds_of_save: "bonds_of (save_arbiter a r s) = (bonds_of s)(a \<mapsto> ar_bond r)"
  by (auto simp: bonds_of_def save_arbiter_def)

lemma bonds_of_keep: "ap_arbiter s a = Some r \<Longrightarrow> (bonds_of s)(a \<mapsto> ar_bond r) = bonds_of s"
  by (auto simp: bonds_of_def)

lemma bonds_of_load: "ap_load_arbiter s a = Inr r \<longleftrightarrow> ap_arbiter s a = Some r"
  by (simp add: ap_load_arbiter_def)

text \<open>Everything but the arbiters' records is the same, and none of them is dropped.\<close>

definition same_frame :: "panel \<Rightarrow> panel \<Rightarrow> bool" where
  "same_frame s s' \<longleftrightarrow> s'\<lparr>ap_arbiter := ap_arbiter s\<rparr> = s \<and> dom (ap_arbiter s) \<subseteq> dom (ap_arbiter s')"

lemma same_frame_refl [simp]: "same_frame s s"
  by (simp add: same_frame_def)

lemma same_frame_save: "same_frame (save_arbiter a r s) s' \<Longrightarrow> same_frame s s'"
  by (cases s; cases s') (auto simp: same_frame_def save_arbiter_def)

lemma same_frame_fields:
  "same_frame s s' \<Longrightarrow> ap_admin s' = ap_admin s \<and> ap_token s' = ap_token s \<and> ap_round s' = ap_round s \<and>
     ap_bond_amount s' = ap_bond_amount s \<and> ap_size s' = ap_size s \<and> ap_threshold s' = ap_threshold s \<and>
     ap_settlement s' = ap_settlement s \<and> ap_arbiters s' = ap_arbiters s \<and> dom (ap_arbiter s) \<subseteq> dom (ap_arbiter s') \<and>
     ap_list s' = ap_list s"
  by (cases s; cases s') (auto simp: same_frame_def ap_list_def)

definition bonds_ok :: "(address \<Rightarrow> int option) \<Rightarrow> bool" where
  "bonds_ok f \<longleftrightarrow> finite (dom f) \<and> (\<forall>a. 0 \<le> or0 (f a))"

lemma bonds_ok_upd: "bonds_ok f \<Longrightarrow> 0 \<le> x \<Longrightarrow> bonds_ok (f(a \<mapsto> x))"
  by (simp add: bonds_ok_def)

lemma draw_result:
  assumes "draw g i n el chosen s = Inr (chosen', s')"
  shows "bonds_of s' = bonds_of s \<and> same_frame s s' \<and> length chosen' = length chosen + n"
  using assms
proof (induction n arbitrary: i el chosen s)
  case (Suc n)
  from Suc.prems obtain b r open' el' where step: "ap_arbiter s b = Some r"
    "draw g (Suc i) n el' (chosen @ [b]) (save_arbiter b (r\<lparr>ar_open := open'\<rparr>) s) = Inr (chosen', s')"
    by (auto simp: Let_def bonds_of_load elim!: rbindE)
  have "bonds_of (save_arbiter b (r\<lparr>ar_open := open'\<rparr>) s) = bonds_of s"
    using bonds_of_keep [OF step(1)] by (simp add: bonds_of_save)
  with Suc.IH [OF step(2)] show ?case by (auto dest: same_frame_save)
qed simp

text \<open>The members come from the eligible arbiters, each at most once when the generator keeps its range.\<close>

lemma eligible_members:
  "eligible u sol b s as = Inr el \<Longrightarrow>
     el = filter (\<lambda>a. a \<noteq> u \<and> a \<noteq> sol \<and> b \<le> or0 (bonds_of s a)) as"
  by (induction as arbitrary: el) (auto simp: bonds_of_load bonds_of_def split: if_splits elim!: rbindE)

lemma draw_step:
  assumes "draw g i (Suc n) el chosen s = Inr (chosen', s')"
  obtains s1 where "i < length el" "g i (length el - 1) < length el"
    "draw g (Suc i) n (el[i := el ! g i (length el - 1), g i (length el - 1) := el ! i])
       (chosen @ [el ! g i (length el - 1)]) s1 = Inr (chosen', s')"
  using assms by (auto simp: Let_def vec_get_def split: if_splits elim!: rbindE)

lemma draw_members:
  assumes "draw g i n el chosen s = Inr (chosen', s')" "chosen = take i el" "distinct el"
    "\<And>lo hi. lo \<le> hi \<Longrightarrow> lo \<le> g lo hi"
  shows "set chosen' \<subseteq> set el \<and> distinct chosen'"
  using assms(1-3)
proof (induction n arbitrary: i el chosen s)
  case (Suc n)
  let ?j = "g i (length el - 1)"
  let ?el = "el[i := el ! ?j, ?j := el ! i]"
  from draw_step [OF Suc.prems(1)] obtain s1 where i: "i < length el" "?j < length el"
    and rest: "draw g (Suc i) n ?el (chosen @ [el ! ?j]) s1 = Inr (chosen', s')" .
  have ij: "i \<le> ?j" using i(1) by (intro assms(4)) simp
  have "take (Suc i) ?el = take i el @ [el ! ?j]"
    using i ij by (cases "i = ?j") (simp_all add: take_Suc_conv_app_nth nth_list_update)
  moreover have el: "distinct ?el" "set ?el = set el"
    using i Suc.prems(3) by (simp_all add: distinct_swap set_swap)
  ultimately show ?case using Suc.IH [OF rest] Suc.prems(2) by simp
qed (auto simp: set_take_subset dest: in_set_takeD)

text \<open>One member: either only the lock is released, or a tenth of the bond is cut as well.\<close>

lemma settle_step:
  assumes "settle_loop outcome votes (a # as) winners slashed s = Inr (winners', slashed', s')" "bonds_ok (bonds_of s)"
  obtains r winners1 slashed1 where
    "settle_loop outcome votes as winners1 slashed1 (save_arbiter a r s) = Inr (winners', slashed', s')"
    "winners1 = winners @ (if outcome \<noteq> None \<and> map_of votes a = outcome then [a] else [])"
    "bonds_ok (bonds_of (save_arbiter a r s))" "slashed \<le> slashed1"
    "amounts (bonds_of (save_arbiter a r s)) + slashed1 = amounts (bonds_of s) + slashed"
proof -
  from assms(1) obtain r0 where load: "ap_load_arbiter s a = Inr r0" by (auto elim!: rbindE)
  let ?r = "r0\<lparr>ar_open := ar_open r0 - 1\<rparr>"
  have rec: "ap_arbiter s a = Some r0" and bond: "bonds_of s a = Some (ar_bond r0)"
    using load by (auto simp: bonds_of_load bonds_of_def)
  have keep: "bonds_of (save_arbiter a ?r s) = bonds_of s" using bonds_of_keep [OF rec] by (simp add: bonds_of_save)
  show ?thesis
  proof (cases "outcome = None \<or> map_of votes a = outcome")
    case True
    with assms(1) load have "settle_loop outcome votes as
        (winners @ (if outcome \<noteq> None \<and> map_of votes a = outcome then [a] else [])) slashed (save_arbiter a ?r s) =
        Inr (winners', slashed', s')" by (cases outcome) (auto simp: Let_def)
    from that [OF this refl] keep assms(2) show ?thesis by simp
  next
    case False
    let ?cut = "ar_bond r0 * AP_SLASH_BPS sdiv 10000"
    let ?s = "save_arbiter a (?r\<lparr>ar_bond := ar_bond r0 - ?cut\<rparr>) s"
    from False assms(1) load have rest: "settle_loop outcome votes as winners (slashed + ?cut) ?s = Inr (winners', slashed', s')"
      by (cases outcome) (auto simp: Let_def)
    have pos: "0 \<le> ar_bond r0" using assms(2) bond by (metis bonds_ok_def or0_simps(2))
    then have cut: "0 \<le> ?cut" "?cut \<le> ar_bond r0" by (simp_all add: AP_SLASH_BPS_def sdiv_nonneg)
    have "bonds_ok (bonds_of ?s)" "amounts (bonds_of ?s) + (slashed + ?cut) = amounts (bonds_of s) + slashed"
      using assms(2) cut(2) bond by (simp_all add: bonds_of_save bonds_ok_upd amounts_upd bonds_ok_def)
    from that [OF _ _ this(1) _ this(2)] rest cut(1) False show ?thesis by simp
  qed
qed

lemma settle_result:
  assumes "settle_loop outcome votes as winners slashed s = Inr (winners', slashed', s')" "bonds_ok (bonds_of s)"
  shows "bonds_ok (bonds_of s') \<and> same_frame s s' \<and> slashed \<le> slashed' \<and>
    amounts (bonds_of s') + slashed' = amounts (bonds_of s) + slashed \<and>
    winners' = winners @ (if outcome = None then [] else filter (\<lambda>a. map_of votes a = outcome) as)"
  using assms
proof (induction as arbitrary: winners slashed s)
  case (Cons a as)
  from settle_step [OF Cons.prems] obtain r winners1 slashed1 where step:
    "settle_loop outcome votes as winners1 slashed1 (save_arbiter a r s) = Inr (winners', slashed', s')"
    "winners1 = winners @ (if outcome \<noteq> None \<and> map_of votes a = outcome then [a] else [])"
    "bonds_ok (bonds_of (save_arbiter a r s))" "slashed \<le> slashed1"
    "amounts (bonds_of (save_arbiter a r s)) + slashed1 = amounts (bonds_of s) + slashed" .
  from Cons.IH [OF step(1,3)] step(2,4,5) same_frame_save [of a r s s'] show ?case by auto
qed simp

lemma share_result:
  assumes "share_loop share dust i as s = Inr s'" "bonds_ok (bonds_of s)" "0 \<le> share" "0 \<le> dust"
  shows "bonds_ok (bonds_of s') \<and> same_frame s s' \<and>
    amounts (bonds_of s') = amounts (bonds_of s) + share * int (length as) + (if i = 0 \<and> as \<noteq> [] then dust else 0)"
  using assms
proof (induction as arbitrary: i s)
  case (Cons a as)
  let ?x = "share + (if i = 0 then dust else 0)"
  from Cons.prems(1) obtain r where r: "ap_load_arbiter s a = Inr r"
    "share_loop share dust (Suc i) as (save_arbiter a (r\<lparr>ar_bond := ar_bond r + ?x\<rparr>) s) = Inr s'"
    by (auto elim!: rbindE)
  let ?s = "save_arbiter a (r\<lparr>ar_bond := ar_bond r + ?x\<rparr>) s"
  have bond: "bonds_of s a = Some (ar_bond r)" using r(1) by (simp add: bonds_of_load bonds_of_def)
  then have "0 \<le> ar_bond r" using Cons.prems(2) by (metis bonds_ok_def or0_simps(2))
  then have "bonds_ok (bonds_of ?s)" using Cons.prems(2-4) by (simp add: bonds_of_save bonds_ok_upd)
  moreover have "amounts (bonds_of ?s) = amounts (bonds_of s) + ?x"
    using Cons.prems(2) bond by (simp add: bonds_of_save amounts_upd bonds_ok_def)
  ultimately show ?case
    using Cons.IH [OF r(2) _ Cons.prems(3,4)] same_frame_save [of a _ s s'] by (auto simp: algebra_simps)
qed simp

lemma share_slashed_result:
  assumes "share_slashed winners slashed s = Inr s'" "bonds_ok (bonds_of s)" "0 \<le> slashed"
  shows "bonds_ok (bonds_of s') \<and> same_frame s s' \<and>
    amounts (bonds_of s') = amounts (bonds_of s) + (if winners = [] then 0 else slashed)"
proof (cases "winners \<noteq> [] \<and> slashed > 0")
  case True
  let ?n = "int (length winners)" and ?share = "slashed div int (length winners)"
  have n: "0 < ?n" using True by simp
  have share: "slashed sdiv ?n = ?share" using True n by (simp add: sdiv_nonneg)
  from assms(1) True have loop: "share_loop ?share (slashed - ?share * ?n) 0 winners s = Inr s'"
    by (auto simp: share_slashed_def Let_def share)
  have "0 \<le> ?share" "0 \<le> slashed - ?share * ?n"
    using assms(3) n div_mult_le_self [OF n, of slashed] by (simp_all add: pos_imp_zdiv_nonneg_iff)
  from share_result [OF loop assms(2) this] True show ?thesis by (simp add: algebra_simps)
next
  case False
  with assms show ?thesis by (auto simp: share_slashed_def)
qed

section \<open>Rounds\<close>

definition round_ok :: "Round \<Rightarrow> bool" where
  "round_ok r \<longleftrightarrow> distinct (map fst (rd_votes r)) \<and> fst ` set (rd_votes r) \<subseteq> set (rd_panel r) \<and>
     0 < rd_threshold r \<and> length (rd_panel r) < 2 * rd_threshold r"

lemma votes_total: "votes_for Upheld r + votes_for Dismissed r = length (rd_votes r)"
proof -
  have "filter (\<lambda>(_, w). w = Dismissed) vs = filter (\<lambda>x. \<not> (case x of (_, w) \<Rightarrow> w = Upheld)) vs" for vs :: "(address \<times> Verdict) list"
    by (rule filter_cong) (auto intro: Verdict.exhaust)
  then show ?thesis by (simp add: votes_for_def sum_length_filter_compl)
qed

lemma round_ok_votes:
  assumes "round_ok r"
  shows "length (rd_votes r) \<le> length (rd_panel r)"
proof -
  have "length (rd_votes r) = card (fst ` set (rd_votes r))"
    using assms distinct_card [of "map fst (rd_votes r)"] by (simp add: round_ok_def)
  also have "\<dots> \<le> card (set (rd_panel r))" using assms by (intro card_mono) (auto simp: round_ok_def)
  also have "\<dots> \<le> length (rd_panel r)" by (rule card_length)
  finally show ?thesis .
qed

lemma round_ok_vote:
  assumes "round_ok r" "a \<in> set (rd_panel r)"
  shows "round_ok (r\<lparr>rd_votes := AList.update a v (rd_votes r)\<rparr>)"
  using assms distinct_update [of "rd_votes r" a v] by (auto simp: round_ok_def update_keys simp flip: set_map)

text \<open>The scaled threshold keeps the strict majority: half of the seats never reach it.\<close>

lemma scaled_threshold:
  assumes "0 < k" "k \<le> n" "m \<le> n" "n < 2 * m"
  shows "k < 2 * max ((m * k + n - 1) div n) (1::nat)"
proof -
  let ?t = "(m * k + n - 1) div n"
  have n: "0 < n" using assms(1,2) by simp
  have "m * k \<le> ?t * n" using n dividend_less_div_times [of n "m * k + n - 1"] by linarith
  moreover have "k * n < 2 * (m * k)" using assms(1,4) by simp
  ultimately have "k * n < 2 * ?t * n" by linarith
  then have "k < 2 * ?t" using n by simp
  then show ?thesis by simp
qed

section \<open>The invariant\<close>

definition ap_good :: "address \<Rightarrow> panel \<Rightarrow> bool" where
  "ap_good tok s \<longleftrightarrow> (ap_admin s = None \<longrightarrow> s = ap_empty) \<and> ap_token s \<in> {None, Some tok} \<and> bonds_ok (bonds_of s) \<and>
     distinct (ap_list s) \<and> set (ap_list s) \<subseteq> dom (ap_arbiter s) \<and>
     (\<forall>i r. ap_round s i = Some r \<longrightarrow> round_ok r) \<and> (\<forall>b. ap_bond_amount s = Some b \<longrightarrow> 0 < b) \<and>
     (\<forall>n m. ap_size s = Some n \<and> ap_threshold s = Some m \<longrightarrow> 0 < m \<and> m \<le> n \<and> n < 2 * m)"

definition ap_owed :: "panel \<Rightarrow> int" where
  "ap_owed s = amounts (bonds_of s)"

fun ap_fair :: "address \<Rightarrow> 'st \<times> ap_event \<Rightarrow> bool" where
  "ap_fair tok (_, ApInitialize _ _ t _ _ _) = (t = tok)"
| "ap_fair tok _ = True"

lemma ap_good_frame:
  assumes "ap_good tok s" "same_frame s s'" "bonds_ok (bonds_of s')" "ap_admin s \<noteq> None"
  shows "ap_good tok s'"
proof -
  note same = same_frame_fields [OF assms(2)]
  then have "set (ap_list s') \<subseteq> dom (ap_arbiter s')" using assms(1) unfolding ap_good_def by (metis order_trans)
  then show ?thesis using assms(1,3,4) same by (auto simp: ap_good_def)
qed

lemma save_round_simps [simp]:
  "ap_admin (save_round i r s) = ap_admin s" "bonds_of (save_round i r s) = bonds_of s"
  "ap_token (save_round i r s) = ap_token s" "ap_settlement (save_round i r s) = ap_settlement s"
  "ap_bond_amount (save_round i r s) = ap_bond_amount s" "ap_size (save_round i r s) = ap_size s"
  "ap_threshold (save_round i r s) = ap_threshold s" "ap_list (save_round i r s) = ap_list s"
  "ap_arbiter (save_round i r s) = ap_arbiter s"
  "ap_round (save_round i r s) j = (if j = i then Some r else ap_round s j)"
  by (auto simp: save_round_def bonds_of_def ap_list_def)

lemma ap_good_round: "ap_good tok s \<Longrightarrow> ap_admin s \<noteq> None \<Longrightarrow> round_ok r \<Longrightarrow> ap_good tok (save_round i r s)"
  by (auto simp: ap_good_def)

lemma ap_good_admin: "ap_good tok s \<Longrightarrow> ap_bond_amount s \<noteq> None \<or> ap_token s \<noteq> None \<or> ap_round s i \<noteq> None \<or>
    ap_arbiter s a \<noteq> None \<Longrightarrow> ap_admin s \<noteq> None"
  by (auto simp: ap_good_def ap_empty_def)

lemma bonds_of_none: "ap_arbiter s = (\<lambda>_. None) \<Longrightarrow> bonds_of s = (\<lambda>_. None)"
  by (auto simp: bonds_of_def)

lemma ap_good_initialize:
  assumes "ap_good tok s" "ap_initialize admin settlement tok b n m s = Inr s'"
  shows "ap_good tok s' \<and> ap_owed s' = ap_owed s"
proof -
  from assms have "s = ap_empty" by (auto simp: ap_initialize_def ap_good_def)
  with assms(2) show ?thesis
    by (auto simp: ap_initialize_def ap_good_def ap_empty_def ap_owed_def bonds_of_none bonds_ok_def ap_list_def elim!: guardE)
qed

lemma ap_good_register:
  assumes "ap_good tok s" "self e = me" "\<not> authed e me" "register_arbiter e a s = Inr (s', tr)"
  shows "ap_good tok s' \<and> ap_owed s' - ap_owed s \<le> net_in tok me tr"
proof -
  from assms(4) obtain b t where r: "authed e a" "ap_arbiter s a = None" "ap_bond_amount s = Some b" "ap_token s = Some t"
    "tr = [\<lparr>x_token = t, x_from = a, x_to = self e, x_amount = b\<rparr>]"
    "s' = (save_arbiter a \<lparr>ar_bond = b, ar_open = 0\<rparr> s)
       \<lparr>ap_arbiters := Some (ap_list (save_arbiter a \<lparr>ar_bond = b, ar_open = 0\<rparr> s) @ [a])\<rparr>"
    by (auto simp: register_arbiter_def Let_def transfer_eq_Inr elim!: guardE)
  have admin: "ap_admin s \<noteq> None" using ap_good_admin [OF assms(1)] r(3) by auto
  have "0 < b" "t = tok" using assms(1) r(3,4) by (auto simp: ap_good_def)
  have bonds: "bonds_of s' = (bonds_of s)(a \<mapsto> b)" "or0 (bonds_of s a) = 0"
    using r(2) by (auto simp: r(6) bonds_of_def save_arbiter_def)
  then have "ap_owed s' = ap_owed s + b"
    using assms(1) by (simp add: ap_owed_def amounts_upd ap_good_def bonds_ok_def)
  moreover have "net_in tok me tr = b" using r(1,5) assms(2,3) \<open>t = tok\<close> by (auto simp: x_net_def)
  moreover have list: "ap_list s' = ap_list s @ [a]" "ap_arbiter s' = (ap_arbiter s)(a \<mapsto> \<lparr>ar_bond = b, ar_open = 0\<rparr>)"
    by (simp_all add: r(6) save_arbiter_def ap_list_def)
  have "a \<notin> set (ap_list s)" using assms(1) r(2) by (auto simp: ap_good_def)
  then have "distinct (ap_list s') \<and> set (ap_list s') \<subseteq> dom (ap_arbiter s')"
    using assms(1) by (auto simp: list ap_good_def)
  then have "ap_good tok s'"
    using assms(1) admin bonds(1) \<open>0 < b\<close> unfolding ap_good_def
    by (auto simp: bonds_ok_upd) (auto simp: r(6) save_arbiter_def)
  ultimately show ?thesis by simp
qed

lemma ap_good_deregister:
  assumes "ap_good tok s" "self e = me" "\<not> authed e me" "deregister_arbiter e a s = Inr (s', tr)"
  shows "ap_good tok s' \<and> ap_owed s' - ap_owed s \<le> net_in tok me tr"
proof -
  from assms(4) obtain r where r: "authed e a" "ap_arbiter s a = Some r"
    "ap_arbiter s' = (ap_arbiter s)(a := None)" "ap_admin s' = ap_admin s" "ap_token s' = ap_token s"
    "ap_round s' = ap_round s" "ap_bond_amount s' = ap_bond_amount s" "ap_size s' = ap_size s" "ap_threshold s' = ap_threshold s"
    "ap_list s' = filter (\<lambda>x. x \<noteq> a) (ap_list s)"
    and pay: "if 0 < ar_bond r then \<exists>t. ap_token s = Some t \<and>
      tr = [\<lparr>x_token = t, x_from = self e, x_to = a, x_amount = ar_bond r\<rparr>] else tr = []"
    by (auto simp: deregister_arbiter_def Let_def bonds_of_load transfer_eq_Inr ap_list_def elim!: guardE condE)
  have admin: "ap_admin s \<noteq> None" using ap_good_admin [OF assms(1), where a = a] r(2) by auto
  have bond: "bonds_of s a = Some (ar_bond r)" using r(2) by (simp add: bonds_of_def)
  have bonds: "bonds_of s' = (bonds_of s)(a := None)" using r(3) by (auto simp: bonds_of_def)
  have fin: "finite (dom (bonds_of s))" using assms(1) by (simp add: ap_good_def bonds_ok_def)
  have "amounts ((bonds_of s)(a := None)) = amounts (bonds_of s) - ar_bond r"
    using fin bond sum.remove [OF fin, of a "\<lambda>k. or0 (bonds_of s k)"] by (simp add: amounts_def domI)
  then have "ap_owed s' = ap_owed s - ar_bond r" by (simp add: ap_owed_def bonds)
  moreover have "- ar_bond r \<le> net_in tok me tr"
    using pay r(1) assms(1-3) bond by (auto simp: x_net_def ap_good_def bonds_ok_def split: if_splits dest: spec [of _ a])
  moreover have "bonds_ok (bonds_of s')" using assms(1) fin by (auto simp: bonds ap_good_def bonds_ok_def)
  then have "ap_good tok s'" using assms(1) admin r(3-10) by (auto simp: ap_good_def)
  ultimately show ?thesis by simp
qed

lemma open_vote_Inr:
  assumes "open_vote rng client e i st s = Inr (s', chosen)"
  shows "ap_bond_amount s \<noteq> None \<and> (\<exists>n m el s1. (\<exists>u sol b. sc_parties client st i = Some (u, sol) \<and>
      ap_bond_amount s = Some b \<and> eligible u sol b s (ap_list s) = Inr el) \<and> ap_size s = Some n \<and> ap_threshold s = Some m \<and> el \<noteq> [] \<and>
    draw (rng i) 0 (min n (length el)) el [] s = Inr (chosen, s1) \<and>
    s' = save_round i \<lparr>rd_panel = chosen, rd_threshold = max ((m * min n (length el) + n - 1) div n) 1,
      rd_opened = now e, rd_votes = [], rd_settled = False\<rparr> s1)"
  using assms unfolding open_vote_def Let_def
  by (elim guardE rbindE case_optionE) (auto split: prod.splits if_splits option.splits elim!: rbindE)

lemma ap_good_open:
  assumes "ap_good tok s" "open_vote rng client e i st s = Inr (s', chosen)"
  shows "ap_good tok s' \<and> ap_owed s' = ap_owed s"
proof -
  from open_vote_Inr [OF assms(2)] obtain n m el s1 where
    o: "ap_size s = Some n" "ap_threshold s = Some m" "el \<noteq> []" "ap_bond_amount s \<noteq> None"
      "draw (rng i) 0 (min n (length el)) el [] s = Inr (chosen, s1)"
      "s' = save_round i \<lparr>rd_panel = chosen, rd_threshold = max ((m * min n (length el) + n - 1) div n) 1,
        rd_opened = now e, rd_votes = [], rd_settled = False\<rparr> s1" by blast
  have admin: "ap_admin s \<noteq> None" using ap_good_admin [OF assms(1)] o(4) by auto
  note d = draw_result [OF o(5)]
  have mn: "0 < m" "m \<le> n" "n < 2 * m" using assms(1) o(1,2) by (auto simp: ap_good_def)
  have "length chosen < 2 * max ((m * min n (length el) + n - 1) div n) 1"
    using d mn o(3) scaled_threshold [of "min n (length el)" n m] by simp
  then have "round_ok \<lparr>rd_panel = chosen, rd_threshold = max ((m * min n (length el) + n - 1) div n) 1,
        rd_opened = now e, rd_votes = [], rd_settled = False\<rparr>" by (simp add: round_ok_def)
  moreover have "ap_good tok s1"
    by (rule ap_good_frame [OF assms(1) _ _ admin]) (use d assms(1) in \<open>simp_all add: ap_good_def\<close>)
  moreover have "ap_admin s1 \<noteq> None" using d admin same_frame_fields by metis
  ultimately show ?thesis using d by (simp add: o(6) ap_good_round ap_owed_def)
qed

lemma ap_vote_Inr:
  assumes "ap_vote e a i v s = Inr s'"
  obtains r :: Round where "ap_round s i = Some r" "\<not> rd_settled r" "a \<in> set (rd_panel r)" "authed e a"
    "map_of (rd_votes r) a = None" "now e < rd_opened r + VOTE_WINDOW"
    "s' = save_round i (r\<lparr>rd_votes := AList.update a v (rd_votes r)\<rparr>) s"
  using assms unfolding ap_vote_def load_round_def
  by (elim rbindE guardE) (auto split: if_splits)

lemma ap_good_vote:
  assumes "ap_good tok s" "ap_vote e a i v s = Inr s'"
  shows "ap_good tok s' \<and> ap_owed s' = ap_owed s"
proof -
  from ap_vote_Inr [OF assms(2)] obtain r :: Round where r: "ap_round s i = Some r" "a \<in> set (rd_panel r)"
    "s' = save_round i (r\<lparr>rd_votes := AList.update a v (rd_votes r)\<rparr>) s" .
  have "round_ok r" "ap_admin s \<noteq> None" using assms(1) r(1) ap_good_admin [OF assms(1), of i] by (auto simp: ap_good_def)
  then show ?thesis using assms(1) round_ok_vote r(2) by (simp add: r(3) ap_good_round ap_owed_def)
qed

text \<open>A tally is an unsettled round, its outcome or the end of its window, and the two loops.\<close>

lemma ap_tally_Inr:
  assumes "ap_tally client e i st s = Inr (s', out, st', tr)"
  obtains r :: Round and winners slashed s1 where "ap_round s i = Some r" "\<not> rd_settled r" "out = outcome_of r"
    "out = None \<longrightarrow> rd_opened r + VOTE_WINDOW \<le> now e \<and> st' = st \<and> tr = []"
    "\<And>v. out = Some v \<Longrightarrow> sc_resolve client st (self e) i v = Some (st', tr)"
    "settle_loop out (rd_votes r) (rd_panel r) [] 0 (save_round i (r\<lparr>rd_settled := True\<rparr>) s) = Inr (winners, slashed, s1)"
    "share_slashed winners slashed s1 = Inr s'"
proof -
  from assms obtain r :: Round where r: "ap_round s i = Some r" "\<not> rd_settled r"
    unfolding ap_tally_def load_round_def by (elim rbindE guardE) simp
  let ?loop = "settle_loop (outcome_of r) (rd_votes r) (rd_panel r) [] 0 (save_round i (r\<lparr>rd_settled := True\<rparr>) s)"
  show thesis
  proof (cases "outcome_of r")
    case None
    with assms r have window: "rd_opened r + VOTE_WINDOW \<le> now e"
      and "rbind ?loop (\<lambda>(winners, slashed, s1). rbind (share_slashed winners slashed s1) (\<lambda>s2. Inr (s2, None, st, [])))
        = Inr (s', out, st', tr)"
      by (auto simp: ap_tally_def load_round_def split: if_splits elim!: rbindE)
    then obtain winners slashed s1 where "?loop = Inr (winners, slashed, s1)" "share_slashed winners slashed s1 = Inr s'"
      "out = None" "st' = st" "tr = []" by (auto elim!: rbindE)
    with that [OF r, of winners slashed s1] None window show thesis by simp
  next
    case (Some v)
    with assms r have "rbind ?loop (\<lambda>(winners, slashed, s1). rbind (share_slashed winners slashed s1) (\<lambda>s2.
        rbind (need NotInitialized (ap_settlement s2)) (\<lambda>_.
          case sc_resolve client st (self e) i v of
            None \<Rightarrow> Inl HostTrap
          | Some (st', tr) \<Rightarrow> Inr (s2, Some v, st', tr)))) = Inr (s', out, st', tr)"
      by (simp add: ap_tally_def load_round_def Let_def)
    then obtain winners slashed s1 s2 where "?loop = Inr (winners, slashed, s1)" "share_slashed winners slashed s1 = Inr s2"
      and "(case sc_resolve client st (self e) i v of
            None \<Rightarrow> Inl HostTrap
          | Some (st', tr) \<Rightarrow> Inr (s2, Some v, st', tr)) = (Inr (s', out, st', tr) :: (ApError, _) res)"
      by (elim rbindE) (auto simp del: not_None_eq elim!: rbindE)
    with that [OF r, of winners slashed s1] Some show thesis by (auto split: option.splits)
  qed
qed

lemma ap_good_tally:
  assumes "ap_good tok s" "ap_tally client e i st s = Inr (s', out, st', tr)"
  shows "ap_good tok s' \<and> ap_owed s' \<le> ap_owed s"
proof -
  from ap_tally_Inr [OF assms(2)] obtain r :: Round and winners slashed s1 where
    r: "ap_round s i = Some r" and
    loop: "settle_loop out (rd_votes r) (rd_panel r) [] 0 (save_round i (r\<lparr>rd_settled := True\<rparr>) s) = Inr (winners, slashed, s1)" and
    share: "share_slashed winners slashed s1 = Inr s'" .
  let ?s = "save_round i (r\<lparr>rd_settled := True\<rparr>) s"
  have admin: "ap_admin s \<noteq> None" and ok: "round_ok r" "bonds_ok (bonds_of s)"
    using assms(1) r ap_good_admin [OF assms(1), of i] by (auto simp: ap_good_def)
  have good: "ap_good tok ?s" using ap_good_round [OF assms(1) admin] ok(1) by (simp add: round_ok_def)
  have a: "bonds_ok (bonds_of s1)" "same_frame ?s s1" "0 \<le> slashed" "amounts (bonds_of s1) + slashed = ap_owed s"
    using settle_result [OF loop] ok(2) by (simp_all add: ap_owed_def)
  have b: "bonds_ok (bonds_of s')" "same_frame s1 s'" "ap_owed s' \<le> amounts (bonds_of s1) + slashed"
    using share_slashed_result [OF share a(1,3)] a(3) by (simp_all add: ap_owed_def split: if_splits)
  have "ap_good tok s1" "ap_admin s1 \<noteq> None"
    using ap_good_frame [OF good a(2,1)] admin same_frame_fields [OF a(2)] by simp_all
  from ap_good_frame [OF this(1) b(2,1) this(2)] a(4) b(3) show ?thesis by simp
qed

lemma ap_handle_good:
  fixes ev :: "'st \<times> ap_event"
  assumes "ap_good tok s" "self e = me" "\<not> authed e me" "ap_fair tok ev" "ap_handle rng client e ev s = Inr (s', tr)"
  shows "ap_good tok s' \<and> ap_owed s' - ap_owed s \<le> net_in tok me tr"
proof -
  obtain st x where ev: "ev = (st, x)" by force
  show ?thesis
  proof (cases x)
    case (ApInitialize a b c d n m)
    then show ?thesis using assms ap_good_initialize [OF assms(1)] by (auto simp: ev)
  next
    case (ApRegister a)
    then show ?thesis using ap_good_register [OF assms(1-3)] assms(5) by (simp add: ev)
  next
    case (ApDeregister a)
    then show ?thesis using ap_good_deregister [OF assms(1-3)] assms(5) by (simp add: ev)
  next
    case (ApOpenVote i)
    then show ?thesis using ap_good_open [OF assms(1)] assms(5) by (fastforce simp: ev elim!: rbindE)
  next
    case (ApVote a i v)
    then show ?thesis using ap_good_vote [OF assms(1)] assms(5) by (fastforce simp: ev)
  next
    case (ApTally i)
    then show ?thesis using ap_good_tally [OF assms(1)] assms(5) by (fastforce simp: ev elim!: rbindE)
  qed
qed

interpretation panel_books: token_contract "ap_handle rng client" ap_empty "ap_good tok" "ap_fair tok" me tok ap_owed
proof unfold_locales
  show "ap_good tok ap_empty"
    by (simp add: ap_good_def ap_empty_def bonds_of_none bonds_ok_def ap_list_def)
  show "ap_owed ap_empty = 0" by (simp add: ap_owed_def ap_empty_def bonds_of_none)
qed (use ap_handle_good in blast)+

section \<open>What a tally does to each bond\<close>

definition cut_of :: "int \<Rightarrow> int" where
  "cut_of b = b * AP_SLASH_BPS sdiv 10000"

lemma cut_of_tenth: "0 \<le> b \<Longrightarrow> cut_of b = b div 10"
  using div_mult_mult2 [of 1000 b 10] by (simp add: cut_of_def AP_SLASH_BPS_def sdiv_nonneg)

text \<open>One member's record is settled: released, and cut when it is not with the majority.\<close>

lemma settle_one:
  assumes "settle_loop outcome votes (a # as) winners slashed s = Inr (winners', slashed', s')"
  obtains r winners1 where "ap_arbiter s a = Some r"
    "winners1 = winners @ (if outcome \<noteq> None \<and> map_of votes a = outcome then [a] else [])"
    "settle_loop outcome votes as winners1 (slashed + (if outcome = None \<or> map_of votes a = outcome then 0 else cut_of (ar_bond r)))
       (save_arbiter a (r\<lparr>ar_open := ar_open r - 1,
          ar_bond := ar_bond r - (if outcome = None \<or> map_of votes a = outcome then 0 else cut_of (ar_bond r))\<rparr>) s) =
     Inr (winners', slashed', s')"
proof -
  from assms obtain r where load: "ap_arbiter s a = Some r" by (auto simp: bonds_of_load elim!: rbindE)
  show ?thesis
  proof (cases "outcome = None \<or> map_of votes a = outcome")
    case True
    with assms load that [of r] show ?thesis by (cases outcome) (auto simp: Let_def bonds_of_load)
  next
    case False
    with assms load that [of r] show ?thesis by (cases outcome) (auto simp: Let_def bonds_of_load cut_of_def)
  qed
qed

text \<open>The locks an arbiter holds; one that is not registered holds none.\<close>

definition open_of :: "panel \<Rightarrow> address \<Rightarrow> nat" where
  "open_of s a = (case ap_arbiter s a of None \<Rightarrow> 0 | Some r \<Rightarrow> ar_open r)"

lemma open_of_save [simp]: "open_of (save_arbiter b r s) a = (if a = b then ar_open r else open_of s a)"
  by (simp add: open_of_def save_arbiter_def)

lemma open_of_round [simp]: "open_of (save_round i r s) = open_of s"
  by (simp add: open_of_def fun_eq_iff)

lemma settle_members:
  assumes "settle_loop outcome votes as winners slashed s = Inr (winners', slashed', s')" "distinct as"
  shows "(\<forall>a. open_of s' a = open_of s a - of_bool (a \<in> set as)) \<and>
    (\<forall>a. bonds_of s' a = (if outcome \<noteq> None \<and> a \<in> set as \<and> map_of votes a \<noteq> outcome
       then map_option (\<lambda>b. b - cut_of b) (bonds_of s a) else bonds_of s a)) \<and>
    slashed' = slashed + (\<Sum>a\<leftarrow>as. if outcome \<noteq> None \<and> map_of votes a \<noteq> outcome then cut_of (or0 (bonds_of s a)) else 0)"
  using assms
proof (induction as arbitrary: winners slashed s)
  case (Cons a as)
  from settle_one [OF Cons.prems(1)] obtain r winners1 where r: "ap_arbiter s a = Some r" and
    rest: "settle_loop outcome votes as winners1 (slashed + (if outcome = None \<or> map_of votes a = outcome then 0 else cut_of (ar_bond r)))
       (save_arbiter a (r\<lparr>ar_open := ar_open r - 1,
          ar_bond := ar_bond r - (if outcome = None \<or> map_of votes a = outcome then 0 else cut_of (ar_bond r))\<rparr>) s) =
     Inr (winners', slashed', s')" .
  let ?s = "save_arbiter a (r\<lparr>ar_open := ar_open r - 1,
      ar_bond := ar_bond r - (if outcome = None \<or> map_of votes a = outcome then 0 else cut_of (ar_bond r))\<rparr>) s"
  have a: "a \<notin> set as" "distinct as" using Cons.prems(2) by auto
  have old: "bonds_of s a = Some (ar_bond r)" "open_of s a = ar_open r" using r by (simp_all add: bonds_of_def open_of_def)
  have sum: "(\<Sum>b\<leftarrow>as. if outcome \<noteq> None \<and> map_of votes b \<noteq> outcome then cut_of (or0 (bonds_of ?s b)) else 0) =
      (\<Sum>b\<leftarrow>as. if outcome \<noteq> None \<and> map_of votes b \<noteq> outcome then cut_of (or0 (bonds_of s b)) else 0)"
    using a(1) by (intro arg_cong [of _ _ sum_list] map_cong refl) (auto simp: bonds_of_save)
  from Cons.IH [OF rest a(2)] sum show ?case using a(1) old by (auto simp: bonds_of_save)
qed simp

lemma share_members:
  assumes "share_loop share dust i as s = Inr s'" "distinct as"
  shows "open_of s' = open_of s \<and>
    (\<forall>a. bonds_of s' a = (if a \<in> set as
       then map_option (\<lambda>b. b + share + (if i = 0 \<and> a = hd as then dust else 0)) (bonds_of s a) else bonds_of s a))"
  using assms
proof (induction as arbitrary: i s)
  case (Cons a as)
  let ?x = "share + (if i = 0 then dust else 0)"
  from Cons.prems(1) obtain r where r: "ap_arbiter s a = Some r"
    "share_loop share dust (Suc i) as (save_arbiter a (r\<lparr>ar_bond := ar_bond r + ?x\<rparr>) s) = Inr s'"
    by (auto simp: bonds_of_load elim!: rbindE)
  have a: "a \<notin> set as" "distinct as" using Cons.prems(2) by auto
  have old: "bonds_of s a = Some (ar_bond r)" "open_of s a = ar_open r" using r(1) by (simp_all add: bonds_of_def open_of_def)
  from Cons.IH [OF r(2) a(2)] a(1) old show ?case by (auto simp: bonds_of_save fun_eq_iff)
qed simp

section \<open>The seats in open rounds\<close>

text \<open>
  A generator that is asked for a number from \<open>lo\<close> on does not answer below it: the shuffle then
  never draws a member twice.
\<close>

definition keeps_range :: "(bytes32 \<Rightarrow> nat \<Rightarrow> nat \<Rightarrow> nat) \<Rightarrow> bool" where
  "keeps_range rng \<longleftrightarrow> (\<forall>i lo hi. lo \<le> hi \<longrightarrow> lo \<le> rng i lo hi)"

definition seats :: "panel \<Rightarrow> address \<Rightarrow> bytes32 set" where
  "seats s a = {i. \<exists>r. ap_round s i = Some r \<and> \<not> rd_settled r \<and> a \<in> set (rd_panel r)}"

definition seats_ok :: "panel \<Rightarrow> bool" where
  "seats_ok s \<longleftrightarrow> finite (dom (ap_round s)) \<and> distinct (ap_list s) \<and> set (ap_list s) \<subseteq> dom (ap_arbiter s) \<and>
     (\<forall>i r. ap_round s i = Some r \<longrightarrow> round_ok r \<and> distinct (rd_panel r)) \<and>
     (\<forall>n m. ap_size s = Some n \<and> ap_threshold s = Some m \<longrightarrow> 0 < m \<and> m \<le> n \<and> n < 2 * m) \<and>
     (\<forall>a. open_of s a = card (seats s a))"

lemma seats_finite: "seats_ok s \<Longrightarrow> finite (seats s a)"
  by (rule finite_subset [of _ "dom (ap_round s)"]) (auto simp: seats_ok_def seats_def)

lemma seats_upd:
  "ap_round s' = (ap_round s)(i \<mapsto> r) \<Longrightarrow>
     seats s' a = (if \<not> rd_settled r \<and> a \<in> set (rd_panel r) then insert i (seats s a) else seats s a - {i})"
  by (auto simp: seats_def split: if_splits)

lemma seats_same: "ap_round s' = ap_round s \<Longrightarrow> seats s' = seats s"
  by (simp add: seats_def fun_eq_iff)

lemma draw_opens:
  "draw g i n el chosen s = Inr (chosen', s') \<Longrightarrow>
     \<exists>new. chosen' = chosen @ new \<and> (\<forall>a. open_of s' a = open_of s a + count_list new a)"
proof (induction n arbitrary: i el chosen s)
  case (Suc n)
  from Suc.prems obtain b r el' where r: "ap_arbiter s b = Some r"
    "draw g (Suc i) n el' (chosen @ [b]) (save_arbiter b (r\<lparr>ar_open := ar_open r + 1\<rparr>) s) = Inr (chosen', s')"
    by (auto simp: Let_def bonds_of_load elim!: rbindE)
  from Suc.IH [OF r(2)] obtain new where new: "chosen' = (chosen @ [b]) @ new"
    "\<forall>a. open_of s' a = open_of (save_arbiter b (r\<lparr>ar_open := ar_open r + 1\<rparr>) s) a + count_list new a" by blast
  moreover have "open_of s b = ar_open r" using r(1) by (simp add: open_of_def)
  ultimately show ?case by (intro exI [of _ "b # new"]) auto
qed simp

lemma count_list_distinct: "distinct xs \<Longrightarrow> count_list xs a = of_bool (a \<in> set xs)"
  by (induction xs) auto

lemma open_vote_fresh: "open_vote rng client e i st s = Inr p \<Longrightarrow> ap_round s i = None"
  by (cases "ap_round s i") (simp_all add: open_vote_def)

lemma seats_ok_initialize:
  assumes "seats_ok s" "ap_initialize a b c d n m s = Inr s'"
  shows "seats_ok s'"
proof -
  from assms(2) have s': "ap_arbiter s' = ap_arbiter s" "ap_round s' = ap_round s" "ap_list s' = ap_list s"
    "ap_size s' = Some n" "ap_threshold s' = Some m" "0 < m" "m \<le> n" "n < 2 * m"
    by (auto simp: ap_initialize_def ap_list_def elim!: guardE)
  then have "open_of s' = open_of s" by (simp add: open_of_def fun_eq_iff)
  with assms(1) s' seats_same [OF s'(2)] show ?thesis by (simp add: seats_ok_def)
qed

lemma seats_ok_register:
  assumes "seats_ok s" "register_arbiter e a s = Inr (s', tr)"
  shows "seats_ok s'"
proof -
  from assms(2) obtain b where r: "ap_arbiter s a = None" "ap_arbiter s' = (ap_arbiter s)(a \<mapsto> \<lparr>ar_bond = b, ar_open = 0\<rparr>)"
    "ap_round s' = ap_round s" "ap_list s' = ap_list s @ [a]" "ap_size s' = ap_size s" "ap_threshold s' = ap_threshold s"
    by (auto simp: register_arbiter_def Let_def save_arbiter_def ap_list_def elim!: guardE)
  have "open_of s' = open_of s" using r(1,2) by (auto simp: open_of_def fun_eq_iff)
  moreover have "a \<notin> set (ap_list s)" using assms(1) r(1) by (auto simp: seats_ok_def)
  ultimately show ?thesis using assms(1) r seats_same [OF r(3)] by (auto simp: seats_ok_def)
qed

lemma deregister_Inr:
  assumes "deregister_arbiter e a s = Inr (s', tr)"
  obtains r where "ap_arbiter s a = Some r" "ar_open r = 0" "ap_arbiter s' = (ap_arbiter s)(a := None)"
    "ap_round s' = ap_round s" "ap_list s' = filter (\<lambda>x. x \<noteq> a) (ap_list s)" "ap_size s' = ap_size s"
    "ap_threshold s' = ap_threshold s"
  using assms by (auto simp: deregister_arbiter_def Let_def bonds_of_load ap_list_def elim!: guardE condE)

lemma seats_ok_deregister:
  assumes "seats_ok s" "deregister_arbiter e a s = Inr (s', tr)"
  shows "seats_ok s'"
proof (rule deregister_Inr [OF assms(2)])
  fix r
  assume r: "ap_arbiter s a = Some r" "ar_open r = 0" "ap_arbiter s' = (ap_arbiter s)(a := None)"
    "ap_round s' = ap_round s" "ap_list s' = filter (\<lambda>x. x \<noteq> a) (ap_list s)" "ap_size s' = ap_size s"
    "ap_threshold s' = ap_threshold s"
  have "open_of s' = open_of s" using r(1-3) by (auto simp: open_of_def fun_eq_iff)
  with assms(1) r seats_same [OF r(4)] show ?thesis by (auto simp: seats_ok_def)
qed

lemma seats_ok_vote:
  assumes "seats_ok s" "ap_vote e a i v s = Inr s'"
  shows "seats_ok s'"
proof (rule ap_vote_Inr [OF assms(2)])
  fix r :: Round
  assume r: "ap_round s i = Some r" "\<not> rd_settled r" "a \<in> set (rd_panel r)"
    "s' = save_round i (r\<lparr>rd_votes := AList.update a v (rd_votes r)\<rparr>) s"
  have "ap_round s' = (ap_round s)(i \<mapsto> r\<lparr>rd_votes := AList.update a v (rd_votes r)\<rparr>)" using r(4) by (simp add: save_round_def)
  from seats_upd [OF this] have "seats s' b = seats s b" for b
    using r(1,2) by (auto simp: seats_def)
  with assms(1) r(1,3,4) round_ok_vote show ?thesis by (auto simp: seats_ok_def)
qed

lemma seats_ok_open:
  assumes "seats_ok s" "keeps_range rng" "open_vote rng client e i st s = Inr (s', chosen)"
  shows "seats_ok s'"
proof -
  from open_vote_Inr [OF assms(3)] obtain n m el s1 u sol b where
    o: "ap_size s = Some n" "ap_threshold s = Some m" "el \<noteq> []" "eligible u sol b s (ap_list s) = Inr el"
      "draw (rng i) 0 (min n (length el)) el [] s = Inr (chosen, s1)"
      "s' = save_round i \<lparr>rd_panel = chosen, rd_threshold = max ((m * min n (length el) + n - 1) div n) 1,
        rd_opened = now e, rd_votes = [], rd_settled = False\<rparr> s1" by blast
  note d = draw_result [OF o(5)]
  have frame: "ap_round s1 = ap_round s" "ap_list s1 = ap_list s" "ap_size s1 = ap_size s"
    "ap_threshold s1 = ap_threshold s" "dom (ap_arbiter s) \<subseteq> dom (ap_arbiter s1)"
    using d same_frame_fields by auto
  have mn: "0 < m" "m \<le> n" "n < 2 * m" using assms(1) o(1,2) by (auto simp: seats_ok_def)
  have "length chosen < 2 * max ((m * min n (length el) + n - 1) div n) 1"
    using d mn o(3) scaled_threshold [of "min n (length el)" n m] by simp
  then have ok: "round_ok \<lparr>rd_panel = chosen, rd_threshold = max ((m * min n (length el) + n - 1) div n) 1,
        rd_opened = now e, rd_votes = [], rd_settled = False\<rparr>" by (simp add: round_ok_def)
  have "distinct el" using assms(1) eligible_members [OF o(4)] by (simp add: seats_ok_def)
  then have dist: "distinct chosen"
    using draw_members [OF o(5)] assms(2) by (simp add: keeps_range_def)
  have opens: "open_of s1 a = open_of s a + of_bool (a \<in> set chosen)" for a
    using draw_opens [OF o(5)] count_list_distinct [OF dist] by auto
  have new: "i \<notin> seats s a" for a using open_vote_fresh [OF assms(3)] by (simp add: seats_def)
  have "ap_round s' = (ap_round s)(i \<mapsto> \<lparr>rd_panel = chosen, rd_threshold = max ((m * min n (length el) + n - 1) div n) 1,
        rd_opened = now e, rd_votes = [], rd_settled = False\<rparr>)" using frame(1) by (simp add: o(6) save_round_def)
  note upd = seats_upd [OF this]
  have "set (ap_list s) \<subseteq> dom (ap_arbiter s1)" using assms(1) frame(5) unfolding seats_ok_def by blast
  moreover have "open_of s' a = card (seats s' a)" for a
    using opens [of a] new [of a] upd [of a] seats_finite [OF assms(1), of a] assms(1)
    by (simp add: o(6) seats_ok_def)
  ultimately show ?thesis
    using assms(1) frame(1-4) ok dist by (auto simp: seats_ok_def o(6))
qed

lemma same_frame_share: "share_slashed winners slashed s = Inr s' \<Longrightarrow> same_frame s s'"
proof -
  have "share_loop x d i as s = Inr s' \<Longrightarrow> same_frame s s'" for x d i as s s'
    by (induction as arbitrary: i s) (auto dest: same_frame_save elim!: rbindE)
  then show "share_slashed winners slashed s = Inr s' \<Longrightarrow> same_frame s s'"
    by (auto simp: share_slashed_def Let_def split: if_splits)
qed

lemma same_frame_settle:
  "settle_loop outcome votes as winners slashed s = Inr (winners', slashed', s') \<Longrightarrow> same_frame s s' \<and>
     winners' = winners @ (if outcome = None then [] else filter (\<lambda>a. map_of votes a = outcome) as)"
proof (induction as arbitrary: winners slashed s)
  case (Cons a as)
  from settle_one [OF Cons.prems] obtain r winners1 slashed1 where
    w: "winners1 = winners @ (if outcome \<noteq> None \<and> map_of votes a = outcome then [a] else [])"
    and rest: "settle_loop outcome votes as winners1 slashed1 (save_arbiter a r s) = Inr (winners', slashed', s')" by metis
  from Cons.IH [OF rest] w same_frame_save [of a r s s'] show ?case by auto
qed simp

lemma seats_ok_tally:
  assumes "seats_ok s" "ap_tally client e i st s = Inr (s', out, st', tr)"
  shows "seats_ok s'"
proof -
  from ap_tally_Inr [OF assms(2)] obtain r :: Round and winners slashed s1 where
    r: "ap_round s i = Some r" "\<not> rd_settled r" and
    loop: "settle_loop out (rd_votes r) (rd_panel r) [] 0 (save_round i (r\<lparr>rd_settled := True\<rparr>) s) = Inr (winners, slashed, s1)" and
    share: "share_slashed winners slashed s1 = Inr s'" .
  have dist: "distinct (rd_panel r)" "round_ok r" using assms(1) r(1) by (auto simp: seats_ok_def)
  have frame: "same_frame (save_round i (r\<lparr>rd_settled := True\<rparr>) s) s1" "same_frame s1 s'"
    and w: "winners = (if out = None then [] else filter (\<lambda>a. map_of (rd_votes r) a = out) (rd_panel r))"
    using same_frame_settle [OF loop] same_frame_share [OF share] by simp_all
  have "open_of s' = open_of s1"
    using share share_members [of _ _ 0 winners s1 s'] dist(1)
    by (auto simp: share_slashed_def Let_def w split: if_splits)
  then have opens: "open_of s' a = open_of s a - of_bool (a \<in> set (rd_panel r))" for a
    using settle_members [OF loop dist(1)] by simp
  have rounds: "ap_round s' = (ap_round s)(i \<mapsto> r\<lparr>rd_settled := True\<rparr>)"
    using same_frame_fields [OF frame(1)] same_frame_fields [OF frame(2)] by (simp add: save_round_def)
  have mem: "i \<in> seats s a \<longleftrightarrow> a \<in> set (rd_panel r)" for a using r by (simp add: seats_def)
  have "open_of s' a = card (seats s' a)" for a
    using opens [of a] mem [of a] seats_upd [OF rounds, of a] seats_finite [OF assms(1), of a] assms(1)
    by (simp add: seats_ok_def card_Diff_singleton_if)
  moreover have "round_ok (r\<lparr>rd_settled := True\<rparr>)" using dist(2) by (simp add: round_ok_def)
  moreover have "ap_list s' = ap_list s" "ap_size s' = ap_size s" "ap_threshold s' = ap_threshold s"
    using same_frame_fields [OF frame(1)] same_frame_fields [OF frame(2)] by auto
  moreover have "dom (ap_arbiter s) \<subseteq> dom (ap_arbiter s')"
    using same_frame_fields [OF frame(1)] same_frame_fields [OF frame(2)] by fastforce
  ultimately show ?thesis
    using assms(1) dist(1) rounds by (simp add: seats_ok_def) (metis order_trans)
qed

lemma seats_ok_handle:
  fixes x :: "'st \<times> ap_event"
  assumes "seats_ok s" "keeps_range rng" "ap_handle rng client e x s = Inr (s', tr)"
  shows "seats_ok s'"
proof -
  obtain st ev where x: "x = (st, ev)" by force
  show ?thesis
  proof (cases ev)
    case (ApInitialize a b c d n m)
    then show ?thesis using assms seats_ok_initialize by (fastforce simp: x)
  next
    case (ApRegister a)
    then show ?thesis using assms seats_ok_register by (fastforce simp: x)
  next
    case (ApDeregister a)
    then show ?thesis using assms seats_ok_deregister by (fastforce simp: x)
  next
    case (ApOpenVote i)
    then show ?thesis using assms seats_ok_open by (fastforce simp: x)
  next
    case (ApVote a i v)
    then show ?thesis using assms seats_ok_vote by (fastforce simp: x)
  next
    case (ApTally i)
    then show ?thesis using assms seats_ok_tally by (fastforce simp: x)
  qed
qed

lemma seats_ok_empty: "seats_ok ap_empty"
  by (simp add: seats_ok_def ap_empty_def ap_list_def open_of_def seats_def)

lemma seats_ok_run:
  assumes "keeps_range rng"
  shows "seats_ok (fst (token_run (ap_handle rng client) ap_empty txs))"
proof (induction txs rule: rev_induct)
  case (snoc tx txs)
  show ?case
  proof (cases "ap_handle rng client" tx "token_run (ap_handle rng client) ap_empty txs" rule: token_step_cases)
    case (committed s' tr)
    from seats_ok_handle [OF snoc assms committed(1)] committed(2) show ?thesis by simp
  qed (use snoc in simp)
qed (simp add: seats_ok_empty)

text \<open>
  A tally with an outcome has a winner: a quorum is at least one vote, and only panel members vote.
\<close>

lemma outcome_winner:
  assumes "round_ok r" "outcome_of r = Some v"
  shows "filter (\<lambda>a. map_of (rd_votes r) a = Some v) (rd_panel r) \<noteq> []"
proof -
  have "0 < votes_for v r"
    using assms by (auto simp: outcome_of_def round_ok_def split: if_splits)
  then obtain a where "(a, v) \<in> set (rd_votes r)"
    by (auto simp: votes_for_def filter_empty_conv)
  then have "map_of (rd_votes r) a = Some v" "a \<in> set (rd_panel r)"
    using assms(1) by (auto simp: round_ok_def)
  then show ?thesis by (auto simp: filter_empty_conv)
qed

lemma tally_conserves:
  assumes "ap_good tok s" "ap_tally client e i st s = Inr (s', Some v, st', tr)"
  shows "ap_owed s' = ap_owed s"
proof -
  from ap_tally_Inr [OF assms(2)] obtain r :: Round and winners slashed s1 where
    r: "ap_round s i = Some r" "Some v = outcome_of r" and
    loop: "settle_loop (Some v) (rd_votes r) (rd_panel r) [] 0 (save_round i (r\<lparr>rd_settled := True\<rparr>) s) = Inr (winners, slashed, s1)" and
    share: "share_slashed winners slashed s1 = Inr s'" by metis
  have ok: "round_ok r" "bonds_ok (bonds_of s)" using assms(1) r(1) by (auto simp: ap_good_def)
  have a: "bonds_ok (bonds_of s1)" "0 \<le> slashed" "amounts (bonds_of s1) + slashed = ap_owed s"
    "winners = filter (\<lambda>a. map_of (rd_votes r) a = Some v) (rd_panel r)"
    using settle_result [OF loop] ok(2) by (simp_all add: ap_owed_def)
  with share_slashed_result [OF share a(1,2)] outcome_winner [OF ok(1), of v] r(2) show ?thesis
    by (simp add: ap_owed_def)
qed

text \<open>Whom a tally cuts and whom it pays.\<close>

lemma share_slashed_members:
  assumes "share_slashed winners pot s = Inr s'" "distinct winners" "0 \<le> pot" "winners \<noteq> []"
  shows "bonds_of s' a = (if a \<in> set winners
    then map_option (\<lambda>b. b + pot div int (length winners) + (if a = hd winners then pot mod int (length winners) else 0))
      (bonds_of s a)
    else bonds_of s a)"
proof (cases "0 < pot")
  case True
  let ?n = "int (length winners)"
  have n: "0 < ?n" using assms(4) by simp
  have share: "pot sdiv ?n = pot div ?n" using True n by (simp add: sdiv_nonneg)
  have dust: "pot - pot div ?n * ?n = pot mod ?n" by (simp add: minus_div_mult_eq_mod)
  from assms(1,4) True have "share_loop (pot div ?n) (pot mod ?n) 0 winners s = Inr s'"
    by (auto simp: share_slashed_def Let_def share dust)
  from share_members [OF this assms(2)] show ?thesis by simp
next
  case False
  with assms(1,3) have "pot = 0" "s' = s" by (auto simp: share_slashed_def)
  then show ?thesis by (cases "bonds_of s a") auto
qed

lemma tally_bonds:
  assumes "ap_good tok s" "ap_round s i = Some r" "distinct (rd_panel r)" "ap_tally client e i st s = Inr (s', Some v, st', tr)"
  defines "majority \<equiv> filter (\<lambda>a. map_of (rd_votes r) a = Some v) (rd_panel r)"
  defines "others \<equiv> filter (\<lambda>a. map_of (rd_votes r) a \<noteq> Some v) (rd_panel r)"
  defines "pot \<equiv> (\<Sum>a\<leftarrow>others. or0 (bonds_of s a) div 10)"
  shows "majority \<noteq> [] \<and> distinct (rd_panel r) \<and>
    (\<forall>a \<in> set others. bonds_of s' a = map_option (\<lambda>b. b - b div 10) (bonds_of s a)) \<and>
    (\<forall>a \<in> set majority. bonds_of s' a = map_option (\<lambda>b. b + pot div int (length majority) +
       (if a = hd majority then pot mod int (length majority) else 0)) (bonds_of s a)) \<and>
    (\<forall>a. a \<notin> set (rd_panel r) \<longrightarrow> bonds_of s' a = bonds_of s a)"
proof -
  from ap_tally_Inr [OF assms(4)] obtain winners slashed s1 where
    out: "Some v = outcome_of r" and
    loop: "settle_loop (Some v) (rd_votes r) (rd_panel r) [] 0 (save_round i (r\<lparr>rd_settled := True\<rparr>) s) = Inr (winners, slashed, s1)" and
    share: "share_slashed winners slashed s1 = Inr s'" using assms(2) by (metis option.inject)
  have ok: "round_ok r" "bonds_ok (bonds_of s)" using assms(1,2) by (auto simp: ap_good_def)
  have w: "winners = majority" using same_frame_settle [OF loop] by (simp add: majority_def)
  have maj: "majority \<noteq> []" using outcome_winner [OF ok(1) out [symmetric]] by (simp add: majority_def)
  have tenth: "cut_of (or0 (bonds_of s a)) = or0 (bonds_of s a) div 10" for a
    using ok(2) by (intro cut_of_tenth) (simp add: bonds_ok_def)
  note m = settle_members [OF loop assms(3)]
  have "(\<Sum>a\<leftarrow>xs. if map_of (rd_votes r) a \<noteq> Some v then f a else 0) =
      (\<Sum>a\<leftarrow>filter (\<lambda>a. map_of (rd_votes r) a \<noteq> Some v) xs. f a)" for f :: "address \<Rightarrow> int" and xs
    by (induction xs) auto
  with m have pot: "slashed = pot" by (simp add: pot_def others_def tenth)
  have "0 \<le> slashed" using settle_result [OF loop] ok(2) by simp
  then have after: "bonds_of s' a = (if a \<in> set majority
    then map_option (\<lambda>b. b + pot div int (length majority) + (if a = hd majority then pot mod int (length majority) else 0))
      (bonds_of s1 a) else bonds_of s1 a)" for a
    using share_slashed_members [of majority pot s1 s' a] share assms(3) maj w pot by (simp add: majority_def)
  have cut: "map_option (\<lambda>b. b - cut_of b) (bonds_of s a) = map_option (\<lambda>b. b - b div 10) (bonds_of s a)" for a
    using tenth [of a] by (cases "bonds_of s a") simp_all
  have mid: "bonds_of s1 a = (if a \<in> set others then map_option (\<lambda>b. b - b div 10) (bonds_of s a) else bonds_of s a)" for a
    using m cut [of a] by (simp add: others_def)
  have apart: "a \<in> set majority \<Longrightarrow> a \<notin> set others" for a by (simp add: majority_def others_def)
  have part: "a \<notin> set (rd_panel r) \<Longrightarrow> a \<notin> set majority \<and> a \<notin> set others" for a by (simp add: majority_def others_def)
  show ?thesis
    using maj assms(3) after mid apart part by (metis (no_types, lifting))
qed

lemma quorum_unique:
  assumes "round_ok r"
  shows "votes_for Upheld r < rd_threshold r \<or> votes_for Dismissed r < rd_threshold r"
proof -
  have "length (rd_panel r) < 2 * rd_threshold r" using assms by (simp add: round_ok_def)
  then show ?thesis using votes_total [of r] round_ok_votes [OF assms] by linarith
qed

lemma outcome_iff: "round_ok r \<Longrightarrow> outcome_of r = Some v \<longleftrightarrow> rd_threshold r \<le> votes_for v r"
  using quorum_unique [of r] by (cases v) (auto simp: outcome_of_def)

text \<open>A verdict that is reached stays: later votes only add.\<close>

lemma update_fresh: "map_of xs a = None \<Longrightarrow> AList.update a w xs = xs @ [(a, w)]"
  by (induction xs) (auto split: if_splits)

lemma outcome_kept:
  assumes "round_ok r" "a \<in> set (rd_panel r)" "map_of (rd_votes r) a = None" "outcome_of r = Some v"
  shows "outcome_of (r\<lparr>rd_votes := AList.update a w (rd_votes r)\<rparr>) = Some v"
proof -
  let ?r = "r\<lparr>rd_votes := AList.update a w (rd_votes r)\<rparr>"
  have "votes_for v r \<le> votes_for v ?r" by (simp add: votes_for_def update_fresh [OF assms(3)])
  moreover have "rd_threshold r \<le> votes_for v r" using assms(1,4) outcome_iff by blast
  ultimately show ?thesis using outcome_iff [OF round_ok_vote [OF assms(1,2)], of w v] by simp
qed

text \<open>The verdict of an open round stands as long as the settlement contract does not resolve with it.\<close>

definition verdict_open :: "bytes32 \<Rightarrow> Verdict \<Rightarrow> address list \<Rightarrow> panel \<Rightarrow> bool" where
  "verdict_open i v members s \<longleftrightarrow>
     (\<exists>r. ap_round s i = Some r \<and> \<not> rd_settled r \<and> outcome_of r = Some v \<and> rd_panel r = members)"

lemma verdict_not_tallied:
  assumes "verdict_open i v members s" "sc_resolve client st (self e) i v = None"
  shows "ap_tally client e i st s \<noteq> Inr (s', out, st', tr)"
proof
  assume "ap_tally client e i st s = Inr (s', out, st', tr)"
  from ap_tally_Inr [OF this] obtain r where "ap_round s i = Some r" "out = outcome_of r"
    "\<And>v. out = Some v \<Longrightarrow> sc_resolve client st (self e) i v = Some (st', tr)" by metis
  with assms show False by (auto simp: verdict_open_def)
qed

lemma tally_rounds:
  assumes "ap_tally client e j st s = Inr (s', out, st', tr)" "i \<noteq> j"
  shows "ap_round s' i = ap_round s i"
proof -
  from ap_tally_Inr [OF assms(1)] obtain r :: Round and winners slashed s1 where
    "settle_loop out (rd_votes r) (rd_panel r) [] 0 (save_round j (r\<lparr>rd_settled := True\<rparr>) s) = Inr (winners, slashed, s1)"
    "share_slashed winners slashed s1 = Inr s'" .
  then have "same_frame (save_round j (r\<lparr>rd_settled := True\<rparr>) s) s1" "same_frame s1 s'"
    using same_frame_settle same_frame_share by blast+
  with assms(2) show ?thesis using same_frame_fields by fastforce
qed

lemma verdict_open_step:
  fixes x :: "'st \<times> ap_event"
  assumes "seats_ok s" "verdict_open i v members s" "ap_handle rng client e x s = Inr (s', tr)"
    "\<And>a. sc_resolve client (fst x) a i v = None"
  shows "verdict_open i v members s'"
proof -
  obtain st ev where x: "x = (st, ev)" by force
  have same: "verdict_open i v members s'" if "ap_round s' i = ap_round s i"
    using assms(2) that by (simp add: verdict_open_def)
  show ?thesis
  proof (cases ev)
    case (ApInitialize a b c d n m)
    then have "ap_round s' = ap_round s" using assms(3) by (auto simp: x ap_initialize_def elim!: guardE)
    then show ?thesis by (intro same) simp
  next
    case (ApRegister a)
    then have "ap_round s' = ap_round s"
      using assms(3) by (auto simp: x register_arbiter_def save_arbiter_def Let_def elim!: guardE)
    then show ?thesis by (intro same) simp
  next
    case (ApDeregister a)
    then have "ap_round s' = ap_round s" using assms(3) by (auto simp: x elim: deregister_Inr)
    then show ?thesis by (intro same) simp
  next
    case (ApOpenVote j)
    with assms(3) obtain chosen where o: "open_vote rng client e j st s = Inr (s', chosen)" by (auto simp: x)
    from open_vote_fresh [OF o] have "i \<noteq> j" using assms(2) by (auto simp: verdict_open_def)
    moreover from open_vote_Inr [OF o] obtain g n el s1 r where "draw g 0 n el [] s = Inr (chosen, s1)" "s' = save_round j r s1" by blast
    ultimately show ?thesis using draw_result same_frame_fields by (intro same) fastforce
  next
    case (ApVote a j w)
    then have "ap_vote e a j w s = Inr s'" using assms(3) by (simp add: x)
    then show ?thesis
    proof (rule ap_vote_Inr)
      fix r :: Round
      assume r: "ap_round s j = Some r" "\<not> rd_settled r" "a \<in> set (rd_panel r)" "map_of (rd_votes r) a = None"
        "s' = save_round j (r\<lparr>rd_votes := AList.update a w (rd_votes r)\<rparr>) s"
      show ?thesis
      proof (cases "j = i")
        case True
        with r(1) assms(2) have v: "outcome_of r = Some v" "rd_panel r = members" by (auto simp: verdict_open_def)
        have "round_ok r" using assms(1) r(1) by (auto simp: seats_ok_def)
        from outcome_kept [OF this r(3,4) v(1)] r(2,5) True v(2) show ?thesis by (simp add: verdict_open_def)
      qed (use r(5) same in simp)
    qed
  next
    case (ApTally j)
    with assms(3) obtain out st' tr' where t: "ap_tally client e j st s = Inr (s', out, st', tr')" by (auto simp: x)
    have "sc_resolve client st (self e) i v = None" using assms(4) by (simp add: x)
    from verdict_not_tallied [OF assms(2) this] t have "i \<noteq> j" by auto
    from tally_rounds [OF t this] show ?thesis by (rule same)
  qed
qed

text \<open>Its members are locked in.\<close>

lemma verdict_open_locks:
  assumes "seats_ok s" "verdict_open i v members s" "a \<in> set members"
  shows "(\<exists>q. ap_arbiter s a = Some q \<and> 0 < ar_open q) \<and> \<not> is_ok (deregister_arbiter e a s)"
proof -
  have "i \<in> seats s a" using assms(2,3) by (auto simp: verdict_open_def seats_def)
  then have "0 < open_of s a" using assms(1) seats_finite [OF assms(1), of a] by (auto simp: seats_ok_def card_gt_0_iff)
  then obtain q where q: "ap_arbiter s a = Some q" "0 < ar_open q"
    by (cases "ap_arbiter s a") (auto simp: open_of_def)
  moreover have "\<not> is_ok (deregister_arbiter e a s)"
    using q by (auto simp: is_ok_iff elim!: deregister_Inr)
  ultimately show ?thesis by blast
qed

section \<open>Properties\<close>

text \<open>
  C11: After any run of panel transactions, whatever the random draws and the settlement
  contract answer, no arbiter's bond is negative and the sum of the bonds is covered by what
  the transfers brought in.
\<close>

theorem panel_solvent:
  assumes "outside me txs" "\<forall>tx \<in> set txs. ap_fair tok (snd tx)" "token_run (ap_handle rng client) ap_empty txs = (s, tr)"
  shows "(\<forall>a r. ap_arbiter s a = Some r \<longrightarrow> 0 \<le> ar_bond r) \<and> amounts (bonds_of s) \<le> net_in tok me tr"
proof -
  have run: "ap_good tok s" "ap_owed s \<le> net_in tok me tr"
    using panel_books.run_sound [OF assms(1,2)] assms(3) by (metis fst_conv snd_conv)+
  have "0 \<le> or0 (bonds_of s a)" for a using run(1) by (simp add: ap_good_def bonds_ok_def)
  then have "0 \<le> ar_bond r" if "ap_arbiter s a = Some r" for a r
    using that by (metis bonds_of_def option.simps(9) or0_simps(2))
  with run(2) show ?thesis by (simp add: ap_owed_def)
qed

text \<open>
  In every reachable round each vote is a panel member's and each member's is counted once,
  the outcome is the verdict that reaches the threshold, and such a verdict has a strict
  majority of the seats, so the two never conflict.
\<close>

theorem panel_verdict_unique:
  assumes "outside me txs" "\<forall>tx \<in> set txs. ap_fair tok (snd tx)" "token_run (ap_handle rng client) ap_empty txs = (s, tr)"
    "ap_round s i = Some r"
  shows "distinct (map fst (rd_votes r)) \<and> fst ` set (rd_votes r) \<subseteq> set (rd_panel r) \<and>
    (outcome_of r = Some v \<longleftrightarrow> rd_threshold r \<le> votes_for v r) \<and>
    (outcome_of r = Some v \<longrightarrow> length (rd_panel r) < 2 * votes_for v r)"
proof -
  have "ap_good tok s" using panel_books.run_sound [OF assms(1,2)] assms(3) by (metis fst_conv)
  then have ok: "round_ok r" using assms(4) by (auto simp: ap_good_def)
  with outcome_iff [OF ok] show ?thesis by (auto simp: round_ok_def)
qed

text \<open>
  C27: From every reachable state, a panel drawn with a generator that keeps its range is not
  empty, seats nobody twice, neither of the two parties, and only arbiters with at least the
  required bond.
\<close>

theorem panel_impartial:
  assumes "outside me txs" "\<forall>tx \<in> set txs. ap_fair tok (snd tx)" "token_run (ap_handle rng client) ap_empty txs = (s, tr)"
    "open_vote rng client e i st s = Inr (s', chosen)" "\<And>lo hi. lo \<le> hi \<Longrightarrow> lo \<le> rng i lo hi"
  shows "chosen \<noteq> [] \<and> distinct chosen \<and> (\<exists>u sol b. sc_parties client st i = Some (u, sol) \<and> ap_bond_amount s = Some b \<and>
    (\<forall>a \<in> set chosen. a \<noteq> u \<and> a \<noteq> sol \<and> (\<exists>r. ap_arbiter s a = Some r \<and> b \<le> ar_bond r)))"
proof -
  have good: "ap_good tok s" using panel_books.run_sound [OF assms(1,2)] assms(3) by (metis fst_conv)
  from open_vote_Inr [OF assms(4)] obtain n m el s1 u sol b where o: "ap_size s = Some n" "ap_threshold s = Some m"
    "el \<noteq> []" "draw (rng i) 0 (min n (length el)) el [] s = Inr (chosen, s1)"
    "sc_parties client st i = Some (u, sol)" "ap_bond_amount s = Some b" "eligible u sol b s (ap_list s) = Inr el" by blast
  note el = eligible_members [OF o(7)]
  have "0 < n" "0 < b" and dist: "distinct el" using good o(1,2,6) by (auto simp: ap_good_def el)
  then have "chosen \<noteq> []" using draw_result [OF o(4)] o(3) by (cases el) auto
  moreover have mem: "set chosen \<subseteq> set el" "distinct chosen"
    using draw_members [OF o(4) _ dist] assms(5) by simp_all
  moreover have "a \<noteq> u \<and> a \<noteq> sol \<and> (\<exists>r. ap_arbiter s a = Some r \<and> b \<le> ar_bond r)" if "a \<in> set el" for a
    using that \<open>0 < b\<close> by (cases "ap_arbiter s a") (auto simp: el bonds_of_def)
  ultimately show ?thesis using o(5,6) by blast
qed

text \<open>
  C28: After any run of the panel in which the contract signs nothing for itself, every
  initialisation names the same bond token and the random generator keeps its range, a tally
  that reaches a verdict settles the bonds exactly: the members that did not vote for the
  verdict each lose a tenth of their bond, rounded down; the sum is divided equally among the
  members that did, the first of whom also gets the remainder; no other arbiter's bond
  changes, and the sum of all bonds stays the same.
\<close>

theorem slashing_conserves_bonds:
  assumes "outside me txs" "\<forall>tx \<in> set txs. ap_fair tok (snd tx)" "token_run (ap_handle rng client) ap_empty txs = (s, tr)"
    "keeps_range rng" "ap_round s i = Some r" "ap_tally client e i st s = Inr (s', Some v, st', tr')"
  shows "let majority = filter (\<lambda>a. map_of (rd_votes r) a = Some v) (rd_panel r);
             others = filter (\<lambda>a. map_of (rd_votes r) a \<noteq> Some v) (rd_panel r);
             pot = (\<Sum>a\<leftarrow>others. or0 (bonds_of s a) div 10)
         in majority \<noteq> [] \<and> distinct (rd_panel r) \<and>
            (\<forall>a \<in> set others. bonds_of s' a = map_option (\<lambda>b. b - b div 10) (bonds_of s a)) \<and>
            (\<forall>a \<in> set majority. bonds_of s' a = map_option (\<lambda>b. b + pot div int (length majority) +
               (if a = hd majority then pot mod int (length majority) else 0)) (bonds_of s a)) \<and>
            (\<forall>a. a \<notin> set (rd_panel r) \<longrightarrow> bonds_of s' a = bonds_of s a) \<and>
            amounts (bonds_of s') = amounts (bonds_of s)"
proof -
  have good: "ap_good tok s" using panel_books.run_sound [OF assms(1,2)] assms(3) by (metis fst_conv)
  have "seats_ok s" using seats_ok_run [OF assms(4), of client txs] assms(3) by simp
  with assms(5) have "distinct (rd_panel r)" by (auto simp: seats_ok_def)
  with tally_bonds [OF good assms(5) this assms(6)] tally_conserves [OF good assms(6)] show ?thesis
    unfolding Let_def ap_owed_def by blast
qed

section \<open>A run\<close>

text \<open>
  Three arbiters register, sit, and two of them uphold: the third loses a tenth of its bond, which
  the two share.
\<close>

definition ap_demo_client :: "nat settlement_client" where
  "ap_demo_client = \<lparr>sc_parties = (\<lambda>_ _. Some (1, 2)), sc_resolve = (\<lambda>st _ _ _. Some (st, []))\<rparr>"

definition ap_demo_rng :: "bytes32 \<Rightarrow> nat \<Rightarrow> nat \<Rightarrow> nat" where
  "ap_demo_rng _ lo hi = lo"

definition ap_demo :: "(env \<times> nat \<times> ap_event) list" where
  "ap_demo = map (\<lambda>ev. (client_env 100, 0, ev))
     [ApInitialize 90 91 60 100 3 2, ApRegister 11, ApRegister 12, ApRegister 13, ApOpenVote 7,
      ApVote 11 7 Upheld, ApVote 12 7 Upheld, ApVote 13 7 Dismissed]"

lemmas ap_eval = token_run_def token_step_def ap_demo_def ap_demo_client_def ap_demo_rng_def ap_empty_def
  ap_initialize_def register_arbiter_def open_vote_def ap_vote_def ap_load_arbiter_def load_round_def
  save_arbiter_def save_round_def ap_list_def silent_def transfer_def VOTE_WINDOW_def vec_get_def
  outcome_of_def votes_for_def need_def require_auth_def
  u32_def u32_max_def u64_def u64_max_def i128_def in_i128_def i128_min_def i128_max_def
  sdiv_nonneg AP_SLASH_BPS_def share_slashed_def

lemma ap_demo_premises:
  "outside 5 ap_demo" "\<forall>tx \<in> set ap_demo. ap_fair 60 (snd tx)"
  by (simp_all add: ap_demo_def outside_def)

lemma ap_demo_run:
  "\<exists>s tr r. token_run (ap_handle ap_demo_rng ap_demo_client) ap_empty ap_demo = (s, tr) \<and>
     bonds_of s 13 = Some 100 \<and> ap_round s 7 = Some r \<and> rd_panel r = [11, 12, 13] \<and> outcome_of r = Some Upheld \<and>
     map_of (rd_votes r) 13 = Some Dismissed \<and>
     (\<exists>s' st' tr'. ap_tally ap_demo_client (client_env 200) 7 0 s = Inr (s', Some Upheld, st', tr') \<and>
        bonds_of s' 11 = Some 105 \<and> bonds_of s' 13 = Some 90)"
  by (simp add: ap_eval bonds_of_def ap_tally_def)

theorem panel_solvent_witness:
  "\<exists>s tr. token_run (ap_handle ap_demo_rng ap_demo_client) ap_empty ap_demo = (s, tr) \<and> bonds_of s 13 = Some 100 \<and>
     amounts (bonds_of s) \<le> net_in 60 5 tr"
  using ap_demo_run panel_solvent [OF ap_demo_premises] by blast

theorem panel_verdict_unique_witness:
  "\<exists>s tr r. token_run (ap_handle ap_demo_rng ap_demo_client) ap_empty ap_demo = (s, tr) \<and> ap_round s 7 = Some r \<and>
     outcome_of r = Some Upheld \<and> length (rd_panel r) < 2 * votes_for Upheld r"
  using ap_demo_run panel_verdict_unique [OF ap_demo_premises] by blast

theorem panel_impartial_witness:
  "\<exists>s tr s' chosen. token_run (ap_handle ap_demo_rng ap_demo_client) ap_empty ap_demo = (s, tr) \<and>
     open_vote ap_demo_rng ap_demo_client (client_env 100) 8 0 s = Inr (s', chosen) \<and> distinct chosen \<and>
     (\<forall>a \<in> set chosen. a \<noteq> 1 \<and> a \<noteq> 2)"
proof -
  obtain s tr s' chosen where run: "token_run (ap_handle ap_demo_rng ap_demo_client) ap_empty ap_demo = (s, tr)"
    and call: "open_vote ap_demo_rng ap_demo_client (client_env 100) 8 0 s = Inr (s', chosen)"
    by (simp add: ap_eval)
  have "sc_parties ap_demo_client 0 8 = Some (1, 2)" by (simp add: ap_demo_client_def)
  with panel_impartial [OF ap_demo_premises run call] run call show ?thesis by (auto simp: ap_demo_rng_def)
qed

theorem slashing_conserves_bonds_witness:
  "\<exists>s tr s' st' tr'. token_run (ap_handle ap_demo_rng ap_demo_client) ap_empty ap_demo = (s, tr) \<and>
     ap_tally ap_demo_client (client_env 200) 7 0 s = Inr (s', Some Upheld, st', tr') \<and>
     bonds_of s' 13 = map_option (\<lambda>b. b - b div 10) (bonds_of s 13) \<and> bonds_of s 13 = Some 100 \<and>
     amounts (bonds_of s') = amounts (bonds_of s)"
proof -
  obtain s tr r s' st' tr' where run: "token_run (ap_handle ap_demo_rng ap_demo_client) ap_empty ap_demo = (s, tr)"
    "bonds_of s 13 = Some 100" "ap_round s 7 = Some r" "rd_panel r = [11, 12, 13]"
    "map_of (rd_votes r) 13 = Some Dismissed"
    "ap_tally ap_demo_client (client_env 200) 7 0 s = Inr (s', Some Upheld, st', tr')"
    using ap_demo_run by blast
  have "keeps_range ap_demo_rng" by (simp add: keeps_range_def ap_demo_rng_def)
  from slashing_conserves_bonds [OF ap_demo_premises run(1) this run(3,6)] run show ?thesis
    by (auto simp: Let_def)
qed

end
