(* ===== verification/Settlement_Roles.thy ===== *)
theory Settlement_Roles
  imports Settlement_Runs
begin

text \<open>
  The privileged addresses and the configuration of the settlement contract in every run: what
  each administrative transaction does to the group \<open>roles\<close>, the interpretation of the
  timelock interface on the admin and the fee recipient, and the bounds of the configuration.
\<close>

section \<open>What an administrative transaction does to the roles\<close>

fun roles_after :: "env \<Rightarrow> admin_event \<Rightarrow> settlement \<Rightarrow> st_roles" where
  "roles_after e (AInit a f b) s = (roles s)\<lparr>ro_admin := Some a, ro_fee_recipient := Some f,
     ro_config := Some default_config, ro_migration := Some MIGRATION_VERSION\<rparr>"
| "roles_after e (AProposeFee a) s = (roles s)\<lparr>ro_pending_fee := Some (a, now e + ADMIN_TIMELOCK_DELAY)\<rparr>"
| "roles_after e (AAcceptFee a) s = (roles s)\<lparr>ro_fee_recipient := Some a, ro_pending_fee := None\<rparr>"
| "roles_after e ACancelFee s = (roles s)\<lparr>ro_pending_fee := None\<rparr>"
| "roles_after e (AProposeAdmin a) s = (roles s)\<lparr>ro_pending_admin := Some (a, now e + ADMIN_TIMELOCK_DELAY)\<rparr>"
| "roles_after e (AAcceptAdmin a) s = (roles s)\<lparr>ro_admin := Some a, ro_pending_admin := None\<rparr>"
| "roles_after e (AProposeUpgrade h) s = (roles s)\<lparr>ro_pending_upgrade := Some (h, now e + ADMIN_TIMELOCK_DELAY)\<rparr>"
| "roles_after e (AExecuteUpgrade h) s = (roles s)\<lparr>ro_pending_upgrade := None\<rparr>"
| "roles_after e AMigrate s = (roles s)\<lparr>ro_migration := Some MIGRATION_VERSION\<rparr>"
| "roles_after e (ASetConfig mb fw ie fee n) s = (roles s)\<lparr>ro_config :=
     Some ((load_config s)\<lparr>cf_min_bond := mb, cf_fill_window := fw, cf_intent_expiry := ie,
       cf_protocol_fee_bps := fee, cf_max_active := n\<rparr>)\<rparr>"
| "roles_after e (ASetPauser p) s = (roles s)\<lparr>ro_pauser := Some p\<rparr>"
| "roles_after e (APause c) s = (roles s)\<lparr>ro_paused := Some True\<rparr>"
| "roles_after e AUnpause s = (roles s)\<lparr>ro_paused := Some False\<rparr>"
| "roles_after e (ASetProofRegistry r) s = (roles s)\<lparr>ro_proof_registry := Some r\<rparr>"
| "roles_after e (AProposePolicy p) s = (roles s)\<lparr>ro_pending_policy := Some (p, now e + ADMIN_TIMELOCK_DELAY)\<rparr>"
| "roles_after e AExecutePolicy s = (roles s)\<lparr>ro_policy := fst (the (ro_pending_policy (roles s))),
     ro_pending_policy := None\<rparr>"
| "roles_after e (AProposeOracle a) s = (roles s)\<lparr>ro_pending_oracle := Some (a, now e + ADMIN_TIMELOCK_DELAY)\<rparr>"
| "roles_after e AExecuteOracle s = (roles s)\<lparr>ro_oracle := Some (fst (the (ro_pending_oracle (roles s)))),
     ro_pending_oracle := None\<rparr>"
| "roles_after e (ASetArbiter a) s = (roles s)\<lparr>ro_arbiter := Some a\<rparr>"
| "roles_after e (ASetArbiterPanel a) s = (roles s)\<lparr>ro_arbiter := Some a\<rparr>"
| "roles_after e _ s = roles s"

lemma admin_apply_roles: "admin_apply w e a s = Inr (s', tr) \<Longrightarrow> roles s' = roles_after e a s"
  by (cases a; simp add: admin_defs split_beta Let_def;
      (elim exE conjE guardE rbindE)?; (auto; fail)?)

text \<open>The guards of the transactions that the invariants below rest on.\<close>

fun roles_guard :: "env \<Rightarrow> admin_event \<Rightarrow> settlement \<Rightarrow> bool" where
  "roles_guard e (AInit a f b) s \<longleftrightarrow> ro_admin (roles s) = None \<and> authed e a"
| "roles_guard e (AProposeFee a) s \<longleftrightarrow> (\<exists>ad. ro_admin (roles s) = Some ad \<and> authed e ad)"
| "roles_guard e (AAcceptFee a) s \<longleftrightarrow>
     (\<exists>eta. ro_pending_fee (roles s) = Some (a, eta) \<and> eta \<le> now e) \<and> authed e a"
| "roles_guard e (AProposeAdmin a) s \<longleftrightarrow> (\<exists>ad. ro_admin (roles s) = Some ad \<and> authed e ad)"
| "roles_guard e (AAcceptAdmin a) s \<longleftrightarrow>
     (\<exists>eta. ro_pending_admin (roles s) = Some (a, eta) \<and> eta \<le> now e) \<and> authed e a"
| "roles_guard e (ASetConfig mb fw ie fee n) s \<longleftrightarrow>
     0 \<le> fee \<and> fee \<le> MAX_PROTOCOL_FEE_BPS \<and> MIN_FILL_WINDOW_SECS \<le> fw \<and>
     MIN_INTENT_EXPIRY_SECS \<le> ie \<and> fw < ie \<and> MIN_BOND_FLOOR \<le> mb \<and> 0 < n"
| "roles_guard e _ s \<longleftrightarrow> True"

lemma admin_apply_guard: "admin_apply w e a s = Inr (s', tr) \<Longrightarrow> roles_guard e a s"
  by (cases a; simp add: admin_defs split_beta Let_def st_require_admin_def;
      (elim exE conjE guardE rbindE)?; (auto; fail)?)

lemma st_step_roles:
  obtains "roles (st_step e ev s) = roles s"
  | a where "snd ev = Admin a" "roles_guard e a s" "roles (st_step e ev s) = roles_after e a s"
proof (cases "st_apply (fst ev) e (snd ev) s")
  case (Inl x)
  then show ?thesis using that(1) by (simp add: st_step_def)
next
  case (Inr p)
  show ?thesis
  proof (cases "\<exists>a. snd ev = Admin a")
    case True
    then obtain a where a: "snd ev = Admin a" by blast
    with Inr have ok: "admin_apply (fst ev) e a s = Inr (fst p, snd p)" by simp
    from that(2) [OF a admin_apply_guard [OF ok]] admin_apply_roles [OF ok] Inr
    show ?thesis by (simp add: st_step_def)
  next
    case False
    with st_apply_progress [of "fst ev" e "snd ev" s "fst p" "snd p"] Inr that(1)
    show ?thesis by (simp add: st_step_def)
  qed
qed

section \<open>The timelocked addresses\<close>

fun st_admin_slot :: "world \<times> st_event \<Rightarrow> address slot_tx option" where
  "st_admin_slot (w, Admin (AProposeAdmin a)) = Some (Propose a)"
| "st_admin_slot (w, Admin (AAcceptAdmin a)) = Some (Accept a)"
| "st_admin_slot _ = None"

fun st_fee_slot :: "world \<times> st_event \<Rightarrow> address slot_tx option" where
  "st_fee_slot (w, Admin (AProposeFee a)) = Some (Propose a)"
| "st_fee_slot (w, Admin (AAcceptFee a)) = Some (Accept a)"
| "st_fee_slot (w, Admin ACancelFee) = Some CancelProposal"
| "st_fee_slot _ = None"

definition st_pending_admin :: "settlement \<Rightarrow> (address \<times> nat) option" where
  [simp]: "st_pending_admin s = ro_pending_admin (roles s)"

definition st_admin_of :: "settlement \<Rightarrow> address option" where
  [simp]: "st_admin_of s = ro_admin (roles s)"

definition st_pending_fee :: "settlement \<Rightarrow> (address \<times> nat) option" where
  [simp]: "st_pending_fee s = ro_pending_fee (roles s)"

definition st_fee_of :: "settlement \<Rightarrow> address option" where
  [simp]: "st_fee_of s = ro_fee_recipient (roles s)"

text \<open>The contract has no entry point that withdraws a proposed admin.\<close>

definition no_withdrawal :: "env \<Rightarrow> settlement \<Rightarrow> settlement st" where
  "no_withdrawal e s = Inl Unwrap"

lemma st_step_no_transfer:
  assumes "st_apply w e ev s = no_transfer m"
  shows "st_step e (w, ev) s = commit s m"
  using assms by (cases m) (simp_all add: st_step_def no_transfer_def)

lemma slot_effects:
  "propose_admin_transfer e a s = Inr s' \<Longrightarrow> roles s' = roles_after e (AProposeAdmin a) s"
  "accept_admin_transfer e a s = Inr s' \<Longrightarrow>
     roles s' = roles_after e (AAcceptAdmin a) s \<and> (\<exists>eta. ro_pending_admin (roles s) = Some (a, eta) \<and> eta \<le> now e)"
  "propose_fee_recipient e a s = Inr s' \<Longrightarrow> roles s' = roles_after e (AProposeFee a) s"
  "accept_fee_recipient e a s = Inr s' \<Longrightarrow>
     roles s' = roles_after e (AAcceptFee a) s \<and> (\<exists>eta. ro_pending_fee (roles s) = Some (a, eta) \<and> eta \<le> now e)"
  "cancel_pending_fee_recipient e s = Inr s' \<Longrightarrow> roles s' = roles_after e ACancelFee s"
  unfolding propose_admin_transfer_def accept_admin_transfer_def propose_fee_recipient_def
    accept_fee_recipient_def cancel_pending_fee_recipient_def split_beta
  by (elim rbindE guardE; auto)+

text \<open>Before initialisation nobody can propose anything, so there is nothing to accept.\<close>

definition installed :: "settlement \<Rightarrow> bool" where
  "installed s \<longleftrightarrow> ro_admin (roles s) = None \<longrightarrow>
     ro_fee_recipient (roles s) = None \<and> ro_pending_fee (roles s) = None \<and> ro_pending_admin (roles s) = None"

lemma installed_step: "installed s \<Longrightarrow> installed (st_step e ev s)"
proof (cases rule: st_step_roles [of e ev s])
  case (2 a)
  moreover assume "installed s"
  ultimately show ?thesis by (cases a) (auto simp: installed_def)
qed (simp add: installed_def)

interpretation st_admin: timelocked_contract st_pending_admin st_admin_of
  propose_admin_transfer accept_admin_transfer no_withdrawal ADMIN_TIMELOCK_DELAY st_step st_admin_slot installed
proof unfold_locales
  fix ev a e s
  assume "st_admin_slot ev = Some a"
  then show "st_step e ev s = slot_apply propose_admin_transfer accept_admin_transfer no_withdrawal (e, a) s"
    by (cases ev rule: st_admin_slot.cases) (auto simp: st_step_no_transfer)
next
  fix ev e s
  assume none: "st_admin_slot ev = None"
  show "st_pending_admin (st_step e ev s) = st_pending_admin s"
  proof (cases rule: st_step_roles [of e ev s])
    case (2 a)
    with none show ?thesis by (cases ev; cases a) auto
  qed simp
next
  fix s ev e
  assume none: "st_admin_slot ev = None" and some: "st_admin_of s \<noteq> None"
  show "st_admin_of (st_step e ev s) = st_admin_of s"
  proof (cases rule: st_step_roles [of e ev s])
    case (2 a)
    with none some show ?thesis by (cases ev; cases a) auto
  qed simp
qed (auto simp: no_withdrawal_def installed_step dest!: slot_effects)

interpretation st_fee: timelocked_contract st_pending_fee st_fee_of
  propose_fee_recipient accept_fee_recipient cancel_pending_fee_recipient ADMIN_TIMELOCK_DELAY st_step
  st_fee_slot installed
proof unfold_locales
  fix ev a e s
  assume "st_fee_slot ev = Some a"
  then show "st_step e ev s = slot_apply propose_fee_recipient accept_fee_recipient
      cancel_pending_fee_recipient (e, a) s"
    by (cases ev rule: st_fee_slot.cases) (auto simp: st_step_no_transfer)
next
  fix ev e s
  assume none: "st_fee_slot ev = None"
  show "st_pending_fee (st_step e ev s) = st_pending_fee s"
  proof (cases rule: st_step_roles [of e ev s])
    case (2 a)
    with none show ?thesis by (cases ev; cases a) auto
  qed simp
next
  fix s ev e
  assume "installed s" and none: "st_fee_slot ev = None" and some: "st_fee_of s \<noteq> None"
  then show "st_fee_of (st_step e ev s) = st_fee_of s"
  proof (cases rule: st_step_roles [of e ev s])
    case (2 a)
    with none some \<open>installed s\<close> show ?thesis by (cases ev; cases a) (auto simp: installed_def)
  qed simp
qed (auto simp: installed_step dest!: slot_effects)

lemma admin_slot_simps:
  "st_admin_slot ev = Some (Propose v) \<longleftrightarrow> (\<exists>w. ev = (w, Admin (AProposeAdmin v)))"
  "st_admin_slot ev = Some (Accept v) \<longleftrightarrow> (\<exists>w. ev = (w, Admin (AAcceptAdmin v)))"
  by (cases ev rule: st_admin_slot.cases; simp)+

lemma fee_slot_simps:
  "st_fee_slot ev = Some (Propose v) \<longleftrightarrow> (\<exists>w. ev = (w, Admin (AProposeFee v)))"
  "st_fee_slot ev = Some (Accept v) \<longleftrightarrow> (\<exists>w. ev = (w, Admin (AAcceptFee v)))"
  by (cases ev rule: st_fee_slot.cases; simp)+

text \<open>
  C20: Over any run of settlement transactions, the admin and the fee recipient change only to
  an address that was proposed and accepted later in the run, at least 172800 seconds apart.
\<close>

theorem settlement_roles_announced:
  assumes "ro_admin (roles s) = Some a" "ro_pending_admin (roles s) = None"
    "ro_fee_recipient (roles s) = Some f" "ro_pending_fee (roles s) = None"
  shows "(ro_admin (roles (st_run txs s)) = Some v \<longrightarrow> v \<noteq> a \<longrightarrow>
      (\<exists>i j e w e' w'. i < j \<and> j < length txs \<and> txs ! i = (e, w, Admin (AProposeAdmin v)) \<and>
         txs ! j = (e', w', Admin (AAcceptAdmin v)) \<and> now e + 172800 \<le> now e')) \<and>
    (ro_fee_recipient (roles (st_run txs s)) = Some v \<longrightarrow> v \<noteq> f \<longrightarrow>
      (\<exists>i j e w e' w'. i < j \<and> j < length txs \<and> txs ! i = (e, w, Admin (AProposeFee v)) \<and>
         txs ! j = (e', w', Admin (AAcceptFee v)) \<and> now e + 172800 \<le> now e'))"
    (is "(_ \<longrightarrow> _ \<longrightarrow> ?A) \<and> (_ \<longrightarrow> _ \<longrightarrow> ?F)")
proof -
  have good: "installed s" using assms by (simp add: installed_def)
  have admin: "v \<noteq> a \<Longrightarrow> ro_admin (roles (st_run txs s)) = Some v \<Longrightarrow> ?A"
    using st_admin.change_announced [OF good, of txs v] assms
    by (fastforce simp: ADMIN_TIMELOCK_DELAY_def admin_slot_simps)
  have fee: "v \<noteq> f \<Longrightarrow> ro_fee_recipient (roles (st_run txs s)) = Some v \<Longrightarrow> ?F"
    using st_fee.change_announced [OF good, of txs v] assms
    by (fastforce simp: ADMIN_TIMELOCK_DELAY_def fee_slot_simps)
  from admin fee show ?thesis by blast
qed

theorem settlement_roles_announced_witness:
  "let s = st_run (take 1 demo_run) st_empty;
       txs = [(plain_env 1000, demo_world, Admin (AProposeAdmin 6)),
              (plain_env 173800, demo_world, Admin (AAcceptAdmin 6))]
   in ro_admin (roles (st_run txs s)) = Some 6 \<and>
      (\<exists>i j e w e' w'. i < j \<and> j < length txs \<and> txs ! i = (e, w, Admin (AProposeAdmin 6)) \<and>
         txs ! j = (e', w', Admin (AAcceptAdmin 6)) \<and> now e + 172800 \<le> now e')"
proof -
  let ?s = "st_run (take 1 demo_run) st_empty"
  let ?txs = "[(plain_env 1000, demo_world, Admin (AProposeAdmin 6)),
              (plain_env 173800, demo_world, Admin (AAcceptAdmin 6))]"
  have s: "ro_admin (roles ?s) = Some 1" "ro_pending_admin (roles ?s) = None"
    "ro_fee_recipient (roles ?s) = Some 2" "ro_pending_fee (roles ?s) = None"
    by (simp_all add: eval_run)
  have "ro_admin (roles (st_run ?txs ?s)) = Some 6"
    by (simp add: eval_run propose_admin_transfer_def accept_admin_transfer_def ADMIN_TIMELOCK_DELAY_def)
  with settlement_roles_announced [OF s, of ?txs 6] show ?thesis
    unfolding Let_def by simp
qed

section \<open>The configuration\<close>

definition config_ok :: "ProtocolConfig \<Rightarrow> bool" where
  "config_ok c \<longleftrightarrow> 0 \<le> cf_protocol_fee_bps c \<and> cf_protocol_fee_bps c \<le> MAX_PROTOCOL_FEE_BPS \<and>
     MIN_FILL_WINDOW_SECS \<le> cf_fill_window c \<and> cf_fill_window c < cf_intent_expiry c \<and>
     MIN_INTENT_EXPIRY_SECS \<le> cf_intent_expiry c \<and> MIN_BOND_FLOOR \<le> cf_min_bond c \<and>
     0 < cf_max_active c \<and> cf_coverage_multiplier c = 10 \<and> cf_backstop_vault_share_bps c = 0"

lemma default_config_ok: "config_ok default_config"
  by (simp add: config_ok_def default_config_def MIN_BOND_def FILL_WINDOW_def INTENT_EXPIRY_def
      PROTOCOL_FEE_BPS_def MAX_ACTIVE_DEFAULT_def MAX_PROTOCOL_FEE_BPS_def MIN_FILL_WINDOW_SECS_def
      MIN_INTENT_EXPIRY_SECS_def MIN_BOND_FLOOR_def)

lemma load_config_roles: "roles s' = roles s \<Longrightarrow> load_config s' = load_config s"
  by (simp add: load_config_def)

lemma config_ok_step: "config_ok (load_config s) \<Longrightarrow> config_ok (load_config (st_step e ev s))"
proof (cases rule: st_step_roles [of e ev s])
  case 1
  moreover assume "config_ok (load_config s)"
  ultimately show ?thesis using load_config_roles [OF 1] by simp
next
  case (2 a)
  moreover assume "config_ok (load_config s)"
  ultimately show ?thesis
    using default_config_ok by (cases a) (auto simp: load_config_def config_ok_def split: option.splits)
qed

lemma run_state:
  assumes "\<And>e ev s. P s \<Longrightarrow> P (st_step e ev s)" "P s"
  shows "P (st_run txs s)"
  using assms(2) by (induction txs arbitrary: s) (auto simp: assms(1))

lemma run_config_ok: "config_ok (load_config (st_run txs st_empty))"
proof (rule run_state)
  show "config_ok (load_config st_empty)"
    using default_config_ok by (simp add: load_config_def st_empty_def no_roles_def)
qed (rule config_ok_step)

text \<open>
  In every reachable state the configuration is within its bounds: the fee is at most ten
  percent, the fill window at least a minute and shorter than the intent expiry, the minimum
  bond at least one unit, and the coverage multiplier and the vault share are the ones set at
  initialisation.
\<close>

theorem config_always_in_bounds:
  "let c = load_config (st_run txs st_empty)
   in 0 \<le> cf_protocol_fee_bps c \<and> cf_protocol_fee_bps c \<le> 1000 \<and> 60 \<le> cf_fill_window c \<and>
      cf_fill_window c < cf_intent_expiry c \<and> 300 \<le> cf_intent_expiry c \<and> 10000000 \<le> cf_min_bond c \<and>
      0 < cf_max_active c \<and> cf_coverage_multiplier c = 10 \<and> cf_backstop_vault_share_bps c = 0"
  using run_config_ok [of txs]
  by (simp add: Let_def config_ok_def MAX_PROTOCOL_FEE_BPS_def MIN_FILL_WINDOW_SECS_def
      MIN_INTENT_EXPIRY_SECS_def MIN_BOND_FLOOR_def)

section \<open>Tiers\<close>

text \<open>No entry point stores the address of a solver registry.\<close>

lemma no_registry_step: "ro_registry (roles s) = None \<Longrightarrow> ro_registry (roles (st_step e ev s)) = None"
proof (cases rule: st_step_roles [of e ev s])
  case (2 a)
  moreover assume "ro_registry (roles s) = None"
  ultimately show ?thesis by (cases a) auto
qed simp

lemma run_no_registry: "ro_registry (roles (st_run txs st_empty)) = None"
proof (rule run_state)
  show "ro_registry (roles st_empty) = None" by (simp add: st_empty_def no_roles_def)
qed (rule no_registry_step)

lemma accept_intent_body_record:
  assumes "accept_intent_body w e a i b s = Inr s'"
  shows "\<exists>r. bk_intents (book s') i = Some r \<and> in_solver_tier r = solver_tier w s a \<and>
    in_deadline r = now e + st_tier_fill_window (solver_tier w s a) (cf_fill_window (load_config s))"
  using assms unfolding accept_intent_body_def Let_def ctx_load_def
  by (elim rbindE guardE) (auto simp: ledger_of_tables)

text \<open>
  Whatever tier the registry would report, every intent is accepted with tier 0 and the base
  fill window: no entry point ever stores the address of the registry.
\<close>

theorem solver_tier_always_zero:
  assumes "accept_intent_body w e a i b (st_run txs st_empty) = Inr s'"
  shows "solver_tier w (st_run txs st_empty) a = 0 \<and>
    (\<exists>r. bk_intents (book s') i = Some r \<and> in_solver_tier r = 0 \<and>
       in_deadline r = now e + st_tier_fill_window 0 (cf_fill_window (load_config (st_run txs st_empty))))"
proof -
  have "solver_tier w (st_run txs st_empty) a = 0"
    by (simp add: solver_tier_def run_no_registry)
  with accept_intent_body_record [OF assms] show ?thesis by simp
qed

theorem solver_tier_always_zero_witness:
  "\<exists>s' r. accept_intent_body (demo_world\<lparr>w_get_tier := \<lambda>_ _. Some 4\<rparr>) (plain_env 1000) 8 9 3
        (st_run (take 3 demo_run) st_empty) = Inr s' \<and>
     bk_intents (book s') 9 = Some r \<and> in_solver_tier r = 0"
proof -
  obtain s' where s': "accept_intent_body (demo_world\<lparr>w_get_tier := \<lambda>_ _. Some 4\<rparr>) (plain_env 1000) 8 9 3
        (st_run (take 3 demo_run) st_empty) = Inr s'"
    by (simp add: eval_run)
  from solver_tier_always_zero [OF this] s' show ?thesis by blast
qed

end
