(* ===== verification/Settlement_Money.thy ===== *)
theory Settlement_Money
  imports Settlement_Roles
begin

text \<open>
  What the settlement contract's entry points pay: a fill, the end of an escrow, a slash, a
  refund. Each theorem gives the whole list of token transfers of the invocation.
\<close>

section \<open>Transfers\<close>

abbreviation sends :: "address \<Rightarrow> address \<Rightarrow> address \<Rightarrow> int \<Rightarrow> xfer" where
  "sends tok from to v \<equiv> \<lparr>x_token = tok, x_from = from, x_to = to, x_amount = v\<rparr>"

text \<open>A transfer that the code makes only for a positive amount.\<close>

definition sends_pos :: "address \<Rightarrow> address \<Rightarrow> address \<Rightarrow> int \<Rightarrow> xfer list" where
  "sends_pos tok from to v = (if 0 < v then [sends tok from to v] else [])"

lemma sends_pos_0 [simp]: "sends_pos tok from to 0 = []"
  by (simp add: sends_pos_def)

lemma maybe_transfer:
  "(if 0 < v then transfer e tok from to v tr else Inr tr) = Inr tr' \<Longrightarrow> tr' = tr @ sends_pos tok from to v"
  by (auto simp: sends_pos_def transfer_eq_Inr split: if_splits)

lemma net_in_sends_pos: "net_in tok a (sends_pos t from to v) = max 0 v * net_in tok a [sends t from to 1]"
  by (simp add: sends_pos_def x_net_def)

section \<open>A fill\<close>

lemma ctx_load_facts:
  "ctx_load s = Inr c \<Longrightarrow> ro_fee_recipient (roles s) = Some (ic_fee_recipient c) \<and> ic_config c = load_config s"
  by (auto simp: ctx_load_def)

lemma ctx_step_facts:
  "add_volume v c = Inr c1 \<Longrightarrow> ic_fee_recipient c1 = ic_fee_recipient c"
  "increment_open_intents c = Inr c2 \<Longrightarrow> ic_fee_recipient c2 = ic_fee_recipient c"
  by (auto simp: add_volume_def increment_open_intents_def)

lemma protocol_fee_Inr: "protocol_fee v b = Inr f \<Longrightarrow> f = v * b sdiv 10000"
  by (auto simp: protocol_fee_def checked_i128_def split: if_splits)

lemma fill_intent_effect:
  "fill_intent w e a i v p s = Inr (s', tr) \<Longrightarrow> bk_intents (book s) i = Some r \<Longrightarrow>
   authed e a \<and> in_state r = Accepted \<and> in_solver r = Some a \<and> now e < in_deadline r \<and>
    0 < v \<and> v \<le> MAX_AMOUNT \<and>
    (\<exists>f r'. ro_fee_recipient (roles s) = Some f \<and>
       tr = sends (in_dst_token r) a (in_user r) v #
            sends_pos (in_dst_token r) a f (v * cf_protocol_fee_bps (load_config s) sdiv 10000) \<and>
       bk_intents (book s') i = Some r' \<and> in_total_filled r' = in_total_filled r + v \<and>
       in_state r' = (if in_min_dst r \<le> in_total_filled r + v then Filled else PartiallyFilled))"
  unfolding fill_intent_def fill_intent_inner_def Let_def split_beta
  by (elim rbindE guardE guard_sumE; erule fill_outcomeE; drule maybe_transfer;
      simp add: load_intent_def check_fill_guards_Inr ledger_of_tables transfer_eq_Inr;
      (auto dest!: ctx_load_facts ctx_step_facts protocol_fee_Inr; fail)?)

text \<open>
  C18: A successful \<open>fill_intent\<close> is signed by the assigned solver before the
  deadline, sends exactly the fill amount from the solver to the user and the protocol fee on
  top to the fee recipient, and leaves the intent filled if the minimum is reached and
  partially filled otherwise.
\<close>

theorem fill_pays_user:
  assumes "fill_intent w e a i v p s = Inr (s', tr)" "bk_intents (book s) i = Some r"
  shows "authed e a \<and> in_state r = Accepted \<and> in_solver r = Some a \<and> now e < in_deadline r \<and>
    0 < v \<and> v \<le> MAX_AMOUNT \<and>
    (\<exists>f r'. ro_fee_recipient (roles s) = Some f \<and>
       tr = sends (in_dst_token r) a (in_user r) v #
            sends_pos (in_dst_token r) a f (v * cf_protocol_fee_bps (load_config s) sdiv 10000) \<and>
       bk_intents (book s') i = Some r' \<and> in_total_filled r' = in_total_filled r + v \<and>
       in_state r' = (if in_min_dst r \<le> in_total_filled r + v then Filled else PartiallyFilled))"
  using fill_intent_effect [OF assms] .

theorem fill_pays_user_witness:
  "\<exists>s' tr. fill_intent demo_world (plain_env 1000) 8 9 40 False (st_run (take 4 demo_run) st_empty) = Inr (s', tr) \<and>
     (\<exists>f r'. tr = sends 4 8 7 40 # sends_pos 4 8 f 0 \<and> bk_intents (book s') 9 = Some r' \<and>
        in_state r' = PartiallyFilled)"
proof -
  let ?s = "st_run (take 4 demo_run) st_empty"
  obtain s' tr where ok: "fill_intent demo_world (plain_env 1000) 8 9 40 False ?s = Inr (s', tr)"
    by (simp add: eval_run increment_open_intents_def)
  obtain r where r: "bk_intents (book ?s) 9 = Some r" "in_dst_token r = 4" "in_user r = 7"
      "in_total_filled r = 0" "in_min_dst r = 50"
    by (simp add: eval_run)
  have "cf_protocol_fee_bps (load_config ?s) = 5"
    by (simp add: eval_run)
  with fill_pays_user [OF ok r(1)] r ok show ?thesis by (simp add: sdiv_nonneg) blast
qed

section \<open>The end of an escrow\<close>

lemma pay_escrow_Inr:
  "pay_escrow e r f escrow fee = Inr tr \<longleftrightarrow>
     in_i128 (escrow - fee) \<and> tok_ok e [] (sends (in_dst_token r) (self e) (in_user r) (escrow - fee)) \<and>
     (0 < fee \<longrightarrow> tok_ok e [sends (in_dst_token r) (self e) (in_user r) (escrow - fee)]
                    (sends (in_dst_token r) (self e) f fee)) \<and>
     tr = sends (in_dst_token r) (self e) (in_user r) (escrow - fee) #
          sends_pos (in_dst_token r) (self e) f fee"
  by (auto simp: pay_escrow_def transfer_eq_Inr sends_pos_def split: if_splits)

lemma bond_amount_updates [simp]:
  "get_solver_bond_amount s (q\<lparr>so_active_intents := n\<rparr>) t = get_solver_bond_amount s q t"
  "get_solver_bond_amount s (q\<lparr>so_failed := n\<rparr>) t = get_solver_bond_amount s q t"
  "get_solver_bond_amount s (q\<lparr>so_active := b\<rparr>) t = get_solver_bond_amount s q t"
  "get_solver_bond_amount s (q\<lparr>so_last_slash := n\<rparr>) t = get_solver_bond_amount s q t"
  by (cases "load_bond_token s"; simp add: get_solver_bond_amount_def)+

lemma uphold_facts:
  "uphold e r q s = Inr p \<Longrightarrow>
     \<exists>bond. get_solver_bond_amount s q (in_bond_token r) = Inr bond \<and>
       snd (snd p) = st_slash_amount bond (in_min_dst r - in_total_filled r) \<and>
       ledger_of (fst p) = ledger_of s \<and> settings (fst p) = settings s"
  unfolding uphold_def Let_def split_beta
  by (elim rbindE) (auto dest!: set_solver_bond_amount_quiet)

lemma resolve_dispute_effect:
  "resolve_dispute e a i q s = Inr (s', tr) \<Longrightarrow> bk_intents (book s) i = Some r \<Longrightarrow>
   authed e a \<and> load_arbiter s = Inr a \<and> in_state r = Disputed \<and>
   (\<exists>f sol rec. ro_fee_recipient (roles s) = Some f \<and> in_solver r = Some sol \<and> bo_solvers (bonds s) sol = Some rec \<and>
     (case q of
        Dismissed \<Rightarrow>
          tr = sends (in_dst_token r) (self e) (in_user r) (or0 (in_fill_amount r) - or0 (in_fill_amount r) * 5 sdiv 10000) #
               sends_pos (in_dst_token r) (self e) f (or0 (in_fill_amount r) * 5 sdiv 10000)
      | Upheld \<Rightarrow>
          \<exists>bond. get_solver_bond_amount s rec (in_bond_token r) = Inr bond \<and>
            tr = sends (in_dst_token r) (self e) (in_user r) (or0 (in_fill_amount r)) #
                 sends_pos (in_bond_token r) (self e) f
                   (st_slash_amount bond (in_min_dst r - in_total_filled r)))) \<and>
   (\<exists>r'. bk_intents (book s') i = Some r' \<and> in_state r' = Resolved \<and> in_resolution r' = Some q \<and>
      in_total_filled r' = in_total_filled r + or0 (in_fill_amount r))"
  unfolding resolve_dispute_def Let_def split_beta
  apply (cases q; simp only: DisputeResolution.case)
   apply (elim rbindE guardE; drule maybe_transfer; simp add: load_intent_def ledger_of_tables)
   apply (auto simp: pay_escrow_Inr dest!: uphold_facts)[1]
  apply (elim rbindE guardE; drule maybe_transfer; simp add: load_intent_def ledger_of_tables)
  apply (auto simp: pay_escrow_Inr PROTOCOL_FEE_BPS_def dest!: protocol_fee_Inr)
  done

text \<open>
  C17: Resolving a dispute is signed by the arbiter and pays out exactly the escrow: a
  dismissed dispute splits it between the user and the protocol fee, an upheld one gives it
  all to the user and sends the slash of the solver's bond to the fee recipient.
\<close>

theorem resolve_pays_escrow:
  assumes "resolve_dispute e a i q s = Inr (s', tr)" "bk_intents (book s) i = Some r"
  shows "authed e a \<and> load_arbiter s = Inr a \<and> in_state r = Disputed \<and>
   (\<exists>f sol rec. ro_fee_recipient (roles s) = Some f \<and> in_solver r = Some sol \<and> bo_solvers (bonds s) sol = Some rec \<and>
     (case q of
        Dismissed \<Rightarrow>
          tr = sends (in_dst_token r) (self e) (in_user r) (or0 (in_fill_amount r) - or0 (in_fill_amount r) * 5 sdiv 10000) #
               sends_pos (in_dst_token r) (self e) f (or0 (in_fill_amount r) * 5 sdiv 10000)
      | Upheld \<Rightarrow>
          \<exists>bond. get_solver_bond_amount s rec (in_bond_token r) = Inr bond \<and>
            tr = sends (in_dst_token r) (self e) (in_user r) (or0 (in_fill_amount r)) #
                 sends_pos (in_bond_token r) (self e) f
                   (st_slash_amount bond (in_min_dst r - in_total_filled r)))) \<and>
   (\<exists>r'. bk_intents (book s') i = Some r' \<and> in_state r' = Resolved \<and> in_resolution r' = Some q \<and>
      in_total_filled r' = in_total_filled r + or0 (in_fill_amount r))"
  using resolve_dispute_effect [OF assms] .

lemma in_i128_plus: "0 \<le> x \<Longrightarrow> x \<le> 10 ^ 37 \<Longrightarrow> 0 \<le> y \<Longrightarrow> y \<le> 10 ^ 37 \<Longrightarrow> in_i128 (x + y)"
  by (rule in_i128_small) auto

lemma protocol_fee_bounds:
  assumes "0 \<le> v" "v \<le> 10 ^ 37"
  shows "\<exists>fee. protocol_fee v PROTOCOL_FEE_BPS = Inr fee \<and> 0 \<le> fee \<and> fee \<le> v"
proof -
  have "in_i128 (v * 5)" using assms by (intro in_i128_small) auto
  moreover have "0 \<le> v * 5 div 10000" "v * 5 div 10000 \<le> v"
    using assms(1) mult_div_le [of v 5 10000] mult_div_nonneg [of v 5 10000] by auto
  ultimately show ?thesis using assms by (simp add: protocol_fee_def PROTOCOL_FEE_BPS_def sdiv_nonneg checked_i128_def)
qed

lemma sends_pos_sum: "0 \<le> v \<Longrightarrow> (\<Sum>x\<leftarrow>sends_pos tok from to v. x_amount x) = v"
  by (simp add: sends_pos_def)

lemma set_sends_pos: "x \<in> set (sends_pos tok from to v) \<longleftrightarrow> 0 < v \<and> x = sends tok from to v"
  by (auto simp: sends_pos_def)

text \<open>The token accepts the two payments that end an escrow, whatever part of it is the fee.\<close>

definition accepts_release :: "env \<Rightarrow> IntentRecord \<Rightarrow> address \<Rightarrow> bool" where
  "accepts_release e r f \<longleftrightarrow> (\<forall>fee. 0 \<le> fee \<longrightarrow> fee \<le> or0 (in_fill_amount r) \<longrightarrow>
     (let x = sends (in_dst_token r) (self e) (in_user r) (or0 (in_fill_amount r) - fee)
      in tok_ok e [] x \<and> tok_ok e [x] (sends (in_dst_token r) (self e) f fee)))"

lemma accepts_releaseD:
  "accepts_release e r f \<Longrightarrow> 0 \<le> fee \<Longrightarrow> fee \<le> or0 (in_fill_amount r) \<Longrightarrow>
     tok_ok e [] (sends (in_dst_token r) (self e) (in_user r) (or0 (in_fill_amount r) - fee)) \<and>
     tok_ok e [sends (in_dst_token r) (self e) (in_user r) (or0 (in_fill_amount r) - fee)]
       (sends (in_dst_token r) (self e) f fee)"
  by (simp add: accepts_release_def Let_def)

lemma pay_escrow_ok:
  "tok_ok e [] (sends (in_dst_token r) (self e) (in_user r) (escrow - fee)) \<Longrightarrow>
   tok_ok e [sends (in_dst_token r) (self e) (in_user r) (escrow - fee)] (sends (in_dst_token r) (self e) f fee) \<Longrightarrow>
   in_i128 (escrow - fee) \<Longrightarrow>
   pay_escrow e r f escrow fee = Inr (sends (in_dst_token r) (self e) (in_user r) (escrow - fee) #
     sends_pos (in_dst_token r) (self e) f fee)"
  by (simp add: pay_escrow_Inr)

text \<open>The end of an escrow succeeds when the token accepts its payments and the sums stay in range.\<close>

lemma release_succeeds:
  assumes "bk_intents (book s) i = Some r"
    "in_state r = Filling \<and> nat0 (in_dispute_deadline r) \<le> now e \<or>
     in_state r = Disputed \<and> nat0 (in_dispute_raised_at r) + ARBITER_WINDOW \<le> now e"
    "in_solver r = Some a" "bo_solvers (bonds s) a = Some q" "ro_fee_recipient (roles s) = Some f"
    "accepts_release e r f" "now e \<le> u64_max" "so_completed q < u32_max"
    "0 \<le> or0 (in_fill_amount r)" "or0 (in_fill_amount r) \<le> 10 ^ 37"
    "0 \<le> in_total_filled r" "in_total_filled r \<le> 10 ^ 37"
    "0 \<le> so_volume q" "so_volume q \<le> 10 ^ 37"
    "0 \<le> or0 (bk_volume (book s))" "or0 (bk_volume (book s)) \<le> 10 ^ 37"
  shows "\<exists>s' tr r'. release_fill e i s = Inr (s', tr) \<and> bk_intents (book s') i = Some r' \<and>
    in_state r' = (if in_state r = Filling then Filled else Resolved) \<and>
    (\<Sum>x\<leftarrow>tr. x_amount x) = or0 (in_fill_amount r) \<and>
    (\<forall>x \<in> set tr. x_token x = in_dst_token r \<and> x_from x = self e \<and> x_to x \<in> {in_user r, f})"
proof -
  let ?v = "or0 (in_fill_amount r)"
  obtain fee where fee: "protocol_fee ?v PROTOCOL_FEE_BPS = Inr fee" "0 \<le> fee" "fee \<le> ?v"
    using protocol_fee_bounds [OF assms(9,10)] by blast
  have sums: "in_i128 (in_total_filled r + ?v)" "in_i128 (so_volume q + ?v)"
      "in_i128 (or0 (bk_volume (book s)) + ?v)" "in_i128 (?v - fee)" "in_i128 ?v"
    using assms fee by (auto intro!: in_i128_plus in_i128_small)
  note tok = accepts_releaseD [OF assms(6) fee(2,3)] accepts_releaseD [OF assms(6) order.refl assms(9), simplified]
  show ?thesis
  proof (cases "in_state r")
    case Filling
    with assms(1-8) fee sums show ?thesis
      by (simp add: release_fill_def load_intent_def need_def u32_def i128_def u64_def credit_fill_def
          Let_def pay_escrow_ok tok sends_pos_sum set_sends_pos save_intent_def save_solver_def set_volume_def)
  next
    case Disputed
    with assms(1-8) sums show ?thesis
      by (simp add: release_fill_def load_intent_def need_def u32_def i128_def u64_def
          Let_def pay_escrow_ok tok save_intent_def save_solver_def set_volume_def)
  qed (use assms(2) in auto)
qed

text \<open>The concrete run of the examples, up to an escrow and up to a dispute.\<close>

definition demo_filling :: settlement where
  "demo_filling = st_run (take 4 demo_run @ [(plain_env 1000, demo_world, BeginFill 8 9 60)]) st_empty"

definition demo_disputed :: settlement where
  "demo_disputed = st_run [(plain_env 1001, demo_world, DisputeFill 7 9)] demo_filling"

lemmas eval_escrow = demo_filling_def demo_disputed_def eval_run begin_fill_def fill_window_open_def
  DISPUTE_WINDOW_def dispute_fill_def

theorem resolve_pays_escrow_witness:
  "\<exists>s' tr r'. resolve_dispute (plain_env 1002) 1 9 Upheld demo_disputed = Inr (s', tr) \<and>
     bk_intents (book s') 9 = Some r' \<and> in_state r' = Resolved \<and>
     (\<exists>bond f. tr = sends 4 5 7 60 # sends_pos 3 5 f (st_slash_amount bond 50))"
proof -
  obtain s' tr where ok: "resolve_dispute (plain_env 1002) 1 9 Upheld demo_disputed = Inr (s', tr)"
    by (simp add: eval_escrow resolve_dispute_def load_arbiter_def uphold_def st_slash_amount_def
        SLASH_BPS_def pay_escrow_def)
  obtain r where r: "bk_intents (book demo_disputed) 9 = Some r" "in_dst_token r = 4" "in_user r = 7"
      "in_bond_token r = 3" "in_fill_amount r = Some 60" "in_min_dst r = 50" "in_total_filled r = 0"
    by (simp add: eval_escrow)
  from resolve_pays_escrow [OF ok r(1)] r ok show ?thesis by (simp add: or0_def) blast
qed

section \<open>A slash\<close>

lemma set_get_bond:
  assumes "set_solver_bond_amount s q t v = Inr p" "0 \<le> v"
  shows "get_solver_bond_amount (fst p) (snd p) t = Inr v"
  using assms by (auto simp: set_solver_bond_amount_def get_solver_bond_amount_def load_bond_token_def Let_def or0_def)

lemma slash_amount_le: "0 \<le> bond \<Longrightarrow> st_slash_amount bond u \<le> bond"
  by (auto simp: st_slash_amount_def Let_def min_def max_def)

lemma slash_amount_nonpos: "bond \<le> 0 \<Longrightarrow> st_slash_amount bond u = 0"
  by (simp add: st_slash_amount_def)

text \<open>The parts of the storage from which a solver's bond is read.\<close>

definition bond_view :: "settlement \<Rightarrow> address option \<times> (address \<times> address \<Rightarrow> int option)" where
  "bond_view s = (bo_token (bonds s), bo_extra (bonds s))"

lemma bond_view_get: "bond_view s' = bond_view s \<Longrightarrow> get_solver_bond_amount s' q t = get_solver_bond_amount s q t"
  by (simp add: bond_view_def get_solver_bond_amount_def load_bond_token_def cong: if_cong)

lemma bond_view_simps [simp]:
  "bond_view (save_intent i r t) = bond_view t" "bond_view (save_solver a q t) = bond_view t"
  "bond_view (set_open n t) = bond_view t" "bond_view (set_total_bonded v t) = bond_view t"
  "bond_view (release_exposure a v t) = bond_view t" "bond_view (add_to_open_intent_list w i t) = bond_view t"
  by (simp_all add: bond_view_def helper_defs)

lemma bond_amount_frames [simp]:
  "get_solver_bond_amount (save_intent i r s) q t = get_solver_bond_amount s q t"
  "get_solver_bond_amount (save_solver a u s) q t = get_solver_bond_amount s q t"
  "get_solver_bond_amount (set_open n s) q t = get_solver_bond_amount s q t"
  "get_solver_bond_amount (set_total_bonded v s) q t = get_solver_bond_amount s q t"
  "get_solver_bond_amount (release_exposure a v s) q t = get_solver_bond_amount s q t"
  "get_solver_bond_amount (add_to_open_intent_list w i s) q t = get_solver_bond_amount s q t"
  by (rule bond_view_get, simp)+

lemma bo_solvers_put [simp]:
  "bo_solvers (bonds (save_intent i r s)) = bo_solvers (bonds s)"
  "bo_solvers (bonds (save_solver a u s)) = (bo_solvers (bonds s))(a \<mapsto> u)"
  by (simp_all add: helper_defs)

lemma solver_leaves_bonds:
  assumes "solver_leaves a i s = Inr s'"
  shows "\<forall>q t. get_solver_bond_amount s' q t = get_solver_bond_amount s q t"
proof (intro allI)
  fix q t
  have "bond_view s' = bond_view s" using assms by (auto simp: solver_leaves_def bond_view_def)
  from bond_view_get [OF this] show "get_solver_bond_amount s' q t = get_solver_bond_amount s q t" .
qed

lemma slash_payout_no_share:
  "slash_payout e c t v s = Inr (s', tr) \<Longrightarrow> cf_backstop_vault_share_bps (ic_config c) = 0 \<Longrightarrow> 0 < v \<Longrightarrow>
   s' = s \<and> tr = [sends t (self e) (ic_fee_recipient c) v, sends t (self e) (ic_fee_recipient c) v]"
  by (auto simp: slash_payout_def transfer_eq_Inr)

lemma slash_solver_effect:
  "slash_solver w e i s = Inr (s', tr) \<Longrightarrow> bk_intents (book s) i = Some r \<Longrightarrow> in_solver r = Some a \<Longrightarrow>
   bo_solvers (bonds s) a = Some q \<Longrightarrow> get_solver_bond_amount s q (in_bond_token r) = Inr bond \<Longrightarrow>
   cf_backstop_vault_share_bps (load_config s) = 0 \<Longrightarrow>
   0 < st_slash_amount bond (in_min_dst r - in_total_filled r) \<Longrightarrow>
   \<exists>f. ro_fee_recipient (roles s) = Some f \<and>
     tr = replicate 2 (sends (in_bond_token r) (self e) f (st_slash_amount bond (in_min_dst r - in_total_filled r))) \<and>
     get_solver_bond s' a (in_bond_token r) = Inr (bond - st_slash_amount bond (in_min_dst r - in_total_filled r))"
  unfolding slash_solver_def Let_def split_beta
  apply (elim rbindE guardE)
  apply (simp add: load_intent_def)
  apply (frule ctx_load_facts)
  apply (elim conjE)
  apply (frule slash_payout_no_share, simp, simp)
  apply (frule set_get_bond)
  using slash_amount_le slash_amount_nonpos
   apply (metis diff_ge_0_iff_ge linorder_le_less_linear order_less_imp_le less_irrefl)
  apply (drule solver_leaves_bonds)
  apply (auto simp: get_solver_bond_def numeral_2_eq_2)
  done

text \<open>
  C40: In every reachable state \<open>slash_solver\<close> takes the slash off the bond once
  but sends it to the fee recipient twice.
\<close>

theorem slash_pays_twice:
  assumes "slash_solver w e i (st_run txs st_empty) = Inr (s', tr)"
    "bk_intents (book (st_run txs st_empty)) i = Some r" "in_solver r = Some a"
    "bo_solvers (bonds (st_run txs st_empty)) a = Some q"
    "get_solver_bond_amount (st_run txs st_empty) q (in_bond_token r) = Inr bond"
    "0 < st_slash_amount bond (in_min_dst r - in_total_filled r)"
  shows "\<exists>f. ro_fee_recipient (roles (st_run txs st_empty)) = Some f \<and>
     tr = replicate 2 (sends (in_bond_token r) (self e) f (st_slash_amount bond (in_min_dst r - in_total_filled r))) \<and>
     get_solver_bond s' a (in_bond_token r) = Inr (bond - st_slash_amount bond (in_min_dst r - in_total_filled r))"
proof -
  have "cf_backstop_vault_share_bps (load_config (st_run txs st_empty)) = 0"
    using run_config_ok [of txs] by (simp add: config_ok_def)
  from slash_solver_effect [OF assms(1-5) this assms(6)] show ?thesis .
qed

theorem slash_pays_twice_witness:
  "\<exists>s' f. slash_solver demo_world (plain_env 2000) 9 (st_run (take 4 demo_run) st_empty) =
      Inr (s', [sends 3 5 f 5, sends 3 5 f 5]) \<and> get_solver_bond s' 8 3 = Inr (600000000 - 5)"
proof -
  let ?s = "st_run (take 4 demo_run) st_empty"
  obtain s' tr where ok: "slash_solver demo_world (plain_env 2000) 9 ?s = Inr (s', tr)"
    by (simp add: eval_run slash_solver_def slash_eligible_def st_slash_amount_def SLASH_BPS_def slash_payout_def)
  obtain r q where r: "bk_intents (book ?s) 9 = Some r" "in_solver r = Some 8" "in_bond_token r = 3"
      "in_min_dst r = 50" "in_total_filled r = 0"
    and q: "bo_solvers (bonds ?s) 8 = Some q" "get_solver_bond_amount ?s q 3 = Inr 600000000"
    by (simp add: eval_run)
  have "st_slash_amount 600000000 50 = 5" by (simp add: st_slash_amount_def SLASH_BPS_def sdiv_nonneg)
  with slash_pays_twice [OF ok r(1,2) q(1), of 600000000] r q ok show ?thesis
    by (simp add: numeral_2_eq_2) blast
qed

section \<open>A batch of acceptances\<close>

lemma accept_body_state:
  "accept_intent_body w e a i b s = Inr s' \<Longrightarrow>
   \<exists>r. bk_intents (book s) i = Some r \<and> (in_state r = Open \<or> in_state r = PartiallyFilled)"
  unfolding accept_intent_body_def load_intent_def Let_def by (elim rbindE guardE) auto

lemma accept_body_after:
  "accept_intent_body w e a i b s = Inr s' \<Longrightarrow> \<exists>r. bk_intents (book s') i = Some r \<and> in_state r = Accepted"
  unfolding accept_intent_body_def Let_def by (elim rbindE guardE) (auto simp: ledger_of_tables)

text \<open>
  A batch of acceptances that is not empty always fails: the body accepts each intent and then
  runs a second time on the same one.
\<close>

theorem batch_accept_never_succeeds:
  "batch_accept_intent w e a (i # ids) s \<noteq> Inr s'"
proof
  assume "batch_accept_intent w e a (i # ids) s = Inr s'"
  then obtain b s1 s2 where "accept_intent_body w e a i b s = Inr s1" "accept_intent_inner w e a i b s1 = Inr s2"
    unfolding batch_accept_intent_def by (elim rbindE guardE) auto
  with accept_body_after [of w e a i b s s1] accept_body_state [of w e a i b s1 s2] show False
    by (auto simp: accept_intent_inner_def)
qed

section \<open>Leaving\<close>

lemma pay_refunds_transfers:
  "pay_refunds w e a rs s tr = Inr (s', tr') \<Longrightarrow>
   tr' = tr @ map (\<lambda>(t, v). sends t (self e) a v) rs \<and>
   bo_solvers (bonds s') = bo_solvers (bonds s) \<and> bo_extra (bonds s') = bo_extra (bonds s)"
proof (induction rs arbitrary: s tr)
  case (Cons r rs)
  obtain t v where r: "r = (t, v)" by (cases r)
  with Cons.prems have "pay_refunds w e a rs (adjust_token_liabilities w t (- v) s)
      (tr @ [sends t (self e) a v]) = Inr (s', tr')"
    by (auto simp: Let_def transfer_eq_Inr)
  from Cons.IH [OF this] r show ?case by (simp add: adjust_token_liabilities_def)
qed simp

end
