(* ===== verification/Panel_Settlement.thy ===== *)
theory Panel_Settlement
  imports Arbiter_Panel Settlement_Money
begin

text \<open>
  The arbiter panel on the settlement contract it was built for: the two calls of its client
  trait are the settlement's own \<open>dispute_parties\<close> and \<open>resolve_dispute\<close>, and what a verdict
  does to the disputed intent follows. The panel's contract signs for itself in the call, as the
  host does for a caller.
\<close>

section \<open>The client\<close>

fun resolution :: "Verdict \<Rightarrow> DisputeResolution" where
  "resolution Arbiter_Panel.Upheld = Settlement_State.Upheld"
| "resolution Arbiter_Panel.Dismissed = Settlement_State.Dismissed"

definition signs_too :: "address \<Rightarrow> env \<Rightarrow> env" where
  "signs_too a e = e\<lparr>authed := (authed e)(a := True)\<rparr>"

definition settlement_calls :: "env \<Rightarrow> settlement settlement_client" where
  "settlement_calls se =
     \<lparr>sc_parties = (\<lambda>st i. case dispute_parties st i of Inl _ \<Rightarrow> None | Inr p \<Rightarrow> Some p),
      sc_resolve = (\<lambda>st a i v. case resolve_dispute (signs_too a se) a i (resolution v) st of
        Inl _ \<Rightarrow> None | Inr p \<Rightarrow> Some p)\<rparr>"

lemma sc_resolve_eq:
  "sc_resolve (settlement_calls se) st a i v = Some (st', tr) \<longleftrightarrow>
     resolve_dispute (signs_too a se) a i (resolution v) st = Inr (st', tr)"
  by (auto simp: settlement_calls_def split: sum.splits)

lemma sc_parties_eq:
  "sc_parties (settlement_calls se) st i = Some (u, sol) \<longleftrightarrow>
     (\<exists>r. bk_intents (book st) i = Some r \<and> in_state r = Disputed \<and> in_user r = u \<and> in_solver r = Some sol)"
  by (auto simp: settlement_calls_def dispute_parties_def load_intent_def need_def
      split: sum.splits option.splits if_splits elim!: rbindE guardE)

text \<open>An intent that is not disputed any more cannot be resolved.\<close>

lemma sc_resolve_disputed:
  assumes "sc_resolve (settlement_calls se) st a i v = Some (st', tr)"
  shows "\<exists>r. bk_intents (book st) i = Some r \<and> in_state r = Disputed"
proof -
  from assms have "resolve_dispute (signs_too a se) a i (resolution v) st = Inr (st', tr)"
    by (simp add: sc_resolve_eq)
  then obtain r where "bk_intents (book st) i = Some r"
    unfolding resolve_dispute_def by (elim rbindE guardE) (auto simp: load_intent_def)
  with resolve_dispute_effect [OF \<open>resolve_dispute _ _ _ _ _ = _\<close>] show ?thesis by blast
qed

text \<open>
  One transaction of the panel, with the environment and the state in which it finds the settlement
  contract.
\<close>

definition ps_handle :: "(bytes32 \<Rightarrow> nat \<Rightarrow> nat \<Rightarrow> nat) \<Rightarrow> env \<Rightarrow> env \<times> settlement \<times> ap_event \<Rightarrow> panel
    \<Rightarrow> (ApError, panel \<times> xfer list) res" where
  "ps_handle rng e x = ap_handle rng (settlement_calls (fst x)) e (snd x)"

lemma ps_handle_eq: "ps_handle rng e x s = ap_handle rng (settlement_calls (fst x)) e (snd x) s"
  by (simp add: ps_handle_def)

lemma ps_seats_ok:
  assumes "keeps_range rng" "seats_ok s"
  shows "seats_ok (fst (token_run (ps_handle rng) s txs))"
proof (induction txs rule: rev_induct)
  case (snoc tx txs)
  show ?case
  proof (cases "ps_handle rng" tx "token_run (ps_handle rng) s txs" rule: token_step_cases)
    case (committed s' tr)
    from seats_ok_handle [OF snoc assms(1) trans [OF ps_handle_eq [symmetric] committed(1)]] committed(2) show ?thesis by simp
  qed (use snoc in simp)
qed (simp add: assms(2))

text \<open>An intent that is settled stays so, and no verdict resolves it.\<close>

lemma settled_not_resolved:
  assumes "bk_intents (book st) i = Some r" "terminal r"
  shows "sc_resolve (settlement_calls se) (st_run txs st) a i v = None"
proof (cases "sc_resolve (settlement_calls se) (st_run txs st) a i v")
  case (Some p)
  obtain st' tr where "p = (st', tr)" by (cases p)
  have "settled i r (ledger_of (st_run txs st))"
  proof (rule run_keeps)
    show "settled i r (ledger_of st)" using assms by (simp add: settled_def ledger_of_def)
  qed (rule settled_step)
  then have "bk_intents (book (st_run txs st)) i = Some r' \<Longrightarrow> r' = r" for r'
    by (auto simp: settled_def ledger_of_def)
  with sc_resolve_disputed [of se "st_run txs st" a i v st' tr] Some \<open>p = (st', tr)\<close> assms(2) show ?thesis
    by (auto simp: terminal_def)
qed

lemma ps_verdict_open:
  assumes "keeps_range rng" "seats_ok s" "verdict_open i v members s"
    "\<forall>(e, se, st, ev) \<in> set txs. \<forall>a. sc_resolve (settlement_calls se) st a i v = None"
  shows "verdict_open i v members (fst (token_run (ps_handle rng) s txs))"
  using assms(4)
proof (induction txs rule: rev_induct)
  case (snoc tx txs)
  obtain e se st ev where tx: "tx = (e, se, st, ev)" by (cases tx) auto
  from snoc have IH: "verdict_open i v members (fst (token_run (ps_handle rng) s txs))" by simp
  show ?case
  proof (cases "ps_handle rng" tx "token_run (ps_handle rng) s txs" rule: token_step_cases)
    case (committed s' tr)
    have "ap_handle rng (settlement_calls se) e (st, ev) (fst (token_run (ps_handle rng) s txs)) = Inr (s', tr)"
      using trans [OF ps_handle_eq [symmetric] committed(1)] by (simp add: tx)
    moreover have "sc_resolve (settlement_calls se) (fst (st, ev)) a i v = None" for a using snoc.prems by (simp add: tx)
    ultimately show ?thesis
      using verdict_open_step [OF ps_seats_ok [OF assms(1,2)] IH] committed(2) by fastforce
  qed (use IH in simp)
qed (simp add: assms(3))

section \<open>Properties\<close>

text \<open>
  C19: When the panel tallies a verdict on the settlement contract, the panel is that
  contract's arbiter, the intent was disputed and is now resolved with the verdict the
  threshold of votes was cast for.
\<close>

theorem verdict_resolves_intent:
  assumes "ap_tally (settlement_calls se) e i st s = Inr (s', Some v, st', tr)" "bk_intents (book st) i = Some r"
  shows "load_arbiter st = Inr (self e) \<and> in_state r = Disputed \<and>
    (\<exists>rd r'. ap_round s i = Some rd \<and> rd_threshold rd \<le> votes_for v rd \<and>
       bk_intents (book st') i = Some r' \<and> in_state r' = Resolved \<and> in_resolution r' = Some (resolution v))"
proof -
  from ap_tally_Inr [OF assms(1)] obtain rd where rd: "ap_round s i = Some rd" "Some v = outcome_of rd"
    and call: "sc_resolve (settlement_calls se) st (self e) i v = Some (st', tr)" by metis
  have "rd_threshold rd \<le> votes_for v rd" using rd(2) by (auto simp: outcome_of_def split: if_splits)
  moreover have "resolve_dispute (signs_too (self e) se) (self e) i (resolution v) st = Inr (st', tr)"
    using call by (simp add: sc_resolve_eq)
  from resolve_dispute_effect [OF this assms(2)]
  have "load_arbiter st = Inr (self e) \<and> in_state r = Disputed \<and>
    (\<exists>r'. bk_intents (book st') i = Some r' \<and> in_state r' = Resolved \<and> in_resolution r' = Some (resolution v))" by blast
  ultimately show ?thesis using rd(1) by blast
qed

text \<open>
  C38: Let an open round of a reachable panel have reached a verdict while its intent is
  already filled, cancelled, expired or resolved on the settlement contract (the random
  generator keeps its range). Then after any further transactions of the panel, interleaved
  with any transactions of the settlement contract, the round is still open with the same
  members and verdict, every tally of it fails, and each of its members has an open vote and
  cannot deregister, so its bond stays locked.
\<close>

theorem late_verdict_never_tallied:
  assumes "keeps_range rng" "token_run (ps_handle rng) ap_empty txs = (s, tr)"
    "ap_round s i = Some rd" "\<not> rd_settled rd" "outcome_of rd = Some v"
    "bk_intents (book st) i = Some r" "terminal r"
    "\<forall>(e, se, st', ev) \<in> set later. \<exists>xs. st' = st_run xs st"
  shows "let s' = fst (token_run (ps_handle rng) s later)
         in (\<exists>rd'. ap_round s' i = Some rd' \<and> \<not> rd_settled rd' \<and> outcome_of rd' = Some v \<and> rd_panel rd' = rd_panel rd) \<and>
            (\<forall>e se xs. \<not> is_ok (ap_tally (settlement_calls se) e i (st_run xs st) s')) \<and>
            (\<forall>a \<in> set (rd_panel rd). (\<exists>q. ap_arbiter s' a = Some q \<and> 0 < ar_open q) \<and>
               (\<forall>e. \<not> is_ok (deregister_arbiter e a s')))"
proof -
  let ?s = "fst (token_run (ps_handle rng) s later)"
  have good: "seats_ok s" using ps_seats_ok [OF assms(1) seats_ok_empty, of txs] assms(2) by simp
  have "verdict_open i v (rd_panel rd) s" using assms(3-5) by (simp add: verdict_open_def)
  moreover have "\<forall>(e, se, st', ev) \<in> set later. \<forall>a. sc_resolve (settlement_calls se) st' a i v = None"
    using assms(8) settled_not_resolved [OF assms(6,7)] by fastforce
  ultimately have open': "verdict_open i v (rd_panel rd) ?s" by (rule ps_verdict_open [OF assms(1) good])
  have "\<not> is_ok (ap_tally (settlement_calls se) e i (st_run xs st) ?s)" for e se xs
    using verdict_not_tallied [OF open' settled_not_resolved [OF assms(6,7)]] by (auto simp: is_ok_iff)
  moreover note verdict_open_locks [OF ps_seats_ok [OF assms(1) good] open']
  ultimately show ?thesis using open' unfolding Let_def verdict_open_def by blast
qed

section \<open>A disputed order\<close>

text \<open>
  The panel at the settlement's arbiter address 1, with one member that has upheld the dispute of
  order 9; and the same dispute when it has timed out first.
\<close>

definition demo_panel :: panel where
  "demo_panel = ap_empty\<lparr>ap_admin := Some 90, ap_settlement := Some 5, ap_arbiter := [11 \<mapsto> \<lparr>ar_bond = 100, ar_open = 1\<rparr>],
     ap_round := [9 \<mapsto> \<lparr>rd_panel = [11], rd_threshold = 1, rd_opened = 1001,
       rd_votes = [(11, Arbiter_Panel.Upheld)], rd_settled = False\<rparr>]\<rparr>"

definition demo_released :: settlement where
  "demo_released = st_run [(plain_env 90000, demo_world, Release 9)] demo_disputed"

definition panel_env :: "nat \<Rightarrow> env" where
  "panel_env t = (plain_env t)\<lparr>self := 1\<rparr>"

lemma demo_round: "\<exists>rd. ap_round demo_panel 9 = Some rd \<and> outcome_of rd = Some Arbiter_Panel.Upheld"
  by (simp add: demo_panel_def outcome_of_def votes_for_def)

theorem verdict_resolves_intent_witness:
  "\<exists>s' st' tr r'. ap_tally (settlement_calls (plain_env 1002)) (panel_env 1002) 9 demo_disputed demo_panel =
       Inr (s', Some Arbiter_Panel.Upheld, st', tr) \<and>
     bk_intents (book st') 9 = Some r' \<and> in_state r' = Resolved \<and> in_resolution r' = Some Settlement_State.Upheld"
proof -
  obtain st' tr where "resolve_dispute (signs_too 1 (plain_env 1002)) 1 9 Settlement_State.Upheld demo_disputed = Inr (st', tr)"
    by (simp add: signs_too_def eval_escrow resolve_dispute_def load_arbiter_def uphold_def st_slash_amount_def
        SLASH_BPS_def pay_escrow_def)
  then have res: "sc_resolve (settlement_calls (plain_env 1002)) demo_disputed 1 9 Arbiter_Panel.Upheld = Some (st', tr)"
    by (simp add: sc_resolve_eq)
  obtain s' where ok: "ap_tally (settlement_calls (plain_env 1002)) (panel_env 1002) 9 demo_disputed demo_panel =
       Inr (s', Some Arbiter_Panel.Upheld, st', tr)"
    by (simp add: ap_tally_def ap_eval demo_panel_def panel_env_def res [unfolded One_nat_def])
  obtain r where "bk_intents (book demo_disputed) 9 = Some r"
    by (simp add: eval_escrow)
  from verdict_resolves_intent [OF ok this, simplified resolution.simps] ok show ?thesis by blast
qed

text \<open>
  A panel at the settlement's arbiter address whose only member upholds the dispute of order 9; then
  the order times out on the settlement contract and is closed, and the tally comes too late.
\<close>

definition late_panel :: "(env \<times> env \<times> settlement \<times> ap_event) list" where
  "late_panel = map (\<lambda>ev. (panel_env 1002, plain_env 1002, demo_disputed, ev))
     [ApInitialize 90 5 60 100 1 1, ApRegister 11, ApOpenVote 9, ApVote 11 9 Arbiter_Panel.Upheld]"

lemma late_round:
  "\<exists>s tr rd. token_run (ps_handle ap_demo_rng) ap_empty late_panel = (s, tr) \<and> ap_round s 9 = Some rd \<and>
     \<not> rd_settled rd \<and> outcome_of rd = Some Arbiter_Panel.Upheld \<and> rd_panel rd = [11]"
proof -
  have "sc_parties (settlement_calls (plain_env 1002)) demo_disputed 9 = Some (7, 8)"
    unfolding sc_parties_eq by (simp add: eval_escrow)
  then show ?thesis by (simp add: late_panel_def ps_handle_def panel_env_def ap_eval)
qed

theorem late_verdict_never_tallied_witness:
  "\<exists>s tr. token_run (ps_handle ap_demo_rng) ap_empty late_panel = (s, tr) \<and>
     \<not> is_ok (deregister_arbiter (panel_env 99999) 11 (fst (token_run (ps_handle ap_demo_rng) s
        [(panel_env 90001, plain_env 90001, st_run [(plain_env 90001, demo_world, CloseIntent 9)] demo_released, ApTally 9)])))"
proof -
  obtain s tr rd where p: "token_run (ps_handle ap_demo_rng) ap_empty late_panel = (s, tr)" "ap_round s 9 = Some rd"
    "\<not> rd_settled rd" "outcome_of rd = Some Arbiter_Panel.Upheld" "rd_panel rd = [11]" using late_round by blast
  obtain r where r: "bk_intents (book demo_released) 9 = Some r" "in_state r = Resolved"
    by (simp add: demo_released_def eval_escrow release_fill_def ARBITER_WINDOW_def pay_escrow_def)
  have range: "keeps_range ap_demo_rng" by (simp add: keeps_range_def ap_demo_rng_def)
  have "terminal r" by (simp add: terminal_def r(2))
  moreover have "\<exists>xs. st_run [(plain_env 90001, demo_world, CloseIntent 9)] demo_released = st_run xs demo_released" by blast
  then have "\<forall>(e, se, st', ev) \<in> set
      [(panel_env 90001, plain_env 90001, st_run [(plain_env 90001, demo_world, CloseIntent 9)] demo_released, ApTally 9)].
      \<exists>xs. st' = st_run xs demo_released" by simp
  note late = late_verdict_never_tallied [OF range p(1-4) r(1) calculation this]
  have "11 \<in> set (rd_panel rd)" using p(5) by simp
  with late p(1) show ?thesis unfolding Let_def by blast
qed

end
