(* ===== verification/Timelock.thy ===== *)
theory Timelock
  imports Prelude
begin

text \<open>
  The \<open>TimelockController\<close> of \<open>timelock/src/lib.rs\<close>: operations are batches of
  cross-contract calls, committed by hash when scheduled and replayed after their delay.
  The called contracts are outside the timelock: \<open>execute\<close> takes a predicate that says
  which calls return (a call that traps reverts the execution) and yields the calls it made,
  in order.
\<close>

section \<open>Data\<close>

datatype OperationState = Unset | Waiting | Ready | Done

datatype TimelockError =
    Unauthorized | InsufficientDelay | AlreadyScheduled | NotWaiting | NotReady | AlreadyDone
  | UnknownOperation | UnmetPredecessor | InvalidPredecessor | Expired | NotExpired
  | InvalidPredecessorState

text \<open>
  Host values. Only addresses and symbols matter, since a call's target and function are
  encoded as values of their own; every other value is a number standing for itself.
\<close>

datatype val = VAddress address | VSymbol string | VOther int

record call =
  call_target :: address
  call_function :: string
  call_args :: "val list"

record operation =
  op_id :: bytes32
  op_predecessor :: bytes32
  op_salt :: bytes32
  op_calls :: "call list"
  op_ready_at :: nat
  op_expires_at :: nat
  op_executed :: bool

record timelock =
  tl_min_delay :: "nat option"
  tl_grace :: "nat option"
  tl_ops :: "bytes32 \<Rightarrow> operation option"
  tl_roles :: "string \<times> address \<Rightarrow> bool option"

definition PROPOSER :: string where "PROPOSER = ''Proposer''"
definition EXECUTOR :: string where "EXECUTOR = ''Executor''"
definition CANCELLER :: string where "CANCELLER = ''Canceller''"
definition ADMIN :: string where "ADMIN = ''Admin''"
definition DEFAULT_GRACE_PERIOD :: nat where "DEFAULT_GRACE_PERIOD = 14 * 24 * 60 * 60"

text \<open>The host's serialiser and hash function.\<close>

record codec =
  to_xdr :: "val \<Rightarrow> byte list"
  sha256 :: "byte list \<Rightarrow> bytes32"

definition zero_hash :: bytes32 where "zero_hash = 0"

definition to_array :: "bytes32 \<Rightarrow> byte list" where
  "to_array h = be_bytes 32 (unat h)"

section \<open>Hashing\<close>

definition call_preimage :: "codec \<Rightarrow> call \<Rightarrow> byte list" where
  "call_preimage cd c =
     to_xdr cd (VAddress (call_target c)) @ to_xdr cd (VSymbol (call_function c)) @
     concat (map (to_xdr cd) (call_args c))"

definition hash_operation_internal :: "codec \<Rightarrow> call list \<Rightarrow> bytes32 \<Rightarrow> bytes32 \<Rightarrow> bytes32" where
  "hash_operation_internal cd calls predecessor salt =
     sha256 cd (concat (map (call_preimage cd) calls) @ to_array predecessor @ to_array salt)"

definition hash_operation :: "codec \<Rightarrow> call list \<Rightarrow> bytes32 \<Rightarrow> bytes32 \<Rightarrow> bytes32" where
  "hash_operation cd calls predecessor salt = hash_operation_internal cd calls predecessor salt"

section \<open>Roles and delays\<close>

definition has_role :: "timelock \<Rightarrow> string \<Rightarrow> address \<Rightarrow> bool" where
  "has_role s role account = (case tl_roles s (role, account) of None \<Rightarrow> False | Some b \<Rightarrow> b)"

definition grant_role_internal :: "string \<Rightarrow> address \<Rightarrow> timelock \<Rightarrow> timelock" where
  "grant_role_internal role account s = s\<lparr>tl_roles := (tl_roles s)((role, account) \<mapsto> True)\<rparr>"

text \<open>
  The role is looked up for the contract's own address; the function takes no caller and
  asks for no authorisation.
\<close>

definition require_role :: "env \<Rightarrow> timelock \<Rightarrow> string \<Rightarrow> (TimelockError, unit) res" where
  "require_role e s role =
     (if \<not> has_role s role (self e) then Inl (Error Unauthorized) else Inr ())"

definition require_admin :: "env \<Rightarrow> timelock \<Rightarrow> (TimelockError, unit) res" where
  "require_admin e s = require_role e s ADMIN"

definition tl_constructor ::
    "address \<Rightarrow> address list \<Rightarrow> address list \<Rightarrow> address list \<Rightarrow> nat \<Rightarrow> timelock \<Rightarrow> timelock" where
  "tl_constructor admin proposers executors cancellers min_delay s0 =
     (let s = s0\<lparr>tl_min_delay := Some min_delay, tl_grace := Some DEFAULT_GRACE_PERIOD\<rparr>;
          s = grant_role_internal ADMIN admin s;
          s = fold (grant_role_internal PROPOSER) proposers s;
          s = fold (grant_role_internal EXECUTOR) executors s
      in fold (grant_role_internal CANCELLER) cancellers s)"

definition grant_role :: "env \<Rightarrow> string \<Rightarrow> address \<Rightarrow> timelock \<Rightarrow> (TimelockError, timelock) res" where
  "grant_role e role account s =
     rbind (require_admin e s) (\<lambda>_. Inr (grant_role_internal role account s))"

definition revoke_role :: "env \<Rightarrow> string \<Rightarrow> address \<Rightarrow> timelock \<Rightarrow> (TimelockError, timelock) res" where
  "revoke_role e role account s =
     rbind (require_admin e s) (\<lambda>_.
       Inr (s\<lparr>tl_roles := (tl_roles s)((role, account) \<mapsto> False)\<rparr>))"

definition get_min_delay :: "timelock \<Rightarrow> nat" where
  "get_min_delay s = (case tl_min_delay s of None \<Rightarrow> 0 | Some d \<Rightarrow> d)"

definition update_delay :: "env \<Rightarrow> nat \<Rightarrow> timelock \<Rightarrow> (TimelockError, timelock) res" where
  "update_delay e new_delay s =
     rbind (require_admin e s) (\<lambda>_. Inr (s\<lparr>tl_min_delay := Some new_delay\<rparr>))"

definition get_grace_period :: "timelock \<Rightarrow> nat" where
  "get_grace_period s = (case tl_grace s of None \<Rightarrow> DEFAULT_GRACE_PERIOD | Some g \<Rightarrow> g)"

section \<open>Scheduling, cancelling, executing\<close>

definition schedule_batch :: "codec \<Rightarrow> env \<Rightarrow> call list \<Rightarrow> bytes32 \<Rightarrow> bytes32 \<Rightarrow> nat \<Rightarrow> timelock
    \<Rightarrow> (TimelockError, timelock \<times> bytes32) res" where
  "schedule_batch cd e calls predecessor salt delay s =
     rbind (require_role e s PROPOSER) (\<lambda>_.
       if delay < get_min_delay s then Inl (Error InsufficientDelay)
       else
         let i = hash_operation cd calls predecessor salt
         in if tl_ops s i \<noteq> None then Inl (Error AlreadyScheduled)
            else if predecessor \<noteq> zero_hash \<and> tl_ops s predecessor = None
            then Inl (Error InvalidPredecessor)
            else
              rbind (u64 (now e + delay)) (\<lambda>ready.
              rbind (u64 (now e + delay + get_grace_period s)) (\<lambda>expires.
                let operation = \<lparr>op_id = i, op_predecessor = predecessor, op_salt = salt,
                      op_calls = calls, op_ready_at = ready, op_expires_at = expires,
                      op_executed = False\<rparr>
                in Inr (s\<lparr>tl_ops := (tl_ops s)(i \<mapsto> operation)\<rparr>, i))))"

definition schedule :: "codec \<Rightarrow> env \<Rightarrow> address \<Rightarrow> string \<Rightarrow> val list \<Rightarrow> bytes32 \<Rightarrow> bytes32 \<Rightarrow> nat
    \<Rightarrow> timelock \<Rightarrow> (TimelockError, timelock \<times> bytes32) res" where
  "schedule cd e target function args predecessor salt delay s =
     schedule_batch cd e
       [\<lparr>call_target = target, call_function = function, call_args = args\<rparr>]
       predecessor salt delay s"

definition cancel :: "env \<Rightarrow> bytes32 \<Rightarrow> timelock \<Rightarrow> (TimelockError, timelock) res" where
  "cancel e i s =
     rbind (require_role e s CANCELLER) (\<lambda>_.
       case tl_ops s i of
         None \<Rightarrow> Inl (Error UnknownOperation)
       | Some operation \<Rightarrow>
           if op_executed operation then Inl (Error AlreadyDone)
           else Inr (s\<lparr>tl_ops := (tl_ops s)(i \<mapsto> operation\<lparr>op_executed := True\<rparr>)\<rparr>))"

fun invoke_all :: "(call list \<Rightarrow> call \<Rightarrow> bool) \<Rightarrow> call list \<Rightarrow> call list
    \<Rightarrow> (TimelockError, call list) res" where
  "invoke_all returns done [] = Inr done"
| "invoke_all returns done (c # cs) =
     (if returns done c then invoke_all returns (done @ [c]) cs else Inl HostTrap)"

definition execute :: "codec \<Rightarrow> env \<Rightarrow> (call list \<Rightarrow> call \<Rightarrow> bool) \<Rightarrow> bytes32 \<Rightarrow> timelock
    \<Rightarrow> (TimelockError, timelock \<times> call list) res" where
  "execute cd e returns i s =
     rbind (require_role e s EXECUTOR) (\<lambda>_.
       case tl_ops s i of
         None \<Rightarrow> Inl (Error UnknownOperation)
       | Some operation \<Rightarrow>
           if op_executed operation then Inl (Error AlreadyDone)
           else if now e < op_ready_at operation then Inl (Error NotReady)
           else if now e > op_expires_at operation then Inl (Error Expired)
           else if hash_operation cd (op_calls operation) (op_predecessor operation)
                     (op_salt operation) \<noteq> i
           then Inl (Error UnknownOperation)
           else
             rbind (if op_predecessor operation \<noteq> zero_hash
                    then case tl_ops s (op_predecessor operation) of
                           None \<Rightarrow> Inl (Error InvalidPredecessor)
                         | Some pred \<Rightarrow>
                             if \<not> op_executed pred then Inl (Error UnmetPredecessor) else Inr ()
                    else Inr ()) (\<lambda>_.
             let s' = s\<lparr>tl_ops := (tl_ops s)(i \<mapsto> operation\<lparr>op_executed := True\<rparr>)\<rparr>
             in rbind (invoke_all returns [] (op_calls operation)) (\<lambda>made. Inr (s', made))))"

section \<open>Views\<close>

definition get_operation_state :: "env \<Rightarrow> timelock \<Rightarrow> bytes32 \<Rightarrow> OperationState" where
  "get_operation_state e s i =
     (case tl_ops s i of
        None \<Rightarrow> Unset
      | Some op \<Rightarrow>
          if op_executed op then Done
          else if now e < op_ready_at op then Waiting
          else if now e > op_expires_at op then Done
          else Ready)"

definition is_operation_done :: "timelock \<Rightarrow> bytes32 \<Rightarrow> bool" where
  "is_operation_done s i = (case tl_ops s i of None \<Rightarrow> False | Some op \<Rightarrow> op_executed op)"

section \<open>Runs\<close>

text \<open>
  One transaction against the timelock, and the states a sequence of committed
  transactions reaches from an empty operation table. A history entry records the time, the
  minimum delay in force, the transaction and the calls it made.
\<close>

datatype tl_event =
    Schedule "call list" bytes32 bytes32 nat
  | Cancel bytes32
  | Execute bytes32
  | Grant string address
  | Revoke string address
  | SetDelay nat

fun tl_apply :: "codec \<Rightarrow> env \<Rightarrow> (call list \<Rightarrow> call \<Rightarrow> bool) \<Rightarrow> tl_event \<Rightarrow> timelock
    \<Rightarrow> (TimelockError, timelock \<times> call list) res" where
  "tl_apply cd e r (Schedule calls p salt d) s =
     rbind (schedule_batch cd e calls p salt d s) (\<lambda>(s', _). Inr (s', []))"
| "tl_apply cd e r (Cancel i) s = rbind (cancel e i s) (\<lambda>s'. Inr (s', []))"
| "tl_apply cd e r (Execute i) s = execute cd e r i s"
| "tl_apply cd e r (Grant role a) s = rbind (grant_role e role a s) (\<lambda>s'. Inr (s', []))"
| "tl_apply cd e r (Revoke role a) s = rbind (revoke_role e role a s) (\<lambda>s'. Inr (s', []))"
| "tl_apply cd e r (SetDelay d) s = rbind (update_delay e d s) (\<lambda>s'. Inr (s', []))"

type_synonym tl_entry = "nat \<times> nat \<times> tl_event \<times> call list"

inductive tl_reach :: "codec \<Rightarrow> tl_entry list \<Rightarrow> timelock \<Rightarrow> bool" for cd where
  tl_init: "tl_ops s = Map.empty \<Longrightarrow> tl_reach cd [] s"
| tl_tx: "tl_reach cd h s \<Longrightarrow> tl_apply cd e r ev s = Inr (s', made) \<Longrightarrow>
    tl_reach cd (h @ [(now e, get_min_delay s, ev, made)]) s'"

section \<open>Inversion of the operations\<close>

lemma invoke_all_Inr: "invoke_all r done cs = Inr made \<Longrightarrow> made = done @ cs"
  by (induction r "done" cs rule: invoke_all.induct) (auto split: if_splits)

lemma invoke_all_total: "\<forall>d c. r d c \<Longrightarrow> invoke_all r done cs = Inr (done @ cs)"
  by (induction r "done" cs rule: invoke_all.induct) auto

lemma require_role_Inr: "require_role e s role = Inr u \<longleftrightarrow> has_role s role (self e)"
  by (auto simp: require_role_def)

lemmas tl_role_defs = require_role_Inr require_admin_def

text \<open>What a committed schedule, cancel and execute have checked and done.\<close>

lemma schedule_batch_Inr:
  assumes "schedule_batch cd e calls p salt d s = Inr (s', i)"
  shows "get_min_delay s \<le> d" "i = hash_operation cd calls p salt" "tl_ops s i = None"
    "s' = s\<lparr>tl_ops := (tl_ops s)(i \<mapsto> \<lparr>op_id = i, op_predecessor = p, op_salt = salt,
            op_calls = calls, op_ready_at = now e + d,
            op_expires_at = now e + d + get_grace_period s, op_executed = False\<rparr>)\<rparr>"
    "p \<noteq> zero_hash \<Longrightarrow> tl_ops s p \<noteq> None"
  using assms
  by (auto simp: schedule_batch_def tl_role_defs Let_def split: if_splits)

lemma cancel_Inr:
  assumes "cancel e i s = Inr s'"
  obtains op where "tl_ops s i = Some op" "\<not> op_executed op"
    "s' = s\<lparr>tl_ops := (tl_ops s)(i \<mapsto> op\<lparr>op_executed := True\<rparr>)\<rparr>"
  using assms by (auto simp: cancel_def split: if_splits option.splits)

lemma execute_Inr:
  assumes "execute cd e r i s = Inr (s', made)"
  obtains op where "tl_ops s i = Some op" "\<not> op_executed op" "made = op_calls op"
    "op_ready_at op \<le> now e" "now e \<le> op_expires_at op"
    "hash_operation cd (op_calls op) (op_predecessor op) (op_salt op) = i"
    "op_predecessor op \<noteq> zero_hash \<Longrightarrow> is_operation_done s (op_predecessor op)"
    "s' = s\<lparr>tl_ops := (tl_ops s)(i \<mapsto> op\<lparr>op_executed := True\<rparr>)\<rparr>"
  using assms
  by (auto simp: execute_def Let_def is_operation_done_def dest!: invoke_all_Inr
      split: if_splits option.splits)

lemma tl_admin_frame:
  "grant_role e role a s = Inr s' \<Longrightarrow> tl_ops s' = tl_ops s \<and> tl_grace s' = tl_grace s"
  "revoke_role e role a s = Inr s' \<Longrightarrow> tl_ops s' = tl_ops s \<and> tl_grace s' = tl_grace s"
  "update_delay e d s = Inr s' \<Longrightarrow> tl_ops s' = tl_ops s \<and> tl_grace s' = tl_grace s"
  by (auto simp: grant_role_def revoke_role_def update_delay_def grant_role_internal_def)

text \<open>
  The four ways a transaction touches the operation table, as one elimination rule: it adds
  a fresh operation, marks a pending one executed (by cancelling or by executing it), or
  leaves the table alone. The grace period never changes.
\<close>

lemma tl_apply_cases:
  assumes "tl_apply cd e r ev s = Inr (s', made)"
  obtains (scheduled) calls p salt d where
      "ev = Schedule calls p salt d" "made = []" "get_min_delay s \<le> d"
      "tl_ops s (hash_operation cd calls p salt) = None"
      "tl_ops s' = (tl_ops s)(hash_operation cd calls p salt \<mapsto>
         \<lparr>op_id = hash_operation cd calls p salt, op_predecessor = p, op_salt = salt,
          op_calls = calls, op_ready_at = now e + d,
          op_expires_at = now e + d + get_grace_period s, op_executed = False\<rparr>)"
      "tl_grace s' = tl_grace s"
    | (closed) i op where
      "ev = Cancel i \<and> made = [] \<or>
       ev = Execute i \<and> made = op_calls op \<and> op_ready_at op \<le> now e \<and> now e \<le> op_expires_at op"
      "tl_ops s i = Some op" "\<not> op_executed op"
      "tl_ops s' = (tl_ops s)(i \<mapsto> op\<lparr>op_executed := True\<rparr>)" "tl_grace s' = tl_grace s"
    | (admin) "\<And>i. ev \<noteq> Execute i" "\<And>i. ev \<noteq> Cancel i" "made = []"
      "tl_ops s' = tl_ops s" "tl_grace s' = tl_grace s"
proof (cases ev)
  case (Schedule calls p salt d)
  with assms obtain i where sb: "schedule_batch cd e calls p salt d s = Inr (s', i)" and "made = []"
    by auto
  show thesis
    by (rule scheduled [OF Schedule \<open>made = []\<close> schedule_batch_Inr(1) [OF sb]])
      (use schedule_batch_Inr [OF sb] in simp_all)
next
  case (Cancel i)
  with assms have "cancel e i s = Inr s'" "made = []" by auto
  then show thesis by (elim cancel_Inr) (rule closed [of i], simp_all add: Cancel)
next
  case (Execute i)
  with assms have "execute cd e r i s = Inr (s', made)" by simp
  then show thesis by (elim execute_Inr) (rule closed [of i], simp_all add: Execute)
qed (use assms tl_admin_frame in \<open>auto intro!: admin\<close>)

section \<open>What the operation table knows about the history\<close>

text \<open>
  Each stored operation was scheduled under its own hash, with the delay it was asked for
  and the grace period, and it is marked executed exactly when one transaction closed it.
\<close>

definition scheduled_as :: "codec \<Rightarrow> nat \<Rightarrow> tl_entry list \<Rightarrow> bytes32 \<Rightarrow> operation \<Rightarrow> bool" where
  "scheduled_as cd grace h i op \<longleftrightarrow>
     i = hash_operation cd (op_calls op) (op_predecessor op) (op_salt op) \<and>
     (\<exists>t0 md d. (t0, md, Schedule (op_calls op) (op_predecessor op) (op_salt op) d, []) \<in> set h \<and>
        md \<le> d \<and> op_ready_at op = t0 + d \<and> op_expires_at op = t0 + d + grace)"

definition closings :: "bytes32 \<Rightarrow> tl_entry list \<Rightarrow> tl_entry list" where
  "closings i h = filter (\<lambda>(_, _, ev, _). ev = Cancel i \<or> ev = Execute i) h"

definition tl_inv :: "codec \<Rightarrow> tl_entry list \<Rightarrow> timelock \<Rightarrow> bool" where
  "tl_inv cd h s \<longleftrightarrow>
     (\<forall>i op. tl_ops s i = Some op \<longrightarrow> scheduled_as cd (get_grace_period s) h i op) \<and>
     (\<forall>i. length (closings i h) = (if is_operation_done s i then 1 else 0))"

lemma scheduled_as_snoc: "scheduled_as cd g h i op \<Longrightarrow> scheduled_as cd g (h @ [x]) i op"
  by (auto simp: scheduled_as_def)

lemma scheduled_as_executed [simp]:
  "scheduled_as cd g h i (op\<lparr>op_executed := b\<rparr>) = scheduled_as cd g h i op"
  by (simp add: scheduled_as_def)

lemma closings_simps [simp]:
  "closings i [] = []"
  "closings i (h @ [(t, md, Cancel j, m)]) = closings i h @ (if i = j then [(t, md, Cancel j, m)] else [])"
  "closings i (h @ [(t, md, Execute j, m)]) = closings i h @ (if i = j then [(t, md, Execute j, m)] else [])"
  by (auto simp: closings_def)

lemma closings_other:
  "(\<And>i. ev \<noteq> Execute i) \<Longrightarrow> (\<And>i. ev \<noteq> Cancel i) \<Longrightarrow> closings i (h @ [(t, md, ev, m)]) = closings i h"
  by (simp add: closings_def)

lemma scheduled_as_new:
  "md \<le> d \<Longrightarrow> scheduled_as cd g (h @ [(t, md, Schedule calls p salt d, [])])
     (hash_operation cd calls p salt)
     \<lparr>op_id = i, op_predecessor = p, op_salt = salt, op_calls = calls, op_ready_at = t + d,
      op_expires_at = t + d + g, op_executed = b\<rparr>"
  by (auto simp: scheduled_as_def)

lemma tl_apply_grace:
  "tl_apply cd e r ev s = Inr (s', made) \<Longrightarrow> get_grace_period s' = get_grace_period s"
  by (erule tl_apply_cases) (simp_all add: get_grace_period_def)

lemma tl_inv_init: "tl_ops s = Map.empty \<Longrightarrow> tl_inv cd [] s"
  by (simp add: tl_inv_def is_operation_done_def)

lemma tl_inv_step:
  assumes inv: "tl_inv cd h s" and tx: "tl_apply cd e r ev s = Inr (s', made)"
  shows "tl_inv cd (h @ [(now e, get_min_delay s, ev, made)]) s'"
  using tx
proof (cases rule: tl_apply_cases)
  case (scheduled calls p salt d)
  then show ?thesis
    using inv unfolding tl_inv_def
    by (auto simp: closings_other is_operation_done_def tl_apply_grace [OF tx] scheduled_as_snoc
        scheduled_as_new split: option.splits)
next
  case (closed i op)
  have "is_operation_done s' = (\<lambda>j. j = i \<or> is_operation_done s j)" "\<not> is_operation_done s i"
    using closed(2-4) by (auto simp: is_operation_done_def fun_eq_iff)
  moreover have "\<forall>j. length (closings j (h @ [(now e, get_min_delay s, ev, made)])) =
      length (closings j h) + (if j = i then 1 else 0)"
    using closed(1) by auto
  moreover have "\<forall>j op'. tl_ops s' j = Some op' \<longrightarrow>
      scheduled_as cd (get_grace_period s) (h @ [(now e, get_min_delay s, ev, made)]) j op'"
    using closed(2,4) inv by (auto simp: tl_inv_def scheduled_as_snoc)
  ultimately show ?thesis
    using inv unfolding tl_inv_def tl_apply_grace [OF tx] by simp
next
  case admin
  then show ?thesis
    using inv unfolding tl_inv_def
    by (auto simp: closings_other is_operation_done_def tl_apply_grace [OF tx] scheduled_as_snoc)
qed

lemma tl_reach_inv: "tl_reach cd h s \<Longrightarrow> tl_inv cd h s"
  by (induction rule: tl_reach.induct) (auto intro: tl_inv_init tl_inv_step)

lemma tl_reach_executed:
  assumes "tl_reach cd h s" "(t, md, Execute i, made) \<in> set h"
  shows "\<exists>t0 md0 p salt d. (t0, md0, Schedule made p salt d, []) \<in> set h \<and>
     i = hash_operation cd made p salt \<and> md0 \<le> d \<and>
     t0 + d \<le> t \<and> t \<le> t0 + d + get_grace_period s"
  using assms
proof (induction rule: tl_reach.induct)
  case (tl_tx h s e r ev s' m)
  have grace: "get_grace_period s' = get_grace_period s"
    by (rule tl_apply_grace [OF tl_tx.hyps(2)])
  show ?case
  proof (cases "(t, md, Execute i, made) \<in> set h")
    case True
    with tl_tx.IH show ?thesis unfolding grace by fastforce
  next
    case False
    with tl_tx.prems have eq: "t = now e" "ev = Execute i" "m = made" by auto
    from tl_tx.hyps(2) show ?thesis
    proof (cases rule: tl_apply_cases)
      case (closed j op)
      then have made: "made = op_calls op" "op_ready_at op \<le> t" "t \<le> op_expires_at op" "j = i"
        using eq by auto
      have "scheduled_as cd (get_grace_period s) h i op"
        using tl_reach_inv [OF tl_tx.hyps(1)] closed(2) made(4) by (simp add: tl_inv_def)
      then obtain t0 md0 d where
        "(t0, md0, Schedule made (op_predecessor op) (op_salt op) d, []) \<in> set h"
        "i = hash_operation cd made (op_predecessor op) (op_salt op)" "md0 \<le> d"
        "t0 + d \<le> t" "t \<le> t0 + d + get_grace_period s"
        using made unfolding scheduled_as_def by auto
      then show ?thesis unfolding grace by fastforce
    qed (use eq in auto)
  qed
qed simp

section \<open>Properties\<close>

text \<open>
  C10: Every operation the timelock executes was scheduled before, under the hash of its own
  calls, with a delay of at least the minimum delay in force at that time, and is executed no
  earlier than that delay and no later than the grace period after it.
\<close>

theorem timelock_delay_respected:
  assumes "tl_reach cd h s" and "(t, md, Execute i, made) \<in> set h"
  shows "\<exists>t0 md0 p salt d. (t0, md0, Schedule made p salt d, []) \<in> set h \<and>
           i = hash_operation cd made p salt \<and> md0 \<le> d \<and>
           t0 + d \<le> t \<and> t \<le> t0 + d + get_grace_period s"
  by (rule tl_reach_executed [OF assms])

text \<open>
  In a history of the timelock an operation is closed at most once: executed once, or
  cancelled once, and never both.
\<close>

theorem timelock_closes_once:
  assumes "tl_reach cd h s"
  shows "length (filter (\<lambda>(_, _, ev, _). ev = Cancel i \<or> ev = Execute i) h) \<le> 1"
  using tl_reach_inv [OF assms] by (simp add: tl_inv_def closings_def)

text \<open>
  A successful \<open>execute\<close> finds the operation ready and its predecessor done,
  makes exactly its calls in order, leaves it done and touches no other operation.
\<close>

theorem timelock_execute_order:
  assumes "execute cd e r i s = Inr (s', made)"
  shows "\<exists>op. tl_ops s i = Some op \<and> get_operation_state e s i = Ready \<and> made = op_calls op \<and>
           (op_predecessor op \<noteq> zero_hash \<longrightarrow> is_operation_done s (op_predecessor op)) \<and>
           get_operation_state e s' i = Done \<and> (\<forall>j. j \<noteq> i \<longrightarrow> tl_ops s' j = tl_ops s j)"
  using assms by (elim execute_Inr) (auto simp: get_operation_state_def)

text \<open>
  An operation that is blocked by an unmet predecessor becomes executable by cancelling that
  predecessor.
\<close>

theorem cancelled_predecessor_unblocks:
  assumes blocked: "execute cd e r i s = Inl (Error UnmetPredecessor)"
    and op: "tl_ops s i = Some op" and ne: "op_predecessor op \<noteq> i"
    and cancelled: "cancel e' (op_predecessor op) s = Inr s1"
    and returns: "\<forall>d c. r d c"
  shows "\<exists>s2. execute cd e r i s1 = Inr (s2, op_calls op)"
proof -
  obtain pop where p: "tl_ops s (op_predecessor op) = Some pop"
    and s1: "s1 = s\<lparr>tl_ops := (tl_ops s)(op_predecessor op \<mapsto> pop\<lparr>op_executed := True\<rparr>)\<rparr>"
    using cancelled by (elim cancel_Inr) blast
  have "has_role s1 EXECUTOR (self e)"
    using blocked by (auto simp: s1 execute_def rbind_eq_Inl require_role_def has_role_def
        split: if_splits)
  moreover have "\<not> op_executed op" "op_ready_at op \<le> now e" "now e \<le> op_expires_at op"
    "hash_operation cd (op_calls op) (op_predecessor op) (op_salt op) = i"
    using blocked op by (auto simp: execute_def rbind_eq_Inl require_role_def split: if_splits)
  ultimately show ?thesis
    using ne op by (simp add: execute_def require_role_def s1 Let_def invoke_all_total [OF returns])
qed

text \<open>
  Two different batches, one of two calls and one of a single call whose arguments continue
  with the second call's target and function, have the same operation id.
\<close>

theorem hash_ignores_call_boundaries:
  "hash_operation cd
     [\<lparr>call_target = t1, call_function = f1, call_args = as1\<rparr>,
      \<lparr>call_target = t2, call_function = f2, call_args = as2\<rparr>] p salt =
   hash_operation cd
     [\<lparr>call_target = t1, call_function = f1, call_args = as1 @ [VAddress t2, VSymbol f2] @ as2\<rparr>]
     p salt"
  by (simp add: hash_operation_def hash_operation_internal_def call_preimage_def)

text \<open>
  The outcome of every timelock transaction is the same whoever signs it: none of the handlers
  checks an authorisation.
\<close>

theorem timelock_ignores_caller:
  "tl_apply cd (e\<lparr>authed := a\<rparr>) r ev s = tl_apply cd e r ev s"
proof -
  have role: "require_role (e\<lparr>authed := a\<rparr>) s role = require_role e s role" for role s
    by (simp add: require_role_def)
  show ?thesis
    by (cases ev) (simp_all add: schedule_batch_def cancel_def execute_def grant_role_def
        revoke_role_def update_delay_def require_admin_def role cong: if_cong option.case_cong)
qed

section \<open>A concrete run\<close>

text \<open>
  A controller that holds all four roles itself, a hash that counts bytes, and the run that
  schedules one call and executes it ten seconds later: it discharges the hypotheses of the
  properties above.
\<close>

definition demo_codec :: codec where
  "demo_codec = \<lparr>to_xdr = (\<lambda>v. case v of VAddress a \<Rightarrow> [of_nat a]
       | VSymbol f \<Rightarrow> map (\<lambda>c. of_nat (of_char c)) f | VOther n \<Rightarrow> [of_int n]),
     sha256 = (\<lambda>bs. of_nat (length bs))\<rparr>"

definition demo_env :: "nat \<Rightarrow> env" where
  "demo_env t = \<lparr>now = t, sequence = t, self = 7, authed = (\<lambda>_. False), tok_ok = (\<lambda>_ _. True),
     tok_delta = (\<lambda>_ _. 0)\<rparr>"

definition demo_call :: "string \<Rightarrow> call" where
  "demo_call f = \<lparr>call_target = 1, call_function = f, call_args = []\<rparr>"

definition demo_start :: timelock where
  "demo_start = tl_constructor 7 [7] [7] [7] 10
     \<lparr>tl_min_delay = None, tl_grace = None, tl_ops = Map.empty, tl_roles = Map.empty\<rparr>"

lemma demo_env_simps [simp]: "now (demo_env t) = t" "self (demo_env t) = 7"
  by (simp_all add: demo_env_def)

lemma demo_hash: "hash_operation demo_codec [demo_call f] p salt = of_nat (length f + 65)"
  by (simp add: hash_operation_def hash_operation_internal_def call_preimage_def demo_codec_def
      demo_call_def to_array_def)

lemma demo_start_simps [simp]:
  "has_role demo_start PROPOSER 7" "has_role demo_start EXECUTOR 7"
  "has_role demo_start CANCELLER 7" "get_min_delay demo_start = 10"
  "get_grace_period demo_start = DEFAULT_GRACE_PERIOD" "tl_ops demo_start = Map.empty"
  by (simp_all add: demo_start_def tl_constructor_def grant_role_internal_def has_role_def
      get_min_delay_def get_grace_period_def Let_def PROPOSER_def EXECUTOR_def CANCELLER_def
      ADMIN_def)

definition demo_op :: "string \<Rightarrow> bytes32 \<Rightarrow> nat \<Rightarrow> operation" where
  "demo_op f p t = \<lparr>op_id = of_nat (length f + 65), op_predecessor = p, op_salt = 0,
     op_calls = [demo_call f], op_ready_at = t + 10,
     op_expires_at = t + 10 + DEFAULT_GRACE_PERIOD, op_executed = False\<rparr>"

definition demo_scheduled :: timelock where
  "demo_scheduled = demo_start\<lparr>tl_ops := [69 \<mapsto> demo_op ''ping'' 0 100]\<rparr>"

definition demo_executed :: timelock where
  "demo_executed =
     demo_start\<lparr>tl_ops := [69 \<mapsto> (demo_op ''ping'' 0 100)\<lparr>op_executed := True\<rparr>]\<rparr>"

lemma demo_schedules:
  "tl_apply demo_codec (demo_env 100) r (Schedule [demo_call ''ping''] 0 0 10) demo_start =
     Inr (demo_scheduled, [])"
  by (simp add: schedule_batch_def require_role_def Let_def demo_hash u64_def u64_max_def
      zero_hash_def demo_scheduled_def demo_op_def DEFAULT_GRACE_PERIOD_def)

lemma demo_executes:
  "execute demo_codec (demo_env 110) (\<lambda>_ _. True) 69 demo_scheduled =
     Inr (demo_executed, [demo_call ''ping''])"
  by (simp add: execute_def require_role_def has_role_def demo_scheduled_def Let_def
      demo_op_def demo_hash zero_hash_def demo_executed_def
      demo_start_simps(2) [unfolded has_role_def])

lemma demo_reach:
  "tl_reach demo_codec
     [(100, 10, Schedule [demo_call ''ping''] 0 0 10, []),
      (110, 10, Execute 69, [demo_call ''ping''])] demo_executed"
proof -
  have "tl_reach demo_codec [] demo_start" by (rule tl_init) simp
  from tl_tx [OF this demo_schedules [of "\<lambda>_ _. True"]]
  have "tl_reach demo_codec [(100, 10, Schedule [demo_call ''ping''] 0 0 10, [])] demo_scheduled"
    by simp
  moreover have "tl_apply demo_codec (demo_env 110) (\<lambda>_ _. True) (Execute 69) demo_scheduled =
      Inr (demo_executed, [demo_call ''ping''])"
    by (simp add: demo_executes)
  ultimately show ?thesis
    using tl_tx [of demo_codec _ demo_scheduled "demo_env 110"]
    by (fastforce simp: demo_scheduled_def get_min_delay_def
        demo_start_simps(4) [unfolded get_min_delay_def])
qed

theorem timelock_delay_respected_witness:
  "\<exists>t0 md0 p salt d. (t0, md0, Schedule [demo_call ''ping''] p salt d, []) \<in> set
       [(100, 10, Schedule [demo_call ''ping''] 0 0 10, []),
        (110, 10, Execute 69, [demo_call ''ping''])] \<and> t0 + d \<le> 110"
  using timelock_delay_respected [OF demo_reach, of 110 10 69 "[demo_call ''ping'']"] by fastforce

theorem timelock_closes_once_witness:
  "length (filter (\<lambda>(_, _, ev, _). ev = Cancel 69 \<or> ev = Execute 69)
     [(100::nat, 10::nat, Schedule [demo_call ''ping''] 0 0 10, []),
      (110, 10, Execute 69, [demo_call ''ping''])]) \<le> 1"
  by (rule timelock_closes_once [OF demo_reach])

theorem timelock_execute_order_witness:
  "get_operation_state (demo_env 110) demo_scheduled 69 = Ready \<and>
   get_operation_state (demo_env 110) demo_executed 69 = Done"
  using timelock_execute_order [OF demo_executes] by blast

text \<open>
  Two operations, the second naming the first as its predecessor: executing the second is
  refused, and accepted once the first has been cancelled.
\<close>

definition demo_pair :: timelock where
  "demo_pair = demo_start\<lparr>tl_ops :=
     [69 \<mapsto> demo_op ''ping'' 0 100, 70 \<mapsto> demo_op ''pong!'' 69 100]\<rparr>"

lemma demo_pair_roles:
  "has_role demo_pair EXECUTOR 7" "has_role demo_pair CANCELLER 7"
  using demo_start_simps(2,3) by (simp_all add: demo_pair_def has_role_def)

lemma demo_pair_blocked:
  "execute demo_codec (demo_env 110) r 70 demo_pair = Inl (Error UnmetPredecessor)"
  using demo_pair_roles
  by (simp add: execute_def require_role_def) (simp add: demo_pair_def Let_def demo_op_def
      demo_hash zero_hash_def DEFAULT_GRACE_PERIOD_def)

lemma demo_pair_cancel: "\<exists>s1. cancel (demo_env 105) 69 demo_pair = Inr s1"
  using demo_pair_roles
  by (simp add: cancel_def require_role_def) (simp add: demo_pair_def demo_op_def)

theorem cancelled_predecessor_unblocks_witness:
  "\<exists>s1 s2. cancel (demo_env 105) 69 demo_pair = Inr s1 \<and>
     execute demo_codec (demo_env 110) (\<lambda>_ _. True) 70 s1 = Inr (s2, [demo_call ''pong!''])"
proof -
  obtain s1 where s1: "cancel (demo_env 105) 69 demo_pair = Inr s1"
    using demo_pair_cancel by blast
  have "\<exists>s2. execute demo_codec (demo_env 110) (\<lambda>_ _. True) 70 s1 =
      Inr (s2, op_calls (demo_op ''pong!'' 69 100))"
    by (rule cancelled_predecessor_unblocks [OF demo_pair_blocked _ _ _])
      (use s1 in \<open>simp_all add: demo_pair_def demo_op_def\<close>)
  with s1 show ?thesis by (simp add: demo_op_def)
qed

end
