(* ===== verification/Fee_Router.thy ===== *)
theory Fee_Router
  imports Prelude
begin

text \<open>
  The fee router of \<open>fee_router/src/lib.rs\<close>: it records incoming fees per token, splits
  them among weighted sinks, lets each sink claim its share, and changes the weights behind
  a delay. \<open>Address::len\<close>, which the code calls to bound an account's length, is not a
  function of the SDK in the repository; it is the parameter \<open>alen\<close>.
\<close>

section \<open>Data\<close>

definition TOTAL_BPS :: nat where "TOTAL_BPS = 10000"
definition MAX_SINKS :: nat where "MAX_SINKS = 16"
definition MAX_ACCOUNT_LEN :: nat where "MAX_ACCOUNT_LEN = 64"

record Sink =
  sink_account :: address
  sink_weight :: nat

record PendingWeights =
  pw_sinks :: "Sink list"
  pw_executable_at :: nat

datatype FeeRouterError =
    Unauthorized | TooManySinks | WeightsMustSumToTotal | EmptySinks | DuplicateSink
  | NoPendingWeights | TimelockNotElapsed | UnknownToken | NothingToClaim | TransferFailed
  | InvalidAccountLength

record fee_router =
  fr_governance :: "address option"
  fr_weight_delay :: "nat option"
  fr_sinks :: "Sink list option"
  fr_pending :: "PendingWeights option"
  fr_balance :: "address \<Rightarrow> int option"
  fr_claimable :: "address \<times> address \<Rightarrow> int option"

section \<open>Validation\<close>

text \<open>
  The loop of \<open>validate_sinks\<close>: \<open>seen\<close> are the accounts before position \<open>i\<close>, and
  the weights are added with \<open>u32::saturating_add\<close>.
\<close>

fun validate_loop :: "(address \<Rightarrow> nat) \<Rightarrow> address list \<Rightarrow> nat \<Rightarrow> Sink list
    \<Rightarrow> (FeeRouterError, nat) res" where
  "validate_loop alen seen acc [] = Inr acc"
| "validate_loop alen seen acc (s # ss) =
     (if alen (sink_account s) > MAX_ACCOUNT_LEN then Inl (Error InvalidAccountLength)
      else if sink_account s \<in> set seen then Inl (Error DuplicateSink)
      else validate_loop alen (seen @ [sink_account s]) (sat_u32 (acc + sink_weight s)) ss)"

definition validate_sinks :: "(address \<Rightarrow> nat) \<Rightarrow> Sink list \<Rightarrow> (FeeRouterError, unit) res" where
  "validate_sinks alen sinks =
     (if sinks = [] then Inl (Error EmptySinks)
      else if length sinks > MAX_SINKS then Inl (Error TooManySinks)
      else rbind (validate_loop alen [] 0 sinks) (\<lambda>acc.
             if acc \<noteq> TOTAL_BPS then Inl (Error WeightsMustSumToTotal) else Inr ()))"

section \<open>Entry points\<close>

definition fr_initialize :: "(address \<Rightarrow> nat) \<Rightarrow> address \<Rightarrow> nat \<Rightarrow> Sink list \<Rightarrow> fee_router
    \<Rightarrow> (FeeRouterError, fee_router) res" where
  "fr_initialize alen governance weight_delay sinks s =
     rbind (validate_sinks alen sinks) (\<lambda>_.
       Inr (s\<lparr>fr_governance := Some governance, fr_weight_delay := Some weight_delay,
              fr_sinks := Some sinks\<rparr>))"

definition fr_balance_of :: "fee_router \<Rightarrow> address \<Rightarrow> int" where
  "fr_balance_of s token = or0 (fr_balance s token)"

definition claimable :: "fee_router \<Rightarrow> address \<Rightarrow> address \<Rightarrow> int" where
  "claimable s sink token = or0 (fr_claimable s (sink, token))"

definition on_fee_received :: "address \<Rightarrow> int \<Rightarrow> fee_router \<Rightarrow> (FeeRouterError, fee_router) res" where
  "on_fee_received token amount s =
     (if amount \<le> 0 then Inr s
      else rbind (i128 (or0 (fr_balance s token) + amount)) (\<lambda>b.
             Inr (s\<lparr>fr_balance := (fr_balance s)(token \<mapsto> b)\<rparr>)))"

fun distribute_loop :: "address \<Rightarrow> int \<Rightarrow> nat \<Rightarrow> int \<Rightarrow> Sink list
    \<Rightarrow> (address \<times> address \<Rightarrow> int option) \<Rightarrow> (FeeRouterError, address \<times> address \<Rightarrow> int option) res"
  where
  "distribute_loop token t i distributed [] cl = Inr cl"
| "distribute_loop token t i distributed (s # ss) cl =
     rbind (if i = 0 then i128 (t - distributed)
            else rbind (i128 (t * int (sink_weight s))) (\<lambda>p. Inr (p sdiv int TOTAL_BPS)))
       (\<lambda>share.
     rbind (i128 (distributed + share)) (\<lambda>distributed'.
       if share > 0 then
         rbind (i128 (or0 (cl (sink_account s, token)) + share)) (\<lambda>c.
           distribute_loop token t (Suc i) distributed' ss (cl((sink_account s, token) \<mapsto> c)))
       else distribute_loop token t (Suc i) distributed' ss cl))"

definition distribute :: "address \<Rightarrow> fee_router \<Rightarrow> (FeeRouterError, fee_router) res" where
  "distribute token s =
     (let t = or0 (fr_balance s token)
      in if t = 0 then Inl (Error UnknownToken)
         else
           rbind (unwrap (fr_sinks s)) (\<lambda>sinks.
           rbind (distribute_loop token t 0 0 sinks (fr_claimable s)) (\<lambda>cl.
             Inr (s\<lparr>fr_claimable := cl, fr_balance := (fr_balance s)(token \<mapsto> 0)\<rparr>))))"

definition claim :: "env \<Rightarrow> address \<Rightarrow> address \<Rightarrow> fee_router
    \<Rightarrow> (FeeRouterError, fee_router \<times> int \<times> xfer list) res" where
  "claim e sink token s =
     rbind (require_auth e sink) (\<lambda>_.
       let amount = or0 (fr_claimable s (sink, token))
       in if amount = 0 then Inl (Error NothingToClaim)
          else
            rbind (transfer e token (self e) sink amount []) (\<lambda>tr.
              let received = sat_i128 (tok_delta e [] (hd tr))
              in Inr (s\<lparr>fr_claimable := (fr_claimable s)((sink, token) \<mapsto> 0)\<rparr>, received, tr)))"

definition propose_weights :: "(address \<Rightarrow> nat) \<Rightarrow> env \<Rightarrow> address \<Rightarrow> Sink list \<Rightarrow> fee_router
    \<Rightarrow> (FeeRouterError, fee_router) res" where
  "propose_weights alen e caller sinks s =
     rbind (require_auth e caller) (\<lambda>_.
     rbind (unwrap (fr_governance s)) (\<lambda>governance.
       if caller \<noteq> governance then Inl (Error Unauthorized)
       else
         rbind (validate_sinks alen sinks) (\<lambda>_.
         rbind (unwrap (fr_weight_delay s)) (\<lambda>delay.
         rbind (u64 (now e + delay)) (\<lambda>at.
           Inr (s\<lparr>fr_pending := Some \<lparr>pw_sinks = sinks, pw_executable_at = at\<rparr>\<rparr>))))))"

definition apply_weights :: "env \<Rightarrow> address \<Rightarrow> fee_router \<Rightarrow> (FeeRouterError, fee_router) res" where
  "apply_weights e caller s =
     rbind (require_auth e caller) (\<lambda>_.
     rbind (unwrap (fr_governance s)) (\<lambda>governance.
       if caller \<noteq> governance then Inl (Error Unauthorized)
       else case fr_pending s of
              None \<Rightarrow> Inl (Error NoPendingWeights)
            | Some pending \<Rightarrow>
                if now e < pw_executable_at pending then Inl (Error TimelockNotElapsed)
                else Inr (s\<lparr>fr_sinks := Some (pw_sinks pending), fr_pending := None\<rparr>)))"

definition pending_executable_at :: "fee_router \<Rightarrow> nat option" where
  "pending_executable_at s = map_option pw_executable_at (fr_pending s)"

section \<open>What validation ensures\<close>

definition valid_sinks :: "(address \<Rightarrow> nat) \<Rightarrow> Sink list \<Rightarrow> bool" where
  "valid_sinks alen sinks \<longleftrightarrow>
     sinks \<noteq> [] \<and> length sinks \<le> MAX_SINKS \<and> distinct (map sink_account sinks) \<and>
     (\<Sum>s\<leftarrow>sinks. sink_weight s) = TOTAL_BPS \<and>
     (\<forall>s\<in>set sinks. alen (sink_account s) \<le> MAX_ACCOUNT_LEN)"

lemma sat_u32_sum: "min (min a m + b) m = min (a + b) (m :: nat)"
  by (simp add: min_def)

lemma validate_loop_eq:
  "validate_loop alen seen n sinks = Inr r \<longleftrightarrow>
     distinct (map sink_account sinks) \<and> set seen \<inter> sink_account ` set sinks = {} \<and>
     (\<forall>s\<in>set sinks. alen (sink_account s) \<le> MAX_ACCOUNT_LEN) \<and>
     r = (if sinks = [] then n else sat_u32 (n + (\<Sum>s\<leftarrow>sinks. sink_weight s)))"
proof (induction alen seen n sinks rule: validate_loop.induct)
  case (2 alen seen n s ss)
  have sat: "sat_u32 (sat_u32 (n + sink_weight s) + k) = sat_u32 (n + (sink_weight s + k))" for k
    by (simp add: sat_u32_def sat_u32_sum add.assoc)
  have sat0: "sat_u32 (sat_u32 k) = sat_u32 k" for k by (simp add: sat_u32_def)
  show ?case
  proof (cases "alen (sink_account s) > MAX_ACCOUNT_LEN \<or> sink_account s \<in> set seen")
    case True
    then show ?thesis by auto
  next
    case False
    with "2.IH" show ?thesis by (auto simp: sat sat0)
  qed
qed auto

lemma validate_sinks_eq: "validate_sinks alen sinks = Inr u \<longleftrightarrow> valid_sinks alen sinks"
  by (auto simp: validate_sinks_def valid_sinks_def validate_loop_eq sat_u32_def u32_max_def
      TOTAL_BPS_def split: if_splits)

section \<open>Distribution\<close>

definition sink_share :: "int \<Rightarrow> Sink \<Rightarrow> int" where
  "sink_share t s = t * int (sink_weight s) div int TOTAL_BPS"

lemma sink_share_nonneg: "0 \<le> t \<Longrightarrow> 0 \<le> sink_share t s"
  by (simp add: sink_share_def TOTAL_BPS_def mult_div_nonneg)

text \<open>
  The iterations after the first add each sink's share to its entry and touch no other; the
  first iteration credits the whole balance, since nothing has been distributed before it.
\<close>

lemma distribute_tail:
  assumes "distribute_loop token t (Suc i) d ss cl = Inr cl'" "0 \<le> t"
    and "distinct (map sink_account ss)"
  shows "(\<forall>k. k \<notin> (\<lambda>s. (sink_account s, token)) ` set ss \<longrightarrow> cl' k = cl k) \<and>
         (\<forall>s\<in>set ss. or0 (cl' (sink_account s, token)) =
            or0 (cl (sink_account s, token)) + sink_share t s)"
  using assms
proof (induction ss arbitrary: i d cl)
  case (Cons s ss)
  have nn: "0 \<le> t * int (sink_weight s)" using Cons.prems(2) by simp
  have share: "(t * int (sink_weight s)) sdiv int TOTAL_BPS = sink_share t s"
    using sdiv_nonneg [OF nn] by (simp add: sink_share_def TOTAL_BPS_def)
  have ex: "or0 (if 0 < sink_share t s then Some (or0 x + sink_share t s) else x) = or0 x + sink_share t s"
    for x using sink_share_nonneg [OF Cons.prems(2), of s] by (auto simp: or0_def split: option.splits)
  define cl1 where "cl1 = (if 0 < sink_share t s
      then cl((sink_account s, token) \<mapsto> or0 (cl (sink_account s, token)) + sink_share t s) else cl)"
  have rest: "distribute_loop token t (Suc (Suc i)) (d + sink_share t s) ss cl1 = Inr cl'"
    using Cons.prems(1) by (auto simp: share cl1_def split: if_splits)
  have IH: "(\<forall>k. k \<notin> (\<lambda>s. (sink_account s, token)) ` set ss \<longrightarrow> cl' k = cl1 k) \<and>
      (\<forall>s\<in>set ss. or0 (cl' (sink_account s, token)) =
         or0 (cl1 (sink_account s, token)) + sink_share t s)"
    using Cons.prems by (intro Cons.IH [OF rest]) simp_all
  have new: "(sink_account s, token) \<notin> (\<lambda>s. (sink_account s, token)) ` set ss"
    using Cons.prems(3) by auto
  have cl1: "k \<noteq> (sink_account s, token) \<Longrightarrow> cl1 k = cl k"
    "or0 (cl1 (sink_account s, token)) = or0 (cl (sink_account s, token)) + sink_share t s" for k
    using ex [of "cl (sink_account s, token)"] by (auto simp: cl1_def)
  have other: "cl1 (sink_account x, token) = cl (sink_account x, token)" if x: "x \<in> set ss" for x
  proof (rule cl1(1))
    from x have "sink_account x \<in> sink_account ` set ss" by (rule imageI)
    then show "(sink_account x, token) \<noteq> (sink_account s, token)" using Cons.prems(3) by auto
  qed
  show ?case
    using IH new cl1 other by auto
qed auto

lemma distribute_Inr:
  assumes dist: "distribute token s = Inr s'" and nn: "0 \<le> fr_balance_of s token"
    and sinks: "fr_sinks s = Some (s0 # ss)" "distinct (map sink_account (s0 # ss))"
  shows "0 < fr_balance_of s token" "fr_balance_of s' token = 0" "fr_sinks s' = fr_sinks s"
    "claimable s' (sink_account s0) token =
       claimable s (sink_account s0) token + fr_balance_of s token"
    "x \<in> set ss \<Longrightarrow> claimable s' (sink_account x) token =
       claimable s (sink_account x) token + sink_share (fr_balance_of s token) x"
proof -
  let ?t = "fr_balance_of s token"
  obtain cl' where loop: "distribute_loop token ?t 0 0 (s0 # ss) (fr_claimable s) = Inr cl'"
    and t: "?t \<noteq> 0"
    and s': "s' = s\<lparr>fr_claimable := cl', fr_balance := (fr_balance s)(token \<mapsto> 0)\<rparr>"
    using dist sinks(1) by (auto simp: distribute_def fr_balance_of_def Let_def split: if_splits)
  from t nn show pos: "0 < ?t" by simp
  let ?cl = "(fr_claimable s)((sink_account s0, token) \<mapsto>
      or0 (fr_claimable s (sink_account s0, token)) + ?t)"
  have "distribute_loop token ?t (Suc 0) ?t ss ?cl = Inr cl'"
    using loop pos by auto
  from distribute_tail [OF this] sinks(2) nn
  have frame: "\<And>k. k \<notin> (\<lambda>s. (sink_account s, token)) ` set ss \<Longrightarrow> cl' k = ?cl k"
    and share: "\<And>x. x \<in> set ss \<Longrightarrow> or0 (cl' (sink_account x, token)) =
        or0 (?cl (sink_account x, token)) + sink_share ?t x"
    by auto
  show "fr_balance_of s' token = 0" "fr_sinks s' = fr_sinks s"
    by (simp_all add: s' fr_balance_of_def or0_def)
  have "(sink_account s0, token) \<notin> (\<lambda>s. (sink_account s, token)) ` set ss"
    using sinks(2) by auto
  then show "claimable s' (sink_account s0) token = claimable s (sink_account s0) token + ?t"
    by (simp add: claimable_def s' frame) (simp add: or0_def)
  show "claimable s' (sink_account x) token = claimable s (sink_account x) token + sink_share ?t x"
    if x: "x \<in> set ss"
  proof -
    from x have "sink_account x \<in> sink_account ` set ss" by (rule imageI)
    then have "sink_account x \<noteq> sink_account s0" using sinks(2) by auto
    then show ?thesis using share [OF x] by (simp add: claimable_def s')
  qed
qed

text \<open>
  C39: \<open>distribute\<close> credits the sinks with more than it distributes: the first
  sink gets the whole balance and every other one its share on top of that.
\<close>

theorem distribute_over_credits:
  assumes "distribute token s = Inr s'" "0 \<le> fr_balance_of s token"
    and "fr_sinks s = Some sinks" "valid_sinks alen sinks"
  shows "fr_balance_of s' token = 0 \<and>
    (\<Sum>x\<leftarrow>sinks. claimable s' (sink_account x) token) =
      (\<Sum>x\<leftarrow>sinks. claimable s (sink_account x) token) + fr_balance_of s token +
      (\<Sum>x\<leftarrow>tl sinks. fr_balance_of s token * int (sink_weight x) div 10000)"
proof -
  obtain s0 ss where sinks: "sinks = s0 # ss"
    using assms(4) by (cases sinks) (auto simp: valid_sinks_def)
  have d: "distinct (map sink_account (s0 # ss))" using assms(4) by (simp add: valid_sinks_def sinks)
  note dist = distribute_Inr [OF assms(1,2) assms(3) [unfolded sinks] d]
  have "(\<Sum>x\<leftarrow>ss. claimable s' (sink_account x) token) =
      (\<Sum>x\<leftarrow>ss. claimable s (sink_account x) token + sink_share (fr_balance_of s token) x)"
    by (rule arg_cong [where f = sum_list], rule map_cong [OF refl]) (rule dist(5))
  then show ?thesis
    using dist(2,4) by (simp add: sinks sum_list_addf sink_share_def TOTAL_BPS_def)
qed

theorem distribute_over_credits_witness:
  "\<exists>s'. distribute 9 \<lparr>fr_governance = None, fr_weight_delay = None,
        fr_sinks = Some [\<lparr>sink_account = 1, sink_weight = 5000\<rparr>, \<lparr>sink_account = 2, sink_weight = 5000\<rparr>],
        fr_pending = None, fr_balance = [9 \<mapsto> 1000], fr_claimable = Map.empty\<rparr> = Inr s' \<and>
      claimable s' 1 9 + claimable s' 2 9 = 1500"
proof -
  let ?sinks = "[\<lparr>sink_account = 1, sink_weight = 5000\<rparr>, \<lparr>sink_account = 2, sink_weight = 5000\<rparr>]"
  let ?s = "\<lparr>fr_governance = None, fr_weight_delay = None, fr_sinks = Some ?sinks,
        fr_pending = None, fr_balance = [9 \<mapsto> 1000], fr_claimable = Map.empty\<rparr>"
  have small: "in_i128 1000" "in_i128 5000000" "in_i128 1500" "in_i128 500"
    by (simp_all add: in_i128_small)
  have bal: "fr_balance_of ?s 9 = 1000" by (simp add: fr_balance_of_def or0_def)
  have "\<exists>s'. distribute 9 ?s = Inr s'"
    using small by (simp add: distribute_def or0_def TOTAL_BPS_def sdiv_nonneg)
  then obtain s' where s': "distribute 9 ?s = Inr s'" by blast
  have "valid_sinks (\<lambda>_. 56) ?sinks"
    by (simp add: valid_sinks_def MAX_SINKS_def TOTAL_BPS_def MAX_ACCOUNT_LEN_def)
  from distribute_over_credits [OF s' _ _ this] bal s' show ?thesis
    by (simp add: claimable_def or0_def)
qed

section \<open>Claims and governance\<close>

text \<open>
  A successful \<open>claim\<close> is signed by the sink, makes one transfer of exactly what
  the sink could claim, zeroes that entry and no other, and a second claim fails with
  \<open>NothingToClaim\<close>.
\<close>

theorem claim_pays_once:
  assumes "claim e sink token s = Inr (s', received, tr)"
  shows "authed e sink \<and>
    tr = [\<lparr>x_token = token, x_from = self e, x_to = sink, x_amount = claimable s sink token\<rparr>] \<and>
    claimable s sink token \<noteq> 0 \<and> claimable s' sink token = 0 \<and>
    (\<forall>a t. (a, t) \<noteq> (sink, token) \<longrightarrow> claimable s' a t = claimable s a t) \<and>
    claim e' sink token s' = (if authed e' sink then Inl (Error NothingToClaim) else Inl NoAuth)"
  using assms
  by (auto simp: claim_def claimable_def transfer_eq_Inr Let_def or0_def require_auth_def
      split: if_splits)

theorem claim_pays_once_witness:
  "\<exists>s' r tr. claim (plain_env 0) 1 9 \<lparr>fr_governance = None, fr_weight_delay = None,
        fr_sinks = None, fr_pending = None, fr_balance = Map.empty,
        fr_claimable = [(1, 9) \<mapsto> 40]\<rparr> = Inr (s', r, tr) \<and> claimable s' 1 9 = 0"
proof -
  let ?s = "\<lparr>fr_governance = None, fr_weight_delay = None, fr_sinks = None, fr_pending = None,
        fr_balance = Map.empty, fr_claimable = [(1, 9) \<mapsto> 40]\<rparr>"
  obtain s' r tr where c: "claim (plain_env 0) 1 9 ?s = Inr (s', r, tr)"
    by (simp add: claim_def require_auth_def transfer_def or0_def Let_def)
  show ?thesis using claim_pays_once [OF c, of "plain_env 0"] c by blast
qed

text \<open>
  The entry points that write the sink set, and the invariant they keep: every stored set,
  active or proposed, was validated.
\<close>

datatype fr_event =
    FrInit address nat "Sink list"
  | FrFee address int
  | FrDistribute address
  | FrClaim address address
  | FrPropose address "Sink list"
  | FrApply address

fun fr_apply :: "(address \<Rightarrow> nat) \<Rightarrow> env \<Rightarrow> fr_event \<Rightarrow> fee_router \<Rightarrow> (FeeRouterError, fee_router) res"
  where
  "fr_apply alen e (FrInit g d ss) s = fr_initialize alen g d ss s"
| "fr_apply alen e (FrFee token a) s = on_fee_received token a s"
| "fr_apply alen e (FrDistribute token) s = distribute token s"
| "fr_apply alen e (FrClaim sink token) s = rbind (claim e sink token s) (\<lambda>(s', _, _). Inr s')"
| "fr_apply alen e (FrPropose c ss) s = propose_weights alen e c ss s"
| "fr_apply alen e (FrApply c) s = apply_weights e c s"

definition fr_inv :: "(address \<Rightarrow> nat) \<Rightarrow> fee_router \<Rightarrow> bool" where
  "fr_inv alen s \<longleftrightarrow>
     (\<forall>ss. fr_sinks s = Some ss \<longrightarrow> valid_sinks alen ss) \<and>
     (\<forall>p. fr_pending s = Some p \<longrightarrow> valid_sinks alen (pw_sinks p))"

lemmas fr_defs = fr_initialize_def on_fee_received_def distribute_def claim_def
  propose_weights_def apply_weights_def Let_def

text \<open>
  The fee router's stored sinks, current and pending, are valid after every transaction, and
  the current ones change only by an initialisation or by governance applying a pending
  proposal after its delay.
\<close>

theorem sinks_always_valid:
  assumes "fr_inv alen s" "fr_apply alen e ev s = Inr s'"
  shows "fr_inv alen s' \<and>
    (fr_sinks s' \<noteq> fr_sinks s \<longrightarrow> (\<exists>g d ss. ev = FrInit g d ss) \<or>
      (\<exists>c p. ev = FrApply c \<and> fr_governance s = Some c \<and> authed e c \<and>
         fr_pending s = Some p \<and> pw_executable_at p \<le> now e \<and> fr_sinks s' = Some (pw_sinks p)))"
  using assms
  by (cases ev) (auto simp: fr_inv_def fr_defs validate_sinks_eq split: if_splits option.splits)

theorem sinks_always_valid_witness:
  "\<exists>s'. fr_apply (\<lambda>_. 56) (plain_env 0) (FrInit 3 100 [\<lparr>sink_account = 1, sink_weight = 10000\<rparr>])
      \<lparr>fr_governance = None, fr_weight_delay = None, fr_sinks = None, fr_pending = None,
       fr_balance = Map.empty, fr_claimable = Map.empty\<rparr> = Inr s' \<and> fr_inv (\<lambda>_. 56) s'"
proof -
  let ?s = "\<lparr>fr_governance = None, fr_weight_delay = None, fr_sinks = None, fr_pending = None,
       fr_balance = Map.empty, fr_claimable = Map.empty\<rparr>"
  let ?ev = "FrInit 3 100 [\<lparr>sink_account = 1, sink_weight = 10000\<rparr>]"
  have v: "valid_sinks (\<lambda>_. 56) [\<lparr>sink_account = 1, sink_weight = 10000\<rparr>]"
    by (simp add: valid_sinks_def MAX_SINKS_def TOTAL_BPS_def MAX_ACCOUNT_LEN_def)
  then have "validate_sinks (\<lambda>_. 56) [\<lparr>sink_account = 1, sink_weight = 10000\<rparr>] = Inr ()"
    by (simp add: validate_sinks_eq)
  then obtain s' where s': "fr_apply (\<lambda>_. 56) (plain_env 0) ?ev ?s = Inr s'"
    by (simp add: fr_initialize_def)
  have "fr_inv (\<lambda>_. 56) ?s" by (simp add: fr_inv_def)
  from sinks_always_valid [OF this s'] s' show ?thesis by blast
qed

text \<open>
  \<open>initialize\<close> of the fee router succeeds in every state, for any caller with
  valid sinks, and replaces governance and sinks while the balances stay.
\<close>

theorem initialize_takes_over:
  assumes "valid_sinks alen ss"
  shows "\<exists>s'. fr_apply alen e (FrInit g d ss) s = Inr s' \<and>
    fr_governance s' = Some g \<and> fr_sinks s' = Some ss \<and>
    fr_balance s' = fr_balance s \<and> fr_claimable s' = fr_claimable s"
  using assms by (auto simp: fr_initialize_def validate_sinks_eq)

theorem initialize_takes_over_witness:
  "\<exists>s'. fr_apply (\<lambda>_. 56) (plain_env 0) (FrInit 66 0 [\<lparr>sink_account = 66, sink_weight = 10000\<rparr>])
      \<lparr>fr_governance = Some 3, fr_weight_delay = Some 100,
       fr_sinks = Some [\<lparr>sink_account = 1, sink_weight = 10000\<rparr>], fr_pending = None,
       fr_balance = [9 \<mapsto> 1000], fr_claimable = Map.empty\<rparr> = Inr s' \<and>
     fr_governance s' = Some 66"
  using initialize_takes_over [of "\<lambda>_. 56" "[\<lparr>sink_account = 66, sink_weight = 10000\<rparr>]" "plain_env 0" 66 0]
  by (fastforce simp: valid_sinks_def MAX_SINKS_def TOTAL_BPS_def MAX_ACCOUNT_LEN_def)

end
