(* ===== verification/Solver_Registry.thy ===== *)
theory Solver_Registry
  imports Prelude Timelocked_Slot
begin

text \<open>
  The solver registry of \<open>solver_registry/src/lib.rs\<close>: bonds, fill statistics, the
  reputation score and the tier it earns, slashing by tier, and the obligation locks that
  keep a bond in place while intents are open. The bond token and the host's storage
  lifetimes are outside the model; the score keeps the code's 64-bit cast.
\<close>

section \<open>Constants and data\<close>

definition USDC :: int where "USDC = 10000000"
definition TIER_COUNT :: nat where "TIER_COUNT = 5"
definition DEFAULT_THRESHOLDS :: "(int \<times> nat) list" where
  "DEFAULT_THRESHOLDS = [(50, 0), (500, 1000), (2000, 3500), (10000, 7000), (50000, 9000)]"
definition FILL_WINDOW_BONUS_PCT :: "nat list" where "FILL_WINDOW_BONUS_PCT = [0, 10, 20, 30, 50]"
definition SR_SLASH_BPS :: "nat list" where "SR_SLASH_BPS = [1000, 1000, 800, 600, 500]"
definition FEE_REBATE_BPS :: "nat list" where "FEE_REBATE_BPS = [0, 0, 0, 0, 0]"
definition TIER_NAMES :: "string list" where
  "TIER_NAMES = [''Unranked'', ''Bronze'', ''Silver'', ''Gold'', ''Platinum'']"
definition MAX_TUNABLE_MIN_BOND :: int where "MAX_TUNABLE_MIN_BOND = 1000000 * USDC"
definition MAX_TUNABLE_MIN_SCORE_BPS :: nat where "MAX_TUNABLE_MIN_SCORE_BPS = 9999"
definition SR_ADMIN_TIMELOCK_DELAY :: nat where "SR_ADMIN_TIMELOCK_DELAY = 172800"
definition WRITER_TIMELOCK_DELAY :: nat where "WRITER_TIMELOCK_DELAY = 172800"
definition VOLUME_SCALE :: int where "VOLUME_SCALE = 1000 * 100 * 10000000"

record TierThreshold =
  tt_min_bond :: int
  tt_min_score_bps :: nat

record TierInfo =
  ti_tier :: nat
  ti_name :: string
  ti_min_bond :: int
  ti_min_score_bps :: nat
  ti_fill_window_bonus_pct :: nat
  ti_slash_bps :: nat
  ti_fee_rebate_bps :: nat

record SrRecord =
  sr_address :: address
  sr_bond :: int
  sr_completed :: nat
  sr_failed :: nat
  sr_volume :: int
  sr_registered_at :: nat
  sr_last_slash :: nat
  sr_slashed_total :: int

datatype SrError =
    AlreadyInitialized | NotInitialized | Unauthorized | SolverNotRegistered
  | SolverAlreadyRegistered | BondBelowFloor | ZeroAmount | InsufficientBond | InvalidTier
  | ThresholdOutOfBounds | ThresholdsNotMonotonic | WriterNotSet | TimelockNotElapsed
  | NoPendingWriter | WriterAlreadySet | AlreadyRecorded | AdminTimelockNotElapsed
  | NoPendingAdminTransfer | OpenObligations

record registry =
  rg_admin :: "address option"
  rg_pending_admin :: "(address \<times> nat) option"
  rg_bond_token :: "address option"
  rg_fee_recipient :: "address option"
  rg_writer :: "address option"
  rg_pending_writer :: "(address \<times> nat) option"
  rg_thresholds :: "TierThreshold list option"
  rg_total_solvers :: "nat option"
  rg_solvers :: "address \<Rightarrow> SrRecord option"
  rg_recorded :: "string \<times> bytes32 \<Rightarrow> bool option"
  rg_obligation :: "address \<times> bytes32 \<Rightarrow> bool option"
  rg_open :: "address \<Rightarrow> nat option"

section \<open>Helpers\<close>

text \<open>
  \<open>score_of\<close>: the success rate, weighted by a multiplier that grows from 90\% to 100\% with
  the volume. The denominator is computed in \<open>i128\<close> and then cast to \<open>u64\<close>.
\<close>

definition score_of :: "SrRecord \<Rightarrow> ('e, nat) res" where
  "score_of record =
     (let total_fills = sr_completed record + sr_failed record
      in if total_fills = 0 then Inr 0
         else
           let base_bps = sr_completed record * 10000 div total_fills;
               vol = max (sr_volume record) 0
           in rbind (i128 (VOLUME_SCALE + vol + 1)) (\<lambda>d.
                if as_u64 d = 0 then Inl Overflow
                else
                  let decay_bps = as_u64 VOLUME_SCALE * 10000 div as_u64 d
                  in if 10000 < decay_bps div 10 then Inl Overflow
                     else let multiplier_bps = 10000 - decay_bps div 10
                          in Inr (base_bps * multiplier_bps div 10000)))"

definition sr_require_admin :: "env \<Rightarrow> registry \<Rightarrow> (SrError, unit) res" where
  "sr_require_admin e s = rbind (need NotInitialized (rg_admin s)) (\<lambda>admin. require_auth e admin)"

definition require_writer_or_admin :: "env \<Rightarrow> registry \<Rightarrow> address \<Rightarrow> (SrError, unit) res" where
  "require_writer_or_admin e s caller =
     rbind (need NotInitialized (rg_admin s)) (\<lambda>admin.
       case rg_writer s of
         Some w \<Rightarrow> if caller \<noteq> w \<and> caller \<noteq> admin then Inl (Error Unauthorized)
                    else require_auth e caller
       | None \<Rightarrow> if caller \<noteq> admin then Inl (Error WriterNotSet) else require_auth e caller)"

definition require_writer :: "env \<Rightarrow> registry \<Rightarrow> address \<Rightarrow> (SrError, unit) res" where
  "require_writer e s caller =
     rbind (need WriterNotSet (rg_writer s)) (\<lambda>writer.
       if caller \<noteq> writer then Inl (Error Unauthorized) else require_auth e caller)"

definition mark_recorded :: "string \<Rightarrow> bytes32 \<Rightarrow> registry \<Rightarrow> (SrError, registry) res" where
  "mark_recorded action intent_id s =
     (if rg_recorded s (action, intent_id) \<noteq> None then Inl (Error AlreadyRecorded)
      else Inr (s\<lparr>rg_recorded := (rg_recorded s)((action, intent_id) \<mapsto> True)\<rparr>))"

definition open_obligations :: "registry \<Rightarrow> address \<Rightarrow> nat" where
  "open_obligations s solver = nat0 (rg_open s solver)"

definition store_open_obligations :: "address \<Rightarrow> nat \<Rightarrow> registry \<Rightarrow> registry" where
  "store_open_obligations solver count s =
     (if count = 0 then s\<lparr>rg_open := (rg_open s)(solver := None)\<rparr>
      else s\<lparr>rg_open := (rg_open s)(solver \<mapsto> count)\<rparr>)"

definition thresholds :: "registry \<Rightarrow> (SrError, TierThreshold list) res" where
  "thresholds s = need NotInitialized (rg_thresholds s)"

definition tier0_floor :: "registry \<Rightarrow> (SrError, int) res" where
  "tier0_floor s =
     rbind (thresholds s) (\<lambda>rows. rbind (unwrap (vec_get rows 0)) (\<lambda>row. Inr (tt_min_bond row)))"

definition sr_load_solver :: "registry \<Rightarrow> address \<Rightarrow> (SrError, SrRecord) res" where
  "sr_load_solver s solver = need SolverNotRegistered (rg_solvers s solver)"

definition bond_client :: "registry \<Rightarrow> (SrError, address) res" where
  "bond_client s = need NotInitialized (rg_bond_token s)"

definition put_solver :: "address \<Rightarrow> SrRecord \<Rightarrow> registry \<Rightarrow> registry" where
  "put_solver solver record s = s\<lparr>rg_solvers := (rg_solvers s)(solver \<mapsto> record)\<rparr>"

section \<open>Tiers\<close>

text \<open>The \<open>while\<close> loop of \<open>tier_for\<close>; the last row that both values reach wins.\<close>

function tier_loop :: "TierThreshold list \<Rightarrow> nat \<Rightarrow> int \<Rightarrow> nat \<Rightarrow> nat \<Rightarrow> (SrError, nat) res" where
  "tier_loop rows score_bps bond_amount tier i =
     (if i < TIER_COUNT then
        (case vec_get rows i of
           None \<Rightarrow> Inl Unwrap
         | Some row \<Rightarrow>
             tier_loop rows score_bps bond_amount
               (if bond_amount \<ge> tt_min_bond row \<and> score_bps \<ge> tt_min_score_bps row
                then i else tier) (Suc i))
      else Inr tier)"
  by pat_completeness auto
termination
  by (relation "measure (\<lambda>(rows, sc, b, t, i). TIER_COUNT - i)") auto

declare tier_loop.simps [simp del]

definition tier_for :: "registry \<Rightarrow> nat \<Rightarrow> int \<Rightarrow> (SrError, nat) res" where
  "tier_for s score_bps bond_amount =
     rbind (thresholds s) (\<lambda>rows. tier_loop rows score_bps bond_amount 0 0)"

definition tier_of :: "registry \<Rightarrow> SrRecord \<Rightarrow> (SrError, nat) res" where
  "tier_of s record = rbind (score_of record) (\<lambda>sc. tier_for s sc (sr_bond record))"

definition get_tier :: "registry \<Rightarrow> address \<Rightarrow> (SrError, nat) res" where
  "get_tier s solver =
     (case rg_solvers s solver of Some record \<Rightarrow> tier_of s record | None \<Rightarrow> Inr 0)"

definition get_reputation_score :: "registry \<Rightarrow> address \<Rightarrow> (SrError, nat option) res" where
  "get_reputation_score s solver =
     (case rg_solvers s solver of
        None \<Rightarrow> Inr None
      | Some record \<Rightarrow> rbind (score_of record) (\<lambda>sc. Inr (Some sc)))"

definition perk :: "nat \<Rightarrow> nat list \<Rightarrow> (SrError, nat) res" where
  "perk tier table = (if tier \<ge> TIER_COUNT then Inl (Error InvalidTier) else Inr (table ! tier))"

definition get_fill_window_bonus_pct :: "nat \<Rightarrow> (SrError, nat) res" where
  "get_fill_window_bonus_pct tier = perk tier FILL_WINDOW_BONUS_PCT"

definition get_slash_bps :: "nat \<Rightarrow> (SrError, nat) res" where
  "get_slash_bps tier = perk tier SR_SLASH_BPS"

definition get_fee_rebate_bps :: "nat \<Rightarrow> (SrError, nat) res" where
  "get_fee_rebate_bps tier = perk tier FEE_REBATE_BPS"

function tier_table_loop :: "TierThreshold list \<Rightarrow> TierInfo list \<Rightarrow> nat
    \<Rightarrow> (SrError, TierInfo list) res" where
  "tier_table_loop rows out i =
     (if i < TIER_COUNT then
        (case vec_get rows i of
           None \<Rightarrow> Inl Unwrap
         | Some row \<Rightarrow>
             tier_table_loop rows
               (out @ [\<lparr>ti_tier = i, ti_name = TIER_NAMES ! i, ti_min_bond = tt_min_bond row,
                        ti_min_score_bps = tt_min_score_bps row,
                        ti_fill_window_bonus_pct = FILL_WINDOW_BONUS_PCT ! i,
                        ti_slash_bps = SR_SLASH_BPS ! i, ti_fee_rebate_bps = FEE_REBATE_BPS ! i\<rparr>])
               (Suc i))
      else Inr out)"
  by pat_completeness auto
termination
  by (relation "measure (\<lambda>(rows, out, i). TIER_COUNT - i)") auto

declare tier_table_loop.simps [simp del]

definition get_tier_table :: "registry \<Rightarrow> (SrError, TierInfo list) res" where
  "get_tier_table s = rbind (thresholds s) (\<lambda>rows. tier_table_loop rows [] 0)"

definition set_tier_threshold :: "env \<Rightarrow> nat \<Rightarrow> int \<Rightarrow> nat \<Rightarrow> registry \<Rightarrow> (SrError, registry) res" where
  "set_tier_threshold e tier min_bond min_score_bps s =
     rbind (sr_require_admin e s) (\<lambda>_.
       if tier = 0 \<or> tier \<ge> TIER_COUNT then Inl (Error InvalidTier)
       else if min_bond < 1 \<or> min_bond > MAX_TUNABLE_MIN_BOND then Inl (Error ThresholdOutOfBounds)
       else if min_score_bps > MAX_TUNABLE_MIN_SCORE_BPS then Inl (Error ThresholdOutOfBounds)
       else
         rbind (thresholds s) (\<lambda>rows.
         rbind (unwrap (vec_get rows (tier - 1))) (\<lambda>below.
           if min_bond \<le> tt_min_bond below \<or> min_score_bps \<le> tt_min_score_bps below
           then Inl (Error ThresholdsNotMonotonic)
           else
             rbind (if tier + 1 < TIER_COUNT
                    then rbind (unwrap (vec_get rows (tier + 1))) (\<lambda>above.
                           if min_bond \<ge> tt_min_bond above \<or> min_score_bps \<ge> tt_min_score_bps above
                           then Inl (Error ThresholdsNotMonotonic) else Inr ())
                    else Inr ()) (\<lambda>_.
               if tier < length rows
               then Inr (s\<lparr>rg_thresholds := Some (rows[tier :=
                      \<lparr>tt_min_bond = min_bond, tt_min_score_bps = min_score_bps\<rparr>])\<rparr>)
               else Inl Unwrap))))"

section \<open>Initialisation, admin and writer\<close>

definition sr_initialize :: "env \<Rightarrow> address \<Rightarrow> address \<Rightarrow> address \<Rightarrow> registry
    \<Rightarrow> (SrError, registry) res" where
  "sr_initialize e admin bond_token fee_recipient s =
     (if rg_admin s \<noteq> None then Inl (Error AlreadyInitialized)
      else
        rbind (require_auth e admin) (\<lambda>_.
          Inr (s\<lparr>rg_admin := Some admin, rg_bond_token := Some bond_token,
                 rg_fee_recipient := Some fee_recipient, rg_total_solvers := Some 0,
                 rg_thresholds := Some (map (\<lambda>(b, sc).
                   \<lparr>tt_min_bond = b * USDC, tt_min_score_bps = sc\<rparr>) DEFAULT_THRESHOLDS)\<rparr>)))"

definition set_writer :: "env \<Rightarrow> address \<Rightarrow> registry \<Rightarrow> (SrError, registry) res" where
  "set_writer e writer s =
     rbind (sr_require_admin e s) (\<lambda>_.
       if rg_writer s \<noteq> None then Inl (Error WriterAlreadySet)
       else Inr (s\<lparr>rg_writer := Some writer\<rparr>))"

definition propose_admin :: "env \<Rightarrow> address \<Rightarrow> registry \<Rightarrow> (SrError, registry) res" where
  "propose_admin e new_admin s =
     rbind (sr_require_admin e s) (\<lambda>_.
     rbind (u64 (now e + SR_ADMIN_TIMELOCK_DELAY)) (\<lambda>eta.
       Inr (s\<lparr>rg_pending_admin := Some (new_admin, eta)\<rparr>)))"

definition accept_admin :: "env \<Rightarrow> address \<Rightarrow> registry \<Rightarrow> (SrError, registry) res" where
  "accept_admin e new_admin s =
     rbind (need NoPendingAdminTransfer (rg_pending_admin s)) (\<lambda>(pending, eta).
       if pending \<noteq> new_admin then Inl (Error Unauthorized)
       else if now e < eta then Inl (Error AdminTimelockNotElapsed)
       else
         rbind (require_auth e new_admin) (\<lambda>_.
         rbind (need NotInitialized (rg_admin s)) (\<lambda>old_admin.
           Inr (s\<lparr>rg_admin := Some new_admin, rg_pending_admin := None\<rparr>))))"

definition cancel_admin_transfer :: "env \<Rightarrow> registry \<Rightarrow> (SrError, registry) res" where
  "cancel_admin_transfer e s =
     rbind (sr_require_admin e s) (\<lambda>_.
     rbind (need NoPendingAdminTransfer (rg_pending_admin s)) (\<lambda>_.
       Inr (s\<lparr>rg_pending_admin := None\<rparr>)))"

definition propose_writer :: "env \<Rightarrow> address \<Rightarrow> registry \<Rightarrow> (SrError, registry) res" where
  "propose_writer e new_writer s =
     rbind (sr_require_admin e s) (\<lambda>_.
     rbind (u64 (now e + WRITER_TIMELOCK_DELAY)) (\<lambda>eta.
       Inr (s\<lparr>rg_pending_writer := Some (new_writer, eta)\<rparr>)))"

definition execute_writer :: "env \<Rightarrow> address \<Rightarrow> registry \<Rightarrow> (SrError, registry) res" where
  "execute_writer e new_writer s =
     rbind (sr_require_admin e s) (\<lambda>_.
     rbind (need NoPendingWriter (rg_pending_writer s)) (\<lambda>(pending, eta).
       if pending \<noteq> new_writer then Inl (Error Unauthorized)
       else if now e < eta then Inl (Error TimelockNotElapsed)
       else Inr (s\<lparr>rg_pending_writer := None, rg_writer := Some new_writer\<rparr>)))"

definition cancel_writer :: "env \<Rightarrow> registry \<Rightarrow> (SrError, registry) res" where
  "cancel_writer e s =
     rbind (sr_require_admin e s) (\<lambda>_.
     rbind (need NoPendingWriter (rg_pending_writer s)) (\<lambda>_.
       Inr (s\<lparr>rg_pending_writer := None\<rparr>)))"

section \<open>Bonds\<close>

definition sr_register_solver :: "env \<Rightarrow> address \<Rightarrow> int \<Rightarrow> registry
    \<Rightarrow> (SrError, registry \<times> xfer list) res" where
  "sr_register_solver e solver bond_amount s =
     rbind (require_auth e solver) (\<lambda>_.
       if bond_amount \<le> 0 then Inl (Error ZeroAmount)
       else if rg_solvers s solver \<noteq> None then Inl (Error SolverAlreadyRegistered)
       else
         rbind (tier0_floor s) (\<lambda>floor_bond.
           if bond_amount < floor_bond then Inl (Error BondBelowFloor)
           else
             let record = \<lparr>sr_address = solver, sr_bond = bond_amount, sr_completed = 0,
                   sr_failed = 0, sr_volume = 0, sr_registered_at = now e, sr_last_slash = 0,
                   sr_slashed_total = 0\<rparr>;
                 s1 = put_solver solver record s
             in rbind (u32 (nat0 (rg_total_solvers s1) + 1)) (\<lambda>n.
                let s2 = s1\<lparr>rg_total_solvers := Some n\<rparr>
                in rbind (bond_client s2) (\<lambda>token.
                   rbind (transfer e token solver (self e) bond_amount []) (\<lambda>tr.
                     Inr (s2, tr))))))"

definition stake :: "env \<Rightarrow> address \<Rightarrow> int \<Rightarrow> registry \<Rightarrow> (SrError, registry \<times> xfer list) res" where
  "stake e solver amount s =
     rbind (require_auth e solver) (\<lambda>_.
       if amount \<le> 0 then Inl (Error ZeroAmount)
       else
         rbind (sr_load_solver s solver) (\<lambda>record.
         rbind (i128 (sr_bond record + amount)) (\<lambda>b.
           let s1 = put_solver solver (record\<lparr>sr_bond := b\<rparr>) s
           in rbind (bond_client s1) (\<lambda>token.
              rbind (transfer e token solver (self e) amount []) (\<lambda>tr. Inr (s1, tr))))))"

definition unstake :: "env \<Rightarrow> address \<Rightarrow> int \<Rightarrow> registry \<Rightarrow> (SrError, registry \<times> xfer list) res" where
  "unstake e solver amount s =
     rbind (require_auth e solver) (\<lambda>_.
       if amount \<le> 0 then Inl (Error ZeroAmount)
       else if open_obligations s solver > 0 then Inl (Error OpenObligations)
       else
         rbind (sr_load_solver s solver) (\<lambda>record.
           if amount > sr_bond record then Inl (Error InsufficientBond)
           else
             rbind (i128 (sr_bond record - amount)) (\<lambda>remaining.
             rbind (tier0_floor s) (\<lambda>floor_bond.
               if remaining < floor_bond then Inl (Error BondBelowFloor)
               else
                 let s1 = put_solver solver (record\<lparr>sr_bond := remaining\<rparr>) s
                 in rbind (bond_client s1) (\<lambda>token.
                    rbind (transfer e token (self e) solver amount []) (\<lambda>tr.
                      Inr (s1, tr)))))))"

definition sr_deregister_solver :: "env \<Rightarrow> address \<Rightarrow> registry
    \<Rightarrow> (SrError, registry \<times> xfer list) res" where
  "sr_deregister_solver e solver s =
     rbind (require_auth e solver) (\<lambda>_.
       if open_obligations s solver > 0 then Inl (Error OpenObligations)
       else
         rbind (sr_load_solver s solver) (\<lambda>record.
           let s1 = s\<lparr>rg_solvers := (rg_solvers s)(solver := None),
                      rg_total_solvers := Some (nat0 (rg_total_solvers s) - 1)\<rparr>
           in if sr_bond record > 0
              then rbind (bond_client s1) (\<lambda>token.
                   rbind (transfer e token (self e) solver (sr_bond record) []) (\<lambda>tr.
                     Inr (s1, tr)))
              else Inr (s1, [])))"

section \<open>Recording fills, failures and slashes\<close>

text \<open>The event of \<open>record_fill\<close> carries the new score, so an unrepresentable score reverts it.\<close>

definition record_fill :: "env \<Rightarrow> address \<Rightarrow> address \<Rightarrow> bytes32 \<Rightarrow> int \<Rightarrow> registry
    \<Rightarrow> (SrError, registry \<times> xfer list) res" where
  "record_fill e caller solver intent_id amount s =
     rbind (require_writer_or_admin e s caller) (\<lambda>_.
       if amount < 0 then Inl (Error ZeroAmount)
       else
         rbind (sr_load_solver s solver) (\<lambda>record.
         rbind (mark_recorded ''fill'' intent_id s) (\<lambda>s1.
         rbind (u32 (sr_completed record + 1)) (\<lambda>n.
         rbind (i128 (sr_volume record + amount)) (\<lambda>v.
           let record' = record\<lparr>sr_completed := n, sr_volume := v\<rparr>
           in rbind (score_of record') (\<lambda>_. Inr (put_solver solver record' s1, [])))))))"

definition record_failure :: "env \<Rightarrow> address \<Rightarrow> address \<Rightarrow> bytes32 \<Rightarrow> registry
    \<Rightarrow> (SrError, registry \<times> xfer list) res" where
  "record_failure e caller solver intent_id s =
     rbind (require_writer_or_admin e s caller) (\<lambda>_.
     rbind (sr_load_solver s solver) (\<lambda>record.
     rbind (mark_recorded ''failure'' intent_id s) (\<lambda>s1.
     rbind (u32 (sr_failed record + 1)) (\<lambda>n.
       let record' = record\<lparr>sr_failed := n\<rparr>
       in rbind (score_of record') (\<lambda>_. Inr (put_solver solver record' s1, []))))))"

definition sr_slash :: "env \<Rightarrow> address \<Rightarrow> address \<Rightarrow> bytes32 \<Rightarrow> registry
    \<Rightarrow> (SrError, registry \<times> xfer list \<times> int \<times> nat) res" where
  "sr_slash e caller solver intent_id s =
     rbind (require_writer_or_admin e s caller) (\<lambda>_.
     rbind (sr_load_solver s solver) (\<lambda>record.
     rbind (mark_recorded ''slash'' intent_id s) (\<lambda>s1.
     rbind (tier_of s1 record) (\<lambda>tier_before.
     rbind (unwrap (vec_get SR_SLASH_BPS tier_before)) (\<lambda>bps.
     rbind (if sr_bond record > 0
            then rbind (i128 (sr_bond record * int bps)) (\<lambda>p. Inr (max (p sdiv 10000) 1))
            else Inr 0) (\<lambda>slash_amount.
     rbind (i128 (sr_bond record - slash_amount)) (\<lambda>b.
     rbind (u32 (sr_failed record + 1)) (\<lambda>n.
     rbind (i128 (sr_slashed_total record + slash_amount)) (\<lambda>tot.
       let record' = record\<lparr>sr_bond := b, sr_failed := n, sr_slashed_total := tot,
             sr_last_slash := now e\<rparr>;
           s2 = put_solver solver record' s1
       in rbind (if slash_amount > 0
                 then rbind (need NotInitialized (rg_fee_recipient s2)) (\<lambda>fee_recipient.
                      rbind (bond_client s2) (\<lambda>token.
                        transfer e token (self e) fee_recipient slash_amount []))
                 else Inr []) (\<lambda>tr.
          rbind (tier_of s2 record') (\<lambda>new_tier.
            Inr (s2, tr, slash_amount, new_tier))))))))))))"

section \<open>Obligations\<close>

definition lock_obligation :: "env \<Rightarrow> address \<Rightarrow> address \<Rightarrow> bytes32 \<Rightarrow> registry
    \<Rightarrow> (SrError, registry \<times> nat) res" where
  "lock_obligation e caller solver intent_id s =
     rbind (require_writer e s caller) (\<lambda>_.
     rbind (sr_load_solver s solver) (\<lambda>_.
       let count = open_obligations s solver
       in if rg_obligation s (solver, intent_id) \<noteq> None then Inr (s, count)
          else
            rbind (u32 (count + 1)) (\<lambda>count'.
              Inr (store_open_obligations solver count'
                     (s\<lparr>rg_obligation := (rg_obligation s)((solver, intent_id) \<mapsto> True)\<rparr>), count'))))"

definition release_obligation :: "env \<Rightarrow> address \<Rightarrow> address \<Rightarrow> bytes32 \<Rightarrow> registry
    \<Rightarrow> (SrError, registry \<times> nat) res" where
  "release_obligation e caller solver intent_id s =
     rbind (require_writer e s caller) (\<lambda>_.
       let count = open_obligations s solver
       in if rg_obligation s (solver, intent_id) = None then Inr (s, count)
          else
            let count' = count - 1
            in Inr (store_open_obligations solver count'
                      (s\<lparr>rg_obligation := (rg_obligation s)((solver, intent_id) := None)\<rparr>), count'))"

definition has_obligation :: "registry \<Rightarrow> address \<Rightarrow> bytes32 \<Rightarrow> bool" where
  "has_obligation s solver intent_id \<longleftrightarrow> rg_obligation s (solver, intent_id) \<noteq> None"

definition is_intent_recorded :: "registry \<Rightarrow> string \<Rightarrow> bytes32 \<Rightarrow> bool" where
  "is_intent_recorded s action intent_id \<longleftrightarrow> rg_recorded s (action, intent_id) \<noteq> None"

section \<open>One transaction\<close>

datatype sr_event =
    SrInit address address address
  | SrSetWriter address
  | SrProposeAdmin address | SrAcceptAdmin address | SrCancelAdmin
  | SrProposeWriter address | SrExecuteWriter address | SrCancelWriter
  | SrSetThreshold nat int nat
  | SrRegister address int | SrStake address int | SrUnstake address int | SrDeregister address
  | SrFill address address bytes32 int | SrFailure address address bytes32
  | SrSlash address address bytes32
  | SrLock address address bytes32 | SrRelease address address bytes32

definition quiet :: "('e, 's) res \<Rightarrow> ('e, 's \<times> xfer list) res" where
  "quiet m = rbind m (\<lambda>s. Inr (s, []))"

lemma quiet_eq_Inr [simp]: "quiet m = Inr (s, tr) \<longleftrightarrow> m = Inr s \<and> tr = []"
  by (auto simp: quiet_def)

fun sr_apply :: "env \<Rightarrow> sr_event \<Rightarrow> registry \<Rightarrow> (SrError, registry \<times> xfer list) res" where
  "sr_apply e (SrInit a b f) s = quiet (sr_initialize e a b f s)"
| "sr_apply e (SrSetWriter w) s = quiet (set_writer e w s)"
| "sr_apply e (SrProposeAdmin a) s = quiet (propose_admin e a s)"
| "sr_apply e (SrAcceptAdmin a) s = quiet (accept_admin e a s)"
| "sr_apply e SrCancelAdmin s = quiet (cancel_admin_transfer e s)"
| "sr_apply e (SrProposeWriter w) s = quiet (propose_writer e w s)"
| "sr_apply e (SrExecuteWriter w) s = quiet (execute_writer e w s)"
| "sr_apply e SrCancelWriter s = quiet (cancel_writer e s)"
| "sr_apply e (SrSetThreshold t b sc) s = quiet (set_tier_threshold e t b sc s)"
| "sr_apply e (SrRegister a b) s = sr_register_solver e a b s"
| "sr_apply e (SrStake a b) s = stake e a b s"
| "sr_apply e (SrUnstake a b) s = unstake e a b s"
| "sr_apply e (SrDeregister a) s = sr_deregister_solver e a s"
| "sr_apply e (SrFill c a i v) s = record_fill e c a i v s"
| "sr_apply e (SrFailure c a i) s = record_failure e c a i s"
| "sr_apply e (SrSlash c a i) s = rbind (sr_slash e c a i s) (\<lambda>(s', tr, _, _). Inr (s', tr))"
| "sr_apply e (SrLock c a i) s = quiet (rbind (lock_obligation e c a i s) (\<lambda>(s', _). Inr s'))"
| "sr_apply e (SrRelease c a i) s = quiet (rbind (release_obligation e c a i s) (\<lambda>(s', _). Inr s'))"

section \<open>The score\<close>

text \<open>
  The volume multiplier in closed form, for volumes whose denominator fits into \<open>u64\<close>:
  between 9000 and 10000, and growing with the volume.
\<close>

definition score_fits :: "int \<Rightarrow> bool" where
  "score_fits volume \<longleftrightarrow> VOLUME_SCALE + max volume 0 + 1 < 2 ^ 64"

definition volume_multiplier :: "int \<Rightarrow> nat" where
  "volume_multiplier volume =
     10000 - 10 ^ 16 div (10 ^ 12 + nat (max volume 0) + 1) div 10"

lemma as_u64_scale: "as_u64 VOLUME_SCALE = 10 ^ 12"
  by (simp add: as_u64_def VOLUME_SCALE_def)

lemma as_u64_denominator:
  "score_fits v \<Longrightarrow> as_u64 (VOLUME_SCALE + max v 0 + 1) = 10 ^ 12 + nat (max v 0) + 1"
  by (subst as_u64_small) (auto simp: score_fits_def VOLUME_SCALE_def)

lemma decay_bound: "(10::nat) ^ 16 div (10 ^ 12 + n + 1) div 10 \<le> 1000"
proof -
  have "(10::nat) ^ 16 div (10 ^ 12 + n + 1) \<le> 10 ^ 16 div 10 ^ 12"
    by (rule div_le_mono2) simp_all
  then show ?thesis by simp
qed

lemma volume_multiplier_range: "9000 \<le> volume_multiplier v" "volume_multiplier v \<le> 10000"
  using decay_bound [of "nat (max v 0)"] by (simp_all add: volume_multiplier_def)

lemma volume_multiplier_mono: "v \<le> v' \<Longrightarrow> volume_multiplier v \<le> volume_multiplier v'"
proof -
  assume "v \<le> v'"
  then have "(10::nat) ^ 16 div (10 ^ 12 + nat (max v' 0) + 1) \<le> 10 ^ 16 div (10 ^ 12 + nat (max v 0) + 1)"
    by (intro div_le_mono2) auto
  then have "(10::nat) ^ 16 div (10 ^ 12 + nat (max v' 0) + 1) div 10 \<le>
      10 ^ 16 div (10 ^ 12 + nat (max v 0) + 1) div 10"
    by (rule div_le_mono)
  then show ?thesis unfolding volume_multiplier_def by (rule diff_le_mono2)
qed

lemma score_of_eq:
  assumes "score_fits (sr_volume r)"
  shows "score_of r = Inr (if sr_completed r + sr_failed r = 0 then 0
     else sr_completed r * 10000 div (sr_completed r + sr_failed r) *
          volume_multiplier (sr_volume r) div 10000)"
proof -
  have "in_i128 (VOLUME_SCALE + max (sr_volume r) 0 + 1)"
    using assms by (auto simp: score_fits_def VOLUME_SCALE_def in_i128_def i128_min_def i128_max_def)
  then show ?thesis
    using decay_bound [of "nat (max (sr_volume r) 0)"]
    unfolding score_of_def Let_def volume_multiplier_def as_u64_scale as_u64_denominator [OF assms]
    by (simp add: i128_def as_u64_denominator [OF assms])
qed

definition score_value :: "nat \<Rightarrow> nat \<Rightarrow> int \<Rightarrow> nat" where
  "score_value c f v =
     (if c + f = 0 then 0 else c * 10000 div (c + f) * volume_multiplier v div 10000)"

lemma score_of_value:
  "score_fits (sr_volume r) \<Longrightarrow> score_of r = Inr (score_value (sr_completed r) (sr_failed r) (sr_volume r))"
  by (simp add: score_of_eq score_value_def)

lemma success_rate_le: "0 < c + f \<Longrightarrow> c * 10000 div (c + f) \<le> (10000::nat)"
  by (metis add_le_same_cancel1 div_le_mono div_mult_self1_is_m le_add1 mult.commute mult_le_mono1)

lemma score_value_le: "score_value c f v \<le> 10000"
proof (cases "c + f = 0")
  case False
  then have "c * 10000 div (c + f) * volume_multiplier v \<le> 10000 * 10000"
    using success_rate_le [of c f] volume_multiplier_range(2) by (intro mult_le_mono) simp_all
  then have "c * 10000 div (c + f) * volume_multiplier v div 10000 \<le> 10000 * 10000 div 10000"
    by (rule div_le_mono)
  with False show ?thesis by (simp add: score_value_def)
qed (simp add: score_value_def)

lemma score_value_mono_volume: "v \<le> v' \<Longrightarrow> score_value c f v \<le> score_value c f v'"
  by (auto simp: score_value_def intro!: div_le_mono mult_le_mono2 volume_multiplier_mono)

lemma rate_mono_fill: "c * 10000 div (c + f) \<le> Suc c * 10000 div (Suc c + f)" if "0 < c + f"
proof -
  let ?q = "c * 10000 div (c + f)"
  have "?q * (Suc c + f) = ?q * (c + f) + ?q" by (simp add: algebra_simps)
  also have "\<dots> \<le> c * 10000 + 10000"
    using success_rate_le [OF that] by (intro add_mono) simp_all
  finally have "?q * (Suc c + f) \<le> Suc c * 10000" by simp
  then show ?thesis by (simp add: less_eq_div_iff_mult_less_eq)
qed

lemma rate_antimono_failure: "c * 10000 div (c + Suc f) \<le> c * 10000 div (c + f)" if "0 < c + f"
  by (rule div_le_mono2) (use that in simp_all)

lemma score_value_fill: "v \<le> v' \<Longrightarrow> score_value c f v \<le> score_value (Suc c) f v'"
proof (cases "c + f = 0")
  case False
  assume "v \<le> v'"
  with False show ?thesis
    using rate_mono_fill [of c f] volume_multiplier_mono [of v v']
    by (auto simp: score_value_def intro!: div_le_mono mult_le_mono)
qed (simp add: score_value_def)

lemma score_value_failure: "score_value c (Suc f) v \<le> score_value c f v"
proof (cases "c + f = 0")
  case False
  then show ?thesis
    using rate_antimono_failure [of c f]
    by (auto simp: score_value_def intro!: div_le_mono mult_le_mono1)
qed (simp add: score_value_def)

text \<open>
  While the volume's denominator fits into 64 bits, a completed fill never lowers a solver's
  score, a failure never raises it, and the score never exceeds 10000.
\<close>

theorem score_rewards_fills:
  assumes "score_fits (sr_volume r + amount)" "0 \<le> amount" "score_fits (sr_volume r)"
  shows "\<exists>sc up down. score_of r = (Inr sc :: (SrError, nat) res) \<and>
     score_of (r\<lparr>sr_completed := Suc (sr_completed r), sr_volume := sr_volume r + amount\<rparr>) =
       (Inr up :: (SrError, nat) res) \<and>
     score_of (r\<lparr>sr_failed := Suc (sr_failed r)\<rparr>) = (Inr down :: (SrError, nat) res) \<and>
     down \<le> sc \<and> sc \<le> up \<and> up \<le> 10000"
  using assms score_value_fill [of "sr_volume r" "sr_volume r + amount" "sr_completed r" "sr_failed r"]
    score_value_failure score_value_le
  by (auto simp: score_of_value)

theorem score_rewards_fills_witness:
  "\<exists>sc up. score_of \<lparr>sr_address = 1, sr_bond = 0, sr_completed = 3, sr_failed = 1, sr_volume = 10 ^ 12,
       sr_registered_at = 0, sr_last_slash = 0, sr_slashed_total = 0\<rparr> = (Inr sc :: (SrError, nat) res) \<and>
     score_of \<lparr>sr_address = 1, sr_bond = 0, sr_completed = 4, sr_failed = 1, sr_volume = 2 * 10 ^ 12,
       sr_registered_at = 0, sr_last_slash = 0, sr_slashed_total = 0\<rparr> = (Inr up :: (SrError, nat) res) \<and>
     sc \<le> up \<and> up \<le> 10000"
  using score_rewards_fills [of "\<lparr>sr_address = 1, sr_bond = 0, sr_completed = 3, sr_failed = 1,
      sr_volume = 10 ^ 12, sr_registered_at = 0, sr_last_slash = 0, sr_slashed_total = 0\<rparr>" "10 ^ 12"]
  by (auto simp: score_fits_def VOLUME_SCALE_def eval_nat_numeral)

text \<open>
  Outside \<open>score_fits\<close> the cast drops the high bits of the denominator. Where what is
  left is small, the score cannot be computed and every transaction that needs it reverts.
\<close>

lemma score_of_wraps:
  assumes "0 < sr_completed r + sr_failed r" "0 \<le> sr_volume r"
    and "(VOLUME_SCALE + sr_volume r + 1) mod 2 ^ 64 \<le> 99990000"
  shows "score_of r = Inl Overflow"
proof -
  let ?d = "as_u64 (VOLUME_SCALE + sr_volume r + 1)"
  have d: "?d \<le> 99990000" using assms(3) by (simp add: as_u64_def nat_le_iff)
  have "10000 < 10 ^ 12 * 10000 div ?d div 10" if "?d \<noteq> 0"
  proof -
    have "(10::nat) ^ 12 * 10000 div 99990000 \<le> 10 ^ 12 * 10000 div ?d"
      by (rule div_le_mono2) (use d that in simp_all)
    then have "(10::nat) ^ 12 * 10000 div 99990000 div 10 \<le> 10 ^ 12 * 10000 div ?d div 10"
      by (rule div_le_mono)
    then show ?thesis by simp
  qed
  then show ?thesis
    using assms(1,2) by (auto simp: score_of_def Let_def as_u64_scale i128_def)
qed

text \<open>
  A solver whose recorded volume makes the denominator of the score wrap to a small 64-bit
  value cannot be slashed: \<open>slash\<close> and \<open>get_tier\<close> revert with an
  arithmetic overflow.
\<close>

theorem huge_volume_blocks_slashing:
  assumes "rg_solvers s solver = Some r" "0 < sr_completed r + sr_failed r" "0 \<le> sr_volume r"
    and "(VOLUME_SCALE + sr_volume r + 1) mod 2 ^ 64 \<le> 99990000"
  shows "\<not> is_ok (sr_slash e caller solver intent_id s) \<and> get_tier s solver = Inl Overflow"
proof -
  have sc: "score_of r = Inl Overflow" by (rule score_of_wraps [OF assms(2-4)])
  show ?thesis
    using assms(1) by (auto simp: is_ok_iff sr_slash_def sr_load_solver_def tier_of_def sc get_tier_def)
qed

theorem huge_volume_blocks_slashing_witness:
  "\<not> is_ok (sr_slash (plain_env 0) 3 1 0 \<lparr>rg_admin = Some 3, rg_pending_admin = None,
     rg_bond_token = Some 9, rg_fee_recipient = Some 4, rg_writer = None, rg_pending_writer = None,
     rg_thresholds = Some [], rg_total_solvers = Some 1,
     rg_solvers = [1 \<mapsto> \<lparr>sr_address = 1, sr_bond = 500000000, sr_completed = 1, sr_failed = 0,
        sr_volume = 18446743073709551615, sr_registered_at = 0, sr_last_slash = 0,
        sr_slashed_total = 0\<rparr>],
     rg_recorded = Map.empty, rg_obligation = Map.empty, rg_open = Map.empty\<rparr>)"
  by (rule huge_volume_blocks_slashing [where r = "\<lparr>sr_address = 1, sr_bond = 500000000,
        sr_completed = 1, sr_failed = 0, sr_volume = 18446743073709551615, sr_registered_at = 0,
        sr_last_slash = 0, sr_slashed_total = 0\<rparr>", THEN conjunct1]) (simp_all add: VOLUME_SCALE_def)

section \<open>Tiers\<close>

definition tier_reached :: "TierThreshold list \<Rightarrow> nat \<Rightarrow> int \<Rightarrow> nat \<Rightarrow> bool" where
  "tier_reached rows sc b i \<longleftrightarrow> tt_min_bond (rows ! i) \<le> b \<and> tt_min_score_bps (rows ! i) \<le> sc"

text \<open>The loop returns the last row reached from its start on, or else the tier it carries.\<close>

lemma tier_loop_unfold:
  assumes "i < TIER_COUNT" "tier_loop rows sc b t i = Inr r"
  shows "i < length rows"
    "tier_loop rows sc b (if tier_reached rows sc b i then i else t) (Suc i) = Inr r"
  using assms
  by (auto simp: tier_loop.simps [of rows sc b t i] tier_reached_def split: option.splits)

lemma tier_loop_spec:
  "tier_loop rows sc b t i = Inr r \<Longrightarrow>
     (r = t \<or> i \<le> r \<and> r < TIER_COUNT \<and> tier_reached rows sc b r) \<and>
     (\<forall>j. i \<le> j \<longrightarrow> j < TIER_COUNT \<longrightarrow> tier_reached rows sc b j \<longrightarrow> j \<le> r)"
proof (induction "TIER_COUNT - i" arbitrary: i t)
  case 0
  then show ?case by (simp add: tier_loop.simps [of rows sc b t i])
next
  case (Suc n)
  then have i: "i < TIER_COUNT" and n: "n = TIER_COUNT - Suc i" by simp_all
  note rec = tier_loop_unfold(2) [OF i Suc.prems]
  have later: "j \<le> r" if "Suc i \<le> j" "j < TIER_COUNT" "tier_reached rows sc b j" for j
    using Suc.hyps(1) [OF n rec] that by blast
  show ?case
  proof (cases "tier_reached rows sc b i")
    case True
    with Suc.hyps(1) [OF n] rec have r: "r = i \<or> Suc i \<le> r \<and> r < TIER_COUNT \<and> tier_reached rows sc b r"
      by auto
    have "j \<le> r" if "i \<le> j" "j < TIER_COUNT" "tier_reached rows sc b j" for j
    proof (cases "j = i")
      case False
      with that show ?thesis by (intro later) simp_all
    qed (use r in auto)
    with r True i show ?thesis by auto
  next
    case False
    with Suc.hyps(1) [OF n] rec have r: "r = t \<or> Suc i \<le> r \<and> r < TIER_COUNT \<and> tier_reached rows sc b r"
      by auto
    have "j \<le> r" if "i \<le> j" "j < TIER_COUNT" "tier_reached rows sc b j" for j
      by (rule later) (use that False le_antisym not_less_eq_eq in blast)+
    with r show ?thesis by auto
  qed
qed

lemma tier_loop_total:
  "TIER_COUNT \<le> length rows \<Longrightarrow> \<exists>r. tier_loop rows sc b t i = Inr r"
proof (induction rows sc b t i rule: tier_loop.induct)
  case (1 rows sc b t i)
  show ?case
  proof (cases "i < TIER_COUNT")
    case True
    with "1.prems" have len: "i < length rows" by simp
    with "1.IH" [OF True, of "rows ! i"] "1.prems" True show ?thesis
      by (simp add: tier_loop.simps [of rows sc b t i] vec_get_def)
  next
    case False
    then show ?thesis by (simp add: tier_loop.simps [of rows sc b t i])
  qed
qed

lemma tier_for_spec:
  assumes "tier_for s sc b = Inr t" "rg_thresholds s = Some rows"
  shows "t < TIER_COUNT" "t = 0 \<or> tier_reached rows sc b t"
    "j < TIER_COUNT \<Longrightarrow> tier_reached rows sc b j \<Longrightarrow> j \<le> t"
proof -
  have "tier_loop rows sc b 0 0 = Inr t"
    using assms by (auto simp: tier_for_def thresholds_def need_def)
  from tier_loop_spec [OF this]
  show "t < TIER_COUNT" "t = 0 \<or> tier_reached rows sc b t"
    "j < TIER_COUNT \<Longrightarrow> tier_reached rows sc b j \<Longrightarrow> j \<le> t"
    by (auto simp: TIER_COUNT_def)
qed

lemma tier_for_Some: "tier_for s sc b = Inr t \<Longrightarrow> \<exists>rows. rg_thresholds s = Some rows"
  by (auto simp: tier_for_def thresholds_def)

lemma tier_for_range: "tier_for s sc b = Inr t \<Longrightarrow> t < TIER_COUNT"
  using tier_for_Some tier_for_spec(1) by blast

lemma tier_for_mono:
  assumes "tier_for s sc b = Inr t" "tier_for s sc' b' = Inr t'" "sc \<le> sc'" "b \<le> b'"
  shows "t \<le> t'"
proof -
  obtain rows where rows: "rg_thresholds s = Some rows" using tier_for_Some [OF assms(1)] ..
  show ?thesis
  proof (cases "t = 0")
    case False
    then have "tier_reached rows sc b t" using tier_for_spec(2) [OF assms(1) rows] by blast
    then have "tier_reached rows sc' b' t" using assms(3,4) by (simp add: tier_reached_def)
    then show ?thesis
      by (rule tier_for_spec(3) [OF assms(2) rows tier_for_range [OF assms(1)]])
  qed simp
qed

lemma get_tier_range: "get_tier s solver = Inr t \<Longrightarrow> t < TIER_COUNT"
  by (auto simp: get_tier_def tier_of_def TIER_COUNT_def dest: tier_for_range split: option.splits)

section \<open>The threshold table\<close>

definition thr_ok :: "TierThreshold list \<Rightarrow> bool" where
  "thr_ok rows \<longleftrightarrow> length rows = TIER_COUNT \<and>
     (\<forall>i. Suc i < TIER_COUNT \<longrightarrow> tt_min_bond (rows ! i) < tt_min_bond (rows ! Suc i) \<and>
        tt_min_score_bps (rows ! i) < tt_min_score_bps (rows ! Suc i))"

lemma thr_ok_default:
  "thr_ok (map (\<lambda>(b, sc). \<lparr>tt_min_bond = b * USDC, tt_min_score_bps = sc\<rparr>) DEFAULT_THRESHOLDS)"
proof -
  have cases: "i = 0 \<or> i = 1 \<or> i = 2 \<or> i = 3" if "Suc i < TIER_COUNT" for i
    using that by (auto simp: TIER_COUNT_def)
  show ?thesis
    unfolding thr_ok_def
    by (intro conjI allI impI; (drule cases)?; (elim disjE)?;
        simp add: DEFAULT_THRESHOLDS_def USDC_def TIER_COUNT_def)
qed

lemma thr_ok_update:
  assumes ok: "thr_ok rows" and t: "0 < t" "t < TIER_COUNT"
    and below: "tt_min_bond (rows ! (t - 1)) < b" "tt_min_score_bps (rows ! (t - 1)) < sc"
    and above: "t + 1 < TIER_COUNT \<Longrightarrow> b < tt_min_bond (rows ! (t + 1)) \<and> sc < tt_min_score_bps (rows ! (t + 1))"
  shows "thr_ok (rows[t := \<lparr>tt_min_bond = b, tt_min_score_bps = sc\<rparr>])"
  unfolding thr_ok_def
proof (intro conjI allI impI)
  show "length (rows[t := \<lparr>tt_min_bond = b, tt_min_score_bps = sc\<rparr>]) = TIER_COUNT"
    using ok by (simp add: thr_ok_def)
next
  fix i assume i: "Suc i < TIER_COUNT"
  let ?rows = "rows[t := \<lparr>tt_min_bond = b, tt_min_score_bps = sc\<rparr>]"
  have len: "t < length rows" using ok t by (simp add: thr_ok_def)
  have "tt_min_bond (?rows ! i) < tt_min_bond (?rows ! Suc i) \<and>
        tt_min_score_bps (?rows ! i) < tt_min_score_bps (?rows ! Suc i)"
  proof -
    consider "i = t" | "Suc i = t" | "i \<noteq> t" "Suc i \<noteq> t" by blast
    then show ?thesis
    proof cases
      case 1
      then show ?thesis using above i len by simp
    next
      case 2
      then show ?thesis using below len by auto
    next
      case 3
      then show ?thesis using ok i by (simp add: thr_ok_def)
    qed
  qed
  then show "tt_min_bond (?rows ! i) < tt_min_bond (?rows ! Suc i)"
    "tt_min_score_bps (?rows ! i) < tt_min_score_bps (?rows ! Suc i)" by simp_all
qed

lemma thr_ok_le:
  assumes "thr_ok rows" "i \<le> j" "j < TIER_COUNT"
  shows "tt_min_bond (rows ! i) \<le> tt_min_bond (rows ! j) \<and>
         tt_min_score_bps (rows ! i) \<le> tt_min_score_bps (rows ! j)"
  using assms(2,3)
proof (induction j rule: dec_induct)
  case (step n)
  then have "tt_min_bond (rows ! n) < tt_min_bond (rows ! Suc n)"
    "tt_min_score_bps (rows ! n) < tt_min_score_bps (rows ! Suc n)"
    using assms(1) by (auto simp: thr_ok_def)
  with step show ?case by simp
qed simp

lemma tier_reached_down:
  "thr_ok rows \<Longrightarrow> tier_reached rows sc b j \<Longrightarrow> i \<le> j \<Longrightarrow> j < TIER_COUNT \<Longrightarrow> tier_reached rows sc b i"
  using thr_ok_le [of rows i j] by (auto simp: tier_reached_def)

lemma set_tier_threshold_thr_ok:
  assumes "set_tier_threshold e t b sc s = Inr s'" "rg_thresholds s = Some rows" "thr_ok rows"
  shows "\<exists>rows'. rg_thresholds s' = Some rows' \<and> thr_ok rows'"
proof -
  have t: "0 < t" "t < TIER_COUNT"
    and below: "tt_min_bond (rows ! (t - 1)) < b" "tt_min_score_bps (rows ! (t - 1)) < sc"
    and above: "t + 1 < TIER_COUNT \<Longrightarrow> b < tt_min_bond (rows ! (t + 1)) \<and> sc < tt_min_score_bps (rows ! (t + 1))"
    and s': "rg_thresholds s' = Some (rows[t := \<lparr>tt_min_bond = b, tt_min_score_bps = sc\<rparr>])"
    using assms(1,2)
    by (auto simp: set_tier_threshold_def thresholds_def not_le split: if_splits)
  from thr_ok_update [OF assms(3) t below above] s' show ?thesis by simp
qed

text \<open>
  With a strictly increasing threshold table (which every transaction keeps),
  \<open>get_tier\<close> returns the tier such that exactly the rows up to it are reached by
  both the score and the bond.
\<close>

theorem tier_is_highest_earned:
  assumes "rg_thresholds s = Some rows" "thr_ok rows" "rg_solvers s solver = Some r"
    and "score_fits (sr_volume r)"
  shows "\<exists>t. get_tier s solver = Inr t \<and> t < TIER_COUNT \<and>
     (\<forall>j. 0 < j \<and> j < TIER_COUNT \<longrightarrow>
        (j \<le> t) = tier_reached rows (score_value (sr_completed r) (sr_failed r) (sr_volume r)) (sr_bond r) j)"
proof -
  let ?sc = "score_value (sr_completed r) (sr_failed r) (sr_volume r)"
  have "TIER_COUNT \<le> length rows" using assms(2) by (simp add: thr_ok_def)
  then obtain t where loop: "tier_loop rows ?sc (sr_bond r) 0 0 = Inr t"
    using tier_loop_total by blast
  have tf: "tier_for s ?sc (sr_bond r) = Inr t"
    using assms(1) loop by (simp add: tier_for_def thresholds_def need_def)
  have "get_tier s solver = Inr t"
    using assms(3) tf by (simp add: get_tier_def tier_of_def score_of_value [OF assms(4)])
  moreover have "(j \<le> t) = tier_reached rows ?sc (sr_bond r) j" if "0 < j" "j < TIER_COUNT" for j
    using tier_for_spec [OF tf assms(1)] tier_reached_down [OF assms(2)] that by fastforce
  ultimately show ?thesis using tier_for_range [OF tf] by blast
qed

definition demo_rows :: "TierThreshold list" where
  "demo_rows = map (\<lambda>(b, sc). \<lparr>tt_min_bond = b * USDC, tt_min_score_bps = sc\<rparr>) DEFAULT_THRESHOLDS"

definition demo_solver :: "int \<Rightarrow> SrRecord" where
  "demo_solver bond = \<lparr>sr_address = 1, sr_bond = bond, sr_completed = 9, sr_failed = 1,
     sr_volume = 10 ^ 12, sr_registered_at = 0, sr_last_slash = 0, sr_slashed_total = 0\<rparr>"

definition demo_registry :: registry where
  "demo_registry = \<lparr>rg_admin = Some 3, rg_pending_admin = None, rg_bond_token = Some 9,
     rg_fee_recipient = Some 4, rg_writer = Some 3, rg_pending_writer = None,
     rg_thresholds = Some demo_rows, rg_total_solvers = Some 1,
     rg_solvers = [1 \<mapsto> demo_solver (3000 * USDC)],
     rg_recorded = Map.empty, rg_obligation = Map.empty, rg_open = Map.empty\<rparr>"

theorem tier_is_highest_earned_witness:
  "\<exists>t. get_tier demo_registry 1 = Inr t \<and> t < TIER_COUNT \<and>
     (2 \<le> t) = tier_reached demo_rows (score_value 9 1 (10 ^ 12)) (3000 * USDC) 2"
  using tier_is_highest_earned [of demo_registry demo_rows 1 "demo_solver (3000 * USDC)"]
    thr_ok_default
  by (fastforce simp: demo_registry_def demo_rows_def demo_solver_def score_fits_def VOLUME_SCALE_def
      TIER_COUNT_def)

section \<open>What each operation does to the state\<close>

text \<open>The operations that move bonds, inverted: the guards that held, the state, the transfer.\<close>

lemma sr_register_solver_effect:
  assumes "sr_register_solver e a b s = Inr (s', tr)"
  shows "\<exists>tok. authed e a \<and> 0 < b \<and> rg_solvers s a = None \<and>
    rg_thresholds s \<noteq> None \<and> rg_bond_token s = Some tok \<and>
    s' = s\<lparr>rg_solvers := (rg_solvers s)(a \<mapsto> \<lparr>sr_address = a, sr_bond = b, sr_completed = 0,
             sr_failed = 0, sr_volume = 0, sr_registered_at = now e, sr_last_slash = 0,
             sr_slashed_total = 0\<rparr>),
           rg_total_solvers := Some (nat0 (rg_total_solvers s) + 1)\<rparr> \<and>
    tr = [\<lparr>x_token = tok, x_from = a, x_to = self e, x_amount = b\<rparr>]"
  using assms
  by (auto simp: sr_register_solver_def Let_def op_defs put_solver_def bond_client_def
      tier0_floor_def thresholds_def split: if_splits)

lemma stake_effect:
  assumes "stake e a b s = Inr (s', tr)"
  shows "\<exists>r tok. authed e a \<and> 0 < b \<and> rg_solvers s a = Some r \<and> rg_bond_token s = Some tok \<and>
    s' = put_solver a (r\<lparr>sr_bond := sr_bond r + b\<rparr>) s \<and>
    tr = [\<lparr>x_token = tok, x_from = a, x_to = self e, x_amount = b\<rparr>]"
  using assms
  by (auto simp: stake_def Let_def op_defs put_solver_def bond_client_def sr_load_solver_def split: if_splits)

lemma unstake_effect:
  assumes "unstake e a b s = Inr (s', tr)"
  shows "\<exists>r tok. authed e a \<and> 0 < b \<and> b \<le> sr_bond r \<and> open_obligations s a = 0 \<and>
    rg_solvers s a = Some r \<and> rg_bond_token s = Some tok \<and>
    s' = put_solver a (r\<lparr>sr_bond := sr_bond r - b\<rparr>) s \<and>
    tr = [\<lparr>x_token = tok, x_from = self e, x_to = a, x_amount = b\<rparr>]"
  using assms
  by (auto simp: unstake_def Let_def op_defs put_solver_def bond_client_def sr_load_solver_def split: if_splits)

lemma sr_deregister_effect:
  assumes "sr_deregister_solver e a s = Inr (s', tr)"
  shows "\<exists>r. authed e a \<and> open_obligations s a = 0 \<and> rg_solvers s a = Some r \<and>
    s' = s\<lparr>rg_solvers := (rg_solvers s)(a := None), rg_total_solvers := Some (nat0 (rg_total_solvers s) - 1)\<rparr> \<and>
    (if 0 < sr_bond r then \<exists>tok. rg_bond_token s = Some tok \<and>
        tr = [\<lparr>x_token = tok, x_from = self e, x_to = a, x_amount = sr_bond r\<rparr>]
     else tr = [])"
  using assms
  by (auto simp: sr_deregister_solver_def Let_def op_defs bond_client_def sr_load_solver_def split: if_splits)

lemma record_fill_effect:
  assumes "record_fill e c a i v s = Inr (s', tr)"
  shows "\<exists>r. rg_solvers s a = Some r \<and> 0 \<le> v \<and> rg_recorded s (''fill'', i) = None \<and> tr = [] \<and>
    s' = put_solver a (r\<lparr>sr_completed := sr_completed r + 1, sr_volume := sr_volume r + v\<rparr>)
           (s\<lparr>rg_recorded := (rg_recorded s)((''fill'', i) \<mapsto> True)\<rparr>)"
  using assms
  by (auto simp: record_fill_def Let_def sr_load_solver_def mark_recorded_def split: if_splits)

lemma record_failure_effect:
  assumes "record_failure e c a i s = Inr (s', tr)"
  shows "\<exists>r. rg_solvers s a = Some r \<and> rg_recorded s (''failure'', i) = None \<and> tr = [] \<and>
    s' = put_solver a (r\<lparr>sr_failed := sr_failed r + 1\<rparr>)
           (s\<lparr>rg_recorded := (rg_recorded s)((''failure'', i) \<mapsto> True)\<rparr>)"
  using assms
  by (auto simp: record_failure_def Let_def sr_load_solver_def mark_recorded_def split: if_splits)

text \<open>The slashed part: the tier's share of a positive bond, at least one unit.\<close>

definition slash_part :: "int \<Rightarrow> nat \<Rightarrow> int" where
  "slash_part b bps = (if b > 0 then max (b * int bps div 10000) 1 else 0)"

lemma slash_part_range: "bps \<le> 10000 \<Longrightarrow> 0 \<le> slash_part b bps \<and> (0 < b \<longrightarrow> 1 \<le> slash_part b bps \<and> slash_part b bps \<le> b)"
  using mult_div_le [of b "int bps" 10000] by (auto simp: slash_part_def)

lemma slash_tiers: "t < length SR_SLASH_BPS \<Longrightarrow> 500 \<le> SR_SLASH_BPS ! t \<and> SR_SLASH_BPS ! t \<le> 1000"
proof -
  have "\<forall>x \<in> set SR_SLASH_BPS. 500 \<le> x \<and> x \<le> 1000" by (simp add: SR_SLASH_BPS_def)
  then show "t < length SR_SLASH_BPS \<Longrightarrow> ?thesis" using nth_mem by blast
qed

lemma sr_slash_effect:
  assumes "sr_slash e c a i s = Inr (s', tr, amt, nt)"
  shows "\<exists>r t. rg_solvers s a = Some r \<and> rg_recorded s (''slash'', i) = None \<and>
    get_tier s a = Inr t \<and> t < length SR_SLASH_BPS \<and> amt = slash_part (sr_bond r) (SR_SLASH_BPS ! t) \<and>
    s' = put_solver a (r\<lparr>sr_bond := sr_bond r - amt, sr_failed := sr_failed r + 1,
             sr_slashed_total := sr_slashed_total r + amt, sr_last_slash := now e\<rparr>)
           (s\<lparr>rg_recorded := (rg_recorded s)((''slash'', i) \<mapsto> True)\<rparr>) \<and>
    get_tier s' a = Inr nt \<and>
    (if 0 < amt then \<exists>tok f. rg_bond_token s = Some tok \<and> rg_fee_recipient s = Some f \<and>
        tr = [\<lparr>x_token = tok, x_from = self e, x_to = f, x_amount = amt\<rparr>]
     else tr = [])"
  using assms
  by (auto simp: sr_slash_def Let_def op_defs sr_load_solver_def mark_recorded_def put_solver_def
      bond_client_def get_tier_def tier_of_def tier_for_def thresholds_def slash_part_def sdiv_nonneg
      split: if_splits)

section \<open>The invariant of the registry\<close>

text \<open>
  What every transaction keeps: before initialisation nothing is stored; afterwards there is
  a strictly increasing threshold table, bonds are not negative, the two counters count what
  they say, and the record of a solver carries its own address.
\<close>

definition bond_at :: "registry \<Rightarrow> address \<Rightarrow> int" where
  "bond_at s a = (case rg_solvers s a of None \<Rightarrow> 0 | Some r \<Rightarrow> sr_bond r)"

definition total_bond :: "registry \<Rightarrow> int" where
  "total_bond s = (\<Sum>a \<in> dom (rg_solvers s). bond_at s a)"

definition solvers_ok :: "registry \<Rightarrow> bool" where
  "solvers_ok s \<longleftrightarrow> finite (dom (rg_solvers s)) \<and> nat0 (rg_total_solvers s) = card (dom (rg_solvers s)) \<and>
     (\<forall>a r. rg_solvers s a = Some r \<longrightarrow> sr_address r = a \<and> 0 \<le> sr_bond r \<and> 0 \<le> sr_volume r)"

definition locked :: "registry \<Rightarrow> address \<Rightarrow> bytes32 set" where
  "locked s a = {i. rg_obligation s (a, i) \<noteq> None}"

definition obligations_ok :: "registry \<Rightarrow> bool" where
  "obligations_ok s \<longleftrightarrow> (\<forall>a. open_obligations s a = card (locked s a))"

definition table_ok :: "registry \<Rightarrow> bool" where
  "table_ok s \<longleftrightarrow>
     (case rg_admin s of
        None \<Rightarrow> rg_thresholds s = None \<and> rg_bond_token s = None \<and> rg_total_solvers s = None \<and>
          dom (rg_solvers s) = {}
      | Some _ \<Rightarrow> rg_bond_token s \<noteq> None \<and> (\<exists>rows. rg_thresholds s = Some rows \<and> thr_ok rows))"

lemma bond_at_Some [simp]: "rg_solvers s a = Some r \<Longrightarrow> bond_at s a = sr_bond r"
  by (simp add: bond_at_def)

lemma bond_at_None [simp]: "rg_solvers s a = None \<Longrightarrow> bond_at s a = 0"
  by (simp add: bond_at_def)

lemma bond_at_cong: "rg_solvers s = rg_solvers s' \<Longrightarrow> bond_at s a = bond_at s' a"
  by (simp add: bond_at_def)

text \<open>The total over any finite set that contains the solvers.\<close>

lemma total_bond_superset:
  "finite A \<Longrightarrow> dom (rg_solvers s) \<subseteq> A \<Longrightarrow> total_bond s = (\<Sum>a \<in> A. bond_at s a)"
  unfolding total_bond_def by (rule sum.mono_neutral_left) (auto simp: bond_at_def split: option.splits)

text \<open>An operation that touches one solver moves the total by that solver's change.\<close>

lemma total_bond_change:
  assumes fin: "finite (dom (rg_solvers s))"
    and upd: "\<And>b. b \<noteq> a \<Longrightarrow> rg_solvers s' b = rg_solvers s b"
  shows "total_bond s' - total_bond s = bond_at s' a - bond_at s a"
proof -
  let ?A = "insert a (dom (rg_solvers s))"
  have "dom (rg_solvers s') \<subseteq> ?A" using upd by (metis domIff insert_iff subsetI)
  then have "total_bond s' = (\<Sum>b \<in> ?A. bond_at s' b)" "total_bond s = (\<Sum>b \<in> ?A. bond_at s b)"
    using fin by (auto intro!: total_bond_superset)
  moreover have "(\<Sum>b \<in> ?A - {a}. bond_at s' b) = (\<Sum>b \<in> ?A - {a}. bond_at s b)"
    by (rule sum.cong) (auto simp: bond_at_def upd)
  ultimately show ?thesis
    using fin by (simp add: sum.remove [of ?A a])
qed

text \<open>The transactions that leave the solvers, or the obligations, or the table alone.\<close>

lemma put_solver_simps [simp]:
  "rg_admin (put_solver a r s) = rg_admin s" "rg_thresholds (put_solver a r s) = rg_thresholds s"
  "rg_bond_token (put_solver a r s) = rg_bond_token s" "rg_total_solvers (put_solver a r s) = rg_total_solvers s"
  "rg_obligation (put_solver a r s) = rg_obligation s" "rg_open (put_solver a r s) = rg_open s"
  "rg_recorded (put_solver a r s) = rg_recorded s" "rg_fee_recipient (put_solver a r s) = rg_fee_recipient s"
  "rg_solvers (put_solver a r s) = (rg_solvers s)(a \<mapsto> r)"
  by (simp_all add: put_solver_def)

lemma solvers_ok_put:
  assumes "solvers_ok s" "rg_solvers s a = Some r0" "sr_address r = a" "0 \<le> sr_bond r" "0 \<le> sr_volume r"
    "rg_solvers t = rg_solvers s" "rg_total_solvers t = rg_total_solvers s"
  shows "solvers_ok (put_solver a r t)"
proof -
  have "insert a (dom (rg_solvers s)) = dom (rg_solvers s)" using assms(2) by auto
  with assms show ?thesis by (auto simp: solvers_ok_def)
qed

definition same_books :: "registry \<Rightarrow> registry \<Rightarrow> bool" where
  "same_books s s' \<longleftrightarrow> rg_solvers s' = rg_solvers s \<and> rg_total_solvers s' = rg_total_solvers s \<and>
     rg_bond_token s' = rg_bond_token s \<and> rg_fee_recipient s' = rg_fee_recipient s \<and>
     rg_obligation s' = rg_obligation s \<and> rg_open s' = rg_open s \<and> rg_recorded s' = rg_recorded s"

lemma same_books_simps:
  "set_writer e w s = Inr s' \<Longrightarrow> same_books s s' \<and> rg_admin s' = rg_admin s \<and> rg_thresholds s' = rg_thresholds s"
  "propose_admin e w s = Inr s' \<Longrightarrow> same_books s s' \<and> rg_admin s' = rg_admin s \<and> rg_thresholds s' = rg_thresholds s"
  "cancel_admin_transfer e s = Inr s' \<Longrightarrow> same_books s s' \<and> rg_admin s' = rg_admin s \<and> rg_thresholds s' = rg_thresholds s"
  "propose_writer e w s = Inr s' \<Longrightarrow> same_books s s' \<and> rg_admin s' = rg_admin s \<and> rg_thresholds s' = rg_thresholds s"
  "execute_writer e w s = Inr s' \<Longrightarrow> same_books s s' \<and> rg_admin s' = rg_admin s \<and> rg_thresholds s' = rg_thresholds s"
  "cancel_writer e s = Inr s' \<Longrightarrow> same_books s s' \<and> rg_admin s' = rg_admin s \<and> rg_thresholds s' = rg_thresholds s"
  "accept_admin e w s = Inr s' \<Longrightarrow> same_books s s' \<and> rg_admin s \<noteq> None \<and> rg_admin s' \<noteq> None \<and> rg_thresholds s' = rg_thresholds s"
  by (auto simp: same_books_def set_writer_def propose_admin_def cancel_admin_transfer_def propose_writer_def
      execute_writer_def cancel_writer_def accept_admin_def split: if_splits)

lemma set_tier_threshold_books:
  "set_tier_threshold e t b sc s = Inr s' \<Longrightarrow> same_books s s' \<and> rg_admin s' = rg_admin s"
  by (auto simp: same_books_def set_tier_threshold_def split: if_splits)

fun books_event :: "sr_event \<Rightarrow> bool" where
  "books_event (SrSetWriter _) = True"
| "books_event (SrProposeAdmin _) = True"
| "books_event (SrAcceptAdmin _) = True"
| "books_event SrCancelAdmin = True"
| "books_event (SrProposeWriter _) = True"
| "books_event (SrExecuteWriter _) = True"
| "books_event SrCancelWriter = True"
| "books_event (SrSetThreshold _ _ _) = True"
| "books_event _ = False"

lemma books_event_same:
  "sr_apply e ev s = Inr (s', tr) \<Longrightarrow> books_event ev \<Longrightarrow> same_books s s' \<and> tr = []"
  by (cases ev) (auto dest: same_books_simps set_tier_threshold_books)

lemma lock_obligation_effect:
  assumes "lock_obligation e c a i s = Inr (s', n)"
  shows "rg_solvers s a \<noteq> None \<and>
    (if rg_obligation s (a, i) \<noteq> None then s' = s
     else s' = s\<lparr>rg_obligation := (rg_obligation s)((a, i) \<mapsto> True),
                 rg_open := (rg_open s)(a \<mapsto> open_obligations s a + 1)\<rparr>)"
  using assms
  by (auto simp: lock_obligation_def Let_def sr_load_solver_def store_open_obligations_def split: if_splits)

lemma release_obligation_effect:
  assumes "release_obligation e c a i s = Inr (s', n)"
  shows "if rg_obligation s (a, i) = None then s' = s
     else s' = s\<lparr>rg_obligation := (rg_obligation s)((a, i) := None),
                 rg_open := (rg_open s)(a := if open_obligations s a - 1 = 0 then None
                   else Some (open_obligations s a - 1))\<rparr>"
  using assms
  by (auto simp: release_obligation_def Let_def store_open_obligations_def split: if_splits)

lemma same_books_ok:
  "same_books s s' \<Longrightarrow> solvers_ok s' = solvers_ok s"
  "same_books s s' \<Longrightarrow> obligations_ok s' = obligations_ok s"
  "same_books s s' \<Longrightarrow> total_bond s' = total_bond s"
  by (auto simp: same_books_def solvers_ok_def obligations_ok_def locked_def open_obligations_def total_bond_def bond_at_def)

lemma obligations_ok_cong:
  "rg_obligation s' = rg_obligation s \<Longrightarrow> rg_open s' = rg_open s \<Longrightarrow> obligations_ok s' = obligations_ok s"
  by (simp add: obligations_ok_def locked_def open_obligations_def)

lemma solvers_ok_cong:
  "rg_solvers s' = rg_solvers s \<Longrightarrow> rg_total_solvers s' = rg_total_solvers s \<Longrightarrow> solvers_ok s' = solvers_ok s"
  by (simp add: solvers_ok_def)

lemma locked_insert:
  "rg_obligation s' = (rg_obligation s)((a, i) \<mapsto> True) \<Longrightarrow>
   locked s' b = (if b = a then insert i (locked s a) else locked s b)"
  by (auto simp: locked_def)

lemma locked_remove:
  "rg_obligation s' = (rg_obligation s)((a, i) := None) \<Longrightarrow>
   locked s' b = (if b = a then locked s a - {i} else locked s b)"
  by (auto simp: locked_def)

lemma obligations_ok_lock:
  assumes "obligations_ok s" "rg_obligation s (a, i) = None"
    "rg_obligation s' = (rg_obligation s)((a, i) \<mapsto> True)"
    "rg_open s' = (rg_open s)(a \<mapsto> open_obligations s a + 1)"
  shows "obligations_ok s'"
proof -
  have "i \<notin> locked s a" using assms(2) by (simp add: locked_def)
  with assms(1,4) show ?thesis
    by (auto simp: obligations_ok_def locked_insert [OF assms(3)] open_obligations_def)
qed

lemma obligations_ok_release:
  assumes "obligations_ok s" "rg_obligation s (a, i) \<noteq> None"
    "rg_obligation s' = (rg_obligation s)((a, i) := None)"
    "rg_open s' = (rg_open s)(a := if open_obligations s a - 1 = 0 then None
                   else Some (open_obligations s a - 1))"
  shows "obligations_ok s'"
proof -
  have "i \<in> locked s a" using assms(2) by (simp add: locked_def)
  then have card: "card (locked s a - {i}) = card (locked s a) - 1" by (rule card_Diff_singleton)
  have "open_obligations s' b = card (locked s' b)" for b
  proof (cases "b = a")
    case True
    have "open_obligations s' a = open_obligations s a - 1"
      by (simp add: open_obligations_def assms(4))
    with True assms(1) show ?thesis by (simp add: locked_remove [OF assms(3)] card obligations_ok_def)
  next
    case False
    with assms(1) show ?thesis
      by (simp add: obligations_ok_def locked_remove [OF assms(3)] open_obligations_def assms(4))
  qed
  then show ?thesis by (simp add: obligations_ok_def)
qed

text \<open>Each part of the invariant, over one transaction.\<close>

lemma sr_initialize_effect:
  "sr_initialize e a b f s = Inr s' \<Longrightarrow> rg_admin s = None \<and> rg_admin s' = Some a \<and>
     rg_bond_token s' = Some b \<and> rg_fee_recipient s' = Some f \<and> rg_solvers s' = rg_solvers s \<and>
     rg_total_solvers s' = Some 0 \<and> rg_obligation s' = rg_obligation s \<and> rg_open s' = rg_open s \<and>
     rg_recorded s' = rg_recorded s \<and> (\<exists>rows. rg_thresholds s' = Some rows \<and> thr_ok rows)"
  using thr_ok_default by (auto simp: sr_initialize_def split: if_splits)

lemma table_ok_cong:
  "table_ok s \<Longrightarrow> rg_admin s \<noteq> None \<Longrightarrow> rg_admin s' \<noteq> None \<Longrightarrow> rg_thresholds s' = rg_thresholds s \<Longrightarrow>
   rg_bond_token s' = rg_bond_token s \<Longrightarrow> table_ok s'"
  by (auto simp: table_ok_def)

lemma table_ok_same:
  "table_ok s \<Longrightarrow> same_books s s' \<Longrightarrow> rg_admin s' = rg_admin s \<Longrightarrow> rg_thresholds s' = rg_thresholds s \<Longrightarrow> table_ok s'"
  by (auto simp: table_ok_def same_books_def split: option.splits)

lemma table_ok_admin:
  "table_ok s \<Longrightarrow> rg_bond_token s \<noteq> None \<or> rg_solvers s a \<noteq> None \<or> rg_thresholds s \<noteq> None \<Longrightarrow> rg_admin s \<noteq> None"
  by (auto simp: table_ok_def split: option.splits)

lemma sr_apply_table_ok:
  assumes "sr_apply e ev s = Inr (s', tr)" "table_ok s"
  shows "table_ok s'"
proof (cases ev)
  case (SrInit a b f)
  with assms sr_initialize_effect [of e a b f s s'] show ?thesis by (auto simp: table_ok_def)
next
  case (SrAcceptAdmin a)
  with assms same_books_simps(7) [of e a s s'] show ?thesis
    by (intro table_ok_cong [of s s']) (simp_all add: same_books_def)
next
  case (SrSetThreshold t b sc)
  with assms have op: "set_tier_threshold e t b sc s = Inr s'" by simp
  then have "rg_thresholds s \<noteq> None" by (auto simp: set_tier_threshold_def thresholds_def split: if_splits)
  with assms(2) table_ok_admin obtain rows where adm: "rg_admin s \<noteq> None" "rg_thresholds s = Some rows" "thr_ok rows"
    by (fastforce simp: table_ok_def split: option.splits)
  then have "rg_bond_token s \<noteq> None" using assms(2) by (auto simp: table_ok_def)
  with adm set_tier_threshold_thr_ok [OF op] set_tier_threshold_books [OF op] show ?thesis
    by (auto simp: table_ok_def same_books_def)
next
  case (SrRegister a b)
  with assms sr_register_solver_effect [of e a b s s' tr] table_ok_admin [of s a] show ?thesis
    by (intro table_ok_cong [of s s']) auto
next
  case (SrStake a b)
  with assms stake_effect [of e a b s s' tr] table_ok_admin [of s a] show ?thesis
    by (intro table_ok_cong [of s s']) auto
next
  case (SrUnstake a b)
  with assms unstake_effect [of e a b s s' tr] table_ok_admin [of s a] show ?thesis
    by (intro table_ok_cong [of s s']) auto
next
  case (SrDeregister a)
  with assms sr_deregister_effect [of e a s s' tr] table_ok_admin [of s a] show ?thesis
    by (intro table_ok_cong [of s s']) auto
next
  case (SrFill c a i v)
  with assms record_fill_effect [of e c a i v s s' tr] table_ok_admin [of s a] show ?thesis
    by (intro table_ok_cong [of s s']) auto
next
  case (SrFailure c a i)
  with assms record_failure_effect [of e c a i s s' tr] table_ok_admin [of s a] show ?thesis
    by (intro table_ok_cong [of s s']) auto
next
  case (SrSlash c a i)
  with assms obtain amt nt where "sr_slash e c a i s = Inr (s', tr, amt, nt)" by auto
  from sr_slash_effect [OF this] assms(2) table_ok_admin [of s a] show ?thesis
    by (intro table_ok_cong [of s s']) auto
next
  case (SrLock c a i)
  with assms obtain n where "lock_obligation e c a i s = Inr (s', n)" by auto
  from lock_obligation_effect [OF this] assms(2) table_ok_admin [of s a] show ?thesis
    by (intro table_ok_cong [of s s']) (auto split: if_splits)
next
  case (SrRelease c a i)
  with assms obtain n where op: "release_obligation e c a i s = Inr (s', n)" by auto
  from release_obligation_effect [OF this] assms(2) show ?thesis
    by (auto simp: table_ok_def split: option.splits if_splits)
qed (use assms table_ok_same same_books_simps in force)+

lemma sr_apply_obligations_ok:
  assumes "sr_apply e ev s = Inr (s', tr)" "obligations_ok s"
  shows "obligations_ok s'"
proof (cases ev)
  case (SrInit a b f)
  with assms sr_initialize_effect [of e a b f s s'] show ?thesis
    by (auto simp: obligations_ok_cong [of s' s])
next
  case (SrRegister a b)
  with assms sr_register_solver_effect [of e a b s s' tr] obligations_ok_cong [of s' s] show ?thesis by auto
next
  case (SrStake a b)
  with assms stake_effect [of e a b s s' tr] obligations_ok_cong [of s' s] show ?thesis by auto
next
  case (SrUnstake a b)
  with assms unstake_effect [of e a b s s' tr] obligations_ok_cong [of s' s] show ?thesis by auto
next
  case (SrDeregister a)
  with assms sr_deregister_effect [of e a s s' tr] obligations_ok_cong [of s' s] show ?thesis by auto
next
  case (SrFill c a i v)
  with assms record_fill_effect [of e c a i v s s' tr] obligations_ok_cong [of s' s] show ?thesis by auto
next
  case (SrFailure c a i)
  with assms record_failure_effect [of e c a i s s' tr] obligations_ok_cong [of s' s] show ?thesis by auto
next
  case (SrSlash c a i)
  with assms obtain amt nt where "sr_slash e c a i s = Inr (s', tr, amt, nt)" by auto
  from sr_slash_effect [OF this] assms(2) obligations_ok_cong [of s' s] show ?thesis by auto
next
  case (SrLock c a i)
  with assms obtain n where "lock_obligation e c a i s = Inr (s', n)" by auto
  from lock_obligation_effect [OF this] assms(2) obligations_ok_lock [of s a i s'] show ?thesis
    by (auto split: if_splits)
next
  case (SrRelease c a i)
  with assms obtain n where op: "release_obligation e c a i s = Inr (s', n)" by auto
  show ?thesis
  proof (cases "rg_obligation s (a, i) = None")
    case True
    with release_obligation_effect [OF op] assms(2) show ?thesis by simp
  next
    case False
    with release_obligation_effect [OF op] show ?thesis
      by (intro obligations_ok_release [OF assms(2) False]) simp_all
  qed
qed (use assms(2) books_event_same [OF assms(1)] same_books_ok(2) [of s s'] in simp)+

lemma sr_apply_solvers_ok:
  assumes "sr_apply e ev s = Inr (s', tr)" "solvers_ok s" "table_ok s"
  shows "solvers_ok s'"
proof (cases ev)
  case (SrInit a b f)
  with assms sr_initialize_effect [of e a b f s s'] show ?thesis
    by (auto simp: solvers_ok_def table_ok_def)
next
  case (SrRegister a b)
  with assms sr_register_solver_effect [of e a b s s' tr] show ?thesis
    by (auto simp: solvers_ok_def domIff split: if_splits)
next
  case (SrStake a b)
  with assms stake_effect [of e a b s s' tr] show ?thesis
    by (auto intro!: solvers_ok_put [of s a]) (auto simp: solvers_ok_def)
next
  case (SrUnstake a b)
  with assms unstake_effect [of e a b s s' tr] show ?thesis
    by (auto intro!: solvers_ok_put [of s a]) (auto simp: solvers_ok_def)
next
  case (SrDeregister a)
  with assms(1) have op: "sr_deregister_solver e a s = Inr (s', tr)" by simp
  have "a \<in> dom (rg_solvers s)" using sr_deregister_effect [OF op] by auto
  then have "card (dom (rg_solvers s) - {a}) = card (dom (rg_solvers s)) - 1"
    using assms(2) by (simp add: solvers_ok_def)
  with sr_deregister_effect [OF op] assms(2) show ?thesis
    by (auto simp: solvers_ok_def split: if_splits)
next
  case (SrFill c a i v)
  with assms record_fill_effect [of e c a i v s s' tr] show ?thesis
    by (auto intro!: solvers_ok_put [of s a]) (auto simp: solvers_ok_def)
next
  case (SrFailure c a i)
  with assms record_failure_effect [of e c a i s s' tr] show ?thesis
    by (auto intro!: solvers_ok_put [of s a]) (auto simp: solvers_ok_def)
next
  case (SrSlash c a i)
  with assms obtain amt nt where op: "sr_slash e c a i s = Inr (s', tr, amt, nt)" by auto
  then obtain r t where r: "rg_solvers s a = Some r" "t < length SR_SLASH_BPS"
    and amt: "amt = slash_part (sr_bond r) (SR_SLASH_BPS ! t)"
    and s': "s' = put_solver a (r\<lparr>sr_bond := sr_bond r - amt, sr_failed := sr_failed r + 1,
             sr_slashed_total := sr_slashed_total r + amt, sr_last_slash := now e\<rparr>)
           (s\<lparr>rg_recorded := (rg_recorded s)((''slash'', i) \<mapsto> True)\<rparr>)"
    using sr_slash_effect [OF op] by blast
  have rok: "sr_address r = a" "0 \<le> sr_bond r" "0 \<le> sr_volume r"
    using assms(2) r(1) by (auto simp: solvers_ok_def)
  have "amt \<le> sr_bond r"
    using slash_part_range [of "SR_SLASH_BPS ! t" "sr_bond r"] slash_tiers [OF r(2)] rok(2)
    by (cases "sr_bond r = 0") (auto simp: amt slash_part_def)
  with rok r(1) assms(2) show ?thesis
    unfolding s' by (intro solvers_ok_put [of s a r]) simp_all
next
  case (SrLock c a i)
  with assms obtain n where "lock_obligation e c a i s = Inr (s', n)" by auto
  from lock_obligation_effect [OF this] assms(2) solvers_ok_cong [of s' s] show ?thesis
    by (auto split: if_splits)
next
  case (SrRelease c a i)
  with assms obtain n where op: "release_obligation e c a i s = Inr (s', n)" by auto
  from release_obligation_effect [OF op] assms(2) solvers_ok_cong [of s' s] show ?thesis
    by (auto split: if_splits)
qed (use assms(2) books_event_same [OF assms(1)] same_books_ok(1) [of s s'] in simp)+

section \<open>Solvency\<close>

text \<open>
  A run from the empty registry: the transactions that went through, with every transfer
  they made. The registry never signs for itself, and is not its own fee recipient.
\<close>

definition empty_registry :: registry where
  "empty_registry = \<lparr>rg_admin = None, rg_pending_admin = None, rg_bond_token = None,
     rg_fee_recipient = None, rg_writer = None, rg_pending_writer = None, rg_thresholds = None,
     rg_total_solvers = None, rg_solvers = Map.empty, rg_recorded = Map.empty,
     rg_obligation = Map.empty, rg_open = Map.empty\<rparr>"

fun own_recipient :: "address \<Rightarrow> sr_event \<Rightarrow> bool" where
  "own_recipient me (SrInit a b f) = (f = me)"
| "own_recipient me _ = False"

inductive sr_reach :: "address \<Rightarrow> registry \<Rightarrow> xfer list \<Rightarrow> bool" for me where
  start: "sr_reach me empty_registry []"
| step: "sr_reach me s tr \<Longrightarrow> self e = me \<Longrightarrow> \<not> authed e me \<Longrightarrow> \<not> own_recipient me ev \<Longrightarrow>
    sr_apply e ev s = Inr (s', tr') \<Longrightarrow> sr_reach me s' (tr @ tr')"

definition sr_inv :: "registry \<Rightarrow> bool" where
  "sr_inv s \<longleftrightarrow> solvers_ok s \<and> obligations_ok s \<and> table_ok s"

lemma sr_inv_empty: "sr_inv empty_registry"
  by (simp add: sr_inv_def solvers_ok_def obligations_ok_def table_ok_def empty_registry_def
      open_obligations_def locked_def)

lemma sr_reach_inv: "sr_reach me s tr \<Longrightarrow> sr_inv s"
  by (induction rule: sr_reach.induct)
    (use sr_inv_empty in \<open>auto simp: sr_inv_def intro: sr_apply_solvers_ok sr_apply_obligations_ok sr_apply_table_ok\<close>)

text \<open>One transaction moves the total bond by exactly what it moves through the token.\<close>

lemma x_net_simps [simp]:
  "x_net tok me \<lparr>x_token = tok, x_from = a, x_to = b, x_amount = v\<rparr> =
     (if b = me then v else 0) - (if a = me then v else 0)"
  by (simp add: x_net_def)

lemma sr_apply_conserves:
  assumes ap: "sr_apply e ev s = Inr (s', tr)" and inv: "solvers_ok s" "table_ok s"
    and me: "self e = me" "rg_solvers s me = None" "\<not> authed e me" "rg_fee_recipient s \<noteq> Some me"
    and tok: "rg_bond_token s' = Some tok"
  shows "total_bond s' - total_bond s = net_in tok me tr"
proof -
  have fin: "finite (dom (rg_solvers s))" using inv(1) by (simp add: solvers_ok_def)
  note change = total_bond_change [OF fin, of _ s']
  show ?thesis
  proof (cases ev)
    case (SrInit a b f)
    with ap sr_initialize_effect [of e a b f s s'] show ?thesis
      by (auto simp: total_bond_def bond_at_def)
  next
    case (SrRegister a b)
    with ap have op: "sr_register_solver e a b s = Inr (s', tr)" by simp
    from sr_register_solver_effect [OF op] me tok show ?thesis
      by (subst change [of a]) auto
  next
    case (SrStake a b)
    with ap have op: "stake e a b s = Inr (s', tr)" by simp
    from stake_effect [OF op] me tok show ?thesis by (subst change [of a]) auto
  next
    case (SrUnstake a b)
    with ap have op: "unstake e a b s = Inr (s', tr)" by simp
    from unstake_effect [OF op] me tok show ?thesis by (subst change [of a]) auto
  next
    case (SrDeregister a)
    with ap have op: "sr_deregister_solver e a s = Inr (s', tr)" by simp
    from sr_deregister_effect [OF op] obtain r where r: "rg_solvers s a = Some r" "a \<noteq> me"
      using me by auto
    then have "0 \<le> sr_bond r" using inv(1) by (simp add: solvers_ok_def)
    with r sr_deregister_effect [OF op] me tok show ?thesis
      by (subst change [of a]) (auto split: if_splits)
  next
    case (SrFill c a i v)
    with ap have op: "record_fill e c a i v s = Inr (s', tr)" by simp
    from record_fill_effect [OF op] show ?thesis by (subst change [of a]) auto
  next
    case (SrFailure c a i)
    with ap have op: "record_failure e c a i s = Inr (s', tr)" by simp
    from record_failure_effect [OF op] show ?thesis by (subst change [of a]) auto
  next
    case (SrSlash c a i)
    with ap obtain amt nt where op: "sr_slash e c a i s = Inr (s', tr, amt, nt)" by auto
    then obtain r t where eff: "rg_solvers s a = Some r" "t < length SR_SLASH_BPS"
      "amt = slash_part (sr_bond r) (SR_SLASH_BPS ! t)"
      "if 0 < amt then \<exists>tok f. rg_bond_token s = Some tok \<and> rg_fee_recipient s = Some f \<and>
        tr = [\<lparr>x_token = tok, x_from = self e, x_to = f, x_amount = amt\<rparr>] else tr = []"
      "s' = put_solver a (r\<lparr>sr_bond := sr_bond r - amt, sr_failed := sr_failed r + 1,
             sr_slashed_total := sr_slashed_total r + amt, sr_last_slash := now e\<rparr>)
           (s\<lparr>rg_recorded := (rg_recorded s)((''slash'', i) \<mapsto> True)\<rparr>)"
      using sr_slash_effect [OF op] by blast
    have "0 \<le> amt"
      using slash_part_range [of "SR_SLASH_BPS ! t" "sr_bond r"] slash_tiers [OF eff(2)] eff(3) by simp
    with eff me tok show ?thesis by (subst change [of a]) (auto split: if_splits)
  next
    case (SrLock c a i)
    with ap obtain n where op: "lock_obligation e c a i s = Inr (s', n)" "tr = []" by auto
    from lock_obligation_effect [OF op(1)] show ?thesis
      by (subst change [of a]) (auto simp: op(2) bond_at_def split: if_splits)
  next
    case (SrRelease c a i)
    with ap obtain n where op: "release_obligation e c a i s = Inr (s', n)" "tr = []" by auto
    from release_obligation_effect [OF op(1)] show ?thesis
      by (subst change [of a]) (auto simp: op(2) bond_at_def split: if_splits)
  qed (use books_event_same [OF ap] same_books_ok(3) [of s s'] in simp)+
qed

text \<open>What stays: the bond token once it is set, and that the registry is no party of its own.\<close>

lemma sr_slash_frame:
  "sr_slash e c a i s = Inr (s', tr, amt, nt) \<Longrightarrow> rg_bond_token s' = rg_bond_token s \<and>
     rg_fee_recipient s' = rg_fee_recipient s \<and> rg_solvers s a \<noteq> None \<and>
     (rg_bond_token s = None \<longrightarrow> tr = []) \<and> (\<forall>b. b \<noteq> a \<longrightarrow> rg_solvers s' b = rg_solvers s b)"
  using sr_slash_effect [of e c a i s s' tr amt nt] by (auto split: if_splits)

lemma sr_apply_frame:
  assumes ap: "sr_apply e ev s = Inr (s', tr)" and tab: "table_ok s"
    and me: "rg_solvers s me = None" "\<not> authed e me" "rg_fee_recipient s \<noteq> Some me" "\<not> own_recipient me ev"
  shows "rg_solvers s' me = None" "rg_fee_recipient s' \<noteq> Some me"
    "rg_bond_token s = Some tok \<Longrightarrow> rg_bond_token s' = Some tok"
    "rg_bond_token s = None \<Longrightarrow> tr = []"
proof -
  have "rg_solvers s' me = None \<and> rg_fee_recipient s' \<noteq> Some me \<and>
    (rg_bond_token s = Some tok \<longrightarrow> rg_bond_token s' = Some tok) \<and> (rg_bond_token s = None \<longrightarrow> tr = [])"
  proof (cases ev)
    case (SrInit a b f)
    with ap have op: "sr_initialize e a b f s = Inr s'" "tr = []" by simp_all
    from sr_initialize_effect [OF op(1)] tab have "rg_bond_token s = None" by (simp add: table_ok_def)
    with sr_initialize_effect [OF op(1)] me SrInit op(2) show ?thesis by auto
  next
    case (SrRegister a b)
    with ap sr_register_solver_effect [of e a b s s' tr] me show ?thesis by auto
  next
    case (SrStake a b)
    with ap stake_effect [of e a b s s' tr] me show ?thesis by auto
  next
    case (SrUnstake a b)
    with ap unstake_effect [of e a b s s' tr] me show ?thesis by auto
  next
    case (SrDeregister a)
    with ap sr_deregister_effect [of e a s s' tr] me show ?thesis by (auto split: if_splits)
  next
    case (SrFill c a i v)
    with ap record_fill_effect [of e c a i v s s' tr] me show ?thesis by auto
  next
    case (SrFailure c a i)
    with ap record_failure_effect [of e c a i s s' tr] me show ?thesis by auto
  next
    case (SrSlash c a i)
    with ap obtain amt nt where "sr_slash e c a i s = Inr (s', tr, amt, nt)" by auto
    from sr_slash_frame [OF this] me show ?thesis by metis
  next
    case (SrLock c a i)
    with ap obtain n where op: "lock_obligation e c a i s = Inr (s', n)" "tr = []" by auto
    from lock_obligation_effect [OF op(1)] op(2) me show ?thesis by (auto split: if_splits)
  next
    case (SrRelease c a i)
    with ap obtain n where op: "release_obligation e c a i s = Inr (s', n)" "tr = []" by auto
    from release_obligation_effect [OF op(1)] op(2) me show ?thesis by (auto split: if_splits)
  qed (use me books_event_same [OF ap] in \<open>simp add: same_books_def\<close>)+
  then show "rg_solvers s' me = None" "rg_fee_recipient s' \<noteq> Some me"
    "rg_bond_token s = Some tok \<Longrightarrow> rg_bond_token s' = Some tok"
    "rg_bond_token s = None \<Longrightarrow> tr = []" by blast+
qed

lemma sr_reach_solvent:
  "sr_reach me s tr \<Longrightarrow> rg_solvers s me = None \<and> rg_fee_recipient s \<noteq> Some me \<and>
     (\<forall>tok. rg_bond_token s = Some tok \<longrightarrow> net_in tok me tr = total_bond s) \<and>
     (rg_bond_token s = None \<longrightarrow> tr = [] \<and> total_bond s = 0)"
proof (induction rule: sr_reach.induct)
  case start
  show ?case by (simp add: empty_registry_def total_bond_def)
next
  case (step s tr e ev s' tr')
  have inv: "solvers_ok s" "table_ok s" using sr_reach_inv [OF step.hyps(1)] by (simp_all add: sr_inv_def)
  have me: "rg_solvers s me = None" "rg_fee_recipient s \<noteq> Some me" using step.IH by simp_all
  note frame = sr_apply_frame [OF step.hyps(5) inv(2) me(1) step.hyps(3) me(2) step.hyps(4)]
  note move = sr_apply_conserves [OF step.hyps(5) inv step.hyps(2) me(1) step.hyps(3) me(2)]
  have solvent: "net_in tok me (tr @ tr') = total_bond s'" if "rg_bond_token s' = Some tok" for tok
  proof (cases "rg_bond_token s")
    case None
    with step.IH move [OF that] show ?thesis by simp
  next
    case (Some tok')
    with frame(3) [OF this] that have "tok' = tok" by simp
    with step.IH move [OF that] Some show ?thesis by simp
  qed
  have "rg_bond_token s = None" if "rg_bond_token s' = None"
    using frame(3) that by (cases "rg_bond_token s") auto
  moreover have "total_bond s' = 0 \<and> tr' = []" if none: "rg_bond_token s' = None" "rg_bond_token s = None"
  proof -
    have "table_ok s'" by (rule sr_apply_table_ok [OF step.hyps(5) inv(2)])
    then have "rg_admin s' = None" using none(1) by (auto simp: table_ok_def split: option.splits)
    with \<open>table_ok s'\<close> have "dom (rg_solvers s') = {}" by (simp add: table_ok_def)
    then show ?thesis using frame(4) none by (simp add: total_bond_def)
  qed
  ultimately show ?case using frame(1,2) solvent step.IH by auto
qed

text \<open>
  C4: After any run of transactions of the solver registry from the empty contract (the
  registry never authorises for itself and is not its own fee recipient), the net amount of
  the bond token that its transfers moved into it is exactly the sum of the bonds on its
  books, its solver counter is the number of registered solvers, and no bond is negative.
\<close>

theorem registry_solvent:
  assumes "sr_reach me s tr" "rg_bond_token s = Some tok"
  shows "net_in tok me tr = (\<Sum>a \<in> dom (rg_solvers s). bond_at s a) \<and>
     nat0 (rg_total_solvers s) = card (dom (rg_solvers s)) \<and>
     (\<forall>a r. rg_solvers s a = Some r \<longrightarrow> 0 \<le> sr_bond r)"
  using sr_reach_solvent [OF assms(1)] sr_reach_inv [OF assms(1)] assms(2)
  by (simp add: total_bond_def sr_inv_def solvers_ok_def)

definition user_env :: "nat \<Rightarrow> env" where
  "user_env t = (plain_env t)\<lparr>authed := (\<lambda>a. a \<noteq> 5)\<rparr>"

lemma user_env_simps [simp]:
  "now (user_env t) = t" "self (user_env t) = 5" "authed (user_env t) a \<longleftrightarrow> a \<noteq> 5"
  "tok_ok (user_env t) tr x" "tok_delta (user_env t) tr x = x_amount x"
  by (simp_all add: user_env_def)

text \<open>One registered solver, bonded with the floor.\<close>

lemma registry_demo_reach:
  "\<exists>s. sr_reach 5 s [\<lparr>x_token = 9, x_from = 1, x_to = 5, x_amount = 500000000\<rparr>] \<and>
     rg_bond_token s = Some 9 \<and> dom (rg_solvers s) = {1} \<and> bond_at s 1 = 500000000 \<and>
     rg_admin s = Some 3 \<and> rg_writer s = None \<and> rg_obligation s = Map.empty \<and> rg_open s = Map.empty"
proof -
  obtain s1 where s1: "sr_apply (user_env 0) (SrInit 3 9 4) empty_registry = Inr (s1, [])"
      "rg_admin s1 = Some 3 \<and> rg_writer s1 = None \<and> rg_obligation s1 = Map.empty \<and> rg_open s1 = Map.empty"
      "rg_bond_token s1 = Some 9" "rg_solvers s1 = Map.empty" "rg_total_solvers s1 = Some 0"
      "\<exists>r rs. rg_thresholds s1 = Some (r # rs) \<and> tt_min_bond r = 500000000"
    by (simp add: sr_initialize_def empty_registry_def DEFAULT_THRESHOLDS_def USDC_def quiet_def)
  have r1: "sr_reach 5 s1 []"
    using sr_reach.step [OF sr_reach.start, of "user_env 0" 5 "SrInit 3 9 4" s1 "[]"] s1(1) by simp
  obtain s2 where s2: "sr_apply (user_env 1) (SrRegister 1 500000000) s1 =
      Inr (s2, [\<lparr>x_token = 9, x_from = 1, x_to = 5, x_amount = 500000000\<rparr>])"
    "rg_bond_token s2 = Some 9" "dom (rg_solvers s2) = {1}" "bond_at s2 1 = 500000000"
    "rg_admin s2 = Some 3 \<and> rg_writer s2 = None \<and> rg_obligation s2 = Map.empty \<and> rg_open s2 = Map.empty"
    using s1(2-6) by (auto simp: sr_register_solver_def put_solver_def tier0_floor_def thresholds_def
        bond_client_def need_def vec_get_def u32_def u32_max_def transfer_def bond_at_def require_auth_def)
  have "sr_reach 5 s2 [\<lparr>x_token = 9, x_from = 1, x_to = 5, x_amount = 500000000\<rparr>]"
    using sr_reach.step [OF r1, of "user_env 1" "SrRegister 1 500000000" s2] s2(1) by simp
  with s2 show ?thesis by blast
qed

theorem registry_solvent_witness:
  "\<exists>s. rg_bond_token s = Some 9 \<and> (\<Sum>a \<in> dom (rg_solvers s). bond_at s a) = 500000000"
proof -
  obtain s where s: "sr_reach 5 s [\<lparr>x_token = 9, x_from = 1, x_to = 5, x_amount = 500000000\<rparr>]"
    "rg_bond_token s = Some 9" using registry_demo_reach by blast
  from registry_solvent [OF this] s(2) show ?thesis by (auto simp: x_net_def)
qed

section \<open>Obligations\<close>

text \<open>
  C21: In every reachable state, as long as a solver has an obligation lock for some intent,
  \<open>unstake\<close> and \<open>deregister_solver\<close> revert for it, and its counter
  of open obligations is the number of its locks.
\<close>

theorem obligation_locks_bond:
  assumes "sr_reach me s tr" "has_obligation s solver intent_id"
  shows "\<not> is_ok (unstake e solver amount s) \<and> \<not> is_ok (sr_deregister_solver e solver s) \<and>
     open_obligations s solver = card {i. has_obligation s solver i}"
proof -
  have card: "open_obligations s a = card (locked s a)" for a
    using sr_reach_inv [OF assms(1)] by (simp add: sr_inv_def obligations_ok_def)
  have "intent_id \<in> locked s solver" using assms(2) by (simp add: locked_def has_obligation_def)
  then have "0 < open_obligations s solver" unfolding card by (auto simp: card_gt_0_iff)
  then show ?thesis
    by (auto simp: is_ok_iff card locked_def has_obligation_def
        dest!: unstake_effect sr_deregister_effect)
qed

theorem obligation_locks_bond_witness:
  "\<exists>s. rg_solvers s 1 \<noteq> None \<and> open_obligations s 1 = 1 \<and>
     \<not> is_ok (unstake (user_env 9) 1 7 s) \<and> \<not> is_ok (sr_deregister_solver (user_env 9) 1 s)"
proof -
  let ?tr = "[\<lparr>x_token = 9, x_from = 1, x_to = 5, x_amount = 500000000\<rparr>] :: xfer list"
  obtain s where s: "sr_reach 5 s ?tr" "dom (rg_solvers s) = {1}" "rg_admin s = Some 3"
    "rg_writer s = None" "rg_obligation s = Map.empty" "rg_open s = Map.empty"
    using registry_demo_reach by blast
  let ?s1 = "s\<lparr>rg_writer := Some 6\<rparr>"
  have "sr_apply (user_env 2) (SrSetWriter 6) s = Inr (?s1, [])"
    by (simp add: set_writer_def sr_require_admin_def s(3,4))
  from sr_reach.step [OF s(1) _ _ _ this] have r1: "sr_reach 5 ?s1 (?tr @ [])" by simp
  let ?s2 = "?s1\<lparr>rg_obligation := [(1, 7) \<mapsto> True], rg_open := [1 \<mapsto> 1]\<rparr>"
  obtain r where r: "rg_solvers s 1 = Some r" using s(2) by auto
  have "sr_apply (user_env 3) (SrLock 6 1 7) ?s1 = Inr (?s2, [])"
    by (simp add: lock_obligation_def require_writer_def sr_load_solver_def open_obligations_def
        store_open_obligations_def u32_max_def r [simplified] s(5,6))
  from sr_reach.step [OF r1 _ _ _ this] have r2: "sr_reach 5 ?s2 ((?tr @ []) @ [])" by simp
  have "has_obligation ?s2 1 7" by (simp add: has_obligation_def)
  from obligation_locks_bond [OF r2 this, of "user_env 9" 7] r show ?thesis
    by (intro exI [of _ ?s2]) (simp add: open_obligations_def)
qed

section \<open>Slashing\<close>

text \<open>
  A slash in the registry takes the share of the solver's tier from a positive bond, at least
  one unit and never more than the bond, sends exactly that to the fee recipient, leaves every
  other solver alone, marks the intent, and returns the tier after the slash.
\<close>

theorem slash_takes_tier_share:
  assumes "sr_slash e caller solver intent_id s = Inr (s', tr, amount, new_tier)" "sr_inv s"
  shows "\<exists>r t. rg_solvers s solver = Some r \<and> get_tier s solver = Inr t \<and>
     (0 < sr_bond r \<longrightarrow> 1 \<le> amount \<and> amount = max (sr_bond r * int (SR_SLASH_BPS ! t) div 10000) 1 \<and>
        net_in (the (rg_bond_token s)) (the (rg_fee_recipient s)) tr =
          (if rg_fee_recipient s = Some (self e) then 0 else amount)) \<and>
     (sr_bond r = 0 \<longrightarrow> amount = 0 \<and> tr = []) \<and>
     0 \<le> sr_bond r - amount \<and> bond_at s' solver = sr_bond r - amount \<and>
     (\<forall>b. b \<noteq> solver \<longrightarrow> rg_solvers s' b = rg_solvers s b) \<and>
     is_intent_recorded s' ''slash'' intent_id \<and> get_tier s' solver = Inr new_tier"
proof -
  obtain r t where eff: "rg_solvers s solver = Some r" "get_tier s solver = Inr t" "t < length SR_SLASH_BPS"
      "amount = slash_part (sr_bond r) (SR_SLASH_BPS ! t)" "get_tier s' solver = Inr new_tier"
      "if 0 < amount then \<exists>tok f. rg_bond_token s = Some tok \<and> rg_fee_recipient s = Some f \<and>
        tr = [\<lparr>x_token = tok, x_from = self e, x_to = f, x_amount = amount\<rparr>] else tr = []"
      "s' = put_solver solver (r\<lparr>sr_bond := sr_bond r - amount, sr_failed := sr_failed r + 1,
             sr_slashed_total := sr_slashed_total r + amount, sr_last_slash := now e\<rparr>)
           (s\<lparr>rg_recorded := (rg_recorded s)((''slash'', intent_id) \<mapsto> True)\<rparr>)"
    using sr_slash_effect [OF assms(1)] by blast
  have "0 \<le> sr_bond r" using assms(2) eff(1) by (simp add: sr_inv_def solvers_ok_def)
  moreover have range: "0 \<le> amount \<and> (0 < sr_bond r \<longrightarrow> 1 \<le> amount \<and> amount \<le> sr_bond r)"
    using slash_part_range [of "SR_SLASH_BPS ! t" "sr_bond r"] slash_tiers [OF eff(3)] eff(4) by simp
  moreover have "sr_bond r = 0 \<longrightarrow> amount = 0" using eff(4) by (simp add: slash_part_def)
  moreover have "0 < sr_bond r \<longrightarrow> amount = max (sr_bond r * int (SR_SLASH_BPS ! t) div 10000) 1"
    using eff(4) by (simp add: slash_part_def)
  moreover have "bond_at s' solver = sr_bond r - amount"
    "\<forall>b. b \<noteq> solver \<longrightarrow> rg_solvers s' b = rg_solvers s b" "is_intent_recorded s' ''slash'' intent_id"
    using eff(7) by (simp_all add: is_intent_recorded_def)
  moreover have "0 < sr_bond r \<longrightarrow> net_in (the (rg_bond_token s)) (the (rg_fee_recipient s)) tr =
      (if rg_fee_recipient s = Some (self e) then 0 else amount)"
    using eff(6) range by auto
  moreover have "sr_bond r = 0 \<longrightarrow> tr = []"
    using eff(6) \<open>sr_bond r = 0 \<longrightarrow> amount = 0\<close> by auto
  ultimately have "rg_solvers s solver = Some r \<and> get_tier s solver = Inr t \<and>
     (0 < sr_bond r \<longrightarrow> 1 \<le> amount \<and> amount = max (sr_bond r * int (SR_SLASH_BPS ! t) div 10000) 1 \<and>
        net_in (the (rg_bond_token s)) (the (rg_fee_recipient s)) tr =
          (if rg_fee_recipient s = Some (self e) then 0 else amount)) \<and>
     (sr_bond r = 0 \<longrightarrow> amount = 0 \<and> tr = []) \<and>
     0 \<le> sr_bond r - amount \<and> bond_at s' solver = sr_bond r - amount \<and>
     (\<forall>b. b \<noteq> solver \<longrightarrow> rg_solvers s' b = rg_solvers s b) \<and>
     is_intent_recorded s' ''slash'' intent_id \<and> get_tier s' solver = Inr new_tier"
    using eff(1,2,5) by (cases "sr_bond r = 0") (simp_all add: order_less_le)
  then show ?thesis by blast
qed

text \<open>A solver of tier 2 with a bond of 3000 USDC loses 8\%.\<close>

lemma demo_score: "score_of (demo_solver b) = Inr 8550"
  by (simp add: score_of_value score_fits_def VOLUME_SCALE_def demo_solver_def score_value_def volume_multiplier_def)

lemma tier_of_total:
  assumes "score_fits (sr_volume r)" "rg_thresholds s = Some rows" "TIER_COUNT \<le> length rows"
  shows "\<exists>t. tier_of s r = Inr t"
  using tier_loop_total [OF assms(3), of _ "sr_bond r" 0 0] assms(1,2)
  by (auto simp: tier_of_def score_of_value tier_for_def thresholds_def need_def)

lemma demo_tier:
  assumes "sr_bond r = 3000 * USDC" "(score_of r :: (SrError, nat) res) = Inr 8550" "rg_thresholds s = Some demo_rows"
  shows "tier_of s r = Inr 2"
proof -
  have "tier_for s 8550 (3000 * USDC) = Inr 2"
    by (simp add: tier_for_def thresholds_def need_def demo_rows_def assms(3)
        DEFAULT_THRESHOLDS_def vec_get_def tier_loop.simps TIER_COUNT_def USDC_def)
  with assms show ?thesis by (simp add: tier_of_def)
qed

lemma demo_inv: "sr_inv demo_registry"
  using thr_ok_default
  by (simp add: sr_inv_def solvers_ok_def obligations_ok_def table_ok_def demo_registry_def demo_rows_def
      open_obligations_def locked_def demo_solver_def USDC_def)

lemma demo_slash:
  "\<exists>s' tr nt. sr_slash (plain_env 100) 3 1 7 demo_registry = Inr (s', tr, 240 * USDC, nt)"
proof -
  have r: "rg_solvers demo_registry 1 = Some (demo_solver (3000 * USDC))"
    and adm: "rg_admin demo_registry = Some 3" "rg_writer demo_registry = Some 3"
    and rest: "rg_recorded demo_registry = Map.empty" "rg_fee_recipient demo_registry = Some 4"
      "rg_bond_token demo_registry = Some 9" "rg_thresholds demo_registry = Some demo_rows"
    by (simp_all add: demo_registry_def)
  let ?s1 = "demo_registry\<lparr>rg_recorded := [(''slash'', 7) \<mapsto> True]\<rparr>"
  let ?r' = "demo_solver (3000 * USDC)\<lparr>sr_bond := 2760 * USDC, sr_failed := 2,
     sr_slashed_total := 240 * USDC, sr_last_slash := 100\<rparr>"
  have t: "tier_of ?s1 (demo_solver (3000 * USDC)) = Inr 2"
    by (rule demo_tier) (simp_all add: demo_score rest, simp add: demo_solver_def)
  have "score_fits (sr_volume ?r')" "TIER_COUNT \<le> length demo_rows"
    by (simp_all add: score_fits_def VOLUME_SCALE_def demo_solver_def demo_rows_def DEFAULT_THRESHOLDS_def
        TIER_COUNT_def)
  with tier_of_total [of ?r' "put_solver 1 ?r' ?s1" demo_rows]
  obtain nt where nt: "tier_of (put_solver 1 ?r' ?s1) ?r' = Inr nt" by (auto simp: rest)
  have share: "3000 * USDC * 800 sdiv 10000 = 240 * USDC" "in_i128 (3000 * USDC * 800)"
    "in_i128 (2760 * USDC)" "in_i128 (240 * USDC)" "0 < USDC" "max (240 * USDC) 1 = 240 * USDC"
    by (simp_all add: USDC_def sdiv_nonneg in_i128_def i128_min_def i128_max_def)
  have f: "sr_bond (demo_solver b) = b" "sr_failed (demo_solver b) = 1" "sr_slashed_total (demo_solver b) = 0" for b
    by (simp_all add: demo_solver_def)
  have two: "Suc (Suc 0) = 2" by simp
  show ?thesis
    using r adm rest t nt share
    by (simp add: sr_slash_def require_writer_or_admin_def sr_load_solver_def mark_recorded_def Let_def
        SR_SLASH_BPS_def f u32_max_def bond_client_def transfer_eq_Inr two)
qed

theorem slash_takes_tier_share_witness:
  "\<exists>s' tr nt. sr_slash (plain_env 100) 3 1 7 demo_registry = Inr (s', tr, 240 * USDC, nt) \<and>
     bond_at s' 1 = 2760 * USDC"
proof -
  obtain s' tr nt where sl: "sr_slash (plain_env 100) 3 1 7 demo_registry = Inr (s', tr, 240 * USDC, nt)"
    using demo_slash by blast
  from slash_takes_tier_share [OF this demo_inv] sl show ?thesis
    by (auto simp: demo_registry_def demo_solver_def)
qed

section \<open>One record per intent\<close>

definition sr_step :: "env \<Rightarrow> sr_event \<Rightarrow> registry \<Rightarrow> registry" where
  "sr_step e ev s = commit s (rbind (sr_apply e ev s) (\<lambda>(s', _). Inr s'))"

lemma sr_step_cases:
  obtains "sr_step e ev s = s" | s' tr where "sr_apply e ev s = Inr (s', tr)" "sr_step e ev s = s'"
  unfolding sr_step_def by (cases "sr_apply e ev s") auto

lemma recorded_monotone:
  assumes "sr_apply e ev s = Inr (s', tr)" "rg_recorded s k \<noteq> None"
  shows "rg_recorded s' k \<noteq> None"
proof (cases ev)
  case (SrInit a b f)
  with assms sr_initialize_effect [of e a b f s s'] show ?thesis by simp
next
  case (SrRegister a b)
  with assms sr_register_solver_effect [of e a b s s' tr] show ?thesis by auto
next
  case (SrStake a b)
  with assms stake_effect [of e a b s s' tr] show ?thesis by auto
next
  case (SrUnstake a b)
  with assms unstake_effect [of e a b s s' tr] show ?thesis by auto
next
  case (SrDeregister a)
  with assms sr_deregister_effect [of e a s s' tr] show ?thesis by auto
next
  case (SrFill c a i v)
  with assms record_fill_effect [of e c a i v s s' tr] show ?thesis by auto
next
  case (SrFailure c a i)
  with assms record_failure_effect [of e c a i s s' tr] show ?thesis by auto
next
  case (SrSlash c a i)
  with assms obtain amt nt where "sr_slash e c a i s = Inr (s', tr, amt, nt)" by auto
  from sr_slash_effect [OF this] assms(2) show ?thesis by auto
next
  case (SrLock c a i)
  with assms obtain n where "lock_obligation e c a i s = Inr (s', n)" by auto
  from lock_obligation_effect [OF this] assms(2) show ?thesis by (auto split: if_splits)
next
  case (SrRelease c a i)
  with assms obtain n where op: "release_obligation e c a i s = Inr (s', n)" by auto
  from release_obligation_effect [OF op] assms(2) show ?thesis by (auto split: if_splits)
qed (use assms(2) books_event_same [OF assms(1)] in \<open>simp add: same_books_def\<close>)+

lemma recorded_run:
  "rg_recorded s k \<noteq> None \<Longrightarrow> rg_recorded (contract_run sr_step txs s) k \<noteq> None"
proof (induction txs arbitrary: s)
  case (Cons tx txs)
  obtain e ev where tx: "tx = (e, ev)" by (cases tx)
  have "rg_recorded (sr_step e ev s) k \<noteq> None"
    by (cases rule: sr_step_cases [of e ev s]) (use Cons.prems recorded_monotone in auto)
  from Cons.IH [OF this] show ?case by (simp add: tx)
qed simp

lemma action_marks:
  "record_fill e c a i v s = Inr (s', tr) \<Longrightarrow> rg_recorded s (''fill'', i) = None \<and> rg_recorded s' (''fill'', i) \<noteq> None"
  "record_failure e c a i s = Inr (s', tr) \<Longrightarrow> rg_recorded s (''failure'', i) = None \<and> rg_recorded s' (''failure'', i) \<noteq> None"
  "sr_slash e c a i s = Inr (s', tr, amt, nt) \<Longrightarrow> rg_recorded s (''slash'', i) = None \<and> rg_recorded s' (''slash'', i) \<noteq> None"
  by (auto dest!: record_fill_effect record_failure_effect sr_slash_effect)

text \<open>
  C30: Once a fill, a failure or a slash is recorded for an intent, no later transaction of
  any run can record the same action for that intent again, whoever calls and whichever solver
  is named.
\<close>

theorem intent_recorded_once:
  assumes "record_fill e c a i v s = Inr (s1, tr1) \<and> action = ''fill'' \<or>
     record_failure e c a i s = Inr (s1, tr1) \<and> action = ''failure'' \<or>
     sr_slash e c a i s = Inr (s1, tr1, amt, nt) \<and> action = ''slash''"
  shows "let s2 = contract_run sr_step txs s1 in
     is_intent_recorded s2 action i \<and>
     (action = ''fill'' \<longrightarrow> \<not> is_ok (record_fill e' c' a' i v' s2)) \<and>
     (action = ''failure'' \<longrightarrow> \<not> is_ok (record_failure e' c' a' i s2)) \<and>
     (action = ''slash'' \<longrightarrow> \<not> is_ok (sr_slash e' c' a' i s2))"
proof -
  have "rg_recorded s1 (action, i) \<noteq> None"
    using assms by (elim disjE conjE) (auto dest: action_marks)
  from recorded_run [OF this, of txs] show ?thesis
    by (auto simp: Let_def is_intent_recorded_def is_ok_iff dest!: action_marks)
qed

theorem intent_recorded_once_witness:
  "\<exists>s'. is_ok (sr_slash (plain_env 100) 3 1 7 demo_registry) \<and> is_intent_recorded s' ''slash'' 7 \<and>
     \<not> is_ok (sr_slash (plain_env 101) 3 1 7 s')"
proof -
  obtain s' tr nt where sl: "sr_slash (plain_env 100) 3 1 7 demo_registry = Inr (s', tr, 240 * USDC, nt)"
    using demo_slash by blast
  from intent_recorded_once [where txs = "[]" and action = "''slash''" and e' = "plain_env 101" and c' = 3 and a' = 1,
      OF disjI2 [OF disjI2 [OF conjI [OF sl refl]]]] sl
  show ?thesis by (intro exI [of _ s']) (simp add: Let_def)
qed

section \<open>Administration through a timelock\<close>

fun admin_slot :: "sr_event \<Rightarrow> address slot_tx option" where
  "admin_slot (SrProposeAdmin a) = Some (Propose a)"
| "admin_slot (SrAcceptAdmin a) = Some (Accept a)"
| "admin_slot SrCancelAdmin = Some CancelProposal"
| "admin_slot _ = None"

fun writer_slot :: "sr_event \<Rightarrow> address slot_tx option" where
  "writer_slot (SrProposeWriter a) = Some (Propose a)"
| "writer_slot (SrExecuteWriter a) = Some (Accept a)"
| "writer_slot SrCancelWriter = Some CancelProposal"
| "writer_slot _ = None"

definition same_roles :: "registry \<Rightarrow> registry \<Rightarrow> bool" where
  "same_roles s s' \<longleftrightarrow> rg_admin s' = rg_admin s \<and> rg_pending_admin s' = rg_pending_admin s \<and>
     rg_writer s' = rg_writer s \<and> rg_pending_writer s' = rg_pending_writer s"

lemma put_solver_roles [simp]:
  "rg_pending_admin (put_solver a r s) = rg_pending_admin s" "rg_writer (put_solver a r s) = rg_writer s"
  "rg_pending_writer (put_solver a r s) = rg_pending_writer s"
  by (simp_all add: put_solver_def)

fun role_event :: "sr_event \<Rightarrow> bool" where
  "role_event (SrInit _ _ _) = True"
| "role_event (SrSetThreshold _ _ _) = False"
| "role_event ev = books_event ev"

lemma same_roles_apply:
  assumes "sr_apply e ev s = Inr (s', tr)" "\<not> role_event ev"
  shows "same_roles s s'"
proof (cases ev)
  case (SrRegister a b)
  with assms sr_register_solver_effect [of e a b s s' tr] show ?thesis by (auto simp: same_roles_def)
next
  case (SrStake a b)
  with assms stake_effect [of e a b s s' tr] show ?thesis by (auto simp: same_roles_def)
next
  case (SrUnstake a b)
  with assms unstake_effect [of e a b s s' tr] show ?thesis by (auto simp: same_roles_def)
next
  case (SrDeregister a)
  with assms sr_deregister_effect [of e a s s' tr] show ?thesis by (auto simp: same_roles_def)
next
  case (SrFill c a i v)
  with assms record_fill_effect [of e c a i v s s' tr] show ?thesis by (auto simp: same_roles_def)
next
  case (SrFailure c a i)
  with assms record_failure_effect [of e c a i s s' tr] show ?thesis by (auto simp: same_roles_def)
next
  case (SrSlash c a i)
  with assms obtain amt nt where "sr_slash e c a i s = Inr (s', tr, amt, nt)" by auto
  from sr_slash_effect [OF this] show ?thesis by (auto simp: same_roles_def)
next
  case (SrLock c a i)
  with assms obtain n where "lock_obligation e c a i s = Inr (s', n)" by auto
  from lock_obligation_effect [OF this] show ?thesis by (auto simp: same_roles_def split: if_splits)
next
  case (SrRelease c a i)
  with assms obtain n where op: "release_obligation e c a i s = Inr (s', n)" by auto
  from release_obligation_effect [OF op] show ?thesis by (auto simp: same_roles_def split: if_splits)
next
  case (SrSetThreshold t b sc)
  with assms have "set_tier_threshold e t b sc s = Inr s'" by simp
  then show ?thesis by (auto simp: same_roles_def set_tier_threshold_def split: if_splits)
qed (use assms in simp_all)

text \<open>The transactions that set the admin and the writer, inverted.\<close>

lemma set_writer_roles:
  "set_writer e w s = Inr s' \<Longrightarrow> rg_admin s \<noteq> None \<and> rg_writer s = None \<and> s' = s\<lparr>rg_writer := Some w\<rparr>"
  by (auto simp: set_writer_def sr_require_admin_def split: if_splits)

lemma sr_initialize_roles:
  "sr_initialize e a b f s = Inr s' \<Longrightarrow> rg_admin s = None \<and> rg_pending_admin s' = rg_pending_admin s \<and>
     rg_writer s' = rg_writer s \<and> rg_pending_writer s' = rg_pending_writer s"
  by (auto simp: sr_initialize_def split: if_splits)

lemma propose_admin_roles:
  "propose_admin e a s = Inr s' \<Longrightarrow> s' = s\<lparr>rg_pending_admin := Some (a, now e + SR_ADMIN_TIMELOCK_DELAY)\<rparr>"
  by (auto simp: propose_admin_def)

lemma accept_admin_roles:
  "accept_admin e a s = Inr s' \<Longrightarrow> (\<exists>eta. rg_pending_admin s = Some (a, eta) \<and> eta \<le> now e) \<and>
     s' = s\<lparr>rg_admin := Some a, rg_pending_admin := None\<rparr>"
  by (auto simp: accept_admin_def split: if_splits)

lemma cancel_admin_roles:
  "cancel_admin_transfer e s = Inr s' \<Longrightarrow> s' = s\<lparr>rg_pending_admin := None\<rparr>"
  by (auto simp: cancel_admin_transfer_def)

lemma propose_writer_roles:
  "propose_writer e a s = Inr s' \<Longrightarrow> s' = s\<lparr>rg_pending_writer := Some (a, now e + WRITER_TIMELOCK_DELAY)\<rparr>"
  by (auto simp: propose_writer_def)

lemma execute_writer_roles:
  "execute_writer e a s = Inr s' \<Longrightarrow> (\<exists>eta. rg_pending_writer s = Some (a, eta) \<and> eta \<le> now e) \<and>
     s' = s\<lparr>rg_pending_writer := None, rg_writer := Some a\<rparr>"
  by (auto simp: execute_writer_def split: if_splits)

lemma cancel_writer_roles:
  "cancel_writer e s = Inr s' \<Longrightarrow> s' = s\<lparr>rg_pending_writer := None\<rparr>"
  by (auto simp: cancel_writer_def)

lemmas role_effects = set_writer_roles sr_initialize_roles propose_admin_roles accept_admin_roles
  cancel_admin_roles propose_writer_roles execute_writer_roles cancel_writer_roles

lemma admin_slot_frame:
  assumes "sr_apply e ev s = Inr (s', tr)" "admin_slot ev = None"
  shows "rg_pending_admin s' = rg_pending_admin s \<and> (rg_admin s \<noteq> None \<longrightarrow> rg_admin s' = rg_admin s)"
proof (cases "role_event ev")
  case True
  with assms show ?thesis by (cases ev) (auto dest!: role_effects)
next
  case False
  from same_roles_apply [OF assms(1) this] show ?thesis by (simp add: same_roles_def)
qed

lemma writer_slot_frame:
  assumes "sr_apply e ev s = Inr (s', tr)" "writer_slot ev = None"
  shows "rg_pending_writer s' = rg_pending_writer s \<and> (rg_writer s \<noteq> None \<longrightarrow> rg_writer s' = rg_writer s)"
proof (cases "role_event ev")
  case True
  with assms show ?thesis by (cases ev) (auto dest!: role_effects)
next
  case False
  from same_roles_apply [OF assms(1) this] show ?thesis by (simp add: same_roles_def)
qed

lemma commit_quiet: "commit s (rbind (quiet m) (\<lambda>(s', _). Inr s')) = commit s m"
  by (cases m) (simp_all add: quiet_def)

interpretation admin_handover: timelocked_contract rg_pending_admin rg_admin propose_admin accept_admin
  cancel_admin_transfer SR_ADMIN_TIMELOCK_DELAY sr_step admin_slot "\<lambda>_. True"
proof unfold_locales
  fix ev a e s
  assume "admin_slot ev = Some a"
  then show "sr_step e ev s = slot_apply propose_admin accept_admin cancel_admin_transfer (e, a) s"
    by (cases ev) (auto simp: sr_step_def commit_quiet)
next
  fix ev e s
  assume none: "admin_slot ev = None"
  show "rg_pending_admin (sr_step e ev s) = rg_pending_admin s"
    using admin_slot_frame [OF _ none] by (cases rule: sr_step_cases [of e ev s]) auto
  show "rg_admin s \<noteq> None \<Longrightarrow> rg_admin (sr_step e ev s) = rg_admin s"
    using admin_slot_frame [OF _ none] by (cases rule: sr_step_cases [of e ev s]) auto
qed (auto dest!: role_effects)

interpretation writer_handover: timelocked_contract rg_pending_writer rg_writer propose_writer execute_writer
  cancel_writer WRITER_TIMELOCK_DELAY sr_step writer_slot "\<lambda>_. True"
proof unfold_locales
  fix ev a e s
  assume "writer_slot ev = Some a"
  then show "sr_step e ev s = slot_apply propose_writer execute_writer cancel_writer (e, a) s"
    by (cases ev) (auto simp: sr_step_def commit_quiet)
next
  fix ev e s
  assume none: "writer_slot ev = None"
  show "rg_pending_writer (sr_step e ev s) = rg_pending_writer s"
    using writer_slot_frame [OF _ none] by (cases rule: sr_step_cases [of e ev s]) auto
  show "rg_writer s \<noteq> None \<Longrightarrow> rg_writer (sr_step e ev s) = rg_writer s"
    using writer_slot_frame [OF _ none] by (cases rule: sr_step_cases [of e ev s]) auto
qed (auto dest!: role_effects)

text \<open>
  Over any run of registry transactions that starts with an admin and a writer and nothing
  pending, either role changes to a new address only if that address was proposed and accepted
  later in the run, at least 172800 seconds apart.
\<close>

theorem registry_roles_announced:
  assumes "rg_pending_admin s = None" "rg_pending_writer s = None" "rg_admin s \<noteq> None" "rg_writer s \<noteq> None"
  shows "(rg_admin (contract_run sr_step txs s) = Some v \<and> rg_admin s \<noteq> Some v \<longrightarrow>
      (\<exists>i j e e'. i < j \<and> j < length txs \<and> txs ! i = (e, SrProposeAdmin v) \<and>
         txs ! j = (e', SrAcceptAdmin v) \<and> now e + 172800 \<le> now e')) \<and>
    (rg_writer (contract_run sr_step txs s) = Some v \<and> rg_writer s \<noteq> Some v \<longrightarrow>
      (\<exists>i j e e'. i < j \<and> j < length txs \<and> txs ! i = (e, SrProposeWriter v) \<and>
         txs ! j = (e', SrExecuteWriter v) \<and> now e + 172800 \<le> now e'))"
proof -
  have admin: "admin_slot ev = Some (Propose v) \<longleftrightarrow> ev = SrProposeAdmin v"
    "admin_slot ev = Some (Accept v) \<longleftrightarrow> ev = SrAcceptAdmin v" for ev by (cases ev; auto)+
  have writer: "writer_slot ev = Some (Propose v) \<longleftrightarrow> ev = SrProposeWriter v"
    "writer_slot ev = Some (Accept v) \<longleftrightarrow> ev = SrExecuteWriter v" for ev by (cases ev; auto)+
  from admin_handover.change_announced [OF TrueI assms(1,3), of txs v]
    writer_handover.change_announced [OF TrueI assms(2,4), of txs v]
  show ?thesis
    unfolding admin writer SR_ADMIN_TIMELOCK_DELAY_def WRITER_TIMELOCK_DELAY_def by blast
qed

theorem registry_roles_announced_witness:
  "\<exists>i j e e'. i < j \<and> j < 2 \<and> [(plain_env 0, SrProposeAdmin 8), (plain_env 172800, SrAcceptAdmin 8)] ! i = (e, SrProposeAdmin 8) \<and>
     [(plain_env 0, SrProposeAdmin 8), (plain_env 172800, SrAcceptAdmin 8)] ! j = (e', SrAcceptAdmin 8) \<and>
     now e + 172800 \<le> now e'"
proof -
  let ?txs = "[(plain_env 0, SrProposeAdmin 8), (plain_env 172800, SrAcceptAdmin 8)]"
  have "rg_admin (contract_run sr_step ?txs demo_registry) = Some 8"
    by (simp add: sr_step_def commit_quiet propose_admin_def accept_admin_def sr_require_admin_def
        demo_registry_def need_def u64_def u64_max_def SR_ADMIN_TIMELOCK_DELAY_def require_auth_def)
  with registry_roles_announced [of demo_registry ?txs 8] show ?thesis
    by (simp add: demo_registry_def numeral_2_eq_2)
qed

end
