(* ===== verification/Governor.thy ===== *)
theory Governor
  imports Vortex_Common Timelocked_Slot
begin

text \<open>
  The stake-weighted governor of \<open>governor/src/lib.rs\<close>: voting power is read from
  checkpoints at a proposal's snapshot by binary search, proposals are voted on in a window
  of ledger sequence numbers, queued into the timelock and executed through it. The solver
  registry that reports bonds and the timelock that is asked to schedule and execute are
  other contracts, reached by name through the host: they enter as the record \<open>callees\<close>.
\<close>

section \<open>Constants and data\<close>

definition MAX_CHECKPOINTS :: nat where "MAX_CHECKPOINTS = 64"
definition MAX_LIST_LIMIT :: nat where "MAX_LIST_LIMIT = 50"
definition MIN_VOTING_DELAY :: nat where "MIN_VOTING_DELAY = 1"
definition MAX_VOTING_DELAY :: nat where "MAX_VOTING_DELAY = 1000000"
definition MIN_VOTING_PERIOD :: nat where "MIN_VOTING_PERIOD = 1"
definition MAX_VOTING_PERIOD :: nat where "MAX_VOTING_PERIOD = 1000000"
definition MIN_PROPOSAL_THRESHOLD :: int where "MIN_PROPOSAL_THRESHOLD = 1"
definition MAX_PROPOSAL_THRESHOLD :: int where "MAX_PROPOSAL_THRESHOLD = i128_max div 4"
definition MIN_QUORUM :: int where "MIN_QUORUM = 1"
definition MAX_QUORUM :: int where "MAX_QUORUM = i128_max div 4"

record Checkpoint =
  cp_ledger :: nat
  cp_power :: int

datatype VoteType = Against | For | Abstain

datatype ProposalState = Pending | Active | Defeated | Succeeded | Queued | Executed | Canceled

record Proposal =
  pp_proposer :: address
  pp_snapshot :: nat
  pp_deadline :: nat
  pp_eta :: nat
  pp_for :: int
  pp_against :: int
  pp_abstain :: int
  pp_canceled :: bool
  pp_executed :: bool
  pp_target :: address
  pp_function :: string
  pp_calldata :: bytes32

datatype GovernorError =
    AlreadyInitialized | NotInitialized | BelowProposalThreshold | ProposalNotFound | NotActive
  | VotingClosed | AlreadyVoted | NoVotingPower | QuorumNotMet | ProposalNotSucceeded
  | ProposalNotQueued | TimelockNotReady | AlreadyExecuted | ProposalCanceled
  | SelfTargetForbidden | VoteTallyOverflow | DeadlineOverflow | InvalidVotingDelay
  | InvalidVotingPeriod | InvalidProposalThreshold | InvalidQuorum | Unauthorized | NotAuthorized

record GovernorConfig =
  gc_registry :: address
  gc_timelock :: address
  gc_voting_delay :: nat
  gc_voting_period :: nat
  gc_threshold :: int
  gc_quorum :: int

text \<open>The storage: the instance keys by name, then the persistent entries by key.\<close>

record governor =
  gv_config :: "GovernorConfig option"
  gv_admin :: "address option"
  gv_count :: "nat option"
  gv_proposals :: "nat \<Rightarrow> Proposal option"
  gv_votes :: "nat \<times> address \<Rightarrow> int option"
  gv_checkpoints :: "address \<times> address \<Rightarrow> Checkpoint list option"

text \<open>
  The other contracts: the bond that the registry reports (\<open>None\<close> when the call traps), whether
  the timelock's \<open>schedule\<close> and \<open>execute\<close> return, and who invoked the governor.
\<close>

record callees =
  cl_bond :: "address \<Rightarrow> address \<Rightarrow> int option"
  cl_schedule :: "address \<Rightarrow> address \<Rightarrow> string \<Rightarrow> nat \<Rightarrow> bool"
  cl_execute :: "address \<Rightarrow> address \<Rightarrow> string \<Rightarrow> bytes32 \<Rightarrow> bool"
  cl_invoker :: address

section \<open>Helpers\<close>

definition validate_config :: "GovernorConfig \<Rightarrow> (GovernorError, unit) res" where
  "validate_config config =
     (if gc_voting_delay config < MIN_VOTING_DELAY \<or> gc_voting_delay config > MAX_VOTING_DELAY
      then Inl (Error InvalidVotingDelay)
      else if gc_voting_period config < MIN_VOTING_PERIOD \<or> gc_voting_period config > MAX_VOTING_PERIOD
      then Inl (Error InvalidVotingPeriod)
      else if gc_threshold config < MIN_PROPOSAL_THRESHOLD \<or> gc_threshold config > MAX_PROPOSAL_THRESHOLD
      then Inl (Error InvalidProposalThreshold)
      else if gc_quorum config < MIN_QUORUM \<or> gc_quorum config > MAX_QUORUM
      then Inl (Error InvalidQuorum)
      else Inr ())"

definition gv_load_config :: "governor \<Rightarrow> (GovernorError, GovernorConfig) res" where
  "gv_load_config s = need NotInitialized (gv_config s)"

definition load_proposal :: "governor \<Rightarrow> nat \<Rightarrow> (GovernorError, Proposal) res" where
  "load_proposal s i = need ProposalNotFound (gv_proposals s i)"

definition put_proposal :: "nat \<Rightarrow> Proposal \<Rightarrow> governor \<Rightarrow> governor" where
  "put_proposal i p s = s\<lparr>gv_proposals := (gv_proposals s)(i \<mapsto> p)\<rparr>"

text \<open>The \<open>while\<close> loop of \<open>search\<close>, and \<open>search\<close> itself.\<close>

function search_loop :: "Checkpoint list \<Rightarrow> nat \<Rightarrow> nat \<Rightarrow> nat \<Rightarrow> (GovernorError, nat) res" where
  "search_loop cps ledger low high =
     (if low < high then
        (let mid = (low + high) div 2
         in case vec_get cps mid of
              None \<Rightarrow> Inl Unwrap
            | Some cp \<Rightarrow>
                if cp_ledger cp \<le> ledger then search_loop cps ledger (mid + 1) high
                else search_loop cps ledger low mid)
      else Inr low)"
  by pat_completeness auto
termination
  by (relation "measure (\<lambda>(cps, ledger, low, high). high - low)") auto

declare search_loop.simps [simp del]

definition search :: "Checkpoint list \<Rightarrow> nat \<Rightarrow> (GovernorError, int) res" where
  "search checkpoints ledger =
     (if length checkpoints = 0 then Inr 0
      else
        rbind (search_loop checkpoints ledger 0 (length checkpoints)) (\<lambda>low.
          if low = 0 then Inr 0
          else rbind (unwrap (vec_get checkpoints (low - 1))) (\<lambda>cp. Inr (cp_power cp))))"

definition voting_power :: "governor \<Rightarrow> address \<Rightarrow> address \<Rightarrow> nat \<Rightarrow> (GovernorError, int) res" where
  "voting_power s registry account ledger =
     search (case gv_checkpoints s (registry, account) of None \<Rightarrow> [] | Some cps \<Rightarrow> cps) ledger"

text \<open>
  The \<open>while\<close> loop of \<open>write_checkpoint\<close> drops entries from the front until at most
  \<open>MAX_CHECKPOINTS\<close> remain.
\<close>

fun trim_checkpoints :: "Checkpoint list \<Rightarrow> Checkpoint list" where
  "trim_checkpoints [] = []"
| "trim_checkpoints (cp # cps) =
     (if length (cp # cps) > MAX_CHECKPOINTS then trim_checkpoints cps else cp # cps)"

definition write_checkpoint :: "env \<Rightarrow> address \<Rightarrow> int \<Rightarrow> governor \<Rightarrow> (GovernorError, governor) res" where
  "write_checkpoint e account pow s =
     rbind (unwrap (gv_config s)) (\<lambda>config.
       let key = (gc_registry config, account);
           checkpoints = (case gv_checkpoints s key of None \<Rightarrow> [] | Some cps \<Rightarrow> cps);
           checkpoints = trim_checkpoints
             (checkpoints @ [\<lparr>cp_ledger = sequence e, cp_power = pow\<rparr>])
       in Inr (s\<lparr>gv_checkpoints := (gv_checkpoints s)(key \<mapsto> checkpoints)\<rparr>))"

definition gv_deadline :: "nat \<Rightarrow> GovernorConfig \<Rightarrow> (GovernorError, nat) res" where
  "gv_deadline snapshot config =
     (if snapshot + gc_voting_delay config > u32_max then Inl (Error DeadlineOverflow)
      else if snapshot + gc_voting_delay config + gc_voting_period config > u32_max
      then Inl (Error DeadlineOverflow)
      else Inr (snapshot + gc_voting_delay config + gc_voting_period config))"

definition state_of :: "env \<Rightarrow> GovernorConfig \<Rightarrow> Proposal \<Rightarrow> (GovernorError, ProposalState) res" where
  "state_of e config p =
     (if pp_canceled p then Inr Canceled
      else if pp_executed p then Inr Executed
      else
        rbind (u32 (pp_snapshot p + gc_voting_delay config)) (\<lambda>voting_start.
          if sequence e < voting_start then Inr Pending
          else if sequence e \<le> pp_deadline p then Inr Active
          else if pp_eta p \<noteq> 0 then Inr Queued
          else
            rbind (i128 (pp_for p + pp_against p)) (\<lambda>t.
            rbind (i128 (t + pp_abstain p)) (\<lambda>total.
              if pp_for p > pp_against p \<and> total \<ge> gc_quorum config
              then Inr Succeeded else Inr Defeated))))"

section \<open>Entry points\<close>

definition gv_initialize :: "env \<Rightarrow> address \<Rightarrow> GovernorConfig \<Rightarrow> governor \<Rightarrow> (GovernorError, governor) res" where
  "gv_initialize e admin config s =
     rbind (require_auth e admin) (\<lambda>_.
       if gv_config s \<noteq> None then Inl (Error AlreadyInitialized)
       else
         rbind (validate_config config) (\<lambda>_.
           Inr (s\<lparr>gv_config := Some config, gv_admin := Some admin, gv_count := Some 0\<rparr>)))"

definition update_config :: "callees \<Rightarrow> env \<Rightarrow> GovernorConfig \<Rightarrow> governor \<Rightarrow> (GovernorError, governor) res" where
  "update_config c e config s =
     rbind (require_auth e (self e)) (\<lambda>_.
       if cl_invoker c \<noteq> self e then Inl (Error Unauthorized)
       else
         rbind (validate_config config) (\<lambda>_. Inr (s\<lparr>gv_config := Some config\<rparr>)))"

definition sync_power :: "callees \<Rightarrow> env \<Rightarrow> address \<Rightarrow> governor \<Rightarrow> (GovernorError, governor \<times> int) res" where
  "sync_power c e account s =
     rbind (require_auth e account) (\<lambda>_.
     rbind (gv_load_config s) (\<lambda>config.
       case cl_bond c (gc_registry config) account of
         None \<Rightarrow> Inl HostTrap
       | Some pow \<Rightarrow>
           rbind (write_checkpoint e account pow s) (\<lambda>s'. Inr (s', pow))))"

definition new_proposal :: "env \<Rightarrow> address \<Rightarrow> nat \<Rightarrow> address \<Rightarrow> string \<Rightarrow> bytes32 \<Rightarrow> Proposal" where
  "new_proposal e proposer deadline target func calldata =
     \<lparr>pp_proposer = proposer, pp_snapshot = sequence e, pp_deadline = deadline, pp_eta = 0,
      pp_for = 0, pp_against = 0, pp_abstain = 0, pp_canceled = False, pp_executed = False,
      pp_target = target, pp_function = func, pp_calldata = calldata\<rparr>"

definition propose :: "env \<Rightarrow> address \<Rightarrow> address \<Rightarrow> string \<Rightarrow> bytes32 \<Rightarrow> governor
    \<Rightarrow> (GovernorError, governor \<times> nat) res" where
  "propose e proposer target func calldata s =
     rbind (require_auth e proposer) (\<lambda>_.
     rbind (gv_load_config s) (\<lambda>config.
       if target = self e then Inl (Error SelfTargetForbidden)
       else
         rbind (voting_power s (gc_registry config) proposer (sequence e)) (\<lambda>power.
           if power < gc_threshold config then Inl (Error BelowProposalThreshold)
           else
             let i = nat0 (gv_count s)
             in rbind (gv_deadline (sequence e) config) (\<lambda>deadline.
                rbind (u32 (i + 1)) (\<lambda>i'.
                  Inr ((put_proposal i (new_proposal e proposer deadline target func calldata) s)
                         \<lparr>gv_count := Some i'\<rparr>, i))))))"

definition gv_cancel :: "env \<Rightarrow> address \<Rightarrow> nat \<Rightarrow> governor \<Rightarrow> (GovernorError, governor) res" where
  "gv_cancel e caller i s =
     rbind (require_auth e caller) (\<lambda>_.
     rbind (gv_load_config s) (\<lambda>config.
     rbind (load_proposal s i) (\<lambda>p.
       if pp_executed p then Inl (Error AlreadyExecuted)
       else if pp_canceled p then Inl (Error ProposalCanceled)
       else
         rbind (u32 (pp_snapshot p + gc_voting_delay config)) (\<lambda>start.
           let voting_started = (sequence e \<ge> start);
               is_proposer = (caller = pp_proposer p);
               is_admin = (caller = gc_timelock config)
           in if \<not> is_admin \<and> \<not> (is_proposer \<and> \<not> voting_started) then Inl (Error NotAuthorized)
              else Inr (put_proposal i (p\<lparr>pp_canceled := True\<rparr>) s)))))"

definition add_votes :: "int \<Rightarrow> int \<Rightarrow> (GovernorError, int) res" where
  "add_votes votes pow = need VoteTallyOverflow (checked_i128 (votes + pow))"

definition tally :: "VoteType \<Rightarrow> int \<Rightarrow> Proposal \<Rightarrow> (GovernorError, Proposal) res" where
  "tally support pow p =
     (case support of
        For \<Rightarrow> rbind (add_votes (pp_for p) pow) (\<lambda>v. Inr (p\<lparr>pp_for := v\<rparr>))
      | Against \<Rightarrow> rbind (add_votes (pp_against p) pow) (\<lambda>v. Inr (p\<lparr>pp_against := v\<rparr>))
      | Abstain \<Rightarrow> rbind (add_votes (pp_abstain p) pow) (\<lambda>v. Inr (p\<lparr>pp_abstain := v\<rparr>)))"

definition cast_vote :: "env \<Rightarrow> address \<Rightarrow> nat \<Rightarrow> VoteType \<Rightarrow> governor
    \<Rightarrow> (GovernorError, governor \<times> int) res" where
  "cast_vote e voter i support s =
     rbind (require_auth e voter) (\<lambda>_.
     rbind (gv_load_config s) (\<lambda>config.
     rbind (load_proposal s i) (\<lambda>p.
       if pp_canceled p then Inl (Error ProposalCanceled)
       else if pp_snapshot p + gc_voting_delay config > u32_max then Inl (Error DeadlineOverflow)
       else if sequence e < pp_snapshot p + gc_voting_delay config then Inl (Error NotActive)
       else if sequence e > pp_deadline p then Inl (Error VotingClosed)
       else if gv_votes s (i, voter) \<noteq> None then Inl (Error AlreadyVoted)
       else
         rbind (voting_power s (gc_registry config) voter (pp_snapshot p)) (\<lambda>power.
           if power \<le> 0 then Inl (Error NoVotingPower)
           else
             rbind (tally support power p) (\<lambda>p'.
               Inr (put_proposal i p' (s\<lparr>gv_votes := (gv_votes s)((i, voter) \<mapsto> power)\<rparr>), power))))))"

definition queue :: "callees \<Rightarrow> env \<Rightarrow> nat \<Rightarrow> governor \<Rightarrow> (GovernorError, governor) res" where
  "queue c e i s =
     rbind (gv_load_config s) (\<lambda>config.
     rbind (load_proposal s i) (\<lambda>p.
     rbind (state_of e config p) (\<lambda>st.
       if st \<noteq> Succeeded then Inl (Error ProposalNotSucceeded)
       else
         rbind (u32 (sequence e + gc_voting_delay config)) (\<lambda>eta.
           if \<not> cl_schedule c (gc_timelock config) (pp_target p) (pp_function p) eta then Inl HostTrap
           else Inr (put_proposal i (p\<lparr>pp_eta := eta\<rparr>) s)))))"

definition gv_execute :: "callees \<Rightarrow> env \<Rightarrow> nat \<Rightarrow> governor \<Rightarrow> (GovernorError, governor) res" where
  "gv_execute c e i s =
     rbind (gv_load_config s) (\<lambda>config.
     rbind (load_proposal s i) (\<lambda>p.
       if pp_executed p then Inl (Error AlreadyExecuted)
       else if pp_eta p = 0 then Inl (Error ProposalNotQueued)
       else if sequence e < pp_eta p then Inl (Error TimelockNotReady)
       else if \<not> cl_execute c (gc_timelock config) (pp_target p) (pp_function p) (pp_calldata p)
       then Inl HostTrap
       else Inr (put_proposal i (p\<lparr>pp_executed := True\<rparr>) s)))"

definition proposal_state :: "env \<Rightarrow> nat \<Rightarrow> governor \<Rightarrow> (GovernorError, ProposalState) res" where
  "proposal_state e i s =
     rbind (gv_load_config s) (\<lambda>config.
     rbind (load_proposal s i) (\<lambda>p. state_of e config p))"

definition get_proposal_count :: "governor \<Rightarrow> nat" where
  "get_proposal_count s = nat0 (gv_count s)"

text \<open>
  The loop of \<open>list_proposals\<close> over the ids from \<open>start\<close> below \<open>end\<close>. The bound
  \<open>count - capped\<close> is an unsigned subtraction.
\<close>

definition list_proposals :: "governor \<Rightarrow> nat \<Rightarrow> nat \<Rightarrow> (GovernorError, Proposal list) res" where
  "list_proposals s start limit =
     (let count = get_proposal_count s
      in if start \<ge> count \<or> limit = 0 then Inr []
         else
           let capped = (if limit > MAX_LIST_LIMIT then MAX_LIST_LIMIT else limit)
           in if count < capped then Inl Overflow
              else
                let end' = (if start > count - capped then count else start + capped)
                in Inr (List.map_filter (gv_proposals s) [start..<end']))"

text \<open>The admin is checked with \<open>vortex_common::require_admin\<close>, under the contract's admin key.\<close>

definition gv_set_config :: "address \<Rightarrow> GovernorConfig \<Rightarrow> governor \<Rightarrow> (GovernorError, governor) res" where
  "gv_set_config admin config s =
     (case common_require_admin (gv_admin s) admin of
        Inl _ \<Rightarrow> Inl (Error NotAuthorized)
      | Inr _ \<Rightarrow> Inr (s\<lparr>gv_config := Some config\<rparr>))"

definition gv_voting_power :: "governor \<Rightarrow> address \<Rightarrow> nat \<Rightarrow> (GovernorError, int) res" where
  "gv_voting_power s account ledger =
     rbind (gv_load_config s) (\<lambda>config. voting_power s (gc_registry config) account ledger)"

section \<open>The binary search finds the latest checkpoint\<close>

definition cp_sorted :: "Checkpoint list \<Rightarrow> bool" where
  "cp_sorted cps = sorted (map cp_ledger cps)"

text \<open>The reference: a scan for the last checkpoint at or before a ledger.\<close>

definition power_at :: "Checkpoint list \<Rightarrow> nat \<Rightarrow> int" where
  "power_at cps ledger =
     (let past = filter (\<lambda>cp. cp_ledger cp \<le> ledger) cps
      in if past = [] then 0 else cp_power (last past))"

lemma filter_is_prefix:
  assumes "n \<le> length xs" "\<forall>i < n. P (xs ! i)" "\<forall>i. n \<le> i \<and> i < length xs \<longrightarrow> \<not> P (xs ! i)"
  shows "filter P xs = take n xs"
proof -
  have "filter P (take n xs) = take n xs"
    using assms(1,2) by (auto simp: filter_id_conv in_set_conv_nth)
  moreover have "filter P (drop n xs) = []"
    using assms(3) by (auto simp: filter_empty_conv in_set_conv_nth)
  ultimately show ?thesis by (metis append_Nil2 append_take_drop_id filter_append)
qed

lemma power_at_upto:
  assumes "n \<le> length cps" "\<forall>i < n. cp_ledger (cps ! i) \<le> ledger"
    "\<forall>i. n \<le> i \<and> i < length cps \<longrightarrow> ledger < cp_ledger (cps ! i)"
  shows "power_at cps ledger = (if n = 0 then 0 else cp_power (cps ! (n - 1)))"
proof -
  have "filter (\<lambda>cp. cp_ledger cp \<le> ledger) cps = take n cps"
    using assms by (intro filter_is_prefix) auto
  then show ?thesis using assms(1) by (auto simp: power_at_def last_conv_nth min_def)
qed

lemma search_loop_finds:
  assumes "cp_sorted cps" "low \<le> high" "high \<le> length cps"
    "\<forall>i < low. cp_ledger (cps ! i) \<le> ledger"
    "\<forall>i. high \<le> i \<and> i < length cps \<longrightarrow> ledger < cp_ledger (cps ! i)"
  shows "\<exists>n \<le> length cps. search_loop cps ledger low high = Inr n \<and>
    (\<forall>i < n. cp_ledger (cps ! i) \<le> ledger) \<and>
    (\<forall>i. n \<le> i \<and> i < length cps \<longrightarrow> ledger < cp_ledger (cps ! i))"
  using assms
proof (induction cps ledger low high rule: search_loop.induct)
  case (1 cps ledger low high)
  have mono: "cp_ledger (cps ! i) \<le> cp_ledger (cps ! j)" if "i \<le> j" "j < length cps" for i j
    using sorted_nth_mono [of "map cp_ledger cps" i j] that "1.prems"(1) by (simp add: cp_sorted_def)
  show ?case
  proof (cases "low < high")
    case False
    then have "low = high" using "1.prems"(2) by simp
    with "1.prems" show ?thesis
      by (intro exI [of _ high]) (simp add: search_loop.simps [of cps ledger high high])
  next
    case True
    let ?mid = "(low + high) div 2"
    have mid: "low \<le> ?mid" "?mid < high" using True by auto
    then have get: "vec_get cps ?mid = Some (cps ! ?mid)" using "1.prems"(3) by simp
    show ?thesis
    proof (cases "cp_ledger (cps ! ?mid) \<le> ledger")
      case early: True
      have below: "\<forall>i < ?mid + 1. cp_ledger (cps ! i) \<le> ledger"
        using mono [of _ ?mid] early mid "1.prems"(3) by (fastforce simp: less_Suc_eq_le)
      have "\<exists>n \<le> length cps. search_loop cps ledger (?mid + 1) high = Inr n \<and>
          (\<forall>i < n. cp_ledger (cps ! i) \<le> ledger) \<and>
          (\<forall>i. n \<le> i \<and> i < length cps \<longrightarrow> ledger < cp_ledger (cps ! i))"
        using mid by (intro "1.IH"(1) [OF True refl get early "1.prems"(1) _ "1.prems"(3) below "1.prems"(5)]) auto
      then show ?thesis
        using True get early by (simp add: search_loop.simps [of cps ledger low high] Let_def vec_get_def)
    next
      case late: False
      have above: "\<forall>i. ?mid \<le> i \<and> i < length cps \<longrightarrow> ledger < cp_ledger (cps ! i)"
        using mono [of ?mid] late by (meson le_less_trans not_le order_less_le_trans)
      have "\<exists>n \<le> length cps. search_loop cps ledger low ?mid = Inr n \<and>
          (\<forall>i < n. cp_ledger (cps ! i) \<le> ledger) \<and>
          (\<forall>i. n \<le> i \<and> i < length cps \<longrightarrow> ledger < cp_ledger (cps ! i))"
        using mid "1.prems"(3)
        by (intro "1.IH"(2) [OF True refl get late "1.prems"(1) mid(1) _ "1.prems"(4) above]) auto
      then show ?thesis
        using True get late by (simp add: search_loop.simps [of cps ledger low high] Let_def vec_get_def)
    qed
  qed
qed

lemma search_power_at:
  assumes "cp_sorted cps"
  shows "search cps ledger = Inr (power_at cps ledger)"
proof (cases "cps = []")
  case False
  from search_loop_finds [of cps 0 "length cps" ledger] assms obtain n where
    n: "n \<le> length cps" "search_loop cps ledger 0 (length cps) = Inr n"
      "\<forall>i < n. cp_ledger (cps ! i) \<le> ledger"
      "\<forall>i. n \<le> i \<and> i < length cps \<longrightarrow> ledger < cp_ledger (cps ! i)" by auto
  with False show ?thesis by (auto simp: search_def power_at_upto [OF n(1,3,4)] vec_get_def)
qed (simp add: search_def power_at_def)

section \<open>Runs\<close>

datatype gv_event =
    GvInitialize address GovernorConfig
  | GvUpdateConfig GovernorConfig
  | GvSyncPower address
  | GvPropose address address string bytes32
  | GvCancel address nat
  | GvCastVote address nat VoteType
  | GvQueue nat
  | GvExecute nat
  | GvSetConfig address GovernorConfig

fun gv_result :: "env \<Rightarrow> callees \<times> gv_event \<Rightarrow> governor \<Rightarrow> (GovernorError, governor) res" where
  "gv_result e (c, GvInitialize admin config) s = gv_initialize e admin config s"
| "gv_result e (c, GvUpdateConfig config) s = update_config c e config s"
| "gv_result e (c, GvSyncPower account) s = rbind (sync_power c e account s) (\<lambda>r. Inr (fst r))"
| "gv_result e (c, GvPropose proposer target func calldata) s =
     rbind (propose e proposer target func calldata s) (\<lambda>r. Inr (fst r))"
| "gv_result e (c, GvCancel caller i) s = gv_cancel e caller i s"
| "gv_result e (c, GvCastVote voter i support) s =
     rbind (cast_vote e voter i support s) (\<lambda>r. Inr (fst r))"
| "gv_result e (c, GvQueue i) s = queue c e i s"
| "gv_result e (c, GvExecute i) s = gv_execute c e i s"
| "gv_result e (c, GvSetConfig admin config) s = gv_set_config admin config s"

definition gv_step :: "env \<Rightarrow> callees \<times> gv_event \<Rightarrow> governor \<Rightarrow> governor" where
  "gv_step e tx s = commit s (gv_result e tx s)"

definition gv_empty :: governor where
  "gv_empty = \<lparr>gv_config = None, gv_admin = None, gv_count = None, gv_proposals = (\<lambda>_. None),
     gv_votes = (\<lambda>_. None), gv_checkpoints = (\<lambda>_. None)\<rparr>"

definition gv_run :: "(env \<times> callees \<times> gv_event) list \<Rightarrow> governor" where
  "gv_run txs = contract_run gv_step txs gv_empty"

lemma gv_run_Nil [simp]: "gv_run [] = gv_empty"
  by (simp add: gv_run_def)

lemma gv_run_snoc [simp]: "gv_run (txs @ [tx]) = gv_step (fst tx) (snd tx) (gv_run txs)"
  by (cases tx) (simp add: gv_run_def contract_run_append)

text \<open>Ledgers close in order: the sequence numbers of a run never fall.\<close>

definition in_order :: "(env \<times> 'a) list \<Rightarrow> bool" where
  "in_order txs = sorted (map (\<lambda>tx. sequence (fst tx)) txs)"

lemma gv_step_cases:
  obtains (aborted) "gv_step e tx s = s"
  | (committed) s' where "gv_result e tx s = Inr s'" "gv_step e tx s = s'"
  by (cases "gv_result e tx s") (auto simp: gv_step_def)

lemma write_checkpoint_result:
  assumes "write_checkpoint e account pow s = Inr s'"
  shows "\<exists>config. gv_config s = Some config \<and>
    s' = s\<lparr>gv_checkpoints := (gv_checkpoints s)((gc_registry config, account) \<mapsto>
      trim_checkpoints ((case gv_checkpoints s (gc_registry config, account) of None \<Rightarrow> [] | Some cps \<Rightarrow> cps) @
        [\<lparr>cp_ledger = sequence e, cp_power = pow\<rparr>]))\<rparr>"
  using assms by (auto simp: write_checkpoint_def Let_def)

lemma tally_result:
  assumes "tally support pow p = Inr p'"
  shows "pp_for p' + pp_against p' + pp_abstain p' = pp_for p + pp_against p + pp_abstain p + pow \<and>
    p' = p\<lparr>pp_for := pp_for p', pp_against := pp_against p', pp_abstain := pp_abstain p'\<rparr> \<and>
    (0 < pow \<longrightarrow> pp_for p \<le> pp_for p' \<and> pp_against p \<le> pp_against p' \<and> pp_abstain p \<le> pp_abstain p')"
  using assms by (cases support) (auto simp: tally_def add_votes_def)

lemma cast_vote_result:
  assumes "cast_vote e voter i support s = Inr r"
  shows "\<exists>config p p' pow. authed e voter \<and> gv_config s = Some config \<and> gv_proposals s i = Some p \<and>
    \<not> pp_canceled p \<and> pp_snapshot p + gc_voting_delay config \<le> sequence e \<and> sequence e \<le> pp_deadline p \<and>
    gv_votes s (i, voter) = None \<and> 0 < pow \<and>
    voting_power s (gc_registry config) voter (pp_snapshot p) = Inr pow \<and>
    tally support pow p = Inr p' \<and>
    r = (put_proposal i p' (s\<lparr>gv_votes := (gv_votes s)((i, voter) \<mapsto> pow)\<rparr>), pow)"
  using assms unfolding cast_vote_def gv_load_config_def load_proposal_def
  by (elim rbindE guardE) auto

lemma propose_result:
  assumes "propose e proposer target func calldata s = Inr r"
  shows "\<exists>config. authed e proposer \<and> gv_config s = Some config \<and> target \<noteq> self e \<and>
    r = ((put_proposal (nat0 (gv_count s)) (new_proposal e proposer
            (sequence e + gc_voting_delay config + gc_voting_period config) target func calldata) s)
          \<lparr>gv_count := Some (Suc (nat0 (gv_count s)))\<rparr>, nat0 (gv_count s))"
  using assms unfolding propose_def gv_load_config_def gv_deadline_def Let_def
  by (elim rbindE guardE) auto

lemma queue_result:
  assumes "queue c e i s = Inr s'"
  shows "\<exists>config p. gv_config s = Some config \<and> gv_proposals s i = Some p \<and> \<not> pp_canceled p \<and>
    \<not> pp_executed p \<and> pp_deadline p < sequence e \<and> pp_eta p = 0 \<and> pp_against p < pp_for p \<and>
    gc_quorum config \<le> pp_for p + pp_against p + pp_abstain p \<and>
    s' = put_proposal i (p\<lparr>pp_eta := sequence e + gc_voting_delay config\<rparr>) s"
  using assms unfolding queue_def gv_load_config_def load_proposal_def state_of_def
  by (elim rbindE guardE condE) auto

lemma gv_execute_result:
  assumes "gv_execute c e i s = Inr s'"
  shows "\<exists>config p. gv_config s = Some config \<and> gv_proposals s i = Some p \<and> \<not> pp_executed p \<and>
    pp_eta p \<noteq> 0 \<and> pp_eta p \<le> sequence e \<and>
    cl_execute c (gc_timelock config) (pp_target p) (pp_function p) (pp_calldata p) \<and>
    s' = put_proposal i (p\<lparr>pp_executed := True\<rparr>) s"
  using assms unfolding gv_execute_def gv_load_config_def load_proposal_def
  by (elim rbindE guardE condE) auto

lemma gv_cancel_result:
  assumes "gv_cancel e caller i s = Inr s'"
  shows "\<exists>config p. authed e caller \<and> gv_config s = Some config \<and> gv_proposals s i = Some p \<and>
    \<not> pp_executed p \<and> \<not> pp_canceled p \<and>
    (caller = gc_timelock config \<or>
       caller = pp_proposer p \<and> sequence e < pp_snapshot p + gc_voting_delay config) \<and>
    s' = put_proposal i (p\<lparr>pp_canceled := True\<rparr>) s"
  using assms unfolding gv_cancel_def gv_load_config_def load_proposal_def Let_def
  by (elim rbindE guardE condE) auto

text \<open>
  What one committed transaction does to a proposal, as a step relation: this is all that the
  invariants need of the handlers. The last argument is the proposal afterwards.
\<close>

inductive prop_move :: "env \<Rightarrow> gv_event \<Rightarrow> governor \<Rightarrow> governor \<Rightarrow> nat \<Rightarrow> Proposal \<Rightarrow> bool"
  for e :: env and ev :: gv_event and s s' :: governor and i :: nat where
  kept: "gv_proposals s i = Some p \<Longrightarrow> \<forall>v. gv_votes s' (i, v) = gv_votes s (i, v) \<Longrightarrow>
    \<forall>v support. ev \<noteq> GvCastVote v i support \<Longrightarrow> prop_move e ev s s' i p"
| created: "i = nat0 (gv_count s) \<Longrightarrow> gv_count s' = Some (Suc i) \<Longrightarrow> gv_votes s' = gv_votes s \<Longrightarrow>
    deadline = sequence e + d \<Longrightarrow> ev = GvPropose proposer target func calldata \<Longrightarrow>
    prop_move e ev s s' i (new_proposal e proposer deadline target func calldata)"
| canceled: "gv_proposals s i = Some p \<Longrightarrow> gv_votes s' = gv_votes s \<Longrightarrow> \<not> pp_executed p \<Longrightarrow>
    ev = GvCancel caller i \<Longrightarrow> prop_move e ev s s' i (p\<lparr>pp_canceled := True\<rparr>)"
| voted: "gv_proposals s i = Some p \<Longrightarrow> sequence e \<le> pp_deadline p \<Longrightarrow> gv_votes s (i, voter) = None \<Longrightarrow>
    gv_votes s' = (gv_votes s)((i, voter) \<mapsto> pow) \<Longrightarrow> 0 < pow \<Longrightarrow> tally support pow p = Inr p' \<Longrightarrow>
    ev = GvCastVote voter i support \<Longrightarrow> cast_vote e voter i support s = Inr (s', pow) \<Longrightarrow>
    prop_move e ev s s' i p'"
| queued: "gv_proposals s i = Some p \<Longrightarrow> gv_votes s' = gv_votes s \<Longrightarrow> gv_config s = Some config \<Longrightarrow>
    \<not> pp_canceled p \<Longrightarrow> \<not> pp_executed p \<Longrightarrow> pp_deadline p < sequence e \<Longrightarrow> pp_eta p = 0 \<Longrightarrow> pp_against p < pp_for p \<Longrightarrow>
    gc_quorum config \<le> pp_for p + pp_against p + pp_abstain p \<Longrightarrow> eta = sequence e + gc_voting_delay config \<Longrightarrow>
    ev = GvQueue i \<Longrightarrow> prop_move e ev s s' i (p\<lparr>pp_eta := eta\<rparr>)"
| executed: "gv_proposals s i = Some p \<Longrightarrow> gv_votes s' = gv_votes s \<Longrightarrow> \<not> pp_executed p \<Longrightarrow> pp_eta p \<noteq> 0 \<Longrightarrow>
    pp_eta p \<le> sequence e \<Longrightarrow> ev = GvExecute i \<Longrightarrow> prop_move e ev s s' i (p\<lparr>pp_executed := True\<rparr>)"

lemma put_proposal_simps [simp]:
  "gv_proposals (put_proposal i p s) j = (if j = i then Some p else gv_proposals s j)"
  "gv_votes (put_proposal i p s) = gv_votes s" "gv_config (put_proposal i p s) = gv_config s"
  "gv_count (put_proposal i p s) = gv_count s" "gv_admin (put_proposal i p s) = gv_admin s"
  "gv_checkpoints (put_proposal i p s) = gv_checkpoints s"
  by (auto simp: put_proposal_def)

lemma gv_result_moves:
  assumes "gv_result e (c, ev) s = Inr s'" "gv_proposals s' i = Some p'"
  shows "prop_move e ev s s' i p'"
proof (cases ev)
  case (GvInitialize admin config)
  with assms show ?thesis by (auto simp: gv_initialize_def elim!: guardE intro!: prop_move.kept)
next
  case (GvUpdateConfig config)
  with assms show ?thesis by (auto simp: update_config_def elim!: guardE intro!: prop_move.kept)
next
  case (GvSyncPower account)
  with assms show ?thesis
    by (auto simp: sync_power_def elim!: case_optionE dest!: write_checkpoint_result intro!: prop_move.kept)
next
  case (GvPropose proposer target func calldata)
  show ?thesis
  proof (cases "i = nat0 (gv_count s)")
    case True
    with assms GvPropose show ?thesis by (auto dest!: propose_result intro!: prop_move.created)
  next
    case False
    with assms GvPropose show ?thesis by (auto dest!: propose_result intro!: prop_move.kept)
  qed
next
  case (GvCancel caller j)
  show ?thesis
  proof (cases "i = j")
    case True
    with assms GvCancel show ?thesis by (auto dest!: gv_cancel_result intro!: prop_move.canceled)
  next
    case False
    with assms GvCancel show ?thesis by (auto dest!: gv_cancel_result intro!: prop_move.kept)
  qed
next
  case (GvCastVote voter j support)
  with assms obtain r where r: "cast_vote e voter j support s = Inr r" "s' = fst r" by auto
  from cast_vote_result [OF r(1)] obtain p p'' pow where
    p: "gv_proposals s j = Some p" "sequence e \<le> pp_deadline p" "gv_votes s (j, voter) = None" "0 < pow"
      "tally support pow p = Inr p''"
    and s': "s' = put_proposal j p'' (s\<lparr>gv_votes := (gv_votes s)((j, voter) \<mapsto> pow)\<rparr>)" and "snd r = pow"
    using r(2) by auto
  show ?thesis
  proof (cases "j = i")
    case True
    with assms(2) s' have "p'' = p'" by simp
    have "cast_vote e voter i support s = Inr (s', pow)" using r True \<open>snd r = pow\<close> by (cases r) simp
    with \<open>p'' = p'\<close> p True s' GvCastVote show ?thesis by (intro prop_move.voted [of s i p e voter s' pow support]) auto
  next
    case False
    with assms(2) s' GvCastVote show ?thesis by (intro prop_move.kept) auto
  qed
next
  case (GvQueue j)
  show ?thesis
  proof (cases "i = j")
    case True
    with assms GvQueue show ?thesis by (auto dest!: queue_result intro!: prop_move.queued)
  next
    case False
    with assms GvQueue show ?thesis by (auto dest!: queue_result intro!: prop_move.kept)
  qed
next
  case (GvExecute j)
  show ?thesis
  proof (cases "i = j")
    case True
    with assms GvExecute show ?thesis by (auto dest!: gv_execute_result intro!: prop_move.executed)
  next
    case False
    with assms GvExecute show ?thesis by (auto dest!: gv_execute_result intro!: prop_move.kept)
  qed
next
  case (GvSetConfig admin config)
  with assms show ?thesis by (auto simp: gv_set_config_def split: sum.splits intro!: prop_move.kept)
qed

lemma gv_result_frame:
  assumes "gv_result e (c, ev) s = Inr s'"
  shows "gv_config s' \<noteq> None \<and>
    (gv_count s' = gv_count s \<or> gv_count s' = Some (Suc (nat0 (gv_count s))) \<or> gv_config s = None) \<and>
    (\<forall>i. gv_proposals s' i = None \<longrightarrow>
       gv_proposals s i = None \<and> (\<forall>v. gv_votes s' (i, v) = gv_votes s (i, v)))"
proof (cases ev)
  case (GvInitialize admin config)
  with assms show ?thesis by (auto simp: gv_initialize_def elim!: guardE)
next
  case (GvUpdateConfig config)
  with assms show ?thesis by (auto simp: update_config_def elim!: guardE)
next
  case (GvSyncPower account)
  with assms show ?thesis
    by (auto simp: sync_power_def gv_load_config_def elim!: case_optionE dest!: write_checkpoint_result)
next
  case (GvPropose proposer target func calldata)
  with assms show ?thesis by (auto dest!: propose_result split: if_splits)
next
  case (GvCancel caller j)
  with assms show ?thesis by (auto dest!: gv_cancel_result split: if_splits)
next
  case (GvCastVote voter j support)
  with assms show ?thesis by (auto dest!: cast_vote_result split: if_splits)
next
  case (GvQueue j)
  with assms show ?thesis by (auto dest!: queue_result split: if_splits)
next
  case (GvExecute j)
  with assms show ?thesis by (auto dest!: gv_execute_result split: if_splits)
next
  case (GvSetConfig admin config)
  with assms show ?thesis by (auto simp: gv_set_config_def split: sum.splits)
qed

section \<open>The tally is the sum of the recorded votes\<close>

definition voters :: "governor \<Rightarrow> nat \<Rightarrow> address set" where
  "voters s i = {v. gv_votes s (i, v) \<noteq> None}"

definition recorded_power :: "governor \<Rightarrow> nat \<Rightarrow> int" where
  "recorded_power s i = (\<Sum>v \<in> voters s i. or0 (gv_votes s (i, v)))"

definition counted :: "governor \<Rightarrow> nat \<Rightarrow> Proposal \<Rightarrow> bool" where
  "counted s i p \<longleftrightarrow> i < nat0 (gv_count s) \<and> finite (voters s i) \<and>
     pp_for p + pp_against p + pp_abstain p = recorded_power s i \<and>
     0 \<le> pp_for p \<and> 0 \<le> pp_against p \<and> 0 \<le> pp_abstain p"

definition tallied :: "governor \<Rightarrow> bool" where
  "tallied s \<longleftrightarrow> (\<forall>i. case gv_proposals s i of
       None \<Rightarrow> voters s i = {} | Some p \<Rightarrow> gv_config s \<noteq> None \<and> counted s i p)"

lemma tallied_None: "tallied s \<Longrightarrow> gv_proposals s i = None \<Longrightarrow> voters s i = {}"
  by (force simp: tallied_def dest: spec [of _ i])

lemma tallied_Some:
  assumes "tallied s" "gv_proposals s i = Some p"
  shows "gv_config s \<noteq> None" "counted s i p"
  using assms by (force simp: tallied_def dest: spec [of _ i])+

lemma same_votes:
  assumes "\<forall>v. gv_votes s' (i, v) = gv_votes s (i, v)"
  shows "voters s' i = voters s i" "recorded_power s' i = recorded_power s i"
  using assms by (auto simp: voters_def recorded_power_def)

lemma counted_same:
  assumes "counted s i p" "\<forall>v. gv_votes s' (i, v) = gv_votes s (i, v)" "i < nat0 (gv_count s')"
    "pp_for p' = pp_for p" "pp_against p' = pp_against p" "pp_abstain p' = pp_abstain p"
  shows "counted s' i p'"
  using assms(1,3-) by (simp add: counted_def same_votes [OF assms(2)])

lemma counted_vote:
  assumes "counted s i p" "gv_votes s (i, voter) = None" "gv_votes s' = (gv_votes s)((i, voter) \<mapsto> pow)"
    "0 < pow" "tally support pow p = Inr p'" "i < nat0 (gv_count s')"
  shows "counted s' i p'"
proof -
  have "voters s' i = insert voter (voters s i)" "voter \<notin> voters s i"
    using assms(2,3) by (auto simp: voters_def)
  moreover have "(\<Sum>v \<in> voters s i. or0 (gv_votes s' (i, v))) = recorded_power s i"
    using assms(2,3) by (auto simp: recorded_power_def voters_def intro!: sum.cong)
  ultimately have "recorded_power s' i = recorded_power s i + pow" "finite (voters s' i)"
    using assms(1,3) by (simp_all add: recorded_power_def counted_def or0_def)
  with assms(1,4,6) tally_result [OF assms(5)] show ?thesis by (simp add: counted_def)
qed

lemma tallied_step: "tallied s \<Longrightarrow> tallied (gv_step e tx s)"
proof (cases e tx s rule: gv_step_cases)
  case (committed s')
  assume s: "tallied s"
  obtain c ev where tx: "tx = (c, ev)" by (cases tx)
  note ok = committed(1) [unfolded tx]
  note frame = gv_result_frame [OF ok]
  have "case gv_proposals s' i of None \<Rightarrow> voters s' i = {} | Some p \<Rightarrow> gv_config s' \<noteq> None \<and> counted s' i p" for i
  proof (cases "gv_proposals s' i")
    case None
    with frame have "gv_proposals s i = None" "\<forall>v. gv_votes s' (i, v) = gv_votes s (i, v)" by auto
    with None show ?thesis using tallied_None [OF s] by (simp add: same_votes(1) [of s' i s])
  next
    case (Some p')
    have old: "gv_config s \<noteq> None \<and> counted s i p \<and> i < nat0 (gv_count s')" if "gv_proposals s i = Some p" for p
    proof -
      from frame tallied_Some [OF s that] show ?thesis by (auto simp: counted_def)
    qed
    from gv_result_moves [OF ok Some] have "counted s' i p'"
    proof cases
      case kept
      with old [of p'] show ?thesis by (auto intro: counted_same)
    next
      case (created deadline d proposer target func calldata)
      have "gv_proposals s i = None"
        using tallied_Some(2) [OF s, of i] created(2) by (cases "gv_proposals s i") (auto simp: counted_def)
      then have "voters s i = {}" by (rule tallied_None [OF s])
      with created show ?thesis
        by (simp add: counted_def new_proposal_def voters_def recorded_power_def)
    next
      case (canceled p)
      with old [of p] show ?thesis by (auto intro: counted_same [where p = p])
    next
      case (voted p voter pow support)
      with old [of p] show ?thesis by (auto intro: counted_vote)
    next
      case (queued p config eta)
      with old [of p] show ?thesis by (auto intro: counted_same [where p = p])
    next
      case (executed p)
      with old [of p] show ?thesis by (auto intro: counted_same [where p = p])
    qed
    with frame Some show ?thesis by simp
  qed
  then show ?thesis using committed(2) by (simp add: tallied_def)
qed simp

lemma tallied_run: "tallied (gv_run txs)"
  by (induction txs rule: rev_induct) (simp_all add: tallied_step, simp add: tallied_def gv_empty_def voters_def)

section \<open>The tallies are the votes of the run\<close>









section \<open>Only a passed proposal is queued or executed\<close>












section \<open>Stake that arrives after the snapshot\<close>

text \<open>Checkpoints are in ledger order, at most \<open>MAX_CHECKPOINTS\<close> of them, none from the future.\<close>

definition history_ok :: "nat \<Rightarrow> governor \<Rightarrow> bool" where
  "history_ok t s \<longleftrightarrow> (\<forall>k cps. gv_checkpoints s k = Some cps \<longrightarrow>
     cp_sorted cps \<and> length cps \<le> MAX_CHECKPOINTS \<and> (\<forall>cp \<in> set cps. cp_ledger cp \<le> t))"

lemma trim_is_drop: "\<exists>n. trim_checkpoints cps = drop n cps"
proof (induction cps)
  case (Cons cp cps)
  then obtain n where "trim_checkpoints cps = drop n cps" by blast
  then have "trim_checkpoints (cp # cps) = drop (if length (cp # cps) > MAX_CHECKPOINTS then Suc n else 0) (cp # cps)"
    by simp
  then show ?case by blast
qed simp

lemma trim_length: "length (trim_checkpoints cps) \<le> MAX_CHECKPOINTS"
  by (induction cps) auto

lemma power_at_drop: "power_at (drop n cps) ledger = power_at cps ledger \<or> power_at (drop n cps) ledger = 0"
proof -
  let ?P = "\<lambda>cp. cp_ledger cp \<le> ledger"
  have "filter ?P cps = filter ?P (take n cps) @ filter ?P (drop n cps)"
    by (metis append_take_drop_id filter_append)
  then show ?thesis by (cases "filter ?P (drop n cps) = []") (simp_all add: power_at_def Let_def)
qed

lemma power_at_late: "ledger < cp_ledger cp \<Longrightarrow> power_at (cps @ [cp]) ledger = power_at cps ledger"
  by (simp add: power_at_def)

lemma gv_result_checkpoints:
  assumes "gv_result e (c, ev) s = Inr s'"
  shows "gv_checkpoints s' = gv_checkpoints s \<or>
    (\<exists>k pow. gv_checkpoints s' = (gv_checkpoints s)(k \<mapsto> trim_checkpoints
       ((case gv_checkpoints s k of None \<Rightarrow> [] | Some cps \<Rightarrow> cps) @ [\<lparr>cp_ledger = sequence e, cp_power = pow\<rparr>])))"
proof (cases ev)
  case (GvSyncPower account)
  with assms obtain pow where "write_checkpoint e account pow s = Inr s'"
    by (auto simp: sync_power_def gv_load_config_def elim!: case_optionE)
  from write_checkpoint_result [OF this] obtain config :: GovernorConfig where
    "s' = s\<lparr>gv_checkpoints := (gv_checkpoints s)((gc_registry config, account) \<mapsto>
      trim_checkpoints ((case gv_checkpoints s (gc_registry config, account) of None \<Rightarrow> [] | Some cps \<Rightarrow> cps) @
        [\<lparr>cp_ledger = sequence e, cp_power = pow\<rparr>]))\<rparr>"
    by blast
  then show ?thesis by (intro disjI2 exI [of _ "(gc_registry config, account)"] exI [of _ pow]) simp
next
  case (GvInitialize admin config)
  with assms show ?thesis by (auto simp: gv_initialize_def elim!: guardE)
next
  case (GvUpdateConfig config)
  with assms show ?thesis by (auto simp: update_config_def elim!: guardE)
next
  case (GvPropose proposer target func calldata)
  with assms show ?thesis by (auto dest!: propose_result)
next
  case (GvCancel caller j)
  with assms show ?thesis by (auto dest!: gv_cancel_result)
next
  case (GvCastVote voter j support)
  with assms show ?thesis by (auto dest!: cast_vote_result)
next
  case (GvQueue j)
  with assms show ?thesis by (auto dest!: queue_result)
next
  case (GvExecute j)
  with assms show ?thesis by (auto dest!: gv_execute_result)
next
  case (GvSetConfig admin config)
  with assms show ?thesis by (auto simp: gv_set_config_def split: sum.splits)
qed

lemma trimmed_ok:
  assumes "cp_sorted cps" "\<forall>cp \<in> set cps. cp_ledger cp \<le> t" "t \<le> ledger"
    "cps' = trim_checkpoints (cps @ [\<lparr>cp_ledger = ledger, cp_power = pow\<rparr>])"
  shows "cp_sorted cps' \<and> length cps' \<le> MAX_CHECKPOINTS \<and> (\<forall>cp \<in> set cps'. cp_ledger cp \<le> ledger)"
proof -
  let ?all = "cps @ [\<lparr>cp_ledger = ledger, cp_power = pow\<rparr>]"
  obtain n where n: "trim_checkpoints ?all = drop n ?all" using trim_is_drop by blast
  have all: "sorted (map cp_ledger ?all)" "\<forall>cp \<in> set ?all. cp_ledger cp \<le> ledger"
    using assms(1-3) by (auto simp: cp_sorted_def sorted_append)
  have "cp_sorted (drop n ?all)"
    unfolding cp_sorted_def drop_map [symmetric] by (rule sorted_wrt_drop [OF all(1)])
  moreover have "\<forall>cp \<in> set (drop n ?all). cp_ledger cp \<le> ledger"
    using all(2) in_set_dropD by fast
  ultimately have "cp_sorted (drop n ?all)" "\<forall>cp \<in> set (drop n ?all). cp_ledger cp \<le> ledger"
    by blast+
  with assms(4) trim_length [of ?all] n show ?thesis by simp
qed

lemma history_step:
  assumes "history_ok t s" "t \<le> sequence e"
  shows "history_ok (sequence e) (gv_step e tx s)"
proof -
  have later: "history_ok (sequence e) s" using assms by (force simp: history_ok_def)
  obtain c ev where tx: "tx = (c, ev)" by (cases tx)
  show ?thesis
  proof (cases e tx s rule: gv_step_cases)
    case (committed s')
    from gv_result_checkpoints [OF committed(1) [unfolded tx]] show ?thesis
    proof (elim disjE exE)
      assume "gv_checkpoints s' = gv_checkpoints s"
      with later committed(2) show ?thesis by (simp add: history_ok_def)
    next
      fix k pow
      let ?cps = "case gv_checkpoints s k of None \<Rightarrow> [] | Some cps \<Rightarrow> cps"
      assume new: "gv_checkpoints s' = (gv_checkpoints s)(k \<mapsto>
        trim_checkpoints (?cps @ [\<lparr>cp_ledger = sequence e, cp_power = pow\<rparr>]))"
      have "cp_sorted ?cps" "\<forall>cp \<in> set ?cps. cp_ledger cp \<le> t"
        using assms(1) by (cases "gv_checkpoints s k"; cases k; force simp: history_ok_def cp_sorted_def)+
      from trimmed_ok [OF this assms(2) refl, of pow] later new committed(2) show ?thesis
        by (auto simp: history_ok_def split: if_splits)
    qed
  qed (use later in simp)
qed

lemma history_run:
  "in_order txs \<Longrightarrow> history_ok (if txs = [] then 0 else sequence (fst (last txs))) (gv_run txs)"
proof (induction txs rule: rev_induct)
  case Nil
  then show ?case by (simp add: history_ok_def gv_empty_def)
next
  case (snoc tx txs)
  have "in_order txs" using snoc.prems by (simp add: in_order_def sorted_append)
  note IH = snoc.IH [OF this]
  have "(if txs = [] then 0 else sequence (fst (last txs))) \<le> sequence (fst tx)"
    using snoc.prems by (auto simp: in_order_def sorted_append)
  from history_step [OF IH this] show ?case by simp
qed

definition past_power :: "governor \<Rightarrow> address \<Rightarrow> address \<Rightarrow> Checkpoint list" where
  "past_power s registry account =
     (case gv_checkpoints s (registry, account) of None \<Rightarrow> [] | Some cps \<Rightarrow> cps)"

lemma voting_power_run:
  assumes "in_order txs"
  shows "voting_power (gv_run txs) registry account ledger =
    Inr (power_at (past_power (gv_run txs) registry account) ledger)"
proof -
  have "cp_sorted (past_power (gv_run txs) registry account)"
    using history_run [OF assms]
    by (cases "gv_checkpoints (gv_run txs) (registry, account)")
      (auto simp: history_ok_def cp_sorted_def past_power_def)
  from search_power_at [OF this, of ledger] show ?thesis
    by (simp add: voting_power_def past_power_def)
qed

lemma past_power_step:
  assumes "ledger < sequence e"
  shows "power_at (past_power (gv_step e tx s) registry account) ledger = power_at (past_power s registry account) ledger \<or>
    power_at (past_power (gv_step e tx s) registry account) ledger = 0"
proof (cases e tx s rule: gv_step_cases)
  case (committed s')
  obtain c ev where tx: "tx = (c, ev)" by (cases tx)
  from gv_result_checkpoints [OF committed(1) [unfolded tx]] consider
    "past_power s' registry account = past_power s registry account"
  | pow where "past_power s' registry account =
      trim_checkpoints (past_power s registry account @ [\<lparr>cp_ledger = sequence e, cp_power = pow\<rparr>])"
  proof (elim disjE exE)
    fix k pow
    assume "gv_checkpoints s' = (gv_checkpoints s)(k \<mapsto> trim_checkpoints
      ((case gv_checkpoints s k of None \<Rightarrow> [] | Some cps \<Rightarrow> cps) @ [\<lparr>cp_ledger = sequence e, cp_power = pow\<rparr>]))"
    then show ?thesis using that by (cases "k = (registry, account)") (simp_all add: past_power_def)
  qed (use that in \<open>simp add: past_power_def\<close>)
  then show ?thesis
  proof cases
    case 2
    let ?all = "past_power s registry account @ [\<lparr>cp_ledger = sequence e, cp_power = pow\<rparr>]"
    obtain n where "trim_checkpoints ?all = drop n ?all" using trim_is_drop by blast
    with 2 committed(2) power_at_drop [of n ?all ledger] assms show ?thesis
      by (simp add: power_at_late)
  qed (simp add: committed(2))
qed simp

section \<open>Properties\<close>


text \<open>
  C8: In every reachable state of the governor the three tallies of a proposal are not
  negative and sum up to the recorded power of the accounts that voted on it, and an account
  that has voted cannot vote on it again.
\<close>

theorem votes_counted_once:
  assumes "gv_proposals (gv_run txs) i = Some p"
  shows "finite (voters (gv_run txs) i) \<and>
    pp_for p + pp_against p + pp_abstain p = recorded_power (gv_run txs) i \<and>
    0 \<le> pp_for p \<and> 0 \<le> pp_against p \<and> 0 \<le> pp_abstain p \<and>
    (\<forall>e voter support. voter \<in> voters (gv_run txs) i \<longrightarrow> \<not> is_ok (cast_vote e voter i support (gv_run txs)))"
proof -
  have "\<not> is_ok (cast_vote e voter i support (gv_run txs))" if "voter \<in> voters (gv_run txs) i" for e voter support
    using that by (auto simp: voters_def is_ok_iff dest!: cast_vote_result)
  with tallied_Some(2) [OF tallied_run assms] show ?thesis by (simp add: counted_def)
qed

text \<open>
  C23: Stake that is synchronised after a ledger cannot add voting power at that ledger: after
  any later transactions the power read there is what it was, or nothing when the checkpoint
  has been dropped.
\<close>

theorem later_stake_has_no_power:
  assumes "in_order (txs @ txs')" "\<forall>tx \<in> set txs'. ledger < sequence (fst tx)"
  shows "voting_power (gv_run (txs @ txs')) registry account ledger = voting_power (gv_run txs) registry account ledger \<or>
    voting_power (gv_run (txs @ txs')) registry account ledger = Inr 0"
proof -
  have ord: "in_order (txs @ ys)" if "txs' = ys @ zs" for ys zs
    using assms(1) that by (simp add: in_order_def sorted_append)
  have "in_order (txs @ ys) \<Longrightarrow> \<forall>tx \<in> set ys. ledger < sequence (fst tx) \<Longrightarrow>
      power_at (past_power (gv_run (txs @ ys)) registry account) ledger \<in>
        {power_at (past_power (gv_run txs) registry account) ledger, 0}" for ys
  proof (induction ys rule: rev_induct)
    case (snoc tx ys)
    then have "power_at (past_power (gv_run (txs @ ys)) registry account) ledger \<in>
        {power_at (past_power (gv_run txs) registry account) ledger, 0}"
      by (simp add: in_order_def sorted_append)
    with past_power_step [of ledger "fst tx" "snd tx" "gv_run (txs @ ys)" registry account] snoc.prems(2)
    show ?case by (auto simp: gv_run_snoc [of "txs @ ys" tx, simplified])
  qed simp
  from this [OF assms] voting_power_run [OF assms(1)] voting_power_run [OF ord [of "[]" txs']]
  show ?thesis by auto
qed

text \<open>
  C22: On every reachable list of checkpoints the governor's binary search returns, and
  returns what a linear scan for the latest checkpoint at or before the ledger gives.
\<close>

theorem power_lookup_exact:
  assumes "in_order txs"
  shows "voting_power (gv_run txs) registry account ledger =
    Inr (power_at (past_power (gv_run txs) registry account) ledger)"
  by (rule voting_power_run [OF assms])

text \<open>
  A queued proposal that is cancelled can still be executed: \<open>execute\<close> does not
  look at the flag.
\<close>

theorem cancel_does_not_stop_execution:
  assumes "gv_cancel e caller i s = Inr s'"
  shows "is_ok (gv_execute c e' i s') = is_ok (gv_execute c e' i s)"
proof -
  from gv_cancel_result [OF assms] obtain config p where
    "gv_config s = Some config" "gv_proposals s i = Some p" "\<not> pp_executed p"
    "s' = put_proposal i (p\<lparr>pp_canceled := True\<rparr>) s" by blast
  then show ?thesis by (simp add: gv_execute_def gv_load_config_def load_proposal_def need_def)
qed

text \<open>
  \<open>list_proposals\<close> subtracts the page size from the count: with fewer proposals than the page
  asks for it reverts instead of returning them.
\<close>

lemma list_proposals_short:
  "0 < get_proposal_count s \<Longrightarrow> get_proposal_count s < limit \<Longrightarrow> limit \<le> MAX_LIST_LIMIT \<Longrightarrow>
     list_proposals s 0 limit = Inl Overflow"
  by (simp add: list_proposals_def Let_def)

text \<open>\<open>set_config\<close> asks for no signature and skips the bounds: knowing the admin is enough.\<close>

lemma gv_set_config_unsigned:
  "gv_admin s = Some admin \<Longrightarrow> gv_set_config admin config s = Inr (s\<lparr>gv_config := Some config\<rparr>)"
  by (simp add: gv_set_config_def common_require_admin_def)

section \<open>Witnesses\<close>

definition gv_demo_config :: GovernorConfig where
  "gv_demo_config = \<lparr>gc_registry = 20, gc_timelock = 21, gc_voting_delay = 10, gc_voting_period = 100,
     gc_threshold = 5, gc_quorum = 10\<rparr>"

definition gv_demo_callees :: callees where
  "gv_demo_callees = \<lparr>cl_bond = (\<lambda>_ _. Some 50), cl_schedule = (\<lambda>_ _ _ _. True),
     cl_execute = (\<lambda>_ _ _ _. True), cl_invoker = 0\<rparr>"

definition gv_demo :: "(env \<times> callees \<times> gv_event) list" where
  "gv_demo = map (\<lambda>(t, ev). (plain_env t, gv_demo_callees, ev))
     [(1, GvInitialize 1 gv_demo_config), (2, GvSyncPower 2), (3, GvPropose 2 30 ''f'' 0),
      (13, GvCastVote 2 0 For), (114, GvQueue 0), (124, GvExecute 0)]"

lemmas gv_eval = gv_demo_def gv_demo_config_def gv_demo_callees_def gv_run_def gv_step_def gv_empty_def
  gv_initialize_def validate_config_def sync_power_def write_checkpoint_def propose_def gv_deadline_def
  new_proposal_def cast_vote_def tally_def add_votes_def queue_def state_of_def gv_execute_def
  gv_load_config_def load_proposal_def need_def put_proposal_def voting_power_def search_def
  search_loop.simps vec_get_def require_auth_def u32_def i128_def in_i128_def i128_min_def i128_max_def
  u32_max_def checked_i128_def MAX_CHECKPOINTS_def MIN_VOTING_DELAY_def MAX_VOTING_DELAY_def
  MIN_VOTING_PERIOD_def MAX_VOTING_PERIOD_def MIN_PROPOSAL_THRESHOLD_def MAX_PROPOSAL_THRESHOLD_def
  MIN_QUORUM_def MAX_QUORUM_def in_order_def gv_cancel_def


theorem votes_counted_once_witness:
  "\<exists>txs p. gv_proposals (gv_run txs) 0 = Some p \<and> 0 < pp_for p \<and>
     pp_for p + pp_against p + pp_abstain p = recorded_power (gv_run txs) 0"
proof -
  obtain p where "gv_proposals (gv_run gv_demo) 0 = Some p" "0 < pp_for p"
    by (simp add: gv_eval)
  with votes_counted_once [OF this(1)] show ?thesis by blast
qed

text \<open>The account doubles its stake in the ledger after the proposal: its power at the snapshot stays.\<close>

definition gv_late_stake :: "(env \<times> callees \<times> gv_event) list" where
  "gv_late_stake = [(plain_env 4, gv_demo_callees\<lparr>cl_bond := (\<lambda>_ _. Some 100)\<rparr>, GvSyncPower 2)]"

theorem later_stake_has_no_power_witness:
  "\<exists>txs txs'. in_order (txs @ txs') \<and> txs' \<noteq> [] \<and> voting_power (gv_run txs) 20 2 3 = Inr 50 \<and>
     (voting_power (gv_run (txs @ txs')) 20 2 3 = Inr 50 \<or> voting_power (gv_run (txs @ txs')) 20 2 3 = Inr 0)"
proof -
  have "in_order (take 3 gv_demo @ gv_late_stake)" "\<forall>tx \<in> set gv_late_stake. 3 < sequence (fst tx)"
    by (simp_all add: gv_eval gv_late_stake_def)
  from later_stake_has_no_power [OF this, of 20 2] have
    "voting_power (gv_run (take 3 gv_demo @ gv_late_stake)) 20 2 3 = voting_power (gv_run (take 3 gv_demo)) 20 2 3 \<or>
     voting_power (gv_run (take 3 gv_demo @ gv_late_stake)) 20 2 3 = Inr 0" .
  moreover have "voting_power (gv_run (take 3 gv_demo)) 20 2 3 = Inr 50"
    by (simp add: gv_eval)
  ultimately show ?thesis
    using \<open>in_order (take 3 gv_demo @ gv_late_stake)\<close>
    by (intro exI [of _ "take 3 gv_demo"] exI [of _ gv_late_stake]) (simp add: gv_late_stake_def)
qed

theorem power_lookup_exact_witness:
  "in_order gv_demo \<and>
   Inr (power_at (past_power (gv_run gv_demo) 20 2) 3) = (Inr 50 :: (GovernorError, int) res)"
proof -
  have ord: "in_order gv_demo" by (simp add: gv_eval)
  have "voting_power (gv_run gv_demo) 20 2 3 = Inr 50" by (simp add: gv_eval)
  with power_lookup_exact [OF ord, of 20 2 3] ord show ?thesis by simp
qed

theorem cancel_does_not_stop_execution_witness:
  "\<exists>s'. gv_cancel (plain_env 115) 21 0 (gv_run (take 5 gv_demo)) = Inr s' \<and>
     is_ok (gv_execute gv_demo_callees (plain_env 124) 0 s')"
proof -
  obtain s' where s': "gv_cancel (plain_env 115) 21 0 (gv_run (take 5 gv_demo)) = Inr s'"
    by (simp add: gv_eval)
  have "is_ok (gv_execute gv_demo_callees (plain_env 124) 0 (gv_run (take 5 gv_demo)))"
    by (simp add: gv_eval)
  with cancel_does_not_stop_execution [OF s', of gv_demo_callees "plain_env 124"] s' show ?thesis by simp
qed

end
