(* ===== verification/Backstop_Vault.thy ===== *)
theory Backstop_Vault
  imports Vortex_Common Token_Runs
begin

text \<open>
  The backstop vault of \<open>backstop_vault/src/lib.rs\<close>: liquidity providers deposit the bond token
  for shares, the settlement contract draws cover and reports income, and an emergency mode
  queues withdrawals.
\<close>

section \<open>Constants and data\<close>

definition VIRTUAL_SHARES :: int where "VIRTUAL_SHARES = 1000000000"
definition VIRTUAL_ASSETS :: int where "VIRTUAL_ASSETS = 1000000000"
definition MIN_DEPOSIT :: int where "MIN_DEPOSIT = 10000000"
definition WITHDRAWAL_COOLDOWN_SECS :: nat where "WITHDRAWAL_COOLDOWN_SECS = 172800"
definition MIN_DEPOSIT_FLOOR :: int where "MIN_DEPOSIT_FLOOR = 10000000"
definition MIN_DEPOSIT_CEILING :: int where "MIN_DEPOSIT_CEILING = 10000000000000"
definition WITHDRAWAL_COOLDOWN_SECS_MIN :: nat where "WITHDRAWAL_COOLDOWN_SECS_MIN = 3600"
definition WITHDRAWAL_COOLDOWN_SECS_MAX :: nat where "WITHDRAWAL_COOLDOWN_SECS_MAX = 2592000"
definition COOLDOWN_RESET_FRACTION_BPS :: int where "COOLDOWN_RESET_FRACTION_BPS = 1000"

record BackstopConfig =
  bc_min_deposit :: int
  bc_cooldown :: nat

datatype BvError =
    AlreadyInitialized | NotInitialized | Unauthorized | ZeroAmount | BelowMinDeposit
  | CooldownNotExpired | InsufficientShares | VaultInsolvent | EmergencyModeActive
  | EmergencyModeNotActive | NothingQueued | InvalidConfig | ArithmeticOverflow | ProtectedToken

record vault =
  bv_admin :: "address option"
  bv_token :: "address option"
  bv_settlement :: "address option"
  bv_total_shares :: "int option"
  bv_total_assets :: "int option"
  bv_shares :: "address \<Rightarrow> int option"
  bv_cooldown :: "address \<Rightarrow> nat option"
  bv_emergency :: "bool option"
  bv_queue :: "address \<Rightarrow> int option"
  bv_total_queued :: "int option"
  bv_cover_paid :: "int option"
  bv_income :: "int option"
  bv_config :: "BackstopConfig option"

section \<open>Helpers\<close>

definition load_total_assets :: "vault \<Rightarrow> int" where
  "load_total_assets s = (case bv_total_assets s of None \<Rightarrow> VIRTUAL_ASSETS | Some x \<Rightarrow> x)"

definition load_total_shares :: "vault \<Rightarrow> int" where
  "load_total_shares s = (case bv_total_shares s of None \<Rightarrow> VIRTUAL_SHARES | Some x \<Rightarrow> x)"

definition bv_load_config :: "vault \<Rightarrow> BackstopConfig" where
  "bv_load_config s = (case bv_config s of
     None \<Rightarrow> \<lparr>bc_min_deposit = MIN_DEPOSIT, bc_cooldown = WITHDRAWAL_COOLDOWN_SECS\<rparr> | Some c \<Rightarrow> c)"

text \<open>\<open>checked_mul\<close> followed by \<open>checked_div\<close>, each failing with \<open>ArithmeticOverflow\<close>.\<close>

definition mul_div :: "int \<Rightarrow> int \<Rightarrow> int \<Rightarrow> (BvError, int) res" where
  "mul_div a b c =
     rbind (need ArithmeticOverflow (checked_i128 (a * b))) (\<lambda>p.
       if c = 0 then Inl (Error ArithmeticOverflow)
       else need ArithmeticOverflow (checked_i128 (p sdiv c)))"

definition mul_checked :: "int \<Rightarrow> int \<Rightarrow> (BvError, int) res" where
  "mul_checked a b = need ArithmeticOverflow (checked_i128 (a * b))"

section \<open>Entry points\<close>

definition bv_initialize :: "env \<Rightarrow> address \<Rightarrow> address \<Rightarrow> address \<Rightarrow> vault \<Rightarrow> (BvError, vault) res" where
  "bv_initialize e admin bond_token settlement s =
     (if bv_admin s \<noteq> None then Inl (Error AlreadyInitialized)
      else
        rbind (require_auth e admin) (\<lambda>_.
          Inr (s\<lparr>bv_admin := Some admin, bv_token := Some bond_token, bv_settlement := Some settlement,
                 bv_total_shares := Some VIRTUAL_SHARES, bv_total_assets := Some VIRTUAL_ASSETS,
                 bv_cover_paid := Some 0, bv_income := Some 0, bv_total_queued := Some 0,
                 bv_emergency := Some False,
                 bv_config := Some \<lparr>bc_min_deposit = MIN_DEPOSIT, bc_cooldown = WITHDRAWAL_COOLDOWN_SECS\<rparr>\<rparr>)))"

text \<open>Whether a deposit restarts the cooldown: it is at least a tenth of the position's value.\<close>

definition significant_deposit :: "int \<Rightarrow> int \<Rightarrow> (BvError, bool) res" where
  "significant_deposit amount existing =
     (if existing \<le> 0 then Inr True
      else
        rbind (mul_checked amount 10000) (\<lambda>l.
        rbind (mul_checked existing COOLDOWN_RESET_FRACTION_BPS) (\<lambda>r. Inr (l \<ge> r))))"

definition deposit :: "env \<Rightarrow> address \<Rightarrow> int \<Rightarrow> vault \<Rightarrow> (BvError, vault \<times> int \<times> xfer list) res" where
  "deposit e lp amount s =
     rbind (require_auth e lp) (\<lambda>_.
       let config = bv_load_config s
       in if amount < bc_min_deposit config then Inl (Error BelowMinDeposit)
          else
            let total_assets = load_total_assets s; total_shares = load_total_shares s
            in rbind (mul_div amount total_shares total_assets) (\<lambda>q.
               let shares_minted = max q 1
               in rbind (unwrap (bv_token s)) (\<lambda>bond_token.
                  rbind (transfer e bond_token lp (self e) amount []) (\<lambda>tr.
                    let lp_shares = or0 (bv_shares s lp)
                    in rbind (i128 (lp_shares + shares_minted)) (\<lambda>lp_new.
                       rbind (i128 (total_shares + shares_minted)) (\<lambda>shares_new.
                       rbind (i128 (total_assets + amount)) (\<lambda>assets_new.
                       let s1 = s\<lparr>bv_shares := (bv_shares s)(lp \<mapsto> lp_new),
                                  bv_total_shares := Some shares_new, bv_total_assets := Some assets_new\<rparr>
                       in rbind (if total_shares > 0 then mul_div lp_shares total_assets total_shares else Inr 0)
                            (\<lambda>existing.
                          rbind (significant_deposit amount existing) (\<lambda>significant.
                            if significant then
                              rbind (u64 (now e + bc_cooldown config)) (\<lambda>until.
                                Inr (s1\<lparr>bv_cooldown := (bv_cooldown s1)(lp \<mapsto> until)\<rparr>, shares_minted, tr))
                            else Inr (s1, shares_minted, tr))))))))))"

definition bv_withdraw :: "env \<Rightarrow> address \<Rightarrow> int \<Rightarrow> vault \<Rightarrow> (BvError, vault \<times> int \<times> xfer list) res" where
  "bv_withdraw e lp shares s =
     rbind (require_auth e lp) (\<lambda>_.
       if shares \<le> 0 then Inl (Error ZeroAmount)
       else
         let lp_shares = or0 (bv_shares s lp)
         in if lp_shares < shares then Inl (Error InsufficientShares)
            else if now e < nat0 (bv_cooldown s lp) then Inl (Error CooldownNotExpired)
            else
              let total_assets = load_total_assets s; total_shares = load_total_shares s
              in rbind (mul_div shares total_assets total_shares) (\<lambda>q.
                 let assets_out = max q 0
                 in if bv_emergency s = Some True then
                      let queued = or0 (bv_queue s lp); total_queued = or0 (bv_total_queued s)
                      in rbind (i128 (queued + assets_out)) (\<lambda>queued_new.
                         rbind (i128 (total_queued + assets_out)) (\<lambda>total_queued_new.
                         rbind (i128 (lp_shares - shares)) (\<lambda>lp_new.
                         rbind (i128 (total_shares - shares)) (\<lambda>shares_new.
                           Inr (s\<lparr>bv_queue := (bv_queue s)(lp \<mapsto> queued_new),
                                  bv_total_queued := Some total_queued_new,
                                  bv_shares := (bv_shares s)(lp \<mapsto> lp_new),
                                  bv_total_shares := Some shares_new\<rparr>, assets_out, [])))))
                    else if assets_out > total_assets then Inl (Error VaultInsolvent)
                    else
                      rbind (i128 (lp_shares - shares)) (\<lambda>lp_new.
                      rbind (i128 (total_shares - shares)) (\<lambda>shares_new.
                      rbind (i128 (total_assets - assets_out)) (\<lambda>assets_new.
                      rbind (unwrap (bv_token s)) (\<lambda>bond_token.
                      rbind (transfer e bond_token (self e) lp assets_out []) (\<lambda>tr.
                        Inr (s\<lparr>bv_shares := (bv_shares s)(lp \<mapsto> lp_new), bv_total_shares := Some shares_new,
                               bv_total_assets := Some assets_new\<rparr>, assets_out, tr))))))))"

definition process_queued_withdrawal :: "env \<Rightarrow> address \<Rightarrow> vault \<Rightarrow> (BvError, vault \<times> xfer list) res" where
  "process_queued_withdrawal e lp s =
     (if bv_emergency s \<noteq> Some True then Inl (Error EmergencyModeNotActive)
      else
        let queued = or0 (bv_queue s lp)
        in if queued \<le> 0 then Inl (Error NothingQueued)
           else
             let total_assets = load_total_assets s; payout = min queued total_assets;
                 total_queued = or0 (bv_total_queued s)
             in rbind (i128 (total_assets - payout)) (\<lambda>assets_new.
                rbind (unwrap (bv_token s)) (\<lambda>bond_token.
                rbind (transfer e bond_token (self e) lp payout []) (\<lambda>tr.
                  Inr (s\<lparr>bv_queue := (bv_queue s)(lp \<mapsto> 0),
                         bv_total_queued := Some (sat_i128 (total_queued - queued)),
                         bv_total_assets := Some assets_new\<rparr>, tr)))))"

definition cover :: "env \<Rightarrow> bytes32 \<Rightarrow> int \<Rightarrow> address \<Rightarrow> vault \<Rightarrow> (BvError, vault \<times> xfer list) res" where
  "cover e intent_id amount recipient s =
     rbind (need NotInitialized (bv_settlement s)) (\<lambda>settlement.
     rbind (require_auth e settlement) (\<lambda>_.
       if amount \<le> 0 then Inl (Error ZeroAmount)
       else
         let total_assets = load_total_assets s; payout = min amount total_assets
         in rbind (i128 (total_assets - payout)) (\<lambda>assets_new.
            rbind (i128 (or0 (bv_cover_paid s) + payout)) (\<lambda>cover_new.
            rbind (unwrap (bv_token s)) (\<lambda>bond_token.
            rbind (transfer e bond_token (self e) recipient payout []) (\<lambda>tr.
              Inr (s\<lparr>bv_total_assets := Some assets_new, bv_cover_paid := Some cover_new\<rparr>, tr)))))))"

definition receive_income :: "env \<Rightarrow> int \<Rightarrow> vault \<Rightarrow> (BvError, vault) res" where
  "receive_income e amount s =
     rbind (need NotInitialized (bv_settlement s)) (\<lambda>settlement.
     rbind (require_auth e settlement) (\<lambda>_.
       if amount \<le> 0 then Inl (Error ZeroAmount)
       else
         rbind (i128 (load_total_assets s + amount)) (\<lambda>assets_new.
         rbind (i128 (or0 (bv_income s) + amount)) (\<lambda>income_new.
           Inr (s\<lparr>bv_total_assets := Some assets_new, bv_income := Some income_new\<rparr>)))))"

definition bv_rescue_tokens :: "env \<Rightarrow> address \<Rightarrow> int \<Rightarrow> address \<Rightarrow> vault \<Rightarrow> (BvError, vault \<times> xfer list) res" where
  "bv_rescue_tokens e token amount recipient s =
     rbind (need NotInitialized (bv_admin s)) (\<lambda>admin.
     rbind (require_auth e admin) (\<lambda>_.
     rbind (need NotInitialized (bv_token s)) (\<lambda>bond_token.
       if token = bond_token then Inl (Error ProtectedToken)
       else if amount \<le> 0 then Inl (Error ZeroAmount)
       else rbind (transfer e token (self e) recipient amount []) (\<lambda>tr. Inr (s, tr)))))"

text \<open>
  The check compares the stored admin with itself, and \<open>vortex_common::require_admin\<close> asks for no
  signature.
\<close>

definition set_emergency_mode :: "env \<Rightarrow> bool \<Rightarrow> vault \<Rightarrow> (BvError, vault) res" where
  "set_emergency_mode e enabled s =
     rbind (need NotInitialized (bv_admin s)) (\<lambda>admin.
       if common_require_admin (bv_admin s) admin = Inl (Error CommonError.Unauthorized)
       then Inl (Error Unauthorized)
       else Inr (s\<lparr>bv_emergency := Some enabled\<rparr>))"

definition bv_set_config :: "env \<Rightarrow> int \<Rightarrow> nat \<Rightarrow> vault \<Rightarrow> (BvError, vault) res" where
  "bv_set_config e min_deposit cooldown s =
     rbind (need NotInitialized (bv_admin s)) (\<lambda>admin.
     rbind (require_auth e admin) (\<lambda>_.
       if min_deposit < MIN_DEPOSIT_FLOOR \<or> min_deposit > MIN_DEPOSIT_CEILING
       then Inl (Error InvalidConfig)
       else if cooldown < WITHDRAWAL_COOLDOWN_SECS_MIN \<or> cooldown > WITHDRAWAL_COOLDOWN_SECS_MAX
       then Inl (Error InvalidConfig)
       else Inr (s\<lparr>bv_config := Some \<lparr>bc_min_deposit = min_deposit, bc_cooldown = cooldown\<rparr>\<rparr>)))"

text \<open>\<open>checked_mul(10_000).unwrap_or(total_assets).checked_div(total_shares).unwrap_or(10_000)\<close>\<close>

definition get_vault_state :: "vault \<Rightarrow> int \<times> int \<times> int" where
  "get_vault_state s =
     (let total_assets = load_total_assets s; total_shares = load_total_shares s;
          p = (case checked_i128 (total_assets * 10000) of None \<Rightarrow> total_assets | Some p \<Rightarrow> p);
          rate = (if total_shares = 0 then 10000
                  else case checked_i128 (p sdiv total_shares) of None \<Rightarrow> 10000 | Some r \<Rightarrow> r)
      in (total_assets, total_shares, rate))"

definition get_lp_position :: "vault \<Rightarrow> address \<Rightarrow> int \<times> int \<times> nat" where
  "get_lp_position s lp = (or0 (bv_shares s lp), or0 (bv_queue s lp), nat0 (bv_cooldown s lp))"

definition get_withdrawal_cooldown :: "vault \<Rightarrow> address \<Rightarrow> nat" where
  "get_withdrawal_cooldown s lp = nat0 (bv_cooldown s lp)"

section \<open>Transactions\<close>

datatype bv_event =
    BvInitialize address address address
  | BvDeposit address int
  | BvWithdraw address int
  | BvProcess address
  | BvCover bytes32 int address
  | BvIncome int
  | BvRescue address int address
  | BvEmergency bool
  | BvSetConfig int nat

fun bv_handle :: "env \<Rightarrow> bv_event \<Rightarrow> vault \<Rightarrow> (BvError, vault \<times> xfer list) res" where
  "bv_handle e (BvInitialize admin tok settlement) s =
     rbind (bv_initialize e admin tok settlement s) (\<lambda>s'. Inr (s', []))"
| "bv_handle e (BvDeposit lp amount) s = rbind (deposit e lp amount s) (\<lambda>(s', _, tr). Inr (s', tr))"
| "bv_handle e (BvWithdraw lp shares) s = rbind (bv_withdraw e lp shares s) (\<lambda>(s', _, tr). Inr (s', tr))"
| "bv_handle e (BvProcess lp) s = process_queued_withdrawal e lp s"
| "bv_handle e (BvCover i amount recipient) s = cover e i amount recipient s"
| "bv_handle e (BvIncome amount) s = rbind (receive_income e amount s) (\<lambda>s'. Inr (s', []))"
| "bv_handle e (BvRescue tok amount recipient) s = bv_rescue_tokens e tok amount recipient s"
| "bv_handle e (BvEmergency enabled) s = rbind (set_emergency_mode e enabled s) (\<lambda>s'. Inr (s', []))"
| "bv_handle e (BvSetConfig m c) s = rbind (bv_set_config e m c s) (\<lambda>s'. Inr (s', []))"

definition bv_empty :: vault where
  "bv_empty = \<lparr>bv_admin = None, bv_token = None, bv_settlement = None, bv_total_shares = None,
     bv_total_assets = None, bv_shares = (\<lambda>_. None), bv_cooldown = (\<lambda>_. None), bv_emergency = None,
     bv_queue = (\<lambda>_. None), bv_total_queued = None, bv_cover_paid = None, bv_income = None, bv_config = None\<rparr>"

section \<open>What each entry point does\<close>

lemma mul_div_result:
  "mul_div a b c = Inr q \<Longrightarrow> c \<noteq> 0 \<and> q = a * b sdiv c \<and> in_i128 (a * b)"
  by (auto simp: mul_div_def split: if_splits)

lemma deposit_result:
  assumes "deposit e lp amount s = Inr (s', m, tr)"
  shows "\<exists>tok q. authed e lp \<and> bv_token s = Some tok \<and> bc_min_deposit (bv_load_config s) \<le> amount \<and>
    mul_div amount (load_total_shares s) (load_total_assets s) = Inr q \<and> m = max q 1 \<and>
    tr = [\<lparr>x_token = tok, x_from = lp, x_to = self e, x_amount = amount\<rparr>] \<and>
    s' = s\<lparr>bv_shares := (bv_shares s)(lp \<mapsto> or0 (bv_shares s lp) + m),
           bv_total_shares := Some (load_total_shares s + m),
           bv_total_assets := Some (load_total_assets s + amount), bv_cooldown := bv_cooldown s'\<rparr>"
  using assms unfolding deposit_def Let_def
  by (elim rbindE guardE condE) (auto simp: transfer_eq_Inr)

lemma withdraw_result:
  assumes "bv_withdraw e lp shares s = Inr (s', out, tr)"
  shows "\<exists>q. authed e lp \<and> 0 < shares \<and> shares \<le> or0 (bv_shares s lp) \<and> nat0 (bv_cooldown s lp) \<le> now e \<and>
    mul_div shares (load_total_assets s) (load_total_shares s) = Inr q \<and> out = max q 0 \<and>
    (if bv_emergency s = Some True
     then tr = [] \<and> s' = s\<lparr>bv_queue := (bv_queue s)(lp \<mapsto> or0 (bv_queue s lp) + out),
            bv_total_queued := Some (or0 (bv_total_queued s) + out),
            bv_shares := (bv_shares s)(lp \<mapsto> or0 (bv_shares s lp) - shares),
            bv_total_shares := Some (load_total_shares s - shares)\<rparr>
     else out \<le> load_total_assets s \<and> (\<exists>tok. bv_token s = Some tok \<and>
       tr = [\<lparr>x_token = tok, x_from = self e, x_to = lp, x_amount = out\<rparr>]) \<and>
       s' = s\<lparr>bv_shares := (bv_shares s)(lp \<mapsto> or0 (bv_shares s lp) - shares),
            bv_total_shares := Some (load_total_shares s - shares),
            bv_total_assets := Some (load_total_assets s - out)\<rparr>)"
  using assms unfolding bv_withdraw_def Let_def
  by (elim rbindE guardE condE) (auto simp: transfer_eq_Inr)

lemma process_result:
  assumes "process_queued_withdrawal e lp s = Inr (s', tr)"
  shows "\<exists>tok payout. bv_emergency s = Some True \<and> 0 < or0 (bv_queue s lp) \<and> bv_token s = Some tok \<and>
    payout = min (or0 (bv_queue s lp)) (load_total_assets s) \<and>
    tr = [\<lparr>x_token = tok, x_from = self e, x_to = lp, x_amount = payout\<rparr>] \<and>
    s' = s\<lparr>bv_queue := (bv_queue s)(lp \<mapsto> 0),
           bv_total_queued := Some (sat_i128 (or0 (bv_total_queued s) - or0 (bv_queue s lp))),
           bv_total_assets := Some (load_total_assets s - payout)\<rparr>"
  using assms unfolding process_queued_withdrawal_def Let_def
  by (elim rbindE guardE condE) (auto simp: transfer_eq_Inr)

lemma cover_result:
  assumes "cover e i amount recipient s = Inr (s', tr)"
  shows "\<exists>settlement tok payout. bv_settlement s = Some settlement \<and> authed e settlement \<and> 0 < amount \<and>
    bv_token s = Some tok \<and> payout = min amount (load_total_assets s) \<and>
    tr = [\<lparr>x_token = tok, x_from = self e, x_to = recipient, x_amount = payout\<rparr>] \<and>
    s' = s\<lparr>bv_total_assets := Some (load_total_assets s - payout),
           bv_cover_paid := Some (or0 (bv_cover_paid s) + payout)\<rparr>"
  using assms unfolding cover_def Let_def
  by (elim rbindE guardE condE) (auto simp: transfer_eq_Inr)

lemma income_result:
  assumes "receive_income e amount s = Inr s'"
  shows "\<exists>settlement. bv_settlement s = Some settlement \<and> authed e settlement \<and> 0 < amount \<and>
    s' = s\<lparr>bv_total_assets := Some (load_total_assets s + amount), bv_income := Some (or0 (bv_income s) + amount)\<rparr>"
  using assms unfolding receive_income_def by (elim rbindE guardE) auto

lemma rescue_result:
  assumes "bv_rescue_tokens e tok amount recipient s = Inr (s', tr)"
  shows "s' = s \<and> bv_token s \<noteq> Some tok \<and> bv_token s \<noteq> None \<and> 0 < amount \<and> (\<exists>admin. bv_admin s = Some admin \<and> authed e admin) \<and>
    tr = [\<lparr>x_token = tok, x_from = self e, x_to = recipient, x_amount = amount\<rparr>]"
  using assms unfolding bv_rescue_tokens_def by (elim rbindE guardE) (auto simp: transfer_eq_Inr)

lemma set_emergency_mode_result:
  "set_emergency_mode e enabled s = (if bv_admin s = None then Inl (Error NotInitialized)
     else Inr (s\<lparr>bv_emergency := Some enabled\<rparr>))"
  by (auto simp: set_emergency_mode_def need_def common_require_admin_def)

section \<open>The books\<close>

definition bv_good :: "vault \<Rightarrow> bool" where
  "bv_good s \<longleftrightarrow> (bv_admin s = None \<longrightarrow> s = bv_empty) \<and> finite (dom (bv_shares s)) \<and> finite (dom (bv_queue s)) \<and>
     (\<forall>lp. 0 \<le> or0 (bv_shares s lp)) \<and> (\<forall>lp. 0 \<le> or0 (bv_queue s lp)) \<and>
     load_total_shares s = VIRTUAL_SHARES + amounts (bv_shares s) \<and>
     or0 (bv_total_queued s) = amounts (bv_queue s) \<and> in_i128 (or0 (bv_total_queued s)) \<and>
     0 \<le> load_total_assets s \<and> MIN_DEPOSIT_FLOOR \<le> bc_min_deposit (bv_load_config s)"

text \<open>What the books claim of the bond token, beyond the virtual assets and the income reported.\<close>

definition bv_owed :: "address \<Rightarrow> vault \<Rightarrow> int" where
  "bv_owed tok s = (if bv_token s = Some tok
     then load_total_assets s - VIRTUAL_ASSETS - or0 (bv_income s) else 0)"

lemmas bv_loads = load_total_shares_def load_total_assets_def

lemma bv_good_shares_pos: "bv_good s \<Longrightarrow> 0 < load_total_shares s"
  using amounts_nonneg [of "bv_shares s"] by (auto simp: bv_good_def VIRTUAL_SHARES_def)

lemma bv_good_empty: "bv_good bv_empty"
  by (simp add: bv_good_def bv_empty_def bv_loads VIRTUAL_ASSETS_def bv_load_config_def
      MIN_DEPOSIT_def MIN_DEPOSIT_FLOOR_def)

lemma bv_good_admin: "bv_good s \<Longrightarrow> bv_token s \<noteq> None \<or> bv_settlement s \<noteq> None \<or> bv_emergency s \<noteq> None \<or>
   0 < or0 (bv_shares s lp) \<Longrightarrow> bv_admin s \<noteq> None"
  by (auto simp: bv_good_def bv_empty_def)

lemma bv_good_initialize:
  assumes "bv_good s" "bv_initialize e admin tok settlement s = Inr s'"
  shows "bv_good s' \<and> bv_owed t s' = 0 \<and> bv_owed t s = 0"
proof -
  from assms have "s = bv_empty" "bv_admin s = None"
    by (auto simp: bv_initialize_def bv_good_def elim!: guardE)
  with assms(2) show ?thesis
    by (auto simp: bv_initialize_def bv_good_def bv_empty_def bv_loads VIRTUAL_SHARES_def VIRTUAL_ASSETS_def bv_owed_def
        bv_load_config_def MIN_DEPOSIT_def MIN_DEPOSIT_FLOOR_def)
qed

lemma bv_good_deposit:
  assumes "bv_good s" "deposit e lp amount s = Inr (s', m, tr)"
  shows "bv_good s' \<and> (\<not> authed e (self e) \<longrightarrow> bv_owed t s' - bv_owed t s \<le> net_in t (self e) tr)"
proof -
  from deposit_result [OF assms(2)] obtain tok q where
    d: "authed e lp" "bv_token s = Some tok" "bc_min_deposit (bv_load_config s) \<le> amount" "m = max q 1"
      "tr = [\<lparr>x_token = tok, x_from = lp, x_to = self e, x_amount = amount\<rparr>]"
    and s': "s' = s\<lparr>bv_shares := (bv_shares s)(lp \<mapsto> or0 (bv_shares s lp) + m),
           bv_total_shares := Some (load_total_shares s + m),
           bv_total_assets := Some (load_total_assets s + amount), bv_cooldown := bv_cooldown s'\<rparr>" by blast
  have pos: "0 \<le> amount" using assms(1) d(3) by (simp add: bv_good_def MIN_DEPOSIT_FLOOR_def)
  have fields: "bv_shares s' = (bv_shares s)(lp \<mapsto> or0 (bv_shares s lp) + m)"
    "bv_total_shares s' = Some (load_total_shares s + m)" "bv_total_assets s' = Some (load_total_assets s + amount)"
    "bv_queue s' = bv_queue s" "bv_total_queued s' = bv_total_queued s" "bv_admin s' = bv_admin s"
    "bv_token s' = bv_token s" "bv_income s' = bv_income s" "bv_config s' = bv_config s"
    by (subst s', simp)+
  show ?thesis
    using assms(1) d(1,2,4,5) pos bv_good_admin [OF assms(1), of lp] fields
    by (auto simp: bv_good_def bv_loads bv_load_config_def amounts_upd bv_owed_def x_net_def)
qed

lemma bv_good_withdraw:
  assumes "bv_good s" "bv_withdraw e lp shares s = Inr (s', out, tr)"
  shows "bv_good s' \<and> (\<not> authed e (self e) \<longrightarrow> bv_owed t s' - bv_owed t s \<le> net_in t (self e) tr)"
proof -
  from withdraw_result [OF assms(2)] have w: "authed e lp" "0 < shares" "shares \<le> or0 (bv_shares s lp)"
    "0 \<le> out" by auto
  have admin: "bv_admin s \<noteq> None" using bv_good_admin [OF assms(1), of lp] w by auto
  show ?thesis
  proof (cases "bv_emergency s = Some True")
    case True
    with withdraw_result [OF assms(2)] have tr: "tr = []"
      and s': "s' = s\<lparr>bv_queue := (bv_queue s)(lp \<mapsto> or0 (bv_queue s lp) + out),
            bv_total_queued := Some (or0 (bv_total_queued s) + out),
            bv_shares := (bv_shares s)(lp \<mapsto> or0 (bv_shares s lp) - shares),
            bv_total_shares := Some (load_total_shares s - shares)\<rparr>" by auto
    have "in_i128 (or0 (bv_total_queued s) + out)"
      using assms(2) True unfolding bv_withdraw_def Let_def by (elim rbindE guardE condE) auto
    with assms(1) w admin show ?thesis
      unfolding s' tr by (auto simp: bv_good_def bv_loads bv_load_config_def amounts_upd bv_owed_def)
  next
    case False
    with withdraw_result [OF assms(2)] obtain tok where tok: "bv_token s = Some tok" "out \<le> load_total_assets s"
      "tr = [\<lparr>x_token = tok, x_from = self e, x_to = lp, x_amount = out\<rparr>]"
      and s': "s' = s\<lparr>bv_shares := (bv_shares s)(lp \<mapsto> or0 (bv_shares s lp) - shares),
            bv_total_shares := Some (load_total_shares s - shares),
            bv_total_assets := Some (load_total_assets s - out)\<rparr>" by auto
    from assms(1) w admin tok show ?thesis
      unfolding s' by (auto simp: bv_good_def bv_loads bv_load_config_def amounts_upd bv_owed_def x_net_def)
  qed
qed

lemma bv_good_process:
  assumes "bv_good s" "process_queued_withdrawal e lp s = Inr (s', tr)"
  shows "bv_good s' \<and> bv_owed t s' - bv_owed t s \<le> net_in t (self e) tr"
proof -
  from process_result [OF assms(2)] obtain tok payout where
    p: "bv_emergency s = Some True" "0 < or0 (bv_queue s lp)" "bv_token s = Some tok"
      "payout = min (or0 (bv_queue s lp)) (load_total_assets s)"
      "tr = [\<lparr>x_token = tok, x_from = self e, x_to = lp, x_amount = payout\<rparr>]"
    and s': "s' = s\<lparr>bv_queue := (bv_queue s)(lp \<mapsto> 0),
           bv_total_queued := Some (sat_i128 (or0 (bv_total_queued s) - or0 (bv_queue s lp))),
           bv_total_assets := Some (load_total_assets s - payout)\<rparr>" by blast
  have admin: "bv_admin s \<noteq> None" using bv_good_admin [OF assms(1), of lp] p(3) by auto
  have q: "or0 (bv_queue s lp) \<le> or0 (bv_total_queued s)" "in_i128 (or0 (bv_total_queued s))"
    using assms(1) amounts_member [of "bv_queue s" lp] by (auto simp: bv_good_def)
  then have diff: "in_i128 (or0 (bv_total_queued s) - or0 (bv_queue s lp))"
    using p(2) by (auto simp: in_i128_def i128_min_def)
  have pay: "0 \<le> payout" "payout \<le> load_total_assets s"
    using p(2,4) assms(1) by (auto simp: bv_good_def)
  from assms(1) p(3,5) admin diff pay show ?thesis
    unfolding s' by (auto simp: bv_good_def bv_loads bv_load_config_def amounts_upd bv_owed_def x_net_def)
qed

lemma bv_good_cover:
  assumes "bv_good s" "cover e i amount recipient s = Inr (s', tr)"
  shows "bv_good s' \<and> bv_owed t s' - bv_owed t s \<le> net_in t (self e) tr"
proof -
  from cover_result [OF assms(2)] obtain tok payout where
    p: "0 < amount" "bv_token s = Some tok" "payout = min amount (load_total_assets s)"
      "tr = [\<lparr>x_token = tok, x_from = self e, x_to = recipient, x_amount = payout\<rparr>]"
    and s': "s' = s\<lparr>bv_total_assets := Some (load_total_assets s - payout),
           bv_cover_paid := Some (or0 (bv_cover_paid s) + payout)\<rparr>" by blast
  have admin: "bv_admin s \<noteq> None" using bv_good_admin [OF assms(1)] p(2) by auto
  have pay: "0 \<le> payout" "payout \<le> load_total_assets s" using p(1,3) assms(1) by (auto simp: bv_good_def)
  from assms(1) p(2,4) admin pay show ?thesis
    unfolding s' by (auto simp: bv_good_def bv_loads bv_load_config_def bv_owed_def x_net_def)
qed

lemma bv_good_income:
  assumes "bv_good s" "receive_income e amount s = Inr s'"
  shows "bv_good s' \<and> bv_owed t s' = bv_owed t s"
proof -
  from income_result [OF assms(2)] obtain settlement where
    p: "0 < amount" "bv_settlement s = Some settlement"
    and s': "s' = s\<lparr>bv_total_assets := Some (load_total_assets s + amount), bv_income := Some (or0 (bv_income s) + amount)\<rparr>"
    by blast
  have "bv_admin s \<noteq> None" using bv_good_admin [OF assms(1)] p(2) by auto
  with assms(1) p show ?thesis
    unfolding s' by (auto simp: bv_good_def bv_loads bv_load_config_def bv_owed_def)
qed

lemma bv_good_same_books:
  assumes "bv_good s" "bv_admin s' \<noteq> None" "bv_shares s' = bv_shares s" "bv_queue s' = bv_queue s"
    "bv_total_shares s' = bv_total_shares s" "bv_total_queued s' = bv_total_queued s"
    "bv_total_assets s' = bv_total_assets s" "MIN_DEPOSIT_FLOOR \<le> bc_min_deposit (bv_load_config s')"
  shows "bv_good s'"
  using assms(1,2,8) unfolding bv_good_def bv_loads assms(3-7) by blast

lemma bv_good_admin_ops:
  assumes "bv_good s"
  shows "set_emergency_mode e enabled s = Inr s' \<Longrightarrow> bv_good s' \<and> bv_owed t s' = bv_owed t s"
    "bv_set_config e m c s = Inr s' \<Longrightarrow> bv_good s' \<and> bv_owed t s' = bv_owed t s"
proof -
  assume "set_emergency_mode e enabled s = Inr s'"
  then have "bv_admin s \<noteq> None" "s' = s\<lparr>bv_emergency := Some enabled\<rparr>"
    by (simp_all add: set_emergency_mode_result split: if_splits)
  moreover have "MIN_DEPOSIT_FLOOR \<le> bc_min_deposit (bv_load_config s)" using assms by (simp add: bv_good_def)
  ultimately show "bv_good s' \<and> bv_owed t s' = bv_owed t s"
    by (simp add: bv_good_same_books [OF assms] bv_loads bv_load_config_def bv_owed_def)
next
  assume "bv_set_config e m c s = Inr s'"
  then have "bv_admin s \<noteq> None" "MIN_DEPOSIT_FLOOR \<le> m"
    "s' = s\<lparr>bv_config := Some \<lparr>bc_min_deposit = m, bc_cooldown = c\<rparr>\<rparr>"
    by (auto simp: bv_set_config_def elim!: guardE)
  then show "bv_good s' \<and> bv_owed t s' = bv_owed t s"
    by (simp add: bv_good_same_books [OF assms] bv_loads bv_load_config_def bv_owed_def)
qed

lemma bv_handle_ok:
  assumes "bv_good s" "bv_handle e ev s = Inr (s', tr)" "bv_token s = Some tok"
  shows "bv_good s' \<and> bv_token s' = Some tok \<and>
    (\<not> authed e (self e) \<longrightarrow> bv_owed tok s' - bv_owed tok s \<le> net_in tok (self e) tr)"
proof (cases ev)
  case (BvInitialize admin tok' settlement)
  with assms bv_good_admin [OF assms(1)] show ?thesis by (auto simp: bv_initialize_def)
next
  case (BvDeposit lp amount)
  with assms(2) obtain m where d: "deposit e lp amount s = Inr (s', m, tr)" by auto
  from deposit_result [OF d] obtain sh cd where "s' = s\<lparr>bv_shares := sh, bv_total_shares := Some (load_total_shares s + m),
           bv_total_assets := Some (load_total_assets s + amount), bv_cooldown := cd\<rparr>" by blast
  with assms(3) bv_good_deposit [OF assms(1) d, of tok] show ?thesis by simp
next
  case (BvWithdraw lp shares)
  with assms(2) obtain out where w: "bv_withdraw e lp shares s = Inr (s', out, tr)" by auto
  from withdraw_result [OF w] have "bv_token s' = bv_token s" by (auto split: if_splits)
  with assms(3) bv_good_withdraw [OF assms(1) w, of tok] show ?thesis by simp
next
  case (BvProcess lp)
  with assms bv_good_process [OF assms(1), of e lp s' tr tok] process_result [of e lp s s' tr] show ?thesis by auto
next
  case (BvCover i amount recipient)
  with assms bv_good_cover [OF assms(1), of e i amount recipient s' tr tok]
    cover_result [of e i amount recipient s s' tr] show ?thesis by auto
next
  case (BvIncome amount)
  with assms bv_good_income [OF assms(1), of e amount s' tok] income_result [of e amount s s'] show ?thesis by auto
next
  case (BvRescue tok' amount recipient)
  with assms rescue_result [of e tok' amount recipient s s' tr] show ?thesis by (auto simp: x_net_def)
next
  case (BvEmergency enabled)
  with assms bv_good_admin_ops(1) [OF assms(1), of e enabled s' tok] show ?thesis
    by (auto simp: set_emergency_mode_result split: if_splits)
next
  case (BvSetConfig m c)
  with assms bv_good_admin_ops(2) [OF assms(1), of e m c s' tok] show ?thesis
    by (auto simp: bv_set_config_def elim!: guardE)
qed

definition bv_start :: "address \<Rightarrow> address \<Rightarrow> address \<Rightarrow> vault" where
  "bv_start admin tok settlement = bv_empty\<lparr>bv_admin := Some admin, bv_token := Some tok,
     bv_settlement := Some settlement, bv_total_shares := Some VIRTUAL_SHARES,
     bv_total_assets := Some VIRTUAL_ASSETS, bv_cover_paid := Some 0, bv_income := Some 0,
     bv_total_queued := Some 0, bv_emergency := Some False,
     bv_config := Some \<lparr>bc_min_deposit = MIN_DEPOSIT, bc_cooldown = WITHDRAWAL_COOLDOWN_SECS\<rparr>\<rparr>"

lemma bv_initialize_start:
  "bv_initialize e admin tok settlement bv_empty = Inr s \<longleftrightarrow> authed e admin \<and> s = bv_start admin tok settlement"
  by (auto simp: bv_initialize_def bv_start_def bv_empty_def require_auth_def)

interpretation vault_books: token_contract bv_handle "bv_start admin tok settlement"
  "\<lambda>s. bv_good s \<and> bv_token s = Some tok" "\<lambda>_. True" me tok "bv_owed tok"
proof unfold_locales
  show "bv_good (bv_start admin tok settlement) \<and> bv_token (bv_start admin tok settlement) = Some tok"
    by (simp add: bv_good_def bv_start_def bv_empty_def bv_loads bv_load_config_def VIRTUAL_SHARES_def
        VIRTUAL_ASSETS_def MIN_DEPOSIT_def MIN_DEPOSIT_FLOOR_def)
  show "bv_owed tok (bv_start admin tok settlement) = 0"
    by (simp add: bv_owed_def bv_start_def bv_empty_def bv_loads)
qed (use bv_handle_ok in blast)+

section \<open>Properties\<close>

text \<open>
  C14: After any run of vault transactions the total of shares is the virtual shares plus the
  holders' shares, the total queued is the sum of the queue, nothing is negative, and the
  assets on the books are at most the virtual assets, the reported income and what the
  transfers brought in.
\<close>

theorem vault_books_balance:
  assumes "bv_initialize e admin tok settlement bv_empty = Inr s0" "outside me txs"
    "token_run bv_handle s0 txs = (s, tr)"
  shows "load_total_assets s \<le> VIRTUAL_ASSETS + or0 (bv_income s) + net_in tok me tr \<and>
    load_total_shares s = VIRTUAL_SHARES + amounts (bv_shares s) \<and>
    or0 (bv_total_queued s) = amounts (bv_queue s) \<and> 0 \<le> load_total_assets s \<and>
    (\<forall>lp. 0 \<le> or0 (bv_shares s lp) \<and> 0 \<le> or0 (bv_queue s lp))"
proof -
  have s0: "s0 = bv_start admin tok settlement" using assms(1) by (simp add: bv_initialize_start)
  have "bv_good s" "bv_token s = Some tok" "bv_owed tok s \<le> net_in tok me tr"
    using vault_books.run_sound [OF assms(2), of admin tok settlement] assms(3) by (simp_all add: s0)
  then show ?thesis by (simp add: bv_good_def bv_owed_def)
qed

lemma mul_div_floor:
  assumes "mul_div a b c = Inr q" "0 \<le> a" "0 \<le> b" "0 < c"
  shows "q * c \<le> a * b \<and> 0 \<le> q \<and> q = a * b div c"
proof -
  have "q = a * b div c" using mul_div_result [OF assms(1)] assms(2-) by (simp add: sdiv_nonneg)
  with assms(2-) div_mult_le_self [of c "a * b"] show ?thesis by (simp add: mult_div_nonneg)
qed

lemma deposit_minted:
  assumes "bv_good s" "deposit e lp amount s = Inr (s', m, tr)" "load_total_assets s \<le> amount * load_total_shares s"
  shows "0 < m \<and> m * load_total_assets s \<le> amount * load_total_shares s \<and> 0 \<le> amount \<and>
    load_total_shares s' = load_total_shares s + m \<and> load_total_assets s' = load_total_assets s + amount"
proof -
  from deposit_result [OF assms(2)] obtain q sh cd where
    d: "mul_div amount (load_total_shares s) (load_total_assets s) = Inr q" "m = max q 1"
      "bc_min_deposit (bv_load_config s) \<le> amount"
    and s': "s' = s\<lparr>bv_shares := sh, bv_total_shares := Some (load_total_shares s + m),
           bv_total_assets := Some (load_total_assets s + amount), bv_cooldown := cd\<rparr>" by blast
  have pos: "0 \<le> amount" "0 < load_total_shares s" "0 < load_total_assets s"
    using assms(1) d(3) bv_good_shares_pos [OF assms(1)] mul_div_result [OF d(1)]
    by (auto simp: bv_good_def MIN_DEPOSIT_FLOOR_def)
  from mul_div_floor [OF d(1)] pos have q: "q * load_total_assets s \<le> amount * load_total_shares s"
    "q = amount * load_total_shares s div load_total_assets s" by auto
  have "1 \<le> q" unfolding q(2)
    using zdiv_mono1 [OF assms(3) pos(3)] pos(3) by simp
  with q(1) d(2) pos(1) show ?thesis unfolding s' by (simp add: bv_loads)
qed

text \<open>
  C25: Neither a deposit nor a withdrawal lowers the vault's assets per share: rounding always
  favours those who stay, as long as the deposit is worth at least one share.
\<close>

theorem share_price_never_falls:
  assumes "bv_good s"
    "load_total_assets s \<le> amount * load_total_shares s \<and> deposit e lp amount s = Inr (s', n, tr) \<or>
     bv_withdraw e lp amount s = Inr (s', n, tr)"
  shows "load_total_assets s * load_total_shares s' \<le> load_total_assets s' * load_total_shares s"
  using assms(2)
proof
  assume "load_total_assets s \<le> amount * load_total_shares s \<and> deposit e lp amount s = Inr (s', n, tr)"
  with deposit_minted [OF assms(1)] have "n * load_total_assets s \<le> amount * load_total_shares s"
    "load_total_shares s' = load_total_shares s + n" "load_total_assets s' = load_total_assets s + amount" by auto
  then show ?thesis by (simp add: algebra_simps)
next
  assume w: "bv_withdraw e lp amount s = Inr (s', n, tr)"
  have A: "0 \<le> load_total_assets s" and S: "0 < load_total_shares s"
    using assms(1) bv_good_shares_pos by (auto simp: bv_good_def)
  from withdraw_result [OF w] obtain q where q: "0 < amount"
    "mul_div amount (load_total_assets s) (load_total_shares s) = Inr q" "n = max q 0" by auto
  from mul_div_floor [OF q(2)] q(1,3) A S have n: "n * load_total_shares s \<le> amount * load_total_assets s" by auto
  have "load_total_shares s' = load_total_shares s - amount"
    "load_total_assets s' = load_total_assets s \<or> load_total_assets s' = load_total_assets s - n"
    using withdraw_result [OF w] by (auto simp: bv_loads split: if_splits)
  then show ?thesis
  proof (elim disjE)
    assume "load_total_assets s' = load_total_assets s"
    with \<open>load_total_shares s' = load_total_shares s - amount\<close> A q(1) show ?thesis by (simp add: mult_left_mono)
  next
    assume "load_total_assets s' = load_total_assets s - n"
    moreover have "load_total_assets s * (load_total_shares s - amount) \<le> (load_total_assets s - n) * load_total_shares s"
      using n by (simp add: left_diff_distrib right_diff_distrib mult.commute)
    ultimately show ?thesis using \<open>load_total_shares s' = load_total_shares s - amount\<close> by metis
  qed
qed

text \<open>
  Depositing and withdrawing the minted shares at once returns at most the deposit.
\<close>

theorem deposit_then_withdraw_no_gain:
  assumes "bv_good s" "deposit e lp amount s = Inr (s1, m, tr)"
    "load_total_assets s \<le> amount * load_total_shares s" "bv_withdraw e' lp m s1 = Inr (s2, out, tr')"
  shows "out \<le> amount"
proof -
  note d = deposit_minted [OF assms(1-3)]
  have A: "0 \<le> load_total_assets s" and S: "0 < load_total_shares s"
    using assms(1) bv_good_shares_pos by (auto simp: bv_good_def)
  from withdraw_result [OF assms(4)] obtain q where
    q: "mul_div m (load_total_assets s1) (load_total_shares s1) = Inr q" "out = max q 0" by auto
  have "q * load_total_shares s1 \<le> m * load_total_assets s1"
    using mul_div_floor [OF q(1)] d A S by auto
  also have "\<dots> \<le> amount * load_total_shares s1" using d by (simp add: algebra_simps)
  finally show ?thesis using q(2) d S by (simp add: mult_le_cancel_right)
qed

text \<open>
  Anyone can switch the vault's emergency mode on and off: \<open>set_emergency_mode\<close>
  succeeds without any signature.
\<close>

theorem emergency_switch_unguarded:
  assumes "bv_admin s \<noteq> None"
  shows "\<exists>s'. set_emergency_mode (e\<lparr>authed := \<lambda>_. False\<rparr>) enabled s = Inr s' \<and>
    (\<forall>e' lp. is_ok (process_queued_withdrawal e' lp s') \<longrightarrow> enabled)"
  using assms by (auto simp: set_emergency_mode_result is_ok_iff dest!: process_result)

section \<open>Witnesses\<close>

text \<open>Two providers deposit the same, then both queue their shares in emergency mode.\<close>

definition bv_demo :: "(env \<times> bv_event) list" where
  "bv_demo = [(client_env 0, BvDeposit 3 1000000000), (client_env 0, BvDeposit 4 1000000000),
     (client_env 1, BvEmergency True), (client_env 200000, BvWithdraw 3 1000000000),
     (client_env 200000, BvWithdraw 4 1000000000)]"

lemmas bv_eval = bv_demo_def bv_start_def bv_empty_def token_run_def token_step_def deposit_def bv_withdraw_def
  set_emergency_mode_def common_require_admin_def bv_loads bv_load_config_def mul_div_def mul_checked_def
  significant_deposit_def need_def require_auth_def transfer_def i128_def in_i128_def i128_min_def
  i128_max_def u64_def u64_max_def checked_i128_def sdiv_nonneg VIRTUAL_SHARES_def VIRTUAL_ASSETS_def
  MIN_DEPOSIT_def WITHDRAWAL_COOLDOWN_SECS_def COOLDOWN_RESET_FRACTION_BPS_def

text \<open>
  Two equal depositors who leave in emergency mode, without any loss or income, are promised
  more together than the vault holds: a queued withdrawal burns its shares but leaves the
  assets on the books for the next one.
\<close>

theorem emergency_queue_over_promises:
  "\<exists>txs s tr. outside 5 txs \<and> token_run bv_handle (bv_start 1 9 2) txs = (s, tr) \<and>
     or0 (bv_cover_paid s) = 0 \<and> or0 (bv_income s) = 0 \<and> net_in 9 5 tr = 2000000000 \<and>
     or0 (bv_total_queued s) = 2500000000"
proof -
  have "outside 5 bv_demo" by (simp add: outside_def bv_demo_def)
  moreover obtain s tr where "token_run bv_handle (bv_start 1 9 2) bv_demo = (s, tr)"
    "or0 (bv_cover_paid s) = 0" "or0 (bv_income s) = 0" "net_in 9 5 tr = 2000000000"
    "or0 (bv_total_queued s) = 2500000000"
    by (simp add: bv_eval x_net_def)
  ultimately show ?thesis by blast
qed

theorem vault_books_balance_witness:
  "\<exists>s tr. token_run bv_handle (bv_start 1 9 2) bv_demo = (s, tr) \<and> bv_shares s 3 = Some 0 \<and>
     load_total_assets s \<le> VIRTUAL_ASSETS + or0 (bv_income s) + net_in 9 5 tr"
proof -
  have init: "bv_initialize (client_env 0) 1 9 2 bv_empty = Inr (bv_start 1 9 2)"
    by (simp add: bv_initialize_start)
  have out: "outside 5 bv_demo" by (simp add: outside_def bv_demo_def)
  obtain s tr where "token_run bv_handle (bv_start 1 9 2) bv_demo = (s, tr)" "bv_shares s 3 = Some 0"
    by (simp add: bv_eval)
  with vault_books_balance [OF init out this(1)] show ?thesis by blast
qed

lemma bv_start_good: "bv_good (bv_start admin tok settlement)"
  using vault_books.run_sound [of undefined "[]" admin tok settlement] by (simp add: outside_def)

lemma bv_demo_deposit:
  "\<exists>s. deposit (client_env 0) 3 1000000000 (bv_start 1 9 2) =
     Inr (s, 1000000000, [\<lparr>x_token = 9, x_from = 3, x_to = 5, x_amount = 1000000000\<rparr>]) \<and>
     load_total_shares s = 2000000000 \<and> (\<exists>s2 out tr. bv_withdraw (client_env 200000) 3 1000000000 s = Inr (s2, out, tr) \<and> 0 < out)"
  by (simp add: bv_eval)

theorem share_price_never_falls_witness:
  "\<exists>s. load_total_shares s = 2000000000 \<and>
     load_total_assets (bv_start 1 9 2) * 2000000000 \<le> load_total_assets s * load_total_shares (bv_start 1 9 2)"
proof -
  obtain s where s: "deposit (client_env 0) 3 1000000000 (bv_start 1 9 2) =
     Inr (s, 1000000000, [\<lparr>x_token = 9, x_from = 3, x_to = 5, x_amount = 1000000000\<rparr>])" "load_total_shares s = 2000000000"
    using bv_demo_deposit by blast
  have "load_total_assets (bv_start 1 9 2) \<le> 1000000000 * load_total_shares (bv_start 1 9 2)"
    by (simp add: bv_eval)
  with s(1) have "load_total_assets (bv_start 1 9 2) * load_total_shares s \<le> load_total_assets s * load_total_shares (bv_start 1 9 2)"
    by (intro share_price_never_falls [OF bv_start_good]) blast
  with s(2) show ?thesis by auto
qed

theorem deposit_then_withdraw_no_gain_witness:
  "\<exists>s1 s2 out tr. bv_withdraw (client_env 200000) 3 1000000000 s1 = Inr (s2, out, tr) \<and> 0 < out \<and> out \<le> 1000000000"
proof -
  obtain s s2 out tr where s: "deposit (client_env 0) 3 1000000000 (bv_start 1 9 2) =
     Inr (s, 1000000000, [\<lparr>x_token = 9, x_from = 3, x_to = 5, x_amount = 1000000000\<rparr>])"
    "bv_withdraw (client_env 200000) 3 1000000000 s = Inr (s2, out, tr)" "0 < out"
    using bv_demo_deposit by blast
  have "load_total_assets (bv_start 1 9 2) \<le> 1000000000 * load_total_shares (bv_start 1 9 2)"
    by (simp add: bv_eval)
  from deposit_then_withdraw_no_gain [OF bv_start_good s(1) this s(2)] s(2,3) show ?thesis by blast
qed

theorem emergency_switch_unguarded_witness:
  "\<exists>s'. set_emergency_mode ((client_env 0)\<lparr>authed := \<lambda>_. False\<rparr>) True (bv_start 1 9 2) = Inr s'"
  using emergency_switch_unguarded [of "bv_start 1 9 2" "client_env 0" True] by (auto simp: bv_start_def)

end
