(* ===== verification/Treasury_Streams.thy ===== *)
theory Treasury_Streams
  imports Token_Runs
begin

text \<open>
  The payment streams of \<open>treasury_streams/src/lib.rs\<close>: the governor escrows a total that vests
  linearly to a recipient, and may cancel, top up or extend a stream.
\<close>

section \<open>Data\<close>

record Stream =
  sm_sender :: address
  sm_recipient :: address
  sm_token :: address
  sm_total :: int
  sm_start :: nat
  sm_cliff :: nat
  sm_end :: nat
  sm_withdrawn :: int
  sm_cancelled :: bool

datatype TsError =
    NotInitialized | AlreadyInitialized | Unauthorized | StreamNotFound | InvalidSchedule
  | InvalidAmount | NothingToWithdraw | AlreadyCancelled | ArithmeticOverflow | NoPendingGovernor
  | Paused | NotPaused

record streams =
  ts_governor :: "address option"
  ts_pending :: "address option"
  ts_next :: "nat option"
  ts_stream :: "nat \<Rightarrow> Stream option"
  ts_count :: "nat option"
  ts_by_sender :: "address \<Rightarrow> nat list option"
  ts_by_recipient :: "address \<Rightarrow> nat list option"
  ts_paused :: "bool option"

section \<open>Helpers\<close>

definition ts_is_paused :: "streams \<Rightarrow> bool" where
  "ts_is_paused s = (ts_paused s = Some True)"

definition require_governor :: "env \<Rightarrow> streams \<Rightarrow> (TsError, address) res" where
  "require_governor e s =
     rbind (need NotInitialized (ts_governor s)) (\<lambda>governor.
     rbind (require_auth e governor) (\<lambda>_. Inr governor))"

text \<open>The unsigned subtractions \<open>end - start\<close> and \<open>now - start\<close> abort below zero.\<close>

definition sub_u64 :: "nat \<Rightarrow> nat \<Rightarrow> ('e, nat) res" where
  "sub_u64 a b = (if b \<le> a then Inr (a - b) else Inl Overflow)"

definition vested_amount :: "Stream \<Rightarrow> nat \<Rightarrow> (TsError, int) res" where
  "vested_amount stream t =
     (if t < sm_cliff stream then Inr 0
      else if t \<ge> sm_end stream then Inr (sm_total stream)
      else
        rbind (sub_u64 (sm_end stream) (sm_start stream)) (\<lambda>duration.
        rbind (sub_u64 t (sm_start stream)) (\<lambda>elapsed.
        rbind (need ArithmeticOverflow (checked_i128 (sm_total stream * int elapsed))) (\<lambda>p.
          if duration = 0 then Inl (Error ArithmeticOverflow)
          else need ArithmeticOverflow (checked_i128 (p sdiv int duration))))))"

text \<open>The \<open>while\<close> loop of \<open>paginate\<close>; \<open>get_unchecked\<close> traps beyond the vector.\<close>

function page_loop :: "nat list \<Rightarrow> nat list \<Rightarrow> nat \<Rightarrow> nat \<Rightarrow> (TsError, nat list) res" where
  "page_loop ids page i until =
     (if i < until
      then (case vec_get ids i of
              None \<Rightarrow> Inl Unwrap
            | Some x \<Rightarrow> page_loop ids (page @ [x]) (Suc i) until)
      else Inr page)"
  by pat_completeness auto
termination
  by (relation "measure (\<lambda>(ids, page, i, until). until - i)") auto

declare page_loop.simps [simp del]

definition paginate :: "nat list \<Rightarrow> nat \<Rightarrow> nat \<Rightarrow> (TsError, nat list) res" where
  "paginate ids start limit =
     (if start \<ge> length ids \<or> limit = 0 then Inr []
      else page_loop ids [] start (min (sat_u32 (start + limit)) (length ids)))"

definition put_stream :: "nat \<Rightarrow> Stream \<Rightarrow> streams \<Rightarrow> streams" where
  "put_stream i st s = s\<lparr>ts_stream := (ts_stream s)(i \<mapsto> st)\<rparr>"

section \<open>Entry points\<close>

definition ts_initialize :: "env \<Rightarrow> address \<Rightarrow> streams \<Rightarrow> (TsError, streams) res" where
  "ts_initialize e governor s =
     (if ts_governor s \<noteq> None then Inl (Error AlreadyInitialized)
      else
        rbind (require_auth e governor) (\<lambda>_.
          Inr (s\<lparr>ts_governor := Some governor, ts_next := Some 0, ts_paused := Some False\<rparr>)))"

definition propose_governor_transfer :: "env \<Rightarrow> address \<Rightarrow> streams \<Rightarrow> (TsError, streams) res" where
  "propose_governor_transfer e new_governor s =
     rbind (need NotInitialized (ts_governor s)) (\<lambda>governor.
     rbind (require_auth e governor) (\<lambda>_. Inr (s\<lparr>ts_pending := Some new_governor\<rparr>)))"

definition accept_governor_transfer :: "env \<Rightarrow> streams \<Rightarrow> (TsError, streams) res" where
  "accept_governor_transfer e s =
     rbind (need NoPendingGovernor (ts_pending s)) (\<lambda>pending.
     rbind (require_auth e pending) (\<lambda>_.
       Inr (s\<lparr>ts_governor := Some pending, ts_pending := None\<rparr>)))"

definition ts_pause :: "env \<Rightarrow> streams \<Rightarrow> (TsError, streams) res" where
  "ts_pause e s =
     rbind (require_governor e s) (\<lambda>_.
       if ts_is_paused s then Inl (Error Paused) else Inr (s\<lparr>ts_paused := Some True\<rparr>))"

definition ts_unpause :: "env \<Rightarrow> streams \<Rightarrow> (TsError, streams) res" where
  "ts_unpause e s =
     rbind (require_governor e s) (\<lambda>_.
       if \<not> ts_is_paused s then Inl (Error NotPaused) else Inr (s\<lparr>ts_paused := Some False\<rparr>))"

definition ids_of :: "nat list option \<Rightarrow> nat list" where
  "ids_of ids = (case ids of None \<Rightarrow> [] | Some xs \<Rightarrow> xs)"

definition create_stream :: "env \<Rightarrow> address \<Rightarrow> address \<Rightarrow> address \<Rightarrow> int \<Rightarrow> nat \<Rightarrow> nat \<Rightarrow> nat \<Rightarrow> streams
    \<Rightarrow> (TsError, streams \<times> nat \<times> xfer list) res" where
  "create_stream e sender recipient token amount start cliff end' s =
     rbind (need NotInitialized (ts_governor s)) (\<lambda>governor.
     rbind (require_auth e governor) (\<lambda>_.
       if ts_is_paused s then Inl (Error Paused)
       else if amount \<le> 0 then Inl (Error InvalidAmount)
       else if end' \<le> start \<or> cliff < start \<or> cliff > end' then Inl (Error InvalidSchedule)
       else
         rbind (transfer e token sender (self e) amount []) (\<lambda>tr.
           let i = nat0 (ts_next s);
               st = \<lparr>sm_sender = sender, sm_recipient = recipient, sm_token = token, sm_total = amount,
                     sm_start = start, sm_cliff = cliff, sm_end = end', sm_withdrawn = 0,
                     sm_cancelled = False\<rparr>
           in rbind (u64 (i + 1)) (\<lambda>next.
              rbind (u64 (nat0 (ts_count s) + 1)) (\<lambda>count.
                let s1 = (put_stream i st s)\<lparr>ts_next := Some next, ts_count := Some count,
                           ts_by_sender := (ts_by_sender s)(sender \<mapsto> ids_of (ts_by_sender s sender) @ [i])\<rparr>
                in Inr (s1\<lparr>ts_by_recipient := (ts_by_recipient s1)(recipient \<mapsto>
                          ids_of (ts_by_recipient s1 recipient) @ [i])\<rparr>, i, tr))))))"

definition ts_withdraw :: "env \<Rightarrow> nat \<Rightarrow> streams \<Rightarrow> (TsError, streams \<times> int \<times> xfer list) res" where
  "ts_withdraw e i s =
     (if ts_is_paused s then Inl (Error Paused)
      else
        rbind (need StreamNotFound (ts_stream s i)) (\<lambda>stream.
        rbind (require_auth e (sm_recipient stream)) (\<lambda>_.
        rbind (vested_amount stream (now e)) (\<lambda>vested.
        rbind (i128 (vested - sm_withdrawn stream)) (\<lambda>claimable.
          if claimable \<le> 0 then Inl (Error NothingToWithdraw)
          else
            let s1 = put_stream i (stream\<lparr>sm_withdrawn := vested\<rparr>) s
            in rbind (transfer e (sm_token stream) (self e) (sm_recipient stream) claimable [])
                 (\<lambda>tr. Inr (s1, claimable, tr)))))))"

definition ts_cancel :: "env \<Rightarrow> nat \<Rightarrow> streams \<Rightarrow> (TsError, streams \<times> xfer list) res" where
  "ts_cancel e i s =
     rbind (need NotInitialized (ts_governor s)) (\<lambda>governor.
     rbind (require_auth e governor) (\<lambda>_.
     rbind (need StreamNotFound (ts_stream s i)) (\<lambda>stream.
       if sm_cancelled stream then Inl (Error AlreadyCancelled)
       else
         rbind (vested_amount stream (now e)) (\<lambda>vested.
         rbind (i128 (sm_total stream - vested)) (\<lambda>unvested.
           let s1 = put_stream i (stream\<lparr>sm_cancelled := True, sm_total := vested\<rparr>) s
           in if unvested > 0
              then rbind (transfer e (sm_token stream) (self e) (sm_sender stream) unvested [])
                     (\<lambda>tr. Inr (s1, tr))
              else Inr (s1, []))))))"

definition top_up :: "env \<Rightarrow> nat \<Rightarrow> int \<Rightarrow> streams \<Rightarrow> (TsError, streams \<times> xfer list) res" where
  "top_up e i additional s =
     rbind (need NotInitialized (ts_governor s)) (\<lambda>governor.
     rbind (require_auth e governor) (\<lambda>_.
     rbind (need StreamNotFound (ts_stream s i)) (\<lambda>stream.
       if sm_cancelled stream then Inl (Error AlreadyCancelled)
       else if additional \<le> 0 then Inl (Error InvalidAmount)
       else
         rbind (transfer e (sm_token stream) (sm_sender stream) (self e) additional []) (\<lambda>tr.
         rbind (i128 (sm_total stream + additional)) (\<lambda>total.
           Inr (put_stream i (stream\<lparr>sm_total := total\<rparr>) s, tr))))))"

definition extend :: "env \<Rightarrow> nat \<Rightarrow> nat \<Rightarrow> streams \<Rightarrow> (TsError, streams) res" where
  "extend e i new_end s =
     rbind (need NotInitialized (ts_governor s)) (\<lambda>governor.
     rbind (require_auth e governor) (\<lambda>_.
     rbind (need StreamNotFound (ts_stream s i)) (\<lambda>stream.
       if sm_cancelled stream then Inl (Error AlreadyCancelled)
       else if new_end \<le> sm_start stream \<or> new_end < sm_end stream then Inl (Error InvalidSchedule)
       else Inr (put_stream i (stream\<lparr>sm_end := new_end\<rparr>) s))))"

definition balance_of :: "env \<Rightarrow> nat \<Rightarrow> streams \<Rightarrow> (TsError, int) res" where
  "balance_of e i s =
     rbind (need StreamNotFound (ts_stream s i)) (\<lambda>stream.
     rbind (vested_amount stream (now e)) (\<lambda>vested. i128 (vested - sm_withdrawn stream)))"

definition get_stream :: "nat \<Rightarrow> streams \<Rightarrow> (TsError, Stream) res" where
  "get_stream i s = need StreamNotFound (ts_stream s i)"

definition get_stream_count :: "streams \<Rightarrow> nat" where
  "get_stream_count s = nat0 (ts_count s)"

definition list_streams_by_sender :: "streams \<Rightarrow> address \<Rightarrow> nat \<Rightarrow> nat \<Rightarrow> (TsError, nat list) res" where
  "list_streams_by_sender s sender start limit = paginate (ids_of (ts_by_sender s sender)) start limit"

definition list_streams_by_recipient :: "streams \<Rightarrow> address \<Rightarrow> nat \<Rightarrow> nat \<Rightarrow> (TsError, nat list) res" where
  "list_streams_by_recipient s recipient start limit =
     paginate (ids_of (ts_by_recipient s recipient)) start limit"

section \<open>Transactions\<close>

datatype ts_event =
    TsInitialize address
  | TsPropose address
  | TsAccept
  | TsPause
  | TsUnpause
  | TsCreate address address address int nat nat nat
  | TsWithdraw nat
  | TsCancel nat
  | TsTopUp nat int
  | TsExtend nat nat

fun ts_handle :: "env \<Rightarrow> ts_event \<Rightarrow> streams \<Rightarrow> (TsError, streams \<times> xfer list) res" where
  "ts_handle e (TsInitialize g) s = silent (ts_initialize e g s)"
| "ts_handle e (TsPropose g) s = silent (propose_governor_transfer e g s)"
| "ts_handle e TsAccept s = silent (accept_governor_transfer e s)"
| "ts_handle e TsPause s = silent (ts_pause e s)"
| "ts_handle e TsUnpause s = silent (ts_unpause e s)"
| "ts_handle e (TsCreate sender recipient token amount start cliff end') s =
     rbind (create_stream e sender recipient token amount start cliff end' s) (\<lambda>(s', _, tr). Inr (s', tr))"
| "ts_handle e (TsWithdraw i) s = rbind (ts_withdraw e i s) (\<lambda>(s', _, tr). Inr (s', tr))"
| "ts_handle e (TsCancel i) s = ts_cancel e i s"
| "ts_handle e (TsTopUp i additional) s = top_up e i additional s"
| "ts_handle e (TsExtend i new_end) s = silent (extend e i new_end s)"

definition ts_empty :: streams where
  "ts_empty = \<lparr>ts_governor = None, ts_pending = None, ts_next = None, ts_stream = (\<lambda>_. None),
     ts_count = None, ts_by_sender = (\<lambda>_. None), ts_by_recipient = (\<lambda>_. None), ts_paused = None\<rparr>"

section \<open>Vesting\<close>

definition schedule_ok :: "Stream \<Rightarrow> bool" where
  "schedule_ok st \<longleftrightarrow> sm_start st < sm_end st \<and> sm_start st \<le> sm_cliff st \<and> sm_cliff st \<le> sm_end st \<and> 0 \<le> sm_total st"

text \<open>What has vested when the product does not overflow.\<close>

definition vested :: "Stream \<Rightarrow> nat \<Rightarrow> int" where
  "vested st t =
     (if t < sm_cliff st then 0
      else if t \<ge> sm_end st then sm_total st
      else sm_total st * int (t - sm_start st) div int (sm_end st - sm_start st))"

lemma vested_amount_eq:
  assumes "schedule_ok st" "vested_amount st t = Inr v"
  shows "v = vested st t"
  using assms by (auto simp: vested_amount_def vested_def schedule_ok_def sub_u64_def sdiv_nonneg split: if_splits)

lemma vested_bounds:
  assumes "schedule_ok st"
  shows "0 \<le> vested st t \<and> vested st t \<le> sm_total st"
  using assms by (auto simp: vested_def schedule_ok_def intro!: mult_div_le mult_div_nonneg)

lemma vested_mono:
  assumes "schedule_ok st" "t \<le> t'"
  shows "vested st t \<le> vested st t'"
proof -
  consider "t < sm_cliff st" | "sm_end st \<le> t'" | "sm_cliff st \<le> t" "t' < sm_end st" by linarith
  then show ?thesis
  proof cases
    case 3
    then have "sm_total st * int (t - sm_start st) \<le> sm_total st * int (t' - sm_start st)"
      using assms by (intro mult_left_mono) (auto simp: schedule_ok_def)
    with 3 assms show ?thesis by (auto simp: vested_def schedule_ok_def intro!: zdiv_mono1)
  qed (use assms vested_bounds [OF assms(1), of t] vested_bounds [OF assms(1), of t'] in
      \<open>auto simp: vested_def schedule_ok_def\<close>)
qed

lemma vested_total_mono:
  assumes "schedule_ok st" "sm_total st \<le> tot"
  shows "vested st t \<le> vested (st\<lparr>sm_total := tot\<rparr>) t"
  using assms by (auto simp: vested_def schedule_ok_def intro!: zdiv_mono1 mult_right_mono)

section \<open>What each entry point does to the streams\<close>

lemma create_result:
  assumes "create_stream e sender recipient token amount start cliff end' s = Inr (s', i, tr)"
  shows "\<exists>st. i = nat0 (ts_next s) \<and> ts_governor s \<noteq> None \<and> ts_governor s' = ts_governor s \<and>
    ts_next s' = Some (Suc i) \<and> ts_stream s' = (ts_stream s)(i \<mapsto> st) \<and> \<not> ts_is_paused s \<and>
    schedule_ok st \<and> sm_sender st = sender \<and> sm_token st = token \<and> sm_total st = amount \<and> 0 < amount \<and>
    sm_withdrawn st = 0 \<and> \<not> sm_cancelled st \<and>
    tr = [\<lparr>x_token = token, x_from = sender, x_to = self e, x_amount = amount\<rparr>]"
  using assms unfolding create_stream_def Let_def
  by (elim rbindE guardE) (auto simp: transfer_eq_Inr put_stream_def schedule_ok_def)

lemma ts_withdraw_result:
  assumes "ts_withdraw e i s = Inr (s', claimed, tr)"
  shows "\<exists>st v. ts_stream s i = Some st \<and> authed e (sm_recipient st) \<and> \<not> ts_is_paused s \<and>
    vested_amount st (now e) = Inr v \<and> claimed = v - sm_withdrawn st \<and> 0 < claimed \<and>
    s' = put_stream i (st\<lparr>sm_withdrawn := v\<rparr>) s \<and>
    tr = [\<lparr>x_token = sm_token st, x_from = self e, x_to = sm_recipient st, x_amount = claimed\<rparr>]"
  using assms unfolding ts_withdraw_def Let_def
  by (elim rbindE guardE) (auto simp: transfer_eq_Inr)

lemma ts_cancel_result:
  assumes "ts_cancel e i s = Inr (s', tr)"
  shows "\<exists>st v. ts_governor s \<noteq> None \<and> ts_stream s i = Some st \<and> \<not> sm_cancelled st \<and>
    vested_amount st (now e) = Inr v \<and>
    s' = put_stream i (st\<lparr>sm_cancelled := True, sm_total := v\<rparr>) s \<and>
    tr = (if 0 < sm_total st - v
          then [\<lparr>x_token = sm_token st, x_from = self e, x_to = sm_sender st, x_amount = sm_total st - v\<rparr>] else [])"
  using assms unfolding ts_cancel_def Let_def
  by (elim rbindE guardE condE) (auto simp: transfer_eq_Inr)

lemma top_up_result:
  assumes "top_up e i additional s = Inr (s', tr)"
  shows "\<exists>st. ts_governor s \<noteq> None \<and> ts_stream s i = Some st \<and> \<not> sm_cancelled st \<and> 0 < additional \<and>
    s' = put_stream i (st\<lparr>sm_total := sm_total st + additional\<rparr>) s \<and>
    tr = [\<lparr>x_token = sm_token st, x_from = sm_sender st, x_to = self e, x_amount = additional\<rparr>]"
  using assms unfolding top_up_def
  by (elim rbindE guardE) (auto simp: transfer_eq_Inr)

lemma extend_result:
  assumes "extend e i new_end s = Inr s'"
  shows "\<exists>st. ts_governor s \<noteq> None \<and> ts_stream s i = Some st \<and> \<not> sm_cancelled st \<and> sm_start st < new_end \<and>
    sm_end st \<le> new_end \<and> s' = put_stream i (st\<lparr>sm_end := new_end\<rparr>) s"
  using assms unfolding extend_def by (elim rbindE guardE) auto

text \<open>The other entry points leave the streams alone.\<close>

fun on_streams :: "ts_event \<Rightarrow> bool" where
  "on_streams (TsCreate _ _ _ _ _ _ _) = True"
| "on_streams (TsWithdraw _) = True"
| "on_streams (TsCancel _) = True"
| "on_streams (TsTopUp _ _) = True"
| "on_streams (TsExtend _ _) = True"
| "on_streams _ = False"

lemma ts_handle_other:
  assumes "ts_handle e ev s = Inr (s', tr)" "\<not> on_streams ev"
  shows "ts_stream s' = ts_stream s \<and> tr = [] \<and> (ts_governor s \<noteq> None \<longrightarrow> ts_governor s' \<noteq> None) \<and>
    (ts_next s' = ts_next s \<or> ts_governor s = None)"
  using assms
  by (cases ev) (auto simp: ts_initialize_def propose_governor_transfer_def accept_governor_transfer_def
      ts_pause_def ts_unpause_def elim!: guardE)

section \<open>The books\<close>

definition held :: "address \<Rightarrow> Stream option \<Rightarrow> int option" where
  "held tok so = (case so of None \<Rightarrow> None
     | Some st \<Rightarrow> if sm_token st = tok then Some (sm_total st - sm_withdrawn st) else None)"

definition ts_owed :: "address \<Rightarrow> streams \<Rightarrow> int" where
  "ts_owed tok s = amounts (\<lambda>i. held tok (ts_stream s i))"

definition ts_good :: "address \<Rightarrow> streams \<Rightarrow> bool" where
  "ts_good me s \<longleftrightarrow> finite (dom (ts_stream s)) \<and> (ts_governor s = None \<longrightarrow> ts_stream s = (\<lambda>_. None)) \<and>
     (\<forall>i st. ts_stream s i = Some st \<longrightarrow> schedule_ok st \<and> i < nat0 (ts_next s) \<and> sm_sender st \<noteq> me)"

lemma held_dom: "dom (\<lambda>i. held tok (f i)) \<subseteq> dom f"
  by (auto simp: held_def split: option.splits)

lemma ts_owed_put:
  assumes "finite (dom (ts_stream s))" "ts_stream s' = (ts_stream s)(i \<mapsto> st')"
    "\<forall>st. ts_stream s i = Some st \<longrightarrow> sm_token st = sm_token st'"
  shows "ts_owed tok s' - ts_owed tok s =
    (if sm_token st' = tok then sm_total st' - sm_withdrawn st' -
       (case ts_stream s i of None \<Rightarrow> 0 | Some st \<Rightarrow> sm_total st - sm_withdrawn st) else 0)"
proof -
  let ?f = "\<lambda>j. held tok (ts_stream s j)"
  have fin: "finite (dom ?f)" using assms(1) held_dom by (rule rev_finite_subset)
  show ?thesis
  proof (cases "sm_token st' = tok")
    case True
    then have "(\<lambda>j. held tok (ts_stream s' j)) = ?f(i \<mapsto> sm_total st' - sm_withdrawn st')"
      using assms(2) by (auto simp: held_def)
    then have "ts_owed tok s' = ts_owed tok s - or0 (?f i) + (sm_total st' - sm_withdrawn st')"
      using amounts_upd [OF fin] by (simp add: ts_owed_def)
    with True assms(3) show ?thesis by (auto simp: held_def split: option.splits)
  next
    case False
    then have "(\<lambda>j. held tok (ts_stream s' j)) = ?f"
      using assms(2,3) by (auto simp: held_def fun_eq_iff split: option.splits)
    with False show ?thesis by (simp add: ts_owed_def)
  qed
qed

fun ts_fair :: "address \<Rightarrow> ts_event \<Rightarrow> bool" where
  "ts_fair me (TsCreate sender _ _ _ _ _ _) = (sender \<noteq> me)"
| "ts_fair me _ = True"

lemma ts_replace:
  assumes "ts_good me s" "ts_stream s i = Some st" "schedule_ok st'" "sm_sender st' = sm_sender st"
    "sm_token st' = sm_token st"
    "(if sm_token st = tok then sm_total st' - sm_withdrawn st' - (sm_total st - sm_withdrawn st) else 0)
       \<le> net_in tok me tr"
  shows "ts_good me (put_stream i st' s) \<and> ts_owed tok (put_stream i st' s) - ts_owed tok s \<le> net_in tok me tr"
proof
  show "ts_good me (put_stream i st' s)"
    using assms(1-4) by (auto simp: ts_good_def put_stream_def)
  have "ts_stream (put_stream i st' s) = (ts_stream s)(i \<mapsto> st')" by (simp add: put_stream_def)
  from ts_owed_put [OF _ this, of tok] assms
  show "ts_owed tok (put_stream i st' s) - ts_owed tok s \<le> net_in tok me tr"
    by (simp add: ts_good_def split: if_splits)
qed

lemma ts_good_create:
  assumes "ts_good me s" "self e = me" "sender \<noteq> me"
    "create_stream e sender recipient token amount start cliff end' s = Inr (s', i, tr)"
  shows "ts_good me s' \<and> ts_owed tok s' - ts_owed tok s \<le> net_in tok me tr"
proof -
  from create_result [OF assms(4)] obtain st where
    c: "i = nat0 (ts_next s)" "ts_governor s' \<noteq> None" "ts_next s' = Some (Suc i)"
      "ts_stream s' = (ts_stream s)(i \<mapsto> st)" "schedule_ok st" "sm_sender st = sender" "sm_token st = token"
      "sm_total st = amount" "sm_withdrawn st = 0"
      "tr = [\<lparr>x_token = token, x_from = sender, x_to = self e, x_amount = amount\<rparr>]" by auto
  have fin: "finite (dom (ts_stream s))" and new: "ts_stream s i = None"
    using assms(1) c(1) by (auto simp: ts_good_def intro: ccontr)
  from ts_owed_put [OF fin c(4), of tok] new c(7-10) assms(2,3)
  have "ts_owed tok s' - ts_owed tok s \<le> net_in tok me tr" by (auto simp: x_net_def)
  moreover have "ts_good me s'" using assms(1,3) c(1-6) by (fastforce simp: ts_good_def)
  ultimately show ?thesis by blast
qed

lemma ts_good_withdraw:
  assumes "ts_good me s" "self e = me" "\<not> authed e me" "ts_withdraw e i s = Inr (s', claimed, tr)"
  shows "ts_good me s' \<and> ts_owed tok s' - ts_owed tok s \<le> net_in tok me tr"
proof -
  from ts_withdraw_result [OF assms(4)] obtain st v where
    w: "ts_stream s i = Some st" "authed e (sm_recipient st)" "claimed = v - sm_withdrawn st"
      "s' = put_stream i (st\<lparr>sm_withdrawn := v\<rparr>) s"
      "tr = [\<lparr>x_token = sm_token st, x_from = self e, x_to = sm_recipient st, x_amount = claimed\<rparr>]" by auto
  have st: "sm_recipient st \<noteq> me" "schedule_ok st" using w(1,2) assms(1,3) by (auto simp: ts_good_def)
  show ?thesis
    unfolding w(4) by (rule ts_replace [OF assms(1) w(1)])
      (use w(3,5) st assms(2) in \<open>auto simp: schedule_ok_def x_net_def\<close>)
qed

lemma ts_good_cancel:
  assumes "ts_good me s" "self e = me" "ts_cancel e i s = Inr (s', tr)"
  shows "ts_good me s' \<and> ts_owed tok s' - ts_owed tok s \<le> net_in tok me tr"
proof -
  from ts_cancel_result [OF assms(3)] obtain st v where
    c: "ts_stream s i = Some st" "vested_amount st (now e) = Inr v"
      "s' = put_stream i (st\<lparr>sm_cancelled := True, sm_total := v\<rparr>) s"
      "tr = (if 0 < sm_total st - v
        then [\<lparr>x_token = sm_token st, x_from = self e, x_to = sm_sender st, x_amount = sm_total st - v\<rparr>] else [])"
    by auto
  have st: "schedule_ok st" "sm_sender st \<noteq> me" using assms(1) c(1) by (auto simp: ts_good_def)
  have v: "0 \<le> v" "v \<le> sm_total st" using vested_amount_eq [OF st(1) c(2)] vested_bounds [OF st(1)] by simp_all
  show ?thesis
    unfolding c(3) by (rule ts_replace [OF assms(1) c(1)]) (use c(4) st v assms(2) in \<open>auto simp: schedule_ok_def x_net_def\<close>)
qed

lemma ts_good_top_up:
  assumes "ts_good me s" "self e = me" "top_up e i additional s = Inr (s', tr)"
  shows "ts_good me s' \<and> ts_owed tok s' - ts_owed tok s \<le> net_in tok me tr"
proof -
  from top_up_result [OF assms(3)] obtain st where
    c: "ts_stream s i = Some st" "0 < additional" "s' = put_stream i (st\<lparr>sm_total := sm_total st + additional\<rparr>) s"
      "tr = [\<lparr>x_token = sm_token st, x_from = sm_sender st, x_to = self e, x_amount = additional\<rparr>]" by auto
  have st: "schedule_ok st" "sm_sender st \<noteq> me" using assms(1) c(1) by (auto simp: ts_good_def)
  show ?thesis
    unfolding c(3) by (rule ts_replace [OF assms(1) c(1)]) (use c(2,4) st assms(2) in \<open>auto simp: schedule_ok_def x_net_def\<close>)
qed

lemma ts_good_extend:
  assumes "ts_good me s" "extend e i new_end s = Inr s'"
  shows "ts_good me s' \<and> ts_owed tok s' - ts_owed tok s \<le> net_in tok me []"
proof -
  from extend_result [OF assms(2)] obtain st where
    c: "ts_stream s i = Some st" "sm_start st < new_end" "sm_end st \<le> new_end"
      "s' = put_stream i (st\<lparr>sm_end := new_end\<rparr>) s" by auto
  have "schedule_ok st" using assms(1) c(1) by (auto simp: ts_good_def)
  then show ?thesis
    unfolding c(4) by (rule_tac ts_replace [OF assms(1) c(1)]) (use c(2,3) in \<open>auto simp: schedule_ok_def\<close>)
qed

lemma ts_handle_good:
  assumes "ts_good me s" "self e = me" "\<not> authed e me" "ts_fair me ev" "ts_handle e ev s = Inr (s', tr)"
  shows "ts_good me s' \<and> ts_owed tok s' - ts_owed tok s \<le> net_in tok me tr"
proof (cases "on_streams ev")
  case False
  from ts_handle_other [OF assms(5) this] assms(1) show ?thesis
    by (auto simp: ts_good_def ts_owed_def)
next
  case True
  with assms show ?thesis
    by - (cases ev; auto dest: ts_good_create ts_good_withdraw ts_good_cancel ts_good_top_up ts_good_extend)
qed

interpretation stream_books: token_contract ts_handle ts_empty "ts_good me" "ts_fair me" me tok "ts_owed tok"
proof unfold_locales
  show "ts_good me ts_empty" by (simp add: ts_good_def ts_empty_def)
  show "ts_owed tok ts_empty = 0" by (simp add: ts_owed_def ts_empty_def held_def)
qed (use ts_handle_good in blast)+

section \<open>What a recipient is owed\<close>

text \<open>
  At the time \<open>t\<close>: nothing is withdrawn beyond the total and, while the stream runs, beyond
  what has vested.
\<close>

definition entitled :: "nat \<Rightarrow> Stream \<Rightarrow> bool" where
  "entitled t st \<longleftrightarrow> 0 \<le> sm_withdrawn st \<and> sm_withdrawn st \<le> sm_total st \<and>
     (\<not> sm_cancelled st \<longrightarrow> sm_withdrawn st \<le> vested st t)"

definition all_entitled :: "nat \<Rightarrow> streams \<Rightarrow> bool" where
  "all_entitled t s \<longleftrightarrow> (\<forall>i st. ts_stream s i = Some st \<longrightarrow> entitled t st)"

fun extends :: "ts_event \<Rightarrow> bool" where
  "extends (TsExtend _ _) = True"
| "extends _ = False"

lemma entitled_later: "schedule_ok st \<Longrightarrow> entitled t st \<Longrightarrow> t \<le> t' \<Longrightarrow> entitled t' st"
  using vested_mono [of st t t'] by (auto simp: entitled_def)

lemma all_entitled_put:
  "all_entitled t s \<Longrightarrow> entitled t st \<Longrightarrow> all_entitled t (put_stream i st s)"
  by (simp add: all_entitled_def put_stream_def)

lemma all_entitled_handle:
  assumes good: "ts_good me s" and before: "all_entitled t s" and later: "t \<le> now e"
    and ev: "\<not> extends ev" and ok: "ts_handle e ev s = Inr (s', tr)"
  shows "all_entitled (now e) s'"
proof -
  have E: "all_entitled (now e) s"
    using good before later entitled_later by (fastforce simp: all_entitled_def ts_good_def)
  have sched: "schedule_ok st" if "ts_stream s i = Some st" for i st
    using good that by (auto simp: ts_good_def)
  have ent: "entitled (now e) st" if "ts_stream s i = Some st" for i st
    using E that by (simp add: all_entitled_def)
  show ?thesis
  proof (cases ev)
    case (TsCreate sender recipient token amount start cliff end')
    with ok obtain i where "create_stream e sender recipient token amount start cliff end' s = Inr (s', i, tr)"
      by auto
    from create_result [OF this] obtain st where
      "ts_stream s' = (ts_stream s)(i \<mapsto> st)" "schedule_ok st" "sm_withdrawn st = 0" "0 < sm_total st" by auto
    with E vested_bounds [of st "now e"] show ?thesis by (auto simp: all_entitled_def entitled_def)
  next
    case (TsWithdraw i)
    with ok obtain claimed where "ts_withdraw e i s = Inr (s', claimed, tr)" by auto
    from ts_withdraw_result [OF this] obtain st v where
      w: "ts_stream s i = Some st" "vested_amount st (now e) = Inr v" "s' = put_stream i (st\<lparr>sm_withdrawn := v\<rparr>) s" by auto
    have "v = vested st (now e)" using vested_amount_eq [OF sched [OF w(1)] w(2)] .
    with vested_bounds [OF sched [OF w(1)], of "now e"] have "entitled (now e) (st\<lparr>sm_withdrawn := v\<rparr>)"
      by (simp add: entitled_def vested_def)
    with E w(3) show ?thesis by (simp add: all_entitled_put)
  next
    case (TsCancel i)
    with ok have "ts_cancel e i s = Inr (s', tr)" by simp
    from ts_cancel_result [OF this] obtain st v where
      c: "ts_stream s i = Some st" "\<not> sm_cancelled st" "vested_amount st (now e) = Inr v"
        "s' = put_stream i (st\<lparr>sm_cancelled := True, sm_total := v\<rparr>) s" by auto
    have "v = vested st (now e)" using vested_amount_eq [OF sched [OF c(1)] c(3)] .
    with ent [OF c(1)] c(2) have "entitled (now e) (st\<lparr>sm_cancelled := True, sm_total := v\<rparr>)"
      by (simp add: entitled_def)
    with E c(4) show ?thesis by (simp add: all_entitled_put)
  next
    case (TsTopUp i additional)
    with ok have "top_up e i additional s = Inr (s', tr)" by simp
    from top_up_result [OF this] obtain st where
      c: "ts_stream s i = Some st" "0 < additional" "s' = put_stream i (st\<lparr>sm_total := sm_total st + additional\<rparr>) s" by auto
    from ent [OF c(1)] vested_total_mono [OF sched [OF c(1)], of "sm_total st + additional" "now e"] c(2)
    have "entitled (now e) (st\<lparr>sm_total := sm_total st + additional\<rparr>)" by (auto simp: entitled_def)
    with E c(3) show ?thesis by (simp add: all_entitled_put)
  next
    case (TsExtend i new_end)
    with ev show ?thesis by simp
  qed (use ts_handle_other [OF ok] E in \<open>auto simp: all_entitled_def\<close>)
qed

text \<open>The timestamps of a run never fall.\<close>

definition in_time :: "(env \<times> 'ev) list \<Rightarrow> bool" where
  "in_time txs = sorted (map (\<lambda>tx. now (fst tx)) txs)"

lemma all_entitled_run:
  assumes "outside me txs" "\<forall>tx \<in> set txs. ts_fair me (snd tx) \<and> \<not> extends (snd tx)" "in_time txs"
  shows "all_entitled (if txs = [] then 0 else now (fst (last txs))) (fst (token_run ts_handle ts_empty txs))"
  using assms
proof (induction txs rule: rev_induct)
  case Nil
  then show ?case by (simp add: all_entitled_def ts_empty_def)
next
  case (snoc tx txs)
  let ?s = "fst (token_run ts_handle ts_empty txs)" and ?t = "if txs = [] then 0 else now (fst (last txs))"
  have pre: "outside me txs" "\<forall>tx \<in> set txs. ts_fair me (snd tx) \<and> \<not> extends (snd tx)" "in_time txs"
    using snoc.prems by (auto simp: outside_def in_time_def sorted_append)
  note IH = snoc.IH [OF pre]
  have good: "ts_good me ?s" using stream_books.run_sound [OF pre(1)] pre(2) by blast
  have later: "?t \<le> now (fst tx)" using snoc.prems(3) by (auto simp: in_time_def sorted_append)
  show ?case
  proof (cases ts_handle tx "token_run ts_handle ts_empty txs" rule: token_step_cases)
    case aborted
    have "all_entitled (now (fst tx)) ?s"
      using IH good later entitled_later by (fastforce simp: all_entitled_def ts_good_def)
    with aborted show ?thesis by simp
  next
    case (committed s' tr)
    from all_entitled_handle [OF good IH later _ committed(1)] snoc.prems(2) committed(2) show ?thesis by simp
  qed
qed

section \<open>Properties\<close>

text \<open>
  C13: After any run in which ledger times do not fall, the contract signs nothing for itself,
  no stream is created with the contract as its sender, and no stream is extended, a stream's
  withdrawn amount lies between zero and its total, and what is left of it is covered by what
  the transfers moved into the contract.
\<close>

theorem streams_solvent:
  assumes "outside me txs" "\<forall>tx \<in> set txs. ts_fair me (snd tx) \<and> \<not> extends (snd tx)" "in_time txs"
    "token_run ts_handle ts_empty txs = (s, tr)" "ts_stream s i = Some st"
  shows "0 \<le> sm_withdrawn st \<and> sm_withdrawn st \<le> sm_total st \<and>
    sm_total st - sm_withdrawn st \<le> net_in (sm_token st) me tr"
proof -
  let ?f = "\<lambda>j. held (sm_token st) (ts_stream s j)"
  have ent: "all_entitled (if txs = [] then 0 else now (fst (last txs))) s"
    using all_entitled_run [OF assms(1-3)] assms(4) by simp
  have good: "ts_good me s" and le: "ts_owed (sm_token st) s \<le> net_in (sm_token st) me tr"
    using stream_books.run_sound [OF assms(1), of "sm_token st"] assms(2,4) by auto
  have "0 \<le> or0 (?f j)" for j
    using ent by (auto simp: held_def all_entitled_def entitled_def split: option.splits)
  moreover have "finite (dom ?f)"
    using good held_dom by (metis ts_good_def rev_finite_subset)
  ultimately have "or0 (?f i) \<le> ts_owed (sm_token st) s"
    unfolding ts_owed_def by (intro amounts_member)
  with assms(5) le ent show ?thesis by (auto simp: held_def all_entitled_def entitled_def)
qed

text \<open>
  The vested amount never falls with time, is nothing before the cliff, never more than the
  total and all of it from the end on.
\<close>

theorem vesting_monotone:
  assumes "schedule_ok st" "t \<le> t'" "vested_amount st t = Inr v" "vested_amount st t' = Inr v'"
  shows "0 \<le> v \<and> v \<le> v' \<and> v' \<le> sm_total st \<and> (sm_end st \<le> t' \<longrightarrow> v' = sm_total st) \<and> (t < sm_cliff st \<longrightarrow> v = 0)"
  using vested_amount_eq [OF assms(1,3)] vested_amount_eq [OF assms(1,4)] vested_mono [OF assms(1,2)]
    vested_bounds [OF assms(1)] assms(1)
  by (auto simp: vested_def schedule_ok_def)

lemma page_loop_slice:
  "i \<le> until \<Longrightarrow> until \<le> length ids \<Longrightarrow> page_loop ids page i until = Inr (page @ take (until - i) (drop i ids))"
proof (induction ids page i until rule: page_loop.induct)
  case (1 ids page i until)
  show ?case
  proof (cases "i < until")
    case True
    then have get: "vec_get ids i = Some (ids ! i)" using "1.prems" by simp
    from True have "take (until - i) (drop i ids) = ids ! i # take (until - Suc i) (drop (Suc i) ids)"
      using "1.prems" by (simp add: Cons_nth_drop_Suc [symmetric] Suc_diff_Suc [symmetric])
    with True "1.IH" [OF True get] "1.prems" show ?thesis by (simp add: page_loop.simps [of ids page i] get)
  next
    case False
    with "1.prems" have "until = i" by simp
    then show ?thesis by (simp add: page_loop.simps [of ids page i])
  qed
qed

text \<open>
  C37: The loop of \<open>paginate\<close> ends for every start and limit, and the page is
  exactly the slice of at most \<open>limit\<close> identifiers from \<open>start\<close> on,
  without a trap.
\<close>

theorem paginate_is_slice:
  assumes "length ids \<le> u32_max"
  shows "paginate ids start limit = Inr (take limit (drop start ids))"
proof (cases "start \<ge> length ids \<or> limit = 0")
  case False
  then have "page_loop ids [] start (min (sat_u32 (start + limit)) (length ids)) =
      Inr (take (min (sat_u32 (start + limit)) (length ids) - start) (drop start ids))"
    using assms by (subst page_loop_slice) (auto simp: sat_u32_def)
  moreover have "take (min (sat_u32 (start + limit)) (length ids) - start) (drop start ids) = take limit (drop start ids)"
    using False assms by (cases "start + limit \<le> length ids") (auto simp: sat_u32_def min_def)
  ultimately show ?thesis using False by (simp add: paginate_def)
qed (auto simp: paginate_def)

section \<open>Witnesses\<close>

text \<open>
  Two streams of 100 from account 2; at half time the first is withdrawn, extended to twice its
  length and cancelled.
\<close>

definition ts_demo :: "(env \<times> ts_event) list" where
  "ts_demo = [(client_env 0, TsInitialize 1), (client_env 0, TsCreate 2 3 9 100 0 0 100),
     (client_env 0, TsCreate 2 4 9 100 0 0 100), (client_env 50, TsWithdraw 0)]"

definition ts_overpay :: "(env \<times> ts_event) list" where
  "ts_overpay = ts_demo @ [(client_env 50, TsExtend 0 200), (client_env 50, TsCancel 0)]"

lemmas ts_eval = ts_demo_def ts_overpay_def ts_empty_def token_run_def token_step_def ts_initialize_def
  create_stream_def ts_withdraw_def extend_def ts_cancel_def vested_amount_def sub_u64_def ts_is_paused_def
  put_stream_def ids_of_def need_def require_auth_def transfer_def i128_def in_i128_def i128_min_def
  i128_max_def u64_def u64_max_def checked_i128_def sdiv_nonneg silent_def

text \<open>
  A recipient who withdraws at half time, with the stream then extended and cancelled, leaves
  the contract with less than it owes to another stream of the same token.
\<close>

theorem extend_then_cancel_overpays:
  "\<exists>txs s tr st. outside 5 txs \<and> list_all (\<lambda>tx. ts_fair 5 (snd tx)) txs \<and> in_time txs \<and>
     token_run ts_handle ts_empty txs = (s, tr) \<and> ts_stream s 1 = Some st \<and>
     sm_total st - sm_withdrawn st = 100 \<and> net_in (sm_token st) 5 tr = 75"
proof -
  have "outside 5 ts_overpay" "list_all (\<lambda>tx. ts_fair 5 (snd tx)) ts_overpay" "in_time ts_overpay"
    by (simp_all add: outside_def ts_overpay_def ts_demo_def in_time_def)
  moreover obtain s tr st where "token_run ts_handle ts_empty ts_overpay = (s, tr)" "ts_stream s 1 = Some st"
     "sm_total st - sm_withdrawn st = 100" "net_in (sm_token st) 5 tr = 75"
    by (simp add: ts_eval x_net_def)
  ultimately show ?thesis by blast
qed

text \<open>
  A stream whose sender is the contract itself is not funded by anyone: the transfer moves nothing
  in, and the governor may create one.
\<close>

definition ts_self_funded :: "(env \<times> ts_event) list" where
  "ts_self_funded = [(client_env 0, TsInitialize 1), (client_env 0, TsCreate 5 3 9 100 0 0 100)]"

lemma self_stream_unfunded:
  "\<exists>s tr st. outside 5 ts_self_funded \<and> token_run ts_handle ts_empty ts_self_funded = (s, tr) \<and>
     ts_stream s 0 = Some st \<and> sm_total st - sm_withdrawn st = 100 \<and> net_in (sm_token st) 5 tr = 0"
  by (simp add: ts_eval ts_self_funded_def outside_def x_net_def)

theorem streams_solvent_witness:
  "\<exists>s tr st. token_run ts_handle ts_empty ts_demo = (s, tr) \<and> ts_stream s 0 = Some st \<and>
     sm_withdrawn st = 50 \<and> sm_total st - sm_withdrawn st \<le> net_in (sm_token st) 5 tr"
proof -
  have pre: "outside 5 ts_demo" "\<forall>tx \<in> set ts_demo. ts_fair 5 (snd tx) \<and> \<not> extends (snd tx)" "in_time ts_demo"
    by (simp_all add: outside_def ts_demo_def in_time_def)
  obtain s tr st where "token_run ts_handle ts_empty ts_demo = (s, tr)" "ts_stream s 0 = Some st"
     "sm_withdrawn st = 50"
    by (simp add: ts_eval)
  with streams_solvent [OF pre this(1,2)] show ?thesis by blast
qed

theorem vesting_monotone_witness:
  "\<exists>st v v'. schedule_ok st \<and> vested_amount st 20 = Inr v \<and> vested_amount st 50 = Inr v' \<and> v < v' \<and> v' \<le> sm_total st"
proof -
  let ?st = "\<lparr>sm_sender = 2, sm_recipient = 3, sm_token = 9, sm_total = 100, sm_start = 0, sm_cliff = 10,
    sm_end = 100, sm_withdrawn = 0, sm_cancelled = False\<rparr>"
  have st: "schedule_ok ?st" by (simp add: schedule_ok_def)
  have v: "vested_amount ?st 20 = Inr 20" "vested_amount ?st 50 = Inr 50" by (simp_all add: ts_eval)
  from vesting_monotone [OF st _ v] st v show ?thesis by (intro exI [of _ ?st]) simp
qed

theorem paginate_is_slice_witness: "paginate [4, 7, 9] 1 5 = Inr [7, 9]"
  by (subst paginate_is_slice) (simp_all add: u32_max_def)

end
