(* ===== verification/Proof_Registry.thy ===== *)
theory Proof_Registry
  imports Settlement_Math Timelocked_Slot
begin

unbundle bit_operations_syntax

text \<open>
  The cross-chain proof registry of \<open>proof_registry/src/lib.rs\<close>: messages of two bridges are
  checked against allowlists, decoded from their fixed 102-byte payload and stored once per
  intent. The Wormhole core contract, which verifies the guardian signatures and parses the
  envelope, is a parameter; a trap there is \<open>None\<close>.
\<close>

section \<open>Data\<close>

definition PROOF_VALIDITY_WINDOW :: nat where "PROOF_VALIDITY_WINDOW = 3600"

record VaaEnvelope =
  va_chain :: nat
  va_address :: bytes32
  va_sequence :: nat
  va_payload :: "byte list"

record ProofRecord =
  pf_intent :: bytes32
  pf_user :: string
  pf_chain :: nat
  pf_token :: string
  pf_amount :: int
  pf_sequence :: nat
  pf_received :: nat

datatype PrError =
    AlreadyInitialized | Unauthorized | EmitterNotAuthorized | ProofAlreadyExists | ProofNotFound
  | InvalidPayload | NotInitialized | VaaAlreadyProcessed | EmitterChainMismatch | ChainIdOutOfRange
  | ConfiguratorNotSet | ProofStale

text \<open>The storage keys \<open>ProofKey\<close>, with one field per key.\<close>

record proofs =
  pr_admin :: "address option"
  pr_core :: "address option"
  pr_gateway :: "address option"
  pr_emitter :: "nat \<Rightarrow> bytes32 option"
  pr_proof :: "bytes32 \<Rightarrow> ProofRecord option"
  pr_seen :: "nat \<times> nat \<Rightarrow> bool"
  pr_axelar :: "string \<Rightarrow> string option"
  pr_configurator :: "address option"

section \<open>Helpers\<close>

definition pr_require_admin :: "env \<Rightarrow> proofs \<Rightarrow> (PrError, unit) res" where
  "pr_require_admin e s = rbind (need NotInitialized (pr_admin s)) (\<lambda>admin. require_auth e admin)"

definition require_configurator :: "env \<Rightarrow> proofs \<Rightarrow> (PrError, unit) res" where
  "require_configurator e s =
     rbind (need ConfiguratorNotSet (pr_configurator s)) (\<lambda>c. require_auth e c)"

definition byte_at :: "byte list \<Rightarrow> nat \<Rightarrow> (PrError, byte) res" where
  "byte_at bytes i = need InvalidPayload (vec_get bytes i)"

definition HEX :: string where "HEX = ''0123456789abcdef''"

definition hex_digits :: "byte \<Rightarrow> string" where
  "hex_digits b = [HEX ! unat (drop_bit 4 b), HEX ! unat (b AND 0x0f)]"

text \<open>The \<open>while\<close> loop appends two digits per byte to the buffer that starts with \<open>0x\<close>.\<close>

fun hex_loop :: "byte list \<Rightarrow> string \<Rightarrow> string" where
  "hex_loop [] buf = buf"
| "hex_loop (b # bs) buf = hex_loop bs (buf @ hex_digits b)"

definition bytes_to_hex_string :: "byte list \<Rightarrow> (PrError, string) res" where
  "bytes_to_hex_string bytes =
     (if length bytes > 32 then Inl (Error InvalidPayload) else Inr (hex_loop bytes ''0x''))"

text \<open>\<open>payload.slice(a..b)\<close>, and \<open>BytesN::<32>::try_from\<close>.\<close>

definition slice :: "byte list \<Rightarrow> nat \<Rightarrow> nat \<Rightarrow> byte list" where
  "slice bs a b = take (b - a) (drop a bs)"

definition to_bytes32 :: "byte list \<Rightarrow> (PrError, bytes32) res" where
  "to_bytes32 bs = (if length bs = 32 then Inr (of_nat (be_nat bs)) else Inl (Error InvalidPayload))"

definition chain_of :: "byte \<Rightarrow> byte \<Rightarrow> nat" where
  "chain_of hi lo = unat (push_bit 8 (ucast hi :: 32 word) OR (ucast lo :: 32 word))"

text \<open>The \<open>while\<close> loop over \<open>idx\<close> that fills \<open>amount_bytes\<close>.\<close>

fun read_bytes :: "byte list \<Rightarrow> nat \<Rightarrow> nat \<Rightarrow> (PrError, byte list) res" where
  "read_bytes payload i 0 = Inr []"
| "read_bytes payload i (Suc n) =
     rbind (byte_at payload i) (\<lambda>b. rbind (read_bytes payload (Suc i) n) (\<lambda>bs. Inr (b # bs)))"

section \<open>Entry points\<close>

definition pr_initialize :: "env \<Rightarrow> address \<Rightarrow> address \<Rightarrow> address \<Rightarrow> proofs \<Rightarrow> (PrError, proofs) res" where
  "pr_initialize e admin core gateway s =
     (if pr_admin s \<noteq> None then Inl (Error AlreadyInitialized)
      else
        rbind (require_auth e admin) (\<lambda>_.
          Inr (s\<lparr>pr_admin := Some admin, pr_core := Some core, pr_gateway := Some gateway\<rparr>)))"

definition set_authorized_emitter :: "env \<Rightarrow> nat \<Rightarrow> bytes32 \<Rightarrow> proofs \<Rightarrow> (PrError, proofs) res" where
  "set_authorized_emitter e chain emitter s =
     rbind (pr_require_admin e s) (\<lambda>_.
       if chain > 65535 then Inl (Error ChainIdOutOfRange)
       else Inr (s\<lparr>pr_emitter := (pr_emitter s)(chain \<mapsto> emitter)\<rparr>))"

definition remove_authorized_emitter :: "env \<Rightarrow> nat \<Rightarrow> proofs \<Rightarrow> (PrError, proofs) res" where
  "remove_authorized_emitter e chain s =
     rbind (pr_require_admin e s) (\<lambda>_. Inr (s\<lparr>pr_emitter := (pr_emitter s)(chain := None)\<rparr>))"

definition set_authorized_axelar_source :: "env \<Rightarrow> string \<Rightarrow> string \<Rightarrow> proofs \<Rightarrow> (PrError, proofs) res" where
  "set_authorized_axelar_source e chain source s =
     rbind (pr_require_admin e s) (\<lambda>_. Inr (s\<lparr>pr_axelar := (pr_axelar s)(chain \<mapsto> source)\<rparr>))"

definition remove_authorized_axelar_source :: "env \<Rightarrow> string \<Rightarrow> proofs \<Rightarrow> (PrError, proofs) res" where
  "remove_authorized_axelar_source e chain s =
     rbind (pr_require_admin e s) (\<lambda>_. Inr (s\<lparr>pr_axelar := (pr_axelar s)(chain := None)\<rparr>))"

definition receive_message :: "(address \<Rightarrow> byte list \<Rightarrow> VaaEnvelope option) \<Rightarrow> env \<Rightarrow> byte list \<Rightarrow> proofs
    \<Rightarrow> (PrError, proofs) res" where
  "receive_message parse_and_verify_vaa e vaa s =
     rbind (need NotInitialized (pr_core s)) (\<lambda>core.
       case parse_and_verify_vaa core vaa of
         None \<Rightarrow> Inl HostTrap
       | Some envelope \<Rightarrow>
           rbind (need EmitterNotAuthorized (pr_emitter s (va_chain envelope))) (\<lambda>authorized.
             if authorized \<noteq> va_address envelope then Inl (Error EmitterNotAuthorized)
             else
               let payload = va_payload envelope
               in if length payload \<noteq> 102 then Inl (Error InvalidPayload)
                  else
                    rbind (to_bytes32 (slice payload 0 32)) (\<lambda>intent_id.
                    rbind (byte_at payload 52) (\<lambda>hi.
                    rbind (byte_at payload 53) (\<lambda>lo.
                      let src_chain_id = chain_of hi lo
                      in if src_chain_id \<noteq> va_chain envelope then Inl (Error EmitterChainMismatch)
                         else if pr_proof s intent_id \<noteq> None then Inl (Error ProofAlreadyExists)
                         else
                           let seq_key = (va_chain envelope, va_sequence envelope)
                           in if pr_seen s seq_key then Inl (Error VaaAlreadyProcessed)
                              else
                                rbind (read_bytes payload 86 16) (\<lambda>amount_bytes.
                                rbind (bytes_to_hex_string (slice payload 32 52)) (\<lambda>src_user.
                                rbind (bytes_to_hex_string (slice payload 54 86)) (\<lambda>src_token.
                                  let r = \<lparr>pf_intent = intent_id, pf_user = src_user, pf_chain = src_chain_id,
                                           pf_token = src_token, pf_amount = to_i128 (be_nat amount_bytes),
                                           pf_sequence = va_sequence envelope, pf_received = now e\<rparr>
                                  in Inr (s\<lparr>pr_proof := (pr_proof s)(intent_id \<mapsto> r),
                                            pr_seen := (pr_seen s)(seq_key := True)\<rparr>)))))))))"

definition receive_message_axelar :: "env \<Rightarrow> string \<Rightarrow> string \<Rightarrow> byte list \<Rightarrow> proofs \<Rightarrow> (PrError, proofs) res" where
  "receive_message_axelar e source_chain source_address payload s =
     (if length payload \<noteq> 102 then Inl (Error InvalidPayload)
      else
        rbind (case pr_axelar s source_chain of
                 Some authorized_source \<Rightarrow>
                   if authorized_source \<noteq> source_address then Inl (Error EmitterNotAuthorized) else Inr ()
               | None \<Rightarrow> Inl (Error EmitterNotAuthorized)) (\<lambda>_.
        rbind (to_bytes32 (slice payload 0 32)) (\<lambda>intent_id.
          if pr_proof s intent_id \<noteq> None then Inl (Error ProofAlreadyExists)
          else
            rbind (byte_at payload 52) (\<lambda>chain_hi.
            rbind (byte_at payload 53) (\<lambda>chain_lo.
            rbind (read_bytes payload 86 16) (\<lambda>amount_bytes.
            rbind (bytes_to_hex_string (slice payload 32 52)) (\<lambda>src_user.
            rbind (bytes_to_hex_string (slice payload 54 86)) (\<lambda>src_token.
              let r = \<lparr>pf_intent = intent_id, pf_user = src_user, pf_chain = chain_of chain_hi chain_lo,
                       pf_token = src_token, pf_amount = to_i128 (be_nat amount_bytes),
                       pf_sequence = 0, pf_received = now e\<rparr>
              in Inr (s\<lparr>pr_proof := (pr_proof s)(intent_id \<mapsto> r)\<rparr>)))))))))"

definition get_proof :: "proofs \<Rightarrow> bytes32 \<Rightarrow> ProofRecord option" where
  "get_proof s intent_id = pr_proof s intent_id"

definition has_proof :: "proofs \<Rightarrow> bytes32 \<Rightarrow> bool" where
  "has_proof s intent_id = (pr_proof s intent_id \<noteq> None)"

definition get_fresh_proof :: "env \<Rightarrow> bytes32 \<Rightarrow> proofs \<Rightarrow> (PrError, ProofRecord) res" where
  "get_fresh_proof e intent_id s =
     rbind (need ProofNotFound (pr_proof s intent_id)) (\<lambda>r.
       if now e < pf_received r then Inl Overflow
       else if now e - pf_received r > PROOF_VALIDITY_WINDOW then Inl (Error ProofStale)
       else Inr r)"

text \<open>The test back-door, compiled only under the \<open>testutils\<close> feature; it is no part of the runs below.\<close>

definition mock_set_proof :: "ProofRecord \<Rightarrow> proofs \<Rightarrow> (PrError, proofs) res" where
  "mock_set_proof r s =
     (if pr_proof s (pf_intent r) \<noteq> None then Inl (Error ProofAlreadyExists)
      else Inr (s\<lparr>pr_proof := (pr_proof s)(pf_intent r \<mapsto> r)\<rparr>))"

definition mock_remove_proof :: "bytes32 \<Rightarrow> proofs \<Rightarrow> proofs" where
  "mock_remove_proof intent_id s = s\<lparr>pr_proof := (pr_proof s)(intent_id := None)\<rparr>"

section \<open>Transactions\<close>

datatype pr_event =
    PrInitialize address address address
  | PrSetEmitter nat bytes32
  | PrRemoveEmitter nat
  | PrSetAxelar string string
  | PrRemoveAxelar string
  | PrReceive "byte list"
  | PrReceiveAxelar string string "byte list"

fun pr_result :: "(address \<Rightarrow> byte list \<Rightarrow> VaaEnvelope option) \<Rightarrow> env \<Rightarrow> pr_event \<Rightarrow> proofs \<Rightarrow> (PrError, proofs) res" where
  "pr_result w e (PrInitialize a c g) s = pr_initialize e a c g s"
| "pr_result w e (PrSetEmitter c em) s = set_authorized_emitter e c em s"
| "pr_result w e (PrRemoveEmitter c) s = remove_authorized_emitter e c s"
| "pr_result w e (PrSetAxelar c src) s = set_authorized_axelar_source e c src s"
| "pr_result w e (PrRemoveAxelar c) s = remove_authorized_axelar_source e c s"
| "pr_result w e (PrReceive vaa) s = receive_message w e vaa s"
| "pr_result w e (PrReceiveAxelar c src payload) s = receive_message_axelar e c src payload s"

definition pr_step :: "(address \<Rightarrow> byte list \<Rightarrow> VaaEnvelope option) \<Rightarrow> env \<Rightarrow> pr_event \<Rightarrow> proofs \<Rightarrow> proofs" where
  "pr_step w e ev s = commit s (pr_result w e ev s)"

definition pr_empty :: proofs where
  "pr_empty = \<lparr>pr_admin = None, pr_core = None, pr_gateway = None, pr_emitter = (\<lambda>_. None),
     pr_proof = (\<lambda>_. None), pr_seen = (\<lambda>_. False), pr_axelar = (\<lambda>_. None), pr_configurator = None\<rparr>"

section \<open>Decoding\<close>

lemma read_bytes_slice: "i + n \<le> length payload \<Longrightarrow> read_bytes payload i n = Inr (take n (drop i payload))"
proof (induction n arbitrary: i)
  case (Suc n)
  then have "drop i payload = payload ! i # drop (Suc i) payload" by (simp add: Cons_nth_drop_Suc)
  with Suc show ?case by (simp add: byte_at_def need_def vec_get_def)
qed simp

lemma chain_of_eq: "chain_of hi lo = unat hi * 256 + unat lo"
proof -
  have "push_bit 8 (ucast hi :: 32 word) AND (ucast lo :: 32 word) = 0"
    by (rule bit_word_eqI) (auto simp: bit_simps dest: bit_imp_le_length)
  then have "push_bit 8 (ucast hi :: 32 word) OR (ucast lo :: 32 word) = push_bit 8 (ucast hi) + ucast lo"
    by (simp add: disjunctive_add_eq_or)
  moreover have "unat (push_bit 8 (ucast hi :: 32 word) + (ucast lo :: 32 word)) = unat hi * 256 + unat lo"
    using unsigned_less [of hi, where 'a = nat] unsigned_less [of lo, where 'a = nat]
    by (simp add: unat_word_ariths push_bit_eq_mult unsigned_ucast_eq take_bit_eq_mod)
  ultimately show ?thesis by (simp add: chain_of_def)
qed

text \<open>The slice that the hex conversion is given never fails it.\<close>

lemma hex_loop_eq: "hex_loop bs buf = buf @ concat (map hex_digits bs)"
  by (induction bs buf rule: hex_loop.induct) simp_all

definition hex :: "byte list \<Rightarrow> string" where
  "hex bs = ''0x'' @ concat (map hex_digits bs)"

lemma bytes_to_hex_eq: "length bs \<le> 32 \<Longrightarrow> bytes_to_hex_string bs = Inr (hex bs)"
  by (simp add: bytes_to_hex_string_def hex_loop_eq hex_def)

definition intent_of :: "byte list \<Rightarrow> bytes32" where
  "intent_of payload = of_nat (be_nat (take 32 payload))"

text \<open>What both receivers store for a payload of the right length.\<close>

definition decoded :: "byte list \<Rightarrow> nat \<Rightarrow> nat \<Rightarrow> ProofRecord" where
  "decoded payload sequence_no t =
     \<lparr>pf_intent = intent_of payload, pf_user = hex (slice payload 32 52),
      pf_chain = unat (payload ! 52) * 256 + unat (payload ! 53), pf_token = hex (slice payload 54 86),
      pf_amount = to_i128 (be_nat (take 16 (drop 86 payload))), pf_sequence = sequence_no, pf_received = t\<rparr>"

lemma payload_parts:
  assumes "length payload = 102"
  shows "to_bytes32 (slice payload 0 32) = Inr (intent_of payload)"
    "byte_at payload 52 = Inr (payload ! 52)" "byte_at payload 53 = Inr (payload ! 53)"
    "read_bytes payload 86 16 = Inr (take 16 (drop 86 payload))"
    "bytes_to_hex_string (slice payload 32 52) = Inr (hex (slice payload 32 52))"
    "bytes_to_hex_string (slice payload 54 86) = Inr (hex (slice payload 54 86))"
  using assms
  by (simp_all add: to_bytes32_def slice_def intent_of_def byte_at_def need_def vec_get_def read_bytes_slice bytes_to_hex_eq)

lemma receive_message_eq:
  "receive_message w e vaa s = Inr s' \<longleftrightarrow>
     (\<exists>core v. pr_core s = Some core \<and> w core vaa = Some v \<and>
        pr_emitter s (va_chain v) = Some (va_address v) \<and> length (va_payload v) = 102 \<and>
        pf_chain (decoded (va_payload v) (va_sequence v) (now e)) = va_chain v \<and>
        pr_proof s (intent_of (va_payload v)) = None \<and> \<not> pr_seen s (va_chain v, va_sequence v) \<and>
        s' = s\<lparr>pr_proof := (pr_proof s)(intent_of (va_payload v) \<mapsto>
                 decoded (va_payload v) (va_sequence v) (now e)),
               pr_seen := (pr_seen s)((va_chain v, va_sequence v) := True)\<rparr>)" (is "?l = ?r")
proof
  assume ?l
  then obtain core v where core: "pr_core s = Some core" "w core vaa = Some v"
    by (auto simp: receive_message_def split: option.splits)
  with \<open>?l\<close> have "length (va_payload v) = 102"
    unfolding receive_message_def Let_def by (auto elim!: guardE)
  note parts = payload_parts [OF this]
  from \<open>?l\<close> core show ?r
    unfolding receive_message_def Let_def
    by (auto simp: parts chain_of_eq decoded_def elim!: guardE intro!: exI [of _ core] exI [of _ v])
next
  assume ?r
  then obtain core v where r: "pr_core s = Some core" "w core vaa = Some v"
    "pr_emitter s (va_chain v) = Some (va_address v)" "length (va_payload v) = 102"
    "pf_chain (decoded (va_payload v) (va_sequence v) (now e)) = va_chain v"
    "pr_proof s (intent_of (va_payload v)) = None" "\<not> pr_seen s (va_chain v, va_sequence v)"
    "s' = s\<lparr>pr_proof := (pr_proof s)(intent_of (va_payload v) \<mapsto> decoded (va_payload v) (va_sequence v) (now e)),
            pr_seen := (pr_seen s)((va_chain v, va_sequence v) := True)\<rparr>" by auto
  from r show ?l
    by (simp add: receive_message_def need_def payload_parts [OF r(4)] chain_of_eq decoded_def Let_def)
qed

lemma receive_axelar_eq:
  "receive_message_axelar e chain source payload s = Inr s' \<longleftrightarrow>
     length payload = 102 \<and> pr_axelar s chain = Some source \<and> pr_proof s (intent_of payload) = None \<and>
     s' = s\<lparr>pr_proof := (pr_proof s)(intent_of payload \<mapsto> decoded payload 0 (now e))\<rparr>"
proof (cases "length payload = 102")
  case True
  show ?thesis
    by (auto simp: receive_message_axelar_def True payload_parts [OF True] chain_of_eq decoded_def Let_def
        split: option.splits if_splits)
qed (simp add: receive_message_axelar_def)

lemma payload_decoders:
  assumes "length payload = 102"
  shows "decode_payload_chain_id payload = Some (pf_chain (decoded payload n t)) \<and>
    decode_payload_src_amount payload = Some (pf_amount (decoded payload n t))"
proof -
  have "drop 52 payload = payload ! 52 # payload ! 53 # drop 54 payload"
    using assms by (simp add: Cons_nth_drop_Suc [symmetric] numeral_eq_Suc)
  then have "take 2 (drop 52 payload) = [payload ! 52, payload ! 53]" by (simp add: numeral_2_eq_2)
  then have "be_nat (take 2 (drop 52 payload)) = unat (payload ! 52) * 256 + unat (payload ! 53)"
    by (simp add: be_nat_def)
  then show ?thesis using assms
    by (simp add: decode_payload_chain_id_def decode_payload_src_amount_def decode_u16_be_def decode_i128_be_def
        field_at_def u32_max_def decoded_def)
qed

section \<open>Properties\<close>

text \<open>
  C35: A message accepted by \<open>receive_message\<close> was verified by the core contract,
  comes from the authorised emitter of its chain, has the exact length, names a new intent and
  a new sequence number, and is stored as the record that its payload encodes; the sequence
  number is marked seen and every other key is unchanged.
\<close>

theorem receive_message_exact:
  assumes "receive_message w e vaa s = Inr s'"
  shows "\<exists>core v. pr_core s = Some core \<and> w core vaa = Some v \<and>
    pr_emitter s (va_chain v) = Some (va_address v) \<and> length (va_payload v) = 102 \<and>
    pr_proof s (intent_of (va_payload v)) = None \<and> \<not> pr_seen s (va_chain v, va_sequence v) \<and>
    s' = s\<lparr>pr_proof := (pr_proof s)(intent_of (va_payload v) \<mapsto>
        \<lparr>pf_intent = intent_of (va_payload v), pf_user = hex (slice (va_payload v) 32 52),
         pf_chain = va_chain v, pf_token = hex (slice (va_payload v) 54 86),
         pf_amount = to_i128 (be_nat (take 16 (drop 86 (va_payload v)))),
         pf_sequence = va_sequence v, pf_received = now e\<rparr>),
      pr_seen := (pr_seen s)((va_chain v, va_sequence v) := True)\<rparr>"
  using assms unfolding receive_message_eq by (elim exE conjE) (rule exI, rule exI, auto simp: decoded_def)

lemma pr_result_keeps:
  assumes "pr_result w e ev s = Inr s'"
  shows "(\<forall>i r. pr_proof s i = Some r \<longrightarrow> pr_proof s' i = Some r) \<and> (\<forall>k. pr_seen s k \<longrightarrow> pr_seen s' k)"
proof (cases ev)
  case (PrInitialize a c g)
  with assms show ?thesis by (auto simp: pr_initialize_def elim!: guardE)
next
  case (PrSetEmitter c em)
  with assms show ?thesis by (auto simp: set_authorized_emitter_def elim!: guardE)
next
  case (PrRemoveEmitter c)
  with assms show ?thesis by (auto simp: remove_authorized_emitter_def)
next
  case (PrSetAxelar c src)
  with assms show ?thesis by (auto simp: set_authorized_axelar_source_def)
next
  case (PrRemoveAxelar c)
  with assms show ?thesis by (auto simp: remove_authorized_axelar_source_def)
next
  case (PrReceive vaa)
  with assms show ?thesis by (auto simp: receive_message_eq)
next
  case (PrReceiveAxelar c src payload)
  with assms show ?thesis by (auto simp: receive_axelar_eq)
qed

lemma pr_step_keeps:
  "(\<forall>i r. pr_proof s i = Some r \<longrightarrow> pr_proof (pr_step w e ev s) i = Some r) \<and>
   (\<forall>k. pr_seen s k \<longrightarrow> pr_seen (pr_step w e ev s) k)"
proof (cases "pr_result w e ev s")
  case (Inr s')
  then have "pr_step w e ev s = s'" by (simp add: pr_step_def)
  with pr_result_keeps [OF Inr] show ?thesis by blast
qed (simp add: pr_step_def)

lemma pr_run_keeps:
  "pr_proof s i = Some r \<Longrightarrow> pr_proof (contract_run (pr_step w) txs s) i = Some r"
  "pr_seen s k \<Longrightarrow> pr_seen (contract_run (pr_step w) txs s) k"
proof (induction txs arbitrary: s)
  case (Cons tx txs)
  obtain e ev where tx: "tx = (e, ev)" by (cases tx)
  {
    case 1
    from Cons.IH(1) [of "pr_step w e ev s"] pr_step_keeps [of s w e ev] 1 show ?case unfolding tx contract_run.simps by blast
  next
    case 2
    from Cons.IH(2) [of "pr_step w e ev s"] pr_step_keeps [of s w e ev] 2 show ?case unfolding tx contract_run.simps by blast
  }
qed simp_all

text \<open>
  C12: Once a message is accepted, in every later run its record stays as stored, and no
  message for the same intent or with the same chain and sequence number is accepted again.
\<close>

theorem proof_never_replayed:
  assumes "receive_message w e vaa s = Inr s'" "pr_core s = Some core" "w core vaa = Some v"
  shows "pr_proof (contract_run (pr_step w) txs s') (intent_of (va_payload v)) =
      pr_proof s' (intent_of (va_payload v)) \<and>
    (\<forall>e' vaa' core' v'. pr_core (contract_run (pr_step w) txs s') = Some core' \<longrightarrow> w core' vaa' = Some v' \<longrightarrow>
       is_ok (receive_message w e' vaa' (contract_run (pr_step w) txs s')) \<longrightarrow>
       intent_of (va_payload v') \<noteq> intent_of (va_payload v) \<and>
       (va_chain v', va_sequence v') \<noteq> (va_chain v, va_sequence v))"
proof -
  let ?t = "contract_run (pr_step w) txs s'"
  from assms have s': "pr_proof s' (intent_of (va_payload v)) = Some (decoded (va_payload v) (va_sequence v) (now e))"
    "pr_seen s' (va_chain v, va_sequence v)" by (auto simp: receive_message_eq)
  note later = pr_run_keeps(1) [OF s'(1), of w txs] pr_run_keeps(2) [OF s'(2), of w txs]
  have "intent_of (va_payload v') \<noteq> intent_of (va_payload v) \<and> (va_chain v', va_sequence v') \<noteq> (va_chain v, va_sequence v)"
    if "pr_core ?t = Some core'" "w core' vaa' = Some v'" "is_ok (receive_message w e' vaa' ?t)" for e' vaa' core' v'
    using that later by (auto simp: is_ok_iff receive_message_eq)
  with later(1) s'(1) show ?thesis by simp
qed

text \<open>
  Anyone can store a fresh proof with any amount through the Axelar entry point: it checks
  that the named source is authorised but not that the message comes from there.
\<close>

theorem axelar_proof_unauthenticated:
  assumes "pr_axelar s chain = Some source" "length payload = 102" "pr_proof s (intent_of payload) = None"
  shows "\<exists>s' r. receive_message_axelar (e\<lparr>authed := \<lambda>_. False\<rparr>) chain source payload s = Inr s' \<and>
    get_fresh_proof e (intent_of payload) s' = Inr r \<and>
    pf_amount r = to_i128 (be_nat (take 16 (drop 86 payload)))"
  using assms by (simp add: receive_axelar_eq get_fresh_proof_def need_def decoded_def)

text \<open>
  The chain and the amount that the proof registry stores are those that the settlement's own
  decoders read from the same payload.
\<close>

theorem proof_decoders_agree:
  assumes "length payload = 102"
  shows "decode_payload_chain_id payload = Some (pf_chain (decoded payload n t)) \<and>
    decode_payload_src_amount payload = Some (pf_amount (decoded payload n t))"
  by (rule payload_decoders [OF assms])

text \<open>Reading hex digits back.\<close>

definition hex_val :: "char \<Rightarrow> nat" where
  "hex_val c = length (takeWhile (\<lambda>d. d \<noteq> c) HEX)"

fun unhex :: "string \<Rightarrow> byte list" where
  "unhex (c # d # cs) = of_nat (hex_val c * 16 + hex_val d) # unhex cs"
| "unhex _ = []"

lemma hex_val_nth: "n < 16 \<Longrightarrow> hex_val (HEX ! n) = n"
proof -
  assume "n < 16"
  then have "n \<in> {0, 1, 2, 3, 4, 5, 6, 7, 8, 9, 10, 11, 12, 13, 14, 15}"
    unfolding insert_iff empty_iff by presburger
  then show ?thesis by (elim insertE emptyE) (simp_all add: hex_val_def HEX_def)
qed

lemma nibbles:
  fixes b :: byte
  shows "unat (drop_bit 4 b) < 16" "unat (b AND 15) < 16"
    "of_nat (unat (drop_bit 4 b) * 16 + unat (b AND 15)) = b"
proof -
  have "unat (drop_bit 4 b) = drop_bit 4 (unat b)" using unsigned_less [of b, where 'a = nat]
    by (simp only: unsigned_drop_bit_eq) (simp add: take_bit_eq_mod)
  then have "unat (drop_bit 4 b) = unat b div 16" by (simp add: drop_bit_eq_div)
  moreover have "unat (b AND 15) = unat b mod 16"
    using take_bit_eq_mask [of 4 "unat b"] by (simp add: unsigned_and_eq take_bit_eq_mod mask_eq_exp_minus_1)
  ultimately show "unat (drop_bit 4 b) < 16" "unat (b AND 15) < 16"
    "of_nat (unat (drop_bit 4 b) * 16 + unat (b AND 15)) = b"
    using unsigned_less [of b, where 'a = nat] by (auto simp: less_mult_imp_div_less)
qed

lemma nibbles_word: "drop_bit 4 b * 16 + (b AND 15) = (b :: byte)"
  using nibbles(3) [of b] by simp

lemma unhex_digits: "unhex (concat (map hex_digits bs)) = bs"
  by (induction bs) (simp_all add: hex_digits_def hex_val_nth nibbles nibbles_word)

text \<open>
  C36: The hexadecimal form of up to 32 bytes starts with \<open>0x\<close>, has two digits
  per byte and decodes back to the bytes.
\<close>

theorem hex_roundtrip:
  assumes "length bs \<le> 32"
  shows "\<exists>h. bytes_to_hex_string bs = Inr h \<and> take 2 h = ''0x'' \<and> unhex (drop 2 h) = bs \<and>
    length h = 2 + 2 * length bs"
proof -
  have "length (concat (map hex_digits bs)) = 2 * length bs"
    by (induction bs) (simp_all add: hex_digits_def)
  with assms show ?thesis by (simp add: bytes_to_hex_eq hex_def unhex_digits)
qed

section \<open>Witnesses\<close>

definition demo_payload :: "byte list" where
  "demo_payload = replicate 52 1 @ [0, 2] @ replicate 32 3 @ replicate 15 0 @ [100]"

definition demo_vaa :: VaaEnvelope where
  "demo_vaa = \<lparr>va_chain = 2, va_address = 77, va_sequence = 5, va_payload = demo_payload\<rparr>"

definition demo_core :: "address \<Rightarrow> byte list \<Rightarrow> VaaEnvelope option" where
  "demo_core core vaa = (if vaa = [1] then Some demo_vaa else None)"

definition demo_proofs :: proofs where
  "demo_proofs = pr_empty\<lparr>pr_admin := Some 1, pr_core := Some 6, pr_emitter := [2 \<mapsto> 77],
     pr_axelar := [''base'' \<mapsto> ''0xabc'']\<rparr>"

lemma demo_payload_length: "length demo_payload = 102"
  by (simp add: demo_payload_def)

lemma demo_receive: "\<exists>s'. receive_message demo_core (plain_env 9) [1] demo_proofs = Inr s'"
proof -
  have "demo_payload ! 52 = 0" "demo_payload ! 53 = 2" by (simp_all add: demo_payload_def nth_append)
  then show ?thesis
    by (simp add: receive_message_eq demo_core_def demo_proofs_def demo_vaa_def demo_payload_length pr_empty_def decoded_def)
qed

theorem receive_message_exact_witness:
  "\<exists>s'. receive_message demo_core (plain_env 9) [1] demo_proofs = Inr s' \<and> pr_seen s' (2, 5)"
proof -
  obtain s' where s': "receive_message demo_core (plain_env 9) [1] demo_proofs = Inr s'" using demo_receive ..
  from receive_message_exact [OF s'] s' show ?thesis
    by (auto simp: demo_core_def demo_vaa_def)
qed

theorem proof_never_replayed_witness:
  "\<exists>s'. receive_message demo_core (plain_env 9) [1] demo_proofs = Inr s' \<and>
     pr_proof (contract_run (pr_step demo_core) [(plain_env 10, PrReceive [1])] s') (intent_of demo_payload) =
     pr_proof s' (intent_of demo_payload)"
proof -
  obtain s' where s': "receive_message demo_core (plain_env 9) [1] demo_proofs = Inr s'" using demo_receive ..
  have "pr_core demo_proofs = Some 6" "demo_core 6 [1] = Some demo_vaa" by (simp_all add: demo_proofs_def demo_core_def)
  from proof_never_replayed [OF s' this, of "[(plain_env 10, PrReceive [1])]"] s' show ?thesis
    by (simp add: demo_vaa_def)
qed

theorem axelar_proof_unauthenticated_witness:
  "\<exists>s'. receive_message_axelar ((plain_env 9)\<lparr>authed := \<lambda>_. False\<rparr>) ''base'' ''0xabc'' demo_payload demo_proofs = Inr s'"
proof -
  have "pr_axelar demo_proofs ''base'' = Some ''0xabc''" "pr_proof demo_proofs (intent_of demo_payload) = None"
    by (simp_all add: demo_proofs_def pr_empty_def)
  from axelar_proof_unauthenticated [OF this(1) demo_payload_length this(2)] show ?thesis by blast
qed

theorem proof_decoders_agree_witness: "decode_payload_chain_id demo_payload = Some 2"
proof -
  have "demo_payload ! 52 = 0" "demo_payload ! 53 = 2" by (simp_all add: demo_payload_def nth_append)
  with proof_decoders_agree [OF demo_payload_length, of 0 0] show ?thesis by (simp add: decoded_def)
qed

theorem hex_roundtrip_witness: "\<exists>h. bytes_to_hex_string [171, 5] = Inr h \<and> unhex (drop 2 h) = [171, 5]"
  using hex_roundtrip [of "[171, 5]"] by auto

end
