(* ===== verification/Proven_Fills.thy ===== *)
theory Proven_Fills
  imports Proof_Registry Settlement_Money
begin

text \<open>
  Fills that ask for a proof of the deposit: the settlement contract reads the proof registry
  it is configured with, and the registry holds what bridge messages brought in. The settlement's
  parameter \<open>w_proof\<close> is instantiated with the registry's own view.
\<close>

section \<open>The registry behind the settlement\<close>

definition proof_calls :: "proofs \<Rightarrow> world \<Rightarrow> world" where
  "proof_calls p w = w\<lparr>w_proof := (\<lambda>_ i. map_option (\<lambda>r. (pf_chain r, pf_amount r)) (get_proof p i))\<rparr>"

text \<open>The payload a transaction of the registry brings in, when it is a message.\<close>

definition carries :: "(address \<Rightarrow> byte list \<Rightarrow> VaaEnvelope option) \<Rightarrow> pr_event \<Rightarrow> byte list \<Rightarrow> bool" where
  "carries core ev payload \<longleftrightarrow>
     (\<exists>vaa a v. ev = PrReceive vaa \<and> core a vaa = Some v \<and> va_payload v = payload) \<or>
     (\<exists>chain source. ev = PrReceiveAxelar chain source payload)"

lemma pr_step_origin:
  assumes "pr_proof (pr_step core e ev p) i = Some r"
  shows "pr_proof p i = Some r \<or>
    (\<exists>payload n. carries core ev payload \<and> length payload = 102 \<and> intent_of payload = i \<and> r = decoded payload n (now e))"
proof (cases "pr_result core e ev p")
  case (Inr p')
  with assms have p': "pr_proof p' i = Some r" by (simp add: pr_step_def)
  show ?thesis
  proof (cases ev)
    case (PrReceive vaa)
    with Inr have "receive_message core e vaa p = Inr p'" by simp
    then obtain a v where v: "core a vaa = Some v" "length (va_payload v) = 102"
      "pr_proof p' = (pr_proof p)(intent_of (va_payload v) \<mapsto> decoded (va_payload v) (va_sequence v) (now e))"
      by (auto simp: receive_message_eq)
    then have "carries core ev (va_payload v)" by (auto simp: carries_def PrReceive)
    with p' v show ?thesis by (cases "i = intent_of (va_payload v)") auto
  next
    case (PrReceiveAxelar c src payload)
    with Inr have "receive_message_axelar e c src payload p = Inr p'" by simp
    with p' show ?thesis by (auto simp: receive_axelar_eq carries_def PrReceiveAxelar split: if_splits)
  qed (use Inr p' in \<open>auto simp: pr_initialize_def set_authorized_emitter_def remove_authorized_emitter_def
      set_authorized_axelar_source_def remove_authorized_axelar_source_def split: if_splits elim!: rbindE\<close>)
qed (use assms in \<open>simp add: pr_step_def\<close>)

lemma pr_run_origin:
  "pr_proof (contract_run (pr_step core) txs pr_empty) i = Some r \<Longrightarrow>
     \<exists>e ev payload n. (e, ev) \<in> set txs \<and> carries core ev payload \<and> length payload = 102 \<and> intent_of payload = i \<and>
       r = decoded payload n (now e)"
proof (induction txs rule: rev_induct)
  case (snoc tx txs)
  obtain e ev where tx: "tx = (e, ev)" by (cases tx)
  let ?p = "contract_run (pr_step core) txs pr_empty"
  from snoc.prems have "pr_proof (pr_step core e ev ?p) i = Some r" by (simp add: contract_run_append tx)
  from pr_step_origin [OF this] show ?case
  proof
    assume "pr_proof ?p i = Some r"
    from snoc.IH [OF this] show ?thesis by auto
  next
    assume "\<exists>payload n. carries core ev payload \<and> length payload = 102 \<and> intent_of payload = i \<and> r = decoded payload n (now e)"
    then show ?thesis unfolding tx by force
  qed
qed (simp add: pr_empty_def)

lemma fill_needs_proof:
  assumes "fill_intent w e a i v True s = Inr (s', tr)" "bk_intents (book s) i = Some r"
  shows "\<exists>u. validate_proof w s r i = Inr u"
  using assms unfolding fill_intent_def fill_intent_inner_def
  by (elim rbindE guardE guard_sumE) (auto simp: load_intent_def elim!: rbindE split: if_splits sum.splits)

lemma validate_proof_Inr:
  assumes "validate_proof (proof_calls p w) s r i = Inr u"
  shows "\<exists>q. pr_proof p i = Some q \<and> wormhole_chain_id (in_src_chain r) = Inr (pf_chain q) \<and> in_src_amount r \<le> pf_amount q"
  using assms by (auto simp: validate_proof_def proof_calls_def get_proof_def split: if_splits elim!: rbindE)

lemma proven_fill:
  assumes "bk_intents (book s) i = Some r" "validate_proof w s r i = Inr ()"
  shows "fill_intent w e a i v True s = fill_intent w e a i v False s"
  using assms by (simp add: fill_intent_def fill_intent_inner_def load_intent_def need_def cong: sum.case_cong if_cong)

lemma proof_calls_price: "fetch_price (proof_calls p w) = fetch_price w"
  by (intro ext) (simp add: fetch_price_def proof_calls_def)

lemma proof_calls_quiet [simp]:
  "exposure_notional (proof_calls p w) e s d b x = exposure_notional w e s d b x" "add_to_open_intent_list (proof_calls p w) j s = add_to_open_intent_list w j s"
  unfolding exposure_notional_def weight_bps_def proof_calls_price
  by (simp_all add: proof_calls_def add_to_open_intent_list_def)

lemma unproven_fill: "fill_intent (proof_calls p w) e a i v False s = fill_intent w e a i v False s"
  by (simp add: fill_intent_def fill_intent_inner_def cong: sum.case_cong if_cong)

section \<open>Properties\<close>

text \<open>
  C9: When a fill that asks for a proof succeeds, and the settlement reads the proofs from a
  registry that any run of transactions has brought about, one of those transactions was a
  bridge message for this intent whose payload names the order's source chain and a deposit of
  at least the order's source amount.
\<close>

theorem proven_fill_has_message:
  assumes "contract_run (pr_step core) txs pr_empty = p" "bk_intents (book s) i = Some r"
    "fill_intent (proof_calls p w) e solver i amount True s = Inr (s', tr)"
  shows "\<exists>pe ev payload chain deposited. (pe, ev) \<in> set txs \<and> carries core ev payload \<and> intent_of payload = i \<and>
    decode_payload_chain_id payload = Some chain \<and> wormhole_chain_id (in_src_chain r) = Inr chain \<and>
    decode_payload_src_amount payload = Some deposited \<and> in_src_amount r \<le> deposited"
proof -
  from fill_needs_proof [OF assms(3,2)] validate_proof_Inr obtain q where q: "pr_proof p i = Some q"
    "wormhole_chain_id (in_src_chain r) = Inr (pf_chain q)" "in_src_amount r \<le> pf_amount q" by blast
  from pr_run_origin [OF q(1) [folded assms(1)]] obtain pe ev payload n where o: "(pe, ev) \<in> set txs"
    "carries core ev payload" "length payload = 102" "intent_of payload = i" "q = decoded payload n (now pe)" by blast
  from payload_decoders [OF o(3), of n "now pe"] o q show ?thesis by blast
qed

section \<open>A stale proof\<close>

text \<open>
  A message for order 9 arrives at the time 600; the order is submitted, accepted and filled at
  the time 10000, long after the registry's validity window.
\<close>

definition pf_payload :: "byte list" where
  "pf_payload = (replicate 31 0 @ [9]) @ replicate 20 1 @ [0, 4] @ replicate 32 3 @ (replicate 15 0 @ [100])"

definition pf_core :: "address \<Rightarrow> byte list \<Rightarrow> VaaEnvelope option" where
  "pf_core _ _ = Some \<lparr>va_chain = 4, va_address = 77, va_sequence = 5, va_payload = pf_payload\<rparr>"

definition pf_messages :: "(env \<times> pr_event) list" where
  "pf_messages = [(plain_env 500, PrInitialize 1 70 71), (plain_env 500, PrSetEmitter 4 77), (plain_env 600, PrReceive [])]"

definition pf_proofs :: proofs where
  "pf_proofs = contract_run (pr_step pf_core) pf_messages pr_empty"

definition pf_orders :: "(env \<times> world \<times> st_event) list" where
  "pf_orders = map (\<lambda>ev. (plain_env 10000, demo_world, ev))
     [Admin (AInit 1 2 3), Admin (ASetProofRegistry 40), Register 8 600000000,
      Submit 7 ''bsc'' ''x'' 100 4 50 None None, AcceptIntent 8 9]"

lemma be_nat_zeros: "be_nat (replicate n 0 @ [x]) = unat x"
  by (induction n) (simp_all add: be_nat_def)

lemma pf_payload_length: "length pf_payload = 102"
  by (simp add: pf_payload_def)

lemma pf_payload_intent: "intent_of pf_payload = 9"
proof -
  have "take 32 pf_payload = replicate 31 0 @ [9]" by (simp add: pf_payload_def)
  then show ?thesis by (simp add: intent_of_def be_nat_zeros)
qed

lemma pf_payload_fields:
  "pf_chain (decoded pf_payload n t) = 4" "pf_amount (decoded pf_payload n t) = 100" "pf_received (decoded pf_payload n t) = t"
proof -
  have "pf_payload ! 52 = 0" "pf_payload ! 53 = 4" by (simp_all add: pf_payload_def nth_append)
  moreover have "take 16 (drop 86 pf_payload) = replicate 15 0 @ [100]" by (simp add: pf_payload_def)
  ultimately show "pf_chain (decoded pf_payload n t) = 4" "pf_amount (decoded pf_payload n t) = 100"
    "pf_received (decoded pf_payload n t) = t"
    by (simp_all add: decoded_def be_nat_zeros to_i128_def)
qed

lemma pf_proofs_stored: "pr_proof pf_proofs 9 = Some (decoded pf_payload 5 600)"
proof -
  let ?p = "contract_run (pr_step pf_core) (take 2 pf_messages) pr_empty"
  have p: "pr_core ?p = Some 70" "pr_emitter ?p = [4 \<mapsto> 77]" "pr_proof ?p = Map.empty" "pr_seen ?p = (\<lambda>_. False)"
    by (simp_all add: pf_messages_def pr_step_def pr_initialize_def set_authorized_emitter_def pr_require_admin_def
        pr_empty_def need_def require_auth_def)
  have "receive_message pf_core (plain_env 600) [] ?p =
      Inr (?p\<lparr>pr_proof := [9 \<mapsto> decoded pf_payload 5 600], pr_seen := (\<lambda>_. False)((4, 5) := True)\<rparr>)"
    unfolding receive_message_eq using p
    by (simp add: pf_core_def pf_payload_length pf_payload_fields pf_payload_intent)
  then have "pr_step pf_core (plain_env 600) (PrReceive []) ?p =
      ?p\<lparr>pr_proof := [9 \<mapsto> decoded pf_payload 5 600], pr_seen := (\<lambda>_. False)((4, 5) := True)\<rparr>"
    by (simp add: pr_step_def)
  moreover have "pf_proofs = pr_step pf_core (plain_env 600) (PrReceive []) ?p"
    by (simp add: pf_proofs_def pf_messages_def)
  ultimately have eq: "pf_proofs = ?p\<lparr>pr_proof := [9 \<mapsto> decoded pf_payload 5 600], pr_seen := (\<lambda>_. False)((4, 5) := True)\<rparr>"
    by (rule trans [rotated])
  show ?thesis unfolding eq by simp
qed

lemma pf_accepted:
  "\<exists>r. bk_intents (book (st_run pf_orders st_empty)) 9 = Some r \<and> in_src_chain r = ''bsc'' \<and> in_src_amount r = 100"
  "ro_proof_registry (roles (st_run pf_orders st_empty)) = Some 40"
  by (simp_all add: pf_orders_def set_proof_registry_def by_admin_def st_require_admin_def upd_roles_def eval_run)

lemma pf_filled_plain:
  "\<exists>s' tr. fill_intent demo_world (plain_env 10000) 8 9 60 False (st_run pf_orders st_empty) = Inr (s', tr)"
  by (simp add: pf_orders_def set_proof_registry_def by_admin_def st_require_admin_def upd_roles_def eval_run)

lemma pf_filled:
  "\<exists>s' tr. fill_intent (proof_calls pf_proofs demo_world) (plain_env 10000) 8 9 60 True (st_run pf_orders st_empty) = Inr (s', tr)"
proof -
  from pf_accepted obtain r where r: "bk_intents (book (st_run pf_orders st_empty)) 9 = Some r"
    "in_src_chain r = ''bsc''" "in_src_amount r = 100" by blast
  have "validate_proof (proof_calls pf_proofs demo_world) (st_run pf_orders st_empty) r 9 = Inr ()"
    by (simp add: validate_proof_def need_def pf_accepted(2) proof_calls_def get_proof_def pf_proofs_stored
        pf_payload_fields r wormhole_chain_id_def)
  with pf_filled_plain show ?thesis by (simp add: proven_fill [OF r(1)] unproven_fill)
qed

theorem proven_fill_has_message_witness:
  "\<exists>pe ev payload chain deposited. (pe, ev) \<in> set pf_messages \<and> carries pf_core ev payload \<and> intent_of payload = 9 \<and>
    decode_payload_chain_id payload = Some chain \<and> wormhole_chain_id ''bsc'' = Inr chain \<and>
    decode_payload_src_amount payload = Some deposited \<and> 100 \<le> deposited"
proof -
  from pf_accepted obtain r where r: "bk_intents (book (st_run pf_orders st_empty)) 9 = Some r"
    "in_src_chain r = ''bsc''" "in_src_amount r = 100" by blast
  from pf_filled obtain s' tr where "fill_intent (proof_calls pf_proofs demo_world) (plain_env 10000) 8 9 60 True
      (st_run pf_orders st_empty) = Inr (s', tr)" by blast
  from proven_fill_has_message [OF pf_proofs_def [symmetric] r(1) this] show ?thesis
    by (simp add: r)
qed

text \<open>
  A proof that the registry calls stale still lets an order be filled: the settlement reads it
  with \<open>get_proof\<close>, not with \<open>get_fresh_proof\<close>.
\<close>

theorem stale_proof_fills:
  "get_fresh_proof (plain_env 10000) 9 pf_proofs = Inl (Error ProofStale) \<and>
   (\<exists>s' tr. fill_intent (proof_calls pf_proofs demo_world) (plain_env 10000) 8 9 60 True (st_run pf_orders st_empty) = Inr (s', tr))"
proof
  show "get_fresh_proof (plain_env 10000) 9 pf_proofs = Inl (Error ProofStale)"
    by (simp add: get_fresh_proof_def need_def pf_proofs_stored pf_payload_fields PROOF_VALIDITY_WINDOW_def)
qed (rule pf_filled)

end
