(* ===== verification/Settlement_Counters.thy ===== *)
theory Settlement_Counters
  imports Settlement_Roles
begin

text \<open>
  The counters and aggregate views of the settlement contract: how many intents were submitted,
  how many are waiting for a solver, how many solvers are registered. Every entry point keeps
  each counter equal to the number of records it stands for.
\<close>

section \<open>The views\<close>

definition st_get_stats :: "settlement \<Rightarrow> nat \<times> int \<times> nat" where
  "st_get_stats s = (nat0 (bk_total (book s)), or0 (bk_volume (book s)), nat0 (bk_open (book s)))"

record ProtocolHealth =
  ph_paused :: bool
  ph_total_intents :: nat
  ph_total_volume :: int
  ph_total_solvers :: nat
  ph_total_bonded :: int

definition st_get_protocol_health :: "settlement \<Rightarrow> ProtocolHealth" where
  "st_get_protocol_health s =
     \<lparr>ph_paused = (case ro_paused (roles s) of None \<Rightarrow> False | Some b \<Rightarrow> b),
      ph_total_intents = nat0 (bk_total (book s)), ph_total_volume = or0 (bk_volume (book s)),
      ph_total_solvers = nat0 (bo_total_solvers (bonds s)), ph_total_bonded = or0 (bo_total_bonded (bonds s))\<rparr>"

definition st_get_solver_count :: "settlement \<Rightarrow> nat" where
  "st_get_solver_count s = nat0 (bo_total_solvers (bonds s))"

section \<open>What the counters stand for\<close>

text \<open>An intent that a solver may accept.\<close>

definition awaiting :: "IntentRecord \<Rightarrow> bool" where
  "awaiting r \<longleftrightarrow> in_state r = Open \<or> in_state r = PartiallyFilled"

definition awaiting_ids :: "settlement \<Rightarrow> bytes32 set" where
  "awaiting_ids s = {i. \<exists>r. bk_intents (book s) i = Some r \<and> awaiting r}"

definition counts_ok :: "settlement \<Rightarrow> bool" where
  "counts_ok s \<longleftrightarrow>
     finite (dom (bk_intents (book s))) \<and> finite (dom (bk_tombstone (book s))) \<and>
     nat0 (bk_total (book s)) = card (dom (bk_intents (book s))) + card (dom (bk_tombstone (book s))) \<and>
     nat0 (bk_open (book s)) = card (awaiting_ids s)"

definition roster_ok :: "settlement \<Rightarrow> bool" where
  "roster_ok s \<longleftrightarrow> finite (dom (bo_solvers (bonds s))) \<and>
     nat0 (bo_total_solvers (bonds s)) = card (dom (bo_solvers (bonds s)))"

text \<open>Nothing is recorded before the contract is set up.\<close>

definition blank_ok :: "settlement \<Rightarrow> bool" where
  "blank_ok s \<longleftrightarrow> (ro_admin (roles s) = None \<longrightarrow> bo_token (bonds s) = None) \<and>
     (bo_token (bonds s) = None \<longrightarrow> bk_intents (book s) = Map.empty \<and> bk_tombstone (book s) = Map.empty \<and>
        bo_solvers (bonds s) = Map.empty)"

lemma card_awaiting_upd:
  assumes "finite (dom (bk_intents (book s)))" "bk_intents (book s) i = Some r"
    "bk_intents (book s') = (bk_intents (book s))(i \<mapsto> r')"
  shows "card (awaiting_ids s') = card (awaiting_ids s) + of_bool (awaiting r') - of_bool (awaiting r)"
proof -
  have fin: "finite (awaiting_ids s)"
    by (rule finite_subset [OF _ assms(1)]) (auto simp: awaiting_ids_def)
  have "awaiting_ids s' = (if awaiting r' then insert i (awaiting_ids s) else awaiting_ids s - {i})"
    using assms(3) by (auto simp: awaiting_ids_def split: if_splits)
  moreover have "i \<in> awaiting_ids s \<longleftrightarrow> awaiting r"
    using assms(2) by (simp add: awaiting_ids_def)
  ultimately show ?thesis using fin
    by (cases "awaiting r"; cases "awaiting r'"; simp add: card_insert_if insert_absorb)
qed

section \<open>Steps that keep them\<close>

text \<open>One intent changes, and the open counter follows its state.\<close>

definition recounts :: "settlement \<Rightarrow> settlement \<Rightarrow> bool" where
  "recounts s s' \<longleftrightarrow> (\<exists>i r r'. bk_intents (book s) i = Some r \<and>
     bk_intents (book s') = (bk_intents (book s))(i \<mapsto> r') \<and> bk_tombstone (book s') = bk_tombstone (book s) \<and>
     bk_total (book s') = bk_total (book s) \<and>
     nat0 (bk_open (book s')) = nat0 (bk_open (book s)) + of_bool (awaiting r') - of_bool (awaiting r))"

definition same_counts :: "settlement \<Rightarrow> settlement \<Rightarrow> bool" where
  "same_counts s s' \<longleftrightarrow> bk_intents (book s') = bk_intents (book s) \<and> bk_tombstone (book s') = bk_tombstone (book s) \<and>
     bk_total (book s') = bk_total (book s) \<and> bk_open (book s') = bk_open (book s)"

text \<open>What the solver counter depends on.\<close>

definition roster :: "settlement \<Rightarrow> address set \<times> nat option \<times> address option" where
  "roster s = (dom (bo_solvers (bonds s)), bo_total_solvers (bonds s), bo_token (bonds s))"

lemma recounts_ok: "recounts s s' \<Longrightarrow> counts_ok s \<Longrightarrow> counts_ok s'"
  unfolding recounts_def counts_ok_def by (auto simp: insert_absorb domI card_awaiting_upd)

lemma same_counts_ok: "same_counts s s' \<Longrightarrow> counts_ok s \<Longrightarrow> counts_ok s'"
  by (simp add: same_counts_def counts_ok_def awaiting_ids_def)

lemma roster_ok_kept: "roster s' = roster s \<Longrightarrow> roster_ok s \<Longrightarrow> roster_ok s'"
  by (simp add: roster_def roster_ok_def)

text \<open>The record an intent ends up with is read off the new table, so the rule fits every branch.\<close>

lemma recountsI:
  assumes "load_intent s i = Inr r"
    "bk_intents (book s') = (bk_intents (book s))(i \<mapsto> the (bk_intents (book s') i))"
    "bk_tombstone (book s') = bk_tombstone (book s)" "bk_total (book s') = bk_total (book s)"
    "nat0 (bk_open (book s')) =
       nat0 (bk_open (book s)) + of_bool (awaiting (the (bk_intents (book s') i))) - of_bool (awaiting r)"
  shows "recounts s s'"
  using assms unfolding recounts_def load_intent_def by auto

text \<open>The helpers that touch only the bonds.\<close>

lemma book_kept:
  "set_solver_bond_amount s r t v = Inr p \<Longrightarrow> book (fst p) = book s"
  "solver_leaves a i s = Inr s1 \<Longrightarrow> book s1 = book s"
  "take_exposure w e c a q r' s = Inr s2 \<Longrightarrow> book s2 = book s"
  "slash_payout e c t v s = Inr (s3, tr) \<Longrightarrow> book s3 = book s"
  "count_new_solver a s = Inr s4 \<Longrightarrow> book s4 = book s"
  by (auto simp: set_solver_bond_amount_def solver_leaves_def take_exposure_def slash_payout_def
      count_new_solver_def set_exposure_def Let_def split: if_splits)

lemmas counter_defs = helper_defs ctx_commit_def ctx_load_def decrement_open_intents_def increment_open_intents_def
  add_volume_def awaiting_def Let_def

lemma accept_intent_body_recounts: "accept_intent_body w e a i b s = Inr s' \<Longrightarrow> recounts s s'"
  unfolding accept_intent_body_def Let_def
  by (elim rbindE guardE, erule recountsI) (auto simp: counter_defs dest!: book_kept)

lemma cancel_intent_core_recounts: "cancel_intent_core e u i s = Inr s' \<Longrightarrow> recounts s s'"
  unfolding cancel_intent_core_def Let_def
  by (elim rbindE guardE, erule recountsI) (auto simp: counter_defs)

lemma amend_intent_recounts: "amend_intent e u i m d s = Inr s' \<Longrightarrow> recounts s s'"
  unfolding amend_intent_def Let_def
  by (elim rbindE guardE, erule recountsI) (auto simp: counter_defs)

lemma expire_intent_recounts: "expire_intent e i s = Inr s' \<Longrightarrow> recounts s s'"
  unfolding expire_intent_def Let_def
  by (elim rbindE guardE, erule recountsI) (auto simp: counter_defs)

lemma dispute_fill_recounts: "dispute_fill e u i s = Inr s' \<Longrightarrow> recounts s s'"
  unfolding dispute_fill_def Let_def
  by (elim rbindE guardE, erule recountsI) (auto simp: counter_defs)

lemma request_extension_recounts: "request_extension w e a i s = Inr s' \<Longrightarrow> recounts s s'"
  unfolding request_extension_def Let_def
  by (elim rbindE guardE, erule recountsI) (auto simp: counter_defs)

lemma fill_intent_inner_recounts: "fill_intent_inner w e a i v p s = Inr (s', tr) \<Longrightarrow> recounts s s'"
  unfolding fill_intent_inner_def Let_def split_beta
  by (elim rbindE guardE guard_sumE; erule fill_outcomeE; erule recountsI)
    (auto simp: counter_defs check_fill_guards_Inr dest!: book_kept)

lemma slash_solver_recounts: "slash_solver w e i s = Inr (s', tr) \<Longrightarrow> recounts s s'"
  unfolding slash_solver_def Let_def split_beta
  by (elim rbindE guardE, erule recountsI; drule book_kept(4)) (auto simp: counter_defs dest!: book_kept)

text \<open>Settling bids does not count as the other entry points do, but needs an intent that takes bids.\<close>

lemma settle_bids_bidding:
  "settle_bids e i s = Inr s' \<Longrightarrow> \<exists>r. bk_intents (book s) i = Some r \<and> in_state r = Bidding"
  unfolding settle_bids_def by (auto simp: load_intent_def split: if_splits)

lemma begin_fill_recounts: "begin_fill e a i v s = Inr (s', tr) \<Longrightarrow> recounts s s'"
  unfolding begin_fill_def Let_def split_beta
  by (elim rbindE guardE condE; erule recountsI) (auto simp: counter_defs)

lemma resolve_dispute_recounts: "resolve_dispute e a i q s = Inr (s', tr) \<Longrightarrow> recounts s s'"
  unfolding resolve_dispute_def uphold_def Let_def split_beta
  by (cases q; simp only: DisputeResolution.case; elim rbindE guardE condE; erule recountsI)
    (auto simp: counter_defs dest!: book_kept)

lemma release_fill_recounts: "release_fill e i s = Inr (s', tr) \<Longrightarrow> recounts s s'"
  unfolding release_fill_def Let_def split_beta
  by (elim rbindE release_caseE guardE; erule recountsI) (auto simp: counter_defs)

section \<open>The roster of solvers\<close>

lemma roster_simps [simp]:
  "roster (save_intent i r t) = roster t" "roster (set_open n t) = roster t" "roster (set_volume v t) = roster t"
  "roster (set_exposure a v t) = roster t" "roster (set_total_bonded v t) = roster t"
  "roster (adjust_token_liabilities w a v t) = roster t" "roster (add_to_open_intent_list w i t) = roster t"
  "roster (remove_from_open_intent_list w i t) = roster t" "roster (release_exposure a v t) = roster t"
  "roster (stamp_cancel_cooldown a n t) = roster t" "roster (stamp_amendment_cooldown a n t) = roster t"
  "roster (upd_roles p t) = roster t" "roster (upd_allow l t) = roster t" "roster (upd_extra g t) = roster t"
  "roster (ctx_commit c t) = roster t" "roster (t\<lparr>book := k\<rparr>) = roster t"
  "roster (save_solver a q t) = (insert a (fst (roster t)), snd (roster t))"
  by (auto simp: roster_def helper_defs ctx_commit_def Let_def)

lemma roster_member: "bo_solvers (bonds s) a = Some q \<Longrightarrow> insert a (fst (roster s)) = fst (roster s)"
  "load_solver s a = Inr q \<Longrightarrow> insert a (fst (roster s)) = fst (roster s)"
  by (auto simp: roster_def load_solver_def)

lemma roster_bonds:
  "roster (s\<lparr>bonds := (bonds s)\<lparr>bo_extra := x\<rparr>\<rparr>) = roster s" "roster (s\<lparr>bonds := (bonds s)\<lparr>bo_intents := l\<rparr>\<rparr>) = roster s"
  "roster (s\<lparr>bonds := (bonds s)\<lparr>bo_pool := p\<rparr>\<rparr>) = roster s"
  by (simp_all add: roster_def)

lemma roster_kept:
  "set_solver_bond_amount s r t v = Inr p \<Longrightarrow> roster (fst p) = roster s"
  "solver_leaves a i s = Inr s1 \<Longrightarrow> roster s1 = roster s"
  "take_exposure w e c a q r' s = Inr s2 \<Longrightarrow> roster s2 = roster s"
  "slash_payout e c t v s = Inr (s3, tr) \<Longrightarrow> roster s3 = roster s"
  "user_intents_append u i s = Inr s5 \<Longrightarrow> roster s5 = roster s"
  unfolding set_solver_bond_amount_def solver_leaves_def take_exposure_def slash_payout_def user_intents_append_def Let_def
  by (auto simp: roster_bonds elim!: rbindE guardE condE)

lemma accept_intent_body_roster: "accept_intent_body w e a i b s = Inr s' \<Longrightarrow> roster s' = roster s"
  unfolding accept_intent_body_def Let_def
  by (elim rbindE guardE) (auto simp: roster_bonds dest!: roster_kept roster_member)

lemma fill_intent_inner_roster: "fill_intent_inner w e a i v p s = Inr (s', tr) \<Longrightarrow> roster s' = roster s"
  unfolding fill_intent_inner_def Let_def split_beta
  by (elim rbindE guardE guard_sumE; erule fill_outcomeE) (auto dest!: roster_kept roster_member)

lemma slash_solver_roster: "slash_solver w e i s = Inr (s', tr) \<Longrightarrow> roster s' = roster s"
  unfolding slash_solver_def Let_def split_beta
  by (elim rbindE guardE; drule roster_kept(4)) (auto dest!: roster_kept roster_member)

lemma resolve_dispute_roster: "resolve_dispute e a i q s = Inr (s', tr) \<Longrightarrow> roster s' = roster s"
  unfolding resolve_dispute_def uphold_def Let_def split_beta
  by (cases q; simp only: DisputeResolution.case; elim rbindE guardE condE) (auto dest!: roster_kept roster_member)

lemma release_fill_roster: "release_fill e i s = Inr (s', tr) \<Longrightarrow> roster s' = roster s"
  unfolding release_fill_def Let_def split_beta
  by (elim rbindE release_caseE guardE) (auto dest!: roster_kept roster_member)

lemma withdraw_bond_inner_roster: "withdraw_bond_inner e a t v s = Inr (s', tr) \<Longrightarrow> roster s' = roster s"
  unfolding withdraw_bond_inner_def Let_def split_beta
  by (elim rbindE guardE) (auto dest!: roster_kept roster_member)

lemma settle_bids_roster: "settle_bids e i s = Inr s' \<Longrightarrow> roster s' = roster s"
  unfolding settle_bids_def Let_def
  by (elim rbindE guardE case_optionE) (auto dest!: roster_kept roster_member)

lemma submit_intent_inner_roster: "submit_intent_inner w e u c q v d m dl rf s = Inr (s', i) \<Longrightarrow> roster s' = roster s"
  unfolding submit_intent_inner_def Let_def
  by (elim rbindE guardE case_optionE; (simp; fail)?) (auto dest!: roster_kept)

lemma book_roster:
  "cancel_intent_core e u i s = Inr s1 \<Longrightarrow> roster s1 = roster s"
  "amend_intent e u i m d s = Inr s2 \<Longrightarrow> roster s2 = roster s"
  "expire_intent e i s = Inr s3 \<Longrightarrow> roster s3 = roster s"
  "dispute_fill e u i s = Inr s4 \<Longrightarrow> roster s4 = roster s"
  "request_extension w e a i s = Inr s5 \<Longrightarrow> roster s5 = roster s"
  "begin_fill e a i v s = Inr (s6, tr) \<Longrightarrow> roster s6 = roster s"
  "bid_intent e a i v s = Inr s7 \<Longrightarrow> roster s7 = roster s"
  "close_intent e i s = Inr s8 \<Longrightarrow> roster s8 = roster s"
  unfolding cancel_intent_core_def amend_intent_def expire_intent_def dispute_fill_def request_extension_def
    begin_fill_def bid_intent_def close_intent_def Let_def split_beta
  by (elim rbindE guardE condE case_optionE; auto dest!: roster_kept)+

section \<open>Every transaction\<close>

text \<open>A transaction that changes one intent needs the contract to be set up, because there is an intent.\<close>

lemma recounts_blank:
  assumes "recounts s s'" "roster s' = roster s" "roles s' = roles s" "blank_ok s"
  shows "blank_ok s'"
  using assms unfolding recounts_def blank_ok_def roster_def by auto

definition keeps_books :: "settlement \<Rightarrow> settlement \<Rightarrow> bool" where
  "keeps_books s s' \<longleftrightarrow> (counts_ok s \<and> roster_ok s \<and> blank_ok s \<longrightarrow> counts_ok s' \<and> roster_ok s' \<and> blank_ok s')"

lemma keeps_refl [simp]: "keeps_books s s"
  by (simp add: keeps_books_def)

lemma keeps_trans: "keeps_books s s1 \<Longrightarrow> keeps_books s1 s2 \<Longrightarrow> keeps_books s s2"
  by (simp add: keeps_books_def)

lemma recounts_keeps:
  assumes "recounts s s'" "roster s' = roster s" "moves e s s'"
  shows "keeps_books s s'"
  using recounts_ok [OF assms(1)] roster_ok_kept [OF assms(2)] recounts_blank [OF assms(1,2)] assms(3)
  by (simp add: keeps_books_def moves_def settings_def)

lemma same_keeps:
  assumes "same_counts s s'" "roster s' = roster s" "roles s' = roles s"
  shows "keeps_books s s'"
  using assms same_counts_ok [OF assms(1)] roster_ok_kept [OF assms(2)]
  by (auto simp: keeps_books_def blank_ok_def same_counts_def roster_def)

lemma intent_keeps:
  "accept_intent_body w e a i b s = Inr s1 \<Longrightarrow> keeps_books s s1"
  "cancel_intent_core e a i s = Inr s2 \<Longrightarrow> keeps_books s s2"
  "amend_intent e a i v d s = Inr s3 \<Longrightarrow> keeps_books s s3"
  "expire_intent e i s = Inr s4 \<Longrightarrow> keeps_books s s4"
  "dispute_fill e a i s = Inr s5 \<Longrightarrow> keeps_books s s5"
  "request_extension w e a i s = Inr s6 \<Longrightarrow> keeps_books s s6"
  "fill_intent_inner w e a i v p s = Inr (s7, tr) \<Longrightarrow> keeps_books s s7"
  "slash_solver w e i s = Inr (s8, tr) \<Longrightarrow> keeps_books s s8"
  "begin_fill e a i v s = Inr (s9, tr) \<Longrightarrow> keeps_books s s9"
  "resolve_dispute e a i q s = Inr (s10, tr) \<Longrightarrow> keeps_books s s10"
  "release_fill e i s = Inr (s11, tr) \<Longrightarrow> keeps_books s s11"
  by (rule recounts_keeps; erule accept_intent_body_recounts accept_intent_body_roster accept_intent_body_moves
        cancel_intent_core_recounts cancel_intent_core_moves amend_intent_recounts amend_intent_moves
        expire_intent_recounts expire_intent_moves dispute_fill_recounts dispute_fill_moves
        request_extension_recounts request_extension_moves fill_intent_inner_recounts fill_intent_inner_roster
        fill_intent_inner_moves slash_solver_recounts slash_solver_roster slash_solver_moves begin_fill_recounts
        begin_fill_moves resolve_dispute_recounts resolve_dispute_roster resolve_dispute_moves
        release_fill_recounts release_fill_roster release_fill_moves book_roster)+

lemma submit_keeps:
  assumes "submit_intent_inner w e u c q v d m dl rf s = Inr (s', i)"
  shows "keeps_books s s'"
proof -
  obtain r where r: "bk_intents (book s) i = None" "bk_tombstone (book s) i = None" "fresh_order e r"
      "bk_intents (book s') = (bk_intents (book s))(i \<mapsto> r)" "bk_tombstone (book s') = bk_tombstone (book s)"
    and roles: "roles s' = roles s"
    using submit_intent_inner_opens [OF assms] by (auto simp: opens_def settings_def ledger_of_def)
  have c: "nat0 (bk_total (book s')) = Suc (nat0 (bk_total (book s))) \<and>
      nat0 (bk_open (book s')) = Suc (nat0 (bk_open (book s))) \<and> bo_token (bonds s) \<noteq> None"
    using assms unfolding submit_intent_inner_def Let_def
    by (elim rbindE guardE case_optionE; (simp; fail)?)
      (auto simp: helper_defs user_intents_append_def load_bond_token_def Let_def)
  have "awaiting r" using r(3) by (simp add: fresh_order_def awaiting_def)
  with r(1,4) have "awaiting_ids s' = insert i (awaiting_ids s)" "i \<notin> awaiting_ids s"
    by (auto simp: awaiting_ids_def)
  moreover have "finite (awaiting_ids s)" if "counts_ok s"
    by (rule finite_subset [of _ "dom (bk_intents (book s))"]) (use that in \<open>auto simp: awaiting_ids_def counts_ok_def\<close>)
  ultimately have "counts_ok s'" if "counts_ok s"
    using that r(1,4,5) c by (auto simp: counts_ok_def domIff)
  with c roster_ok_kept [OF submit_intent_inner_roster [OF assms]] submit_intent_inner_roster [OF assms] roles
  show ?thesis by (auto simp: keeps_books_def blank_ok_def roster_def)
qed

lemma close_keeps:
  assumes "close_intent e i s = Inr s'" "ledger_ok (ledger_of s)"
  shows "keeps_books s s'"
proof -
  have "(\<exists>r. bk_intents (book s) i = Some r \<and> terminal r) \<and> bk_intents (book s') = (bk_intents (book s))(i := None) \<and>
      bk_tombstone (book s') = (bk_tombstone (book s))(i \<mapsto> True) \<and>
      bk_total (book s') = bk_total (book s) \<and> bk_open (book s') = bk_open (book s)"
    using assms(1) unfolding close_intent_def Let_def
    by (elim rbindE guardE case_optionE) (auto simp: load_intent_def terminal_def dest!: book_kept)
  then obtain r where r: "bk_intents (book s) i = Some r" "terminal r"
    and eff: "bk_intents (book s') = (bk_intents (book s))(i := None)"
      "bk_tombstone (book s') = (bk_tombstone (book s))(i \<mapsto> True)"
      "bk_total (book s') = bk_total (book s)" "bk_open (book s') = bk_open (book s)" by blast
  from r(2) have "\<not> awaiting r" by (auto simp: terminal_def awaiting_def)
  with r(1) eff(1) have "awaiting_ids s' = awaiting_ids s" by (auto simp: awaiting_ids_def)
  moreover have "bk_tombstone (book s) i = None"
    using assms(2) r(1) by (auto simp: ledger_ok_def ledger_of_def)
  moreover have "card (dom (bk_intents (book s))) = Suc (card (dom (bk_intents (book s)) - {i}))" if "counts_ok s"
    using that r(1) by (intro card.remove) (auto simp: counts_ok_def)
  ultimately have "counts_ok s'" if "counts_ok s"
    using that eff by (auto simp: counts_ok_def domIff)
  with roster_ok_kept [OF book_roster(8) [OF assms(1)]] book_roster(8) [OF assms(1)] r(1)
    closes_settings [OF close_intent_closes [OF assms(1)]]
  show ?thesis by (auto simp: keeps_books_def blank_ok_def roster_def settings_def)
qed

lemma keeps_put [simp]:
  "keeps_books s (stamp_cancel_cooldown u n t) = keeps_books s t" "keeps_books s (upd_extra g t) = keeps_books s t"
  by (simp_all add: keeps_books_def counts_ok_def roster_ok_def blank_ok_def awaiting_ids_def helper_defs)

lemma each_keeps:
  assumes "\<And>x p p'. f x p = Inr p' \<Longrightarrow> keeps_books (g p) (g p')" "each f xs p = Inr p'"
  shows "keeps_books (g p) (g p')"
  using assms(2) by (induction xs arbitrary: p) (auto intro: keeps_trans dest: assms(1))

lemma cancel_intent_keeps: "cancel_intent e u i s = Inr s' \<Longrightarrow> keeps_books s s'"
  unfolding cancel_intent_def by (auto dest: intent_keeps(2))

lemma batch_cancel_keeps: "batch_cancel_intent e u ids s = Inr s' \<Longrightarrow> keeps_books s s'"
  unfolding batch_cancel_intent_def
  by (elim rbindE guardE, drule each_keeps [where g = "\<lambda>s. s", rotated]) (auto dest: intent_keeps(2))

lemma batch_submit_keeps: "batch_submit_intent w e u orders s = Inr (s', ids) \<Longrightarrow> keeps_books s s'"
  unfolding batch_submit_intent_def
  by (elim rbindE guardE, drule each_keeps [where g = fst, rotated]) (auto dest: submit_keeps)

lemma batch_fill_keeps: "batch_fill_intent w e u fills s = Inr (s', tr) \<Longrightarrow> keeps_books s s'"
  unfolding batch_fill_intent_def
  by (elim rbindE guardE, drule each_keeps [where g = fst, rotated]) (auto dest: intent_keeps(7))

lemma batch_accept_keeps: "batch_accept_intent w e u ids s = Inr s' \<Longrightarrow> keeps_books s s'"
  unfolding batch_accept_intent_def accept_intent_inner_def
  by (elim rbindE guardE, drule each_keeps [where g = "\<lambda>s. s", rotated]) (auto intro: keeps_trans dest: intent_keeps(1))

text \<open>Registering and deregistering move the solver counter.\<close>

lemma clear_extras_bonds [simp]:
  "book (clear_extras a d rs s) = book s" "bo_solvers (bonds (clear_extras a d rs s)) = bo_solvers (bonds s)"
  "bo_token (bonds (clear_extras a d rs s)) = bo_token (bonds s)"
  "bo_total_solvers (bonds (clear_extras a d rs s)) = bo_total_solvers (bonds s)"
  by (induction a d rs s rule: clear_extras.induct) auto

lemma pay_refunds_frame:
  "pay_refunds w e a rs s tr = Inr (s', tr') \<Longrightarrow> book s' = book s \<and> bo_token (bonds s') = bo_token (bonds s) \<and>
     bo_solvers (bonds s') = bo_solvers (bonds s) \<and> bo_total_solvers (bonds s') = bo_total_solvers (bonds s)"
  by (induction w e a rs s tr rule: pay_refunds.induct) (fastforce simp: adjust_token_liabilities_def Let_def)+

lemma bonds_same_counts:
  "register_solver_inner w e a t v s = Inr (s1, tr) \<Longrightarrow> same_counts s s1"
  "deregister_solver w e a s = Inr (s2, tr) \<Longrightarrow> same_counts s s2"
  "withdraw_bond_inner e a t v s = Inr (s3, tr) \<Longrightarrow> same_counts s s3"
  unfolding register_solver_inner_def deregister_solver_def withdraw_bond_inner_def Let_def split_beta same_counts_def
  by (elim rbindE guardE condE; auto simp: helper_defs dest!: book_kept pay_refunds_frame)+

lemma bond_fields:
  "set_solver_bond_amount s r t v = Inr p \<Longrightarrow> bo_solvers (bonds (fst p)) = bo_solvers (bonds s) \<and>
     bo_total_solvers (bonds (fst p)) = bo_total_solvers (bonds s) \<and> bo_token (bonds (fst p)) = bo_token (bonds s) \<and>
     bo_token (bonds s) \<noteq> None"
  "count_new_solver a s = Inr s4 \<Longrightarrow> bo_solvers (bonds s4) = bo_solvers (bonds s) \<and>
     bo_token (bonds s4) = bo_token (bonds s) \<and> bo_total_solvers (bonds s4) = Some (nat0 (bo_total_solvers (bonds s)) + 1)"
  by (auto simp: set_solver_bond_amount_def count_new_solver_def load_bond_token_def Let_def)

lemma register_roster:
  "register_solver_inner w e a t v s = Inr (s', tr) \<Longrightarrow>
    bo_token (bonds s) \<noteq> None \<and> bo_token (bonds s') = bo_token (bonds s) \<and>
    dom (bo_solvers (bonds s')) = insert a (dom (bo_solvers (bonds s))) \<and>
    nat0 (bo_total_solvers (bonds s')) = nat0 (bo_total_solvers (bonds s)) + of_bool (bo_solvers (bonds s) a = None)"
  unfolding register_solver_inner_def Let_def split_beta
  by (elim rbindE guardE condE; auto simp: helper_defs dest!: bond_fields)

lemma deregister_roster:
  "deregister_solver w e a s = Inr (s', tr) \<Longrightarrow>
    bo_token (bonds s') = bo_token (bonds s) \<and> a \<in> dom (bo_solvers (bonds s)) \<and>
    dom (bo_solvers (bonds s')) = dom (bo_solvers (bonds s)) - {a} \<and>
    nat0 (bo_total_solvers (bonds s')) = nat0 (bo_total_solvers (bonds s)) - 1"
  unfolding deregister_solver_def Let_def split_beta
  by (elim rbindE guardE condE; auto simp: load_solver_def dest!: pay_refunds_frame split: if_splits)

lemma bonds_keeps:
  "register_solver_inner w e a t v s = Inr (s1, tr) \<Longrightarrow> keeps_books s s1"
  "deregister_solver w e a s = Inr (s2, tr) \<Longrightarrow> keeps_books s s2"
  "withdraw_bond_inner e a t v s = Inr (s3, tr) \<Longrightarrow> keeps_books s s3"
proof -
  show "keeps_books s s1" if "register_solver_inner w e a t v s = Inr (s1, tr)"
    using same_counts_ok [OF bonds_same_counts(1) [OF that]] register_roster [OF that]
      register_solver_inner_quiet [OF that] bonds_same_counts(1) [OF that]
    by (auto simp: keeps_books_def blank_ok_def roster_ok_def settings_def card_insert_if same_counts_def domIff)
  show "keeps_books s s2" if "deregister_solver w e a s = Inr (s2, tr)"
    using same_counts_ok [OF bonds_same_counts(2) [OF that]] deregister_roster [OF that]
      deregister_solver_quiet [OF that] bonds_same_counts(2) [OF that]
    by (auto simp: keeps_books_def blank_ok_def roster_ok_def settings_def same_counts_def)
  show "keeps_books s s3" if "withdraw_bond_inner e a t v s = Inr (s3, tr)"
    using same_keeps [OF bonds_same_counts(3) [OF that] withdraw_bond_inner_roster [OF that]]
      withdraw_bond_inner_quiet [OF that] by (simp add: settings_def)
qed

text \<open>Administration: initialisation resets the counters of a contract that is still empty.\<close>

lemma admin_books:
  "admin_apply w e a s = Inr (s', tr) \<Longrightarrow> (\<exists>x f b. a = AInit x f b) \<or>
     (same_counts s s' \<and> roster s' = roster s)"
  by (cases a; simp add: admin_defs split_beta Let_def roster_def same_counts_def;
      (elim exE conjE guardE rbindE)?; (auto simp: upd_bonds_def; fail)?)

lemma init_keeps: "st_initialize w e a f b s = Inr s' \<Longrightarrow> keeps_books s s'"
  by (auto simp: st_initialize_def keeps_books_def counts_ok_def roster_ok_def blank_ok_def awaiting_ids_def
      split: if_splits)

lemma admin_keeps:
  assumes "admin_apply w e a s = Inr (s', tr)"
  shows "keeps_books s s'"
proof (cases "\<exists>x f b. a = AInit x f b")
  case True
  with assms init_keeps show ?thesis by auto
next
  case False
  with admin_books [OF assms] have ok: "same_counts s s'" "roster s' = roster s" by auto
  have "ro_admin (roles s') = None \<Longrightarrow> ro_admin (roles s) = None"
    unfolding admin_apply_roles [OF assms] by (cases a) auto
  with same_counts_ok [OF ok(1)] roster_ok_kept [OF ok(2)] ok show ?thesis
    by (auto simp: keeps_books_def blank_ok_def same_counts_def roster_def)
qed

lemma chain_books:
  "propose_chain_onboarding e c s = Inr s1 \<Longrightarrow> bonds s1 = bonds s \<and> same_counts s s1 \<and> roles s1 = roles s"
  "execute_chain_onboarding w e n s = Inr s2 \<Longrightarrow> bonds s2 = bonds s \<and> same_counts s s2 \<and> roles s2 = roles s"
  "execute_chain_offboarding w e n s = Inr s3 \<Longrightarrow> bonds s3 = bonds s \<and> same_counts s s3 \<and> roles s3 = roles s"
  unfolding propose_chain_onboarding_def execute_chain_onboarding_def execute_chain_offboarding_def
    Let_def split_beta same_counts_def
  by (elim rbindE guardE; auto)+

lemma extras_books:
  "set_intent_retention e k s = Inr s4 \<Longrightarrow> bonds s4 = bonds s \<and> same_counts s s4 \<and> roles s4 = roles s"
  "set_solver_routes e a cs ts s = Inr s5 \<Longrightarrow> bonds s5 = bonds s \<and> same_counts s s5 \<and> roles s5 = roles s"
  "bid_intent e a i v s = Inr s6 \<Longrightarrow> bonds s6 = bonds s \<and> same_counts s s6 \<and> roles s6 = roles s"
  "submit_outbound_intent w e u t v cn q r m dl s = Inr (s7, oid) \<Longrightarrow> bonds s7 = bonds s \<and> same_counts s s7 \<and> roles s7 = roles s"
  "accept_outbound_intent w e a i v t s = Inr s8 \<Longrightarrow> bonds s8 = bonds s \<and> same_counts s s8 \<and> roles s8 = roles s"
  unfolding set_intent_retention_def by_admin_def set_solver_routes_def bid_intent_def
    submit_outbound_intent_def accept_outbound_intent_def Let_def same_counts_def
  by (elim rbindE guardE case_optionE; auto)+

lemma claim_books:
  "claim_backstop_compensation e i s = Inr (s', tr) \<Longrightarrow> roster s' = roster s \<and> same_counts s s' \<and> roles s' = roles s"
  unfolding claim_backstop_compensation_def Let_def same_counts_def
  by (elim rbindE guardE, drule Inr_inject, elim Pair_inject, hypsubst) (simp (no_asm) add: roster_bonds)

lemma extras_keep:
  "bonds s' = bonds s \<and> same_counts s s' \<and> roles s' = roles s \<Longrightarrow> keeps_books s s'"
  "roster s' = roster s \<and> same_counts s s' \<and> roles s' = roles s \<Longrightarrow> keeps_books s s'"
  by (auto intro: same_keeps simp: roster_def)

lemmas tx_keeps = intent_keeps(3-6,8-11) cancel_intent_keeps batch_cancel_keeps batch_submit_keeps
  batch_fill_keeps batch_accept_keeps bonds_keeps chain_books [THEN extras_keep(1)] extras_books [THEN extras_keep(1)]
  claim_books [THEN extras_keep(2)] admin_keeps

lemma st_apply_keeps:
  assumes "st_apply w e ev s = Inr (s', tr)" "ledger_ok (ledger_of s)"
  shows "keeps_books s s'"
proof -
  have bids: False if "settle_bids e i s = Inr s'" for i
    using settle_bids_bidding [OF that] assms(2) by (auto simp: ledger_ok_def ledger_of_def order_ok_def)
  show ?thesis
    using assms
    by - (cases ev; simp add: register_solver_def register_solver_with_token_def withdraw_bond_def
        withdraw_bond_token_def submit_intent_def accept_intent_def accept_intent_with_bond_def accept_intent_inner_def
        fill_intent_def; (elim exE conjE)?;
      (erule tx_keeps | erule submit_keeps intent_keeps | (erule close_keeps, assumption) | (drule bids, simp)))
qed

lemma st_step_keeps: "ledger_ok (ledger_of s) \<Longrightarrow> keeps_books s (st_step e ev s)"
  using st_apply_keeps [of "fst ev" e "snd ev" s] by (auto simp: st_step_def split: sum.splits)

lemma st_run_books:
  "counts_ok (st_run txs st_empty) \<and> roster_ok (st_run txs st_empty) \<and> blank_ok (st_run txs st_empty)"
proof (induction txs rule: rev_induct)
  case Nil
  show ?case
    by (simp add: counts_ok_def roster_ok_def blank_ok_def awaiting_ids_def st_empty_def no_roles_def no_bonds_def no_book_def)
next
  case (snoc tx txs)
  have "keeps_books (st_run txs st_empty) (st_run (txs @ [tx]) st_empty)"
    by (cases tx) (simp add: contract_run_append st_step_keeps run_ledger_ok)
  with snoc show ?case by (simp add: keeps_books_def)
qed

section \<open>Properties\<close>

text \<open>
  C32: In every reachable state the counters the views report are exact: the total is the
  number of stored and closed intents, the open one the number of intents that wait for a
  solver, and the solver count the number of registered solvers.
\<close>

theorem stats_exact:
  "let s = st_run txs st_empty;
       submitted = card (dom (bk_intents (book s))) + card (dom (bk_tombstone (book s)));
       waiting = card {i. \<exists>r. bk_intents (book s) i = Some r \<and> in_state r \<in> {Open, PartiallyFilled}};
       solvers = card (dom (bo_solvers (bonds s)))
   in finite (dom (bk_intents (book s))) \<and> finite (dom (bk_tombstone (book s))) \<and> finite (dom (bo_solvers (bonds s))) \<and>
      fst (st_get_stats s) = submitted \<and> snd (snd (st_get_stats s)) = waiting \<and> st_get_solver_count s = solvers \<and>
      ph_total_intents (st_get_protocol_health s) = submitted \<and> ph_total_solvers (st_get_protocol_health s) = solvers"
proof -
  have "{i. \<exists>r. bk_intents (book (st_run txs st_empty)) i = Some r \<and> in_state r \<in> {Open, PartiallyFilled}} =
      awaiting_ids (st_run txs st_empty)" by (auto simp: awaiting_ids_def awaiting_def)
  with st_run_books [of txs] show ?thesis
    by (simp add: Let_def counts_ok_def roster_ok_def st_get_stats_def st_get_solver_count_def st_get_protocol_health_def)
qed

text \<open>
  The total of bonds in the health report is not lowered when a solver withdraws a part of its
  bond or deregisters: it then exceeds what the contract holds.
\<close>

theorem bonded_total_overstates:
  "ph_total_bonded (st_get_protocol_health (st_run (take 2 demo_run @ [(plain_env 2000, demo_world, Withdraw 8 100000000)]) st_empty)) = 600000000 \<and>
   get_solver_bond (st_run (take 2 demo_run @ [(plain_env 2000, demo_world, Withdraw 8 100000000)]) st_empty) 8 3 = Inr 500000000 \<and>
   (let s = st_run (take 2 demo_run @ [(plain_env 2000, demo_world, Deregister 8)]) st_empty
    in ph_total_bonded (st_get_protocol_health s) = 600000000 \<and> st_get_solver_count s = 0)"
  by (simp add: eval_run st_get_protocol_health_def withdraw_bond_def withdraw_bond_inner_def get_solver_bond_def
      deregister_solver_def solver_refunds_eq paged_remove_def vec_set_def st_get_solver_count_def)

end
