(* ===== verification/Settlement_Solvency.thy ===== *)
theory Settlement_Solvency
  imports Settlement_Counters Settlement_Money Settlement_Safety Token_Runs
begin

text \<open>
  The tokens the settlement contract holds for others: the solvers' bonds, in the default bond
  token and in further ones, and the escrows of fills that wait for their release. The contract
  interprets the interface of contracts whose books are covered by what they were sent.
\<close>

section \<open>What the contract owes\<close>

text \<open>An update of a table of amounts that may also remove the entry.\<close>

lemma amounts_put:
  assumes "finite (dom f)"
  shows "amounts (f(k := v)) = amounts f - or0 (f k) + or0 v"
proof (cases v)
  case None
  show ?thesis
  proof (cases "k \<in> dom f")
    case True
    have "amounts f = or0 (f k) + (\<Sum>j \<in> dom f - {k}. or0 (f j))"
      using assms True by (simp add: amounts_def sum.remove)
    moreover have "amounts (f(k := None)) = (\<Sum>j \<in> dom f - {k}. or0 (f j))"
      unfolding amounts_def by (rule sum.cong) (auto split: if_splits)
    ultimately show ?thesis using None by simp
  next
    case False
    then have "f(k := None) = f" "f k = None" by (auto simp: domIff)
    with None show ?thesis by simp
  qed
qed (use amounts_upd [OF assms] in simp)

text \<open>The part of the storage that the bonds live in, and the part of a solver's record.\<close>

type_synonym vault = "address option \<times> (address \<Rightarrow> SolverRecord option) \<times> (address \<times> address \<Rightarrow> int option)"

definition vault_of :: "settlement \<Rightarrow> vault" where
  "vault_of s = (bo_token (bonds s), bo_solvers (bonds s), bo_extra (bonds s))"

definition bond_part :: "SolverRecord \<Rightarrow> address \<times> int \<times> address list" where
  "bond_part q = (so_address q, so_bond_amount q, so_bond_tokens q)"

text \<open>The bonds in one token: the records' own amounts in the default token, the table in the others.\<close>

fun bonds_held :: "address \<Rightarrow> vault \<Rightarrow> int" where
  "bonds_held tok (d, m, x) =
     (if d = Some tok then amounts (\<lambda>a. map_option so_bond_amount (m a)) else 0) + amounts (\<lambda>a. x (a, tok))"

text \<open>The escrow of one intent, while it waits for its release or for the arbiter.\<close>

definition escrow_of :: "address \<Rightarrow> IntentRecord \<Rightarrow> int" where
  "escrow_of tok r = (if in_state r \<in> {Filling, Disputed} \<and> in_dst_token r = tok then or0 (in_fill_amount r) else 0)"

definition escrows :: "address \<Rightarrow> (bytes32 \<Rightarrow> IntentRecord option) \<Rightarrow> int" where
  "escrows tok m = amounts (\<lambda>i. map_option (escrow_of tok) (m i))"

definition st_owed :: "address \<Rightarrow> settlement \<Rightarrow> int" where
  "st_owed tok s = bonds_held tok (vault_of s) + escrows tok (bk_intents (book s))"

text \<open>What the accounting rests on in every reachable state.\<close>

fun vault_ok :: "vault \<Rightarrow> bool" where
  "vault_ok (d, m, x) \<longleftrightarrow> finite (dom m) \<and> finite (dom x) \<and>
     (\<forall>a q. m a = Some q \<longrightarrow> so_address q = a \<and> distinct (so_bond_tokens q) \<and> 0 \<le> so_bond_amount q) \<and>
     (\<forall>k v. x k = Some v \<longrightarrow> 0 < v) \<and>
     (case d of None \<Rightarrow> m = Map.empty \<and> x = Map.empty | Some t \<Rightarrow> \<forall>a. x (a, t) = None)"

section \<open>What handlers do to the bonds\<close>

text \<open>A handler that rewrites a solver's record but none of its bonds.\<close>

fun touched :: "vault \<Rightarrow> vault \<Rightarrow> bool" where
  "touched (d, m, x) (d', m', x') \<longleftrightarrow> d' = d \<and> x' = x \<and> (\<forall>a. map_option bond_part (m' a) = map_option bond_part (m a))"

lemma touched_refl [simp]: "touched v v"
  by (cases v) simp

lemma touched_trans: "touched u v \<Longrightarrow> touched v w \<Longrightarrow> touched u w"
  by (cases u; cases v; cases w) simp

lemma touched_amounts:
  assumes "\<forall>a. map_option bond_part (m' a) = map_option bond_part (m a)"
  shows "(\<lambda>a. map_option so_bond_amount (m' a)) = (\<lambda>a. map_option so_bond_amount (m a))"
proof
  fix a
  from assms have "map_option bond_part (m' a) = map_option bond_part (m a)" ..
  then show "map_option so_bond_amount (m' a) = map_option so_bond_amount (m a)"
    by (cases "m a"; cases "m' a") (auto simp: bond_part_def)
qed

lemma touched_dom:
  assumes "\<forall>a. map_option bond_part (m' a) = map_option bond_part (m a)"
  shows "dom m' = dom m"
  using assms by (metis (no_types, lifting) domIff map_option_is_None subsetI subset_antisym)

lemma touched_held: "touched v v' \<Longrightarrow> bonds_held tok v' = bonds_held tok v"
  by (cases v; cases v') (auto dest!: touched_amounts)

lemma touched_ok: "touched v v' \<Longrightarrow> vault_ok v \<Longrightarrow> vault_ok v'"
proof (cases v; cases v')
  fix d m x d' m' x'
  assume v: "v = (d, m, x)" "v' = (d', m', x')" and t: "touched v v'" and ok: "vault_ok v"
  from t v have e: "d' = d" "x' = x" "\<forall>a. map_option bond_part (m' a) = map_option bond_part (m a)" by auto
  have "so_address q = a \<and> distinct (so_bond_tokens q) \<and> 0 \<le> so_bond_amount q" if "m' a = Some q" for a q
    using spec [OF e(3), of a] that ok v by (cases "m a") (auto simp: bond_part_def)
  moreover have "m = Map.empty \<Longrightarrow> m' = Map.empty" using touched_dom [OF e(3)] by simp
  ultimately show "vault_ok v'" using ok touched_dom [OF e(3)] by (auto simp: v e(1,2) split: option.splits)
qed

text \<open>A handler that sets one solver's bond in one token.\<close>

fun prior_bond :: "address \<Rightarrow> address \<Rightarrow> vault \<Rightarrow> int" where
  "prior_bond a t (d, m, x) =
     (if d = Some t then or0 (map_option so_bond_amount (m a)) else or0 (x (a, t)))"

fun bonded_to :: "address \<Rightarrow> address \<Rightarrow> int \<Rightarrow> vault \<Rightarrow> vault \<Rightarrow> bool" where
  "bonded_to a t v (d, m, x) (d', m', x') \<longleftrightarrow> d \<noteq> None \<and> d' = d \<and>
     (\<exists>q. so_address q = a \<and> distinct (so_bond_tokens q) \<and> m' = m(a \<mapsto> q) \<and>
        so_bond_amount q = (if d = Some t then v else or0 (map_option so_bond_amount (m a)))) \<and>
     x' = (if d = Some t then x else x((a, t) := (if v > 0 then Some v else None)))"

lemma map_option_upd: "(\<lambda>i. map_option f ((m(k := v)) i)) = (\<lambda>i. map_option f (m i))(k := map_option f v)"
  by (simp add: fun_eq_iff)

lemma finite_column: "finite (dom x) \<Longrightarrow> finite (dom (\<lambda>a. x (a, t)))"
  by (rule finite_subset [of _ "fst ` dom x"]) force+

lemma dom_map_option_fun: "dom (\<lambda>a. map_option f (m a)) = dom m"
  by (auto simp: dom_def)

lemma bonded_to_held:
  assumes "bonded_to a t v u u'" "vault_ok u" "0 \<le> v"
  shows "bonds_held tok u' = bonds_held tok u + (if tok = t then v - prior_bond a t u else 0)"
proof (cases u; cases u')
  fix d m x d' m' x'
  assume u: "u = (d, m, x)" "u' = (d', m', x')"
  with assms obtain dt q where e: "d = Some dt" "d' = d" "m' = m(a \<mapsto> q)"
      "so_bond_amount q = (if d = Some t then v else or0 (map_option so_bond_amount (m a)))"
      "x' = (if d = Some t then x else x((a, t) := (if v > 0 then Some v else None)))" by auto
  from assms(2) u e(1) have fin: "finite (dom m)" "finite (dom x)" "\<And>a. x (a, dt) = None" by auto
  have m': "amounts (\<lambda>a. map_option so_bond_amount (m' a)) =
      amounts (\<lambda>a. map_option so_bond_amount (m a)) + (if t = dt then v - or0 (map_option so_bond_amount (m a)) else 0)"
    unfolding e(3) map_option_upd using fin(1) e(1,4) by (simp add: amounts_put dom_map_option_fun)
  have col: "(\<lambda>b. x' (b, tok)) = (if t \<noteq> dt \<and> tok = t
      then (\<lambda>b. x (b, tok))(a := (if v > 0 then Some v else None)) else (\<lambda>b. x (b, tok)))"
    by (auto simp: e(1,5) fun_eq_iff)
  have x': "amounts (\<lambda>a. x' (a, tok)) =
      amounts (\<lambda>a. x (a, tok)) + (if t \<noteq> dt \<and> tok = t then v - or0 (x (a, t)) else 0)"
    unfolding col using assms(3) amounts_put [OF finite_column [OF fin(2)], of tok a "if v > 0 then Some v else None"]
    by (cases "tok = t"; cases "v > 0") auto
  show ?thesis
    unfolding u bonds_held.simps prior_bond.simps e(1,2) m' x' by auto
qed

lemma bonded_to_ok:
  assumes "bonded_to a t v u u'" "vault_ok u" "0 \<le> v"
  shows "vault_ok u'"
proof (cases u; cases u')
  fix d m x d' m' x'
  assume u: "u = (d, m, x)" "u' = (d', m', x')"
  with assms obtain dt q where e: "d = Some dt" "d' = d" "m' = m(a \<mapsto> q)" "so_address q = a" "distinct (so_bond_tokens q)"
      "so_bond_amount q = (if d = Some t then v else or0 (map_option so_bond_amount (m a)))"
      "x' = (if d = Some t then x else x((a, t) := (if v > 0 then Some v else None)))" by auto
  have "0 \<le> or0 (map_option so_bond_amount (m a))"
    using assms(2) u by (cases "m a") auto
  then have "0 \<le> so_bond_amount q" using e(6) assms(3) by simp
  then show "vault_ok u'" using assms(2) e(4,5) unfolding u e(1-3,7) by auto
qed

section \<open>The handlers\<close>

lemma vault_simps [simp]:
  "vault_of (save_intent i r t) = vault_of t" "vault_of (set_open n t) = vault_of t" "vault_of (set_volume v t) = vault_of t"
  "vault_of (set_exposure a v t) = vault_of t" "vault_of (set_total_bonded v t) = vault_of t"
  "vault_of (adjust_token_liabilities w a v t) = vault_of t" "vault_of (add_to_open_intent_list w i t) = vault_of t"
  "vault_of (remove_from_open_intent_list w i t) = vault_of t" "vault_of (release_exposure a v t) = vault_of t"
  "vault_of (stamp_cancel_cooldown a n t) = vault_of t" "vault_of (stamp_amendment_cooldown a n t) = vault_of t"
  "vault_of (upd_roles p t) = vault_of t" "vault_of (upd_allow l t) = vault_of t" "vault_of (upd_extra g t) = vault_of t"
  "vault_of (ctx_commit c t) = vault_of t" "vault_of (t\<lparr>book := k\<rparr>) = vault_of t"
  "vault_of (t\<lparr>bonds := (bonds u)\<lparr>bo_intents := li\<rparr>\<rparr>) = vault_of u" "vault_of (t\<lparr>bonds := (bonds u)\<lparr>bo_pool := po\<rparr>\<rparr>) = vault_of u"
  "vault_of (t\<lparr>bonds := (bonds u)\<lparr>bo_total_solvers := tn, bo_list := dir\<rparr>\<rparr>) = vault_of u"
  "vault_of (save_solver a q t) = (fst (vault_of t), (fst (snd (vault_of t)))(a \<mapsto> q), snd (snd (vault_of t)))"
  by (simp_all add: vault_of_def helper_defs ctx_commit_def Let_def)

text \<open>A record whose bond part is the stored one.\<close>

lemma touched_put: "m a = Some q \<Longrightarrow> bond_part q' = bond_part q \<Longrightarrow> touched (d, m, x) (d, m(a \<mapsto> q'), x)"
  by simp

lemma vault_kept:
  "solver_leaves a i s = Inr s1 \<Longrightarrow> vault_of s1 = vault_of s"
  "take_exposure w e c a q r' s = Inr s2 \<Longrightarrow> vault_of s2 = vault_of s"
  "user_intents_append u i s = Inr s5 \<Longrightarrow> vault_of s5 = vault_of s"
  "count_new_solver a s = Inr s6 \<Longrightarrow> vault_of s6 = vault_of s"
  unfolding solver_leaves_def take_exposure_def user_intents_append_def count_new_solver_def Let_def
  by (auto elim!: rbindE guardE condE)

lemma vault_of_solver: "fst (snd (vault_of s)) = bo_solvers (bonds s)"
  by (simp add: vault_of_def)

text \<open>A handler whose only change of the bonds is to save a record with the stored bond part.\<close>

lemma touched_saved:
  assumes "bo_solvers (bonds s) a = Some q" "bond_part q' = bond_part q"
  shows "touched (vault_of s) (fst (vault_of s), (fst (snd (vault_of s)))(a \<mapsto> q'), snd (snd (vault_of s)))"
  using assms by (simp add: vault_of_def)

lemma accept_intent_body_touched:
  "accept_intent_body w e a i b s = Inr s' \<Longrightarrow> touched (vault_of s) (vault_of s')"
  unfolding accept_intent_body_def Let_def load_solver_def
  by (elim rbindE guardE) (auto simp: bond_part_def intro!: touched_saved dest!: vault_kept)

lemma fill_intent_inner_touched:
  "fill_intent_inner w e a i v p s = Inr (s', tr) \<Longrightarrow> touched (vault_of s) (vault_of s')"
  unfolding fill_intent_inner_def Let_def split_beta
  by (elim rbindE guardE guard_sumE; erule fill_outcomeE)
    (auto simp: bond_part_def intro!: touched_saved dest!: vault_kept)

lemma credit_fill_part: "credit_fill x q = Inr q' \<Longrightarrow> bond_part q' = bond_part q"
  by (auto simp: credit_fill_def bond_part_def)

lemma release_fill_touched:
  "release_fill e i s = Inr (s', tr) \<Longrightarrow> touched (vault_of s) (vault_of s')"
  unfolding release_fill_def Let_def split_beta
  by (elim rbindE release_caseE guardE) (auto simp: bond_part_def intro!: touched_saved dest!: credit_fill_part)

lemma dismissed_touched:
  "resolve_dispute e a i Dismissed s = Inr (s', tr) \<Longrightarrow> touched (vault_of s) (vault_of s')"
  unfolding resolve_dispute_def Let_def split_beta
  by (simp only: DisputeResolution.case, elim rbindE guardE condE)
    (auto simp: bond_part_def intro!: touched_saved dest!: credit_fill_part)

lemma settle_bids_touched: "settle_bids e i s = Inr s' \<Longrightarrow> touched (vault_of s) (vault_of s')"
  unfolding settle_bids_def Let_def
  by (elim rbindE guardE case_optionE) (auto simp: bond_part_def intro!: touched_saved)

lemma book_vault:
  "cancel_intent_core e u i s = Inr s1 \<Longrightarrow> vault_of s1 = vault_of s"
  "amend_intent e u i m d s = Inr s2 \<Longrightarrow> vault_of s2 = vault_of s"
  "expire_intent e i s = Inr s3 \<Longrightarrow> vault_of s3 = vault_of s"
  "dispute_fill e u i s = Inr s4 \<Longrightarrow> vault_of s4 = vault_of s"
  "request_extension w e a i s = Inr s5 \<Longrightarrow> vault_of s5 = vault_of s"
  "begin_fill e a i v s = Inr (s6, tr) \<Longrightarrow> vault_of s6 = vault_of s"
  "bid_intent e a i v s = Inr s7 \<Longrightarrow> vault_of s7 = vault_of s"
  "close_intent e i s = Inr s8 \<Longrightarrow> vault_of s8 = vault_of s"
  unfolding cancel_intent_core_def amend_intent_def expire_intent_def dispute_fill_def request_extension_def
    begin_fill_def bid_intent_def close_intent_def Let_def split_beta
  by (elim rbindE guardE condE case_optionE; auto dest!: vault_kept)+

lemma submit_vault: "submit_intent_inner w e u c q v d m dl rf s = Inr (s', i) \<Longrightarrow> vault_of s' = vault_of s"
  unfolding submit_intent_inner_def Let_def
  by (elim rbindE guardE case_optionE; (simp; fail)?) (auto dest!: vault_kept)

text \<open>Writing a bond through the helper, then saving the record.\<close>

lemma set_bond_shape:
  assumes "set_solver_bond_amount s r t v = Inr p"
  obtains d where "bo_token (bonds s) = Some d"
    "vault_of (fst p) = (Some d, bo_solvers (bonds s), if t = d then bo_extra (bonds s)
       else (bo_extra (bonds s))((so_address r, t) := (if v > 0 then Some v else None)))"
    "so_address (snd p) = so_address r" "so_bond_amount (snd p) = (if t = d then v else so_bond_amount r)"
    "distinct (so_bond_tokens r) \<longrightarrow> distinct (so_bond_tokens (snd p))"
proof -
  from assms obtain d where d: "bo_token (bonds s) = Some d"
    by (auto simp: set_solver_bond_amount_def load_bond_token_def)
  show ?thesis
    using assms that [OF d]
    by (cases "t = d") (auto simp: set_solver_bond_amount_def load_bond_token_def vault_of_def d need_def Let_def)
qed

lemma put_bond:
  assumes "set_solver_bond_amount s r t v = Inr p" "bond_part q = bond_part (snd p)" "so_address r = a"
    "distinct (so_bond_tokens r)" "so_bond_amount r = or0 (map_option so_bond_amount (bo_solvers (bonds s) a))"
  shows "bonded_to a t v (vault_of s) (fst (vault_of (fst p)), (fst (snd (vault_of (fst p))))(a \<mapsto> q), snd (snd (vault_of (fst p))))"
proof -
  from assms(1) obtain d where d: "bo_token (bonds s) = Some d"
    "vault_of (fst p) = (Some d, bo_solvers (bonds s), if t = d then bo_extra (bonds s)
       else (bo_extra (bonds s))((so_address r, t) := (if v > 0 then Some v else None)))"
    "so_address (snd p) = so_address r" "so_bond_amount (snd p) = (if t = d then v else so_bond_amount r)"
    "distinct (so_bond_tokens r) \<longrightarrow> distinct (so_bond_tokens (snd p))" by (rule set_bond_shape)
  have q: "so_address q = a" "distinct (so_bond_tokens q)" "so_bond_amount q = (if t = d then v else so_bond_amount r)"
    using assms(2-4) d(3-5) by (simp_all add: bond_part_def)
  have "vault_of s = (Some d, bo_solvers (bonds s), bo_extra (bonds s))" by (simp add: vault_of_def d(1))
  then show ?thesis unfolding d(2) using q assms(3,5) by auto
qed

lemma get_bond_prior:
  "get_solver_bond_amount s r t = Inr b \<Longrightarrow> so_address r = a \<Longrightarrow>
   so_bond_amount r = or0 (map_option so_bond_amount (bo_solvers (bonds s) a)) \<Longrightarrow> b = prior_bond a t (vault_of s)"
  by (auto simp: get_solver_bond_amount_def load_bond_token_def vault_of_def)

text \<open>The transfers of a bond: in from a solver who signed, out to one.\<close>

lemma net_in_one: "net_in tok me [\<lparr>x_token = t, x_from = a, x_to = b, x_amount = v\<rparr>] =
    (if t = tok then (if b = me then v else 0) - (if a = me then v else 0) else 0)"
  by (simp add: x_net_def)

lemma pull_exact_exact:
  "pull_exact e t a v [] = Inr (tr, r) \<Longrightarrow> exact_tokens e \<Longrightarrow>
     r = v \<and> tr = [\<lparr>x_token = t, x_from = a, x_to = self e, x_amount = v\<rparr>]"
  by (auto simp: pull_exact_def exact_tokens_def transfer_eq_Inr)

lemma register_effect:
  assumes "register_solver_inner w e a t v s = Inr (s', tr)" "vault_ok (vault_of s)" "exact_tokens e"
  shows "authed e a \<and> 0 < v \<and> tr = [\<lparr>x_token = t, x_from = a, x_to = self e, x_amount = v\<rparr>] \<and>
    bonded_to a t (prior_bond a t (vault_of s) + v) (vault_of s) (vault_of s')"
proof -
  define r where "r = (case bo_solvers (bonds s) a of Some r \<Rightarrow> r\<lparr>so_active := True\<rparr> | None \<Rightarrow> fresh_solver e a)"
  have r: "so_address r = a" "distinct (so_bond_tokens r)"
      "so_bond_amount r = or0 (map_option so_bond_amount (bo_solvers (bonds s) a))"
    using assms(2) by (auto simp: r_def vault_of_def fresh_solver_def split: option.splits)
  have "authed e a \<and> 0 < v \<and> tr = [\<lparr>x_token = t, x_from = a, x_to = self e, x_amount = v\<rparr>] \<and>
    (\<exists>b p. get_solver_bond_amount s r t = Inr b \<and> set_solver_bond_amount s r t (b + v) = Inr p \<and>
       vault_of s' = vault_of (save_solver a (snd p) (fst p)))"
    using assms(1) unfolding register_solver_inner_def Let_def r_def [symmetric] split_beta
    by (elim rbindE guardE condE)
      (auto dest!: pull_exact_exact [OF _ assms(3), unfolded prod.collapse] vault_kept)
  then obtain b p where p: "get_solver_bond_amount s r t = Inr b" "set_solver_bond_amount s r t (b + v) = Inr p"
      "vault_of s' = vault_of (save_solver a (snd p) (fst p))"
    and ok: "authed e a \<and> 0 < v \<and> tr = [\<lparr>x_token = t, x_from = a, x_to = self e, x_amount = v\<rparr>]" by blast
  from put_bond [OF p(2) refl r] get_bond_prior [OF p(1) r(1,3)] p(3) ok show ?thesis by simp
qed

lemma prior_nonneg: "vault_ok v \<Longrightarrow> 0 \<le> prior_bond a t v"
  by (cases v) (force simp: or0_def less_imp_le split: option.splits)

lemma stored_bond:
  assumes "vault_ok (vault_of s)" "bo_solvers (bonds s) a = Some q"
  shows "so_address q = a" "distinct (so_bond_tokens q)"
    "so_bond_amount q = or0 (map_option so_bond_amount (bo_solvers (bonds s) a))"
  using assms by (auto simp: vault_of_def)

lemma withdraw_effect:
  assumes "withdraw_bond_inner e a t v s = Inr (s', tr)" "vault_ok (vault_of s)"
  shows "authed e a \<and> 0 < v \<and> v \<le> prior_bond a t (vault_of s) \<and>
    tr = [\<lparr>x_token = t, x_from = self e, x_to = a, x_amount = v\<rparr>] \<and>
    bonded_to a t (prior_bond a t (vault_of s) - v) (vault_of s) (vault_of s')"
proof -
  have "authed e a \<and> 0 < v \<and> tr = [\<lparr>x_token = t, x_from = self e, x_to = a, x_amount = v\<rparr>] \<and>
    (\<exists>q b p. bo_solvers (bonds s) a = Some q \<and> get_solver_bond_amount s q t = Inr b \<and> v \<le> b \<and>
       set_solver_bond_amount s q t (b - v) = Inr p \<and> vault_of s' = vault_of (save_solver a (snd p) (fst p)))"
    using assms(1) unfolding withdraw_bond_inner_def Let_def split_beta load_solver_def
    by (elim rbindE guardE) (auto simp: transfer_eq_Inr)
  then obtain q b p where q: "bo_solvers (bonds s) a = Some q" "get_solver_bond_amount s q t = Inr b" "v \<le> b"
      "set_solver_bond_amount s q t (b - v) = Inr p" "vault_of s' = vault_of (save_solver a (snd p) (fst p))"
    and ok: "authed e a \<and> 0 < v \<and> tr = [\<lparr>x_token = t, x_from = self e, x_to = a, x_amount = v\<rparr>]" by blast
  note r = stored_bond [OF assms(2) q(1)]
  from put_bond [OF q(4) refl r] get_bond_prior [OF q(2) r(1,3)] q(3,5) ok show ?thesis by simp
qed

lemma slash_within_bond: "0 \<le> st_slash_amount b u \<and> (0 \<le> b \<longrightarrow> st_slash_amount b u \<le> b)"
proof (cases "b \<le> 0")
  case False
  have "max (min ((b sdiv 10000) * SLASH_BPS) b) 1 \<le> b" using False by auto
  then show ?thesis using False by (auto simp: st_slash_amount_def Let_def)
qed (simp add: st_slash_amount_def)

lemma uphold_effect:
  assumes "uphold e r q s = Inr (s1, q1, sl)" "vault_ok (vault_of s)" "bond_part q = bond_part q0"
    "bo_solvers (bonds s) a = Some q0"
  shows "0 \<le> sl \<and> sl \<le> prior_bond a (in_bond_token r) (vault_of s) \<and>
    bonded_to a (in_bond_token r) (prior_bond a (in_bond_token r) (vault_of s) - sl) (vault_of s) (vault_of (save_solver a q1 s1)) \<and>
    book s1 = book s"
proof -
  note r0 = stored_bond [OF assms(2,4)]
  then have r: "so_address q = a" "distinct (so_bond_tokens q)"
      "so_bond_amount q = or0 (map_option so_bond_amount (bo_solvers (bonds s) a))"
    using assms(3) by (simp_all add: bond_part_def)
  from assms(1) obtain b u p where p: "get_solver_bond_amount s q (in_bond_token r) = Inr b" "sl = st_slash_amount b u"
      "set_solver_bond_amount s q (in_bond_token r) (b - sl) = Inr p" "s1 = fst p" "bond_part q1 = bond_part (snd p)"
    unfolding uphold_def Let_def split_beta by (auto simp: bond_part_def split: if_splits)
  have b: "b = prior_bond a (in_bond_token r) (vault_of s)" by (rule get_bond_prior [OF p(1) r(1,3)])
  have "0 \<le> b" unfolding b by (rule prior_nonneg [OF assms(2)])
  with slash_within_bond [of b u] put_bond [OF p(3,5) r] p(2,4) b show ?thesis
    using set_solver_bond_amount_quiet [OF p(3)] p(3) by (auto simp: set_solver_bond_amount_def Let_def)
qed

text \<open>Leaving: the refunds are exactly the bonds that are taken off the books.\<close>

lemma refunds_of_token:
  assumes "distinct ts"
  shows "(\<Sum>(t, v)\<leftarrow>filter (\<lambda>(_, v). v > 0) (map (\<lambda>t. (t, f t)) ts). if t = tok then v else 0) =
    (if tok \<in> set ts \<and> 0 < f tok then f tok else (0 :: int))"
  using assms by (induction ts) auto

lemma refunds_net:
  assumes "a \<noteq> me"
  shows "net_in tok me (map (\<lambda>(t, v). sends t me a v) rs) = - (\<Sum>(t, v)\<leftarrow>rs. if t = tok then v else 0)"
  using assms by (induction rs) (auto simp: x_net_def)

lemma clear_extras_vault:
  "vault_of (clear_extras a d rs s) = (bo_token (bonds s), bo_solvers (bonds s),
     \<lambda>(b, t). if b = a \<and> t \<noteq> d \<and> t \<in> fst ` set rs then None else bo_extra (bonds s) (b, t))"
  by (induction a d rs s rule: clear_extras.induct) (auto simp: vault_of_def fun_eq_iff)

lemma pay_refunds_vault:
  "pay_refunds w e a rs s tr = Inr (s', tr') \<Longrightarrow> vault_of s' = vault_of s"
  by (induction w e a rs s tr rule: pay_refunds.induct) (auto simp: Let_def)

lemma deregister_effect:
  assumes "deregister_solver w e a s = Inr (s', tr)" "vault_ok (vault_of s)"
  obtains q d where "authed e a" "bo_token (bonds s) = Some d" "bo_solvers (bonds s) a = Some q"
    "tr = map (\<lambda>(t, v). sends t (self e) a v) (solver_refunds s a q d)"
    "vault_of s' = (Some d, (bo_solvers (bonds s))(a := None),
       \<lambda>(b, t). if b = a \<and> t \<noteq> d \<and> t \<in> fst ` set (solver_refunds s a q d) then None else bo_extra (bonds s) (b, t))"
proof -
  from assms(1) obtain q d l where q: "authed e a" "bo_token (bonds s) = Some d" "bo_solvers (bonds s) a = Some q"
    and pay: "pay_refunds w e a (solver_refunds s a q d)
      (let s1 = clear_extras a d (solver_refunds s a q d) s;
           s2 = s1\<lparr>bonds := (bonds s1)\<lparr>bo_solvers := (bo_solvers (bonds s1))(a := None),
                  bo_total_solvers := Some (nat0 (bo_total_solvers (bonds s1)) - 1)\<rparr>\<rparr>
       in s2\<lparr>bonds := (bonds s2)\<lparr>bo_list := l\<rparr>\<rparr>) [] = Inr (s', tr)"
    unfolding deregister_solver_def Let_def load_solver_def load_bond_token_def
    by (elim rbindE guardE) auto
  have "vault_of s' = (Some d, (bo_solvers (bonds s))(a := None),
      snd (snd (vault_of (clear_extras a d (solver_refunds s a q d) s))))"
    using pay_refunds_vault [OF pay] clear_extras_vault [of a d "solver_refunds s a q d" s] q(2)
    by (simp add: vault_of_def Let_def)
  with that [OF q] pay_refunds_transfers [OF pay] show ?thesis by (simp add: clear_extras_vault)
qed

lemma deregister_owed:
  assumes "deregister_solver w e a s = Inr (s', tr)" "vault_ok (vault_of s)" "\<not> authed e (self e)"
  shows "bonds_held tok (vault_of s') - bonds_held tok (vault_of s) = net_in tok (self e) tr" "vault_ok (vault_of s')"
proof -
  obtain q d where d: "authed e a" "bo_token (bonds s) = Some d"
    "bo_solvers (bonds s) a = Some q"
    "tr = map (\<lambda>(t, v). sends t (self e) a v) (solver_refunds s a q d)"
    "vault_of s' = (Some d, (bo_solvers (bonds s))(a := None),
       \<lambda>(b, t). if b = a \<and> t \<noteq> d \<and> t \<in> fst ` set (solver_refunds s a q d) then None else bo_extra (bonds s) (b, t))"
    by (rule deregister_effect [OF assms(1,2)])
  let ?m = "bo_solvers (bonds s)" and ?x = "bo_extra (bonds s)" and ?rs = "solver_refunds s a q d"
  have v: "vault_of s = (Some d, ?m, ?x)" by (simp add: vault_of_def d(2))
  with assms(2) have ok: "finite (dom ?m)" "finite (dom ?x)" "distinct (so_bond_tokens q)" "0 \<le> so_bond_amount q"
      "\<And>b. ?x (b, d) = None" "\<And>k v. ?x k = Some v \<Longrightarrow> 0 < v"
    using d(3) by auto
  have "a \<noteq> self e" using d(1) assms(3) by auto
  then have net: "net_in tok (self e) tr = - (\<Sum>(t, v)\<leftarrow>?rs. if t = tok then v else 0)"
    unfolding d(4) by (rule refunds_net)
  have sum: "(\<Sum>(t, v)\<leftarrow>?rs. if t = tok then v else 0) = (if tok = d then so_bond_amount q else 0) +
      (if tok \<noteq> d \<and> tok \<in> set (so_bond_tokens q) \<and> 0 < or0 (?x (a, tok)) then or0 (?x (a, tok)) else 0)"
  proof -
    have "(\<Sum>(t, v)\<leftarrow>?rs. if t = tok then v else 0) = (if tok = d then so_bond_amount q else 0) +
        (\<Sum>(t, v)\<leftarrow>filter (\<lambda>(_, v). v > 0) (map (\<lambda>t. (t, or0 (?x (a, t))))
          (filter (\<lambda>t. t \<noteq> d) (so_bond_tokens q))). if t = tok then v else 0)"
      using ok(4) by (simp add: solver_refunds_eq)
    also have "\<dots> = (if tok = d then so_bond_amount q else 0) +
        (if tok \<noteq> d \<and> tok \<in> set (so_bond_tokens q) \<and> 0 < or0 (?x (a, tok)) then or0 (?x (a, tok)) else 0)"
      using ok(3) by (subst refunds_of_token) auto
    finally show ?thesis .
  qed
  have m': "amounts (\<lambda>b. map_option so_bond_amount ((?m(a := None)) b)) =
      amounts (\<lambda>b. map_option so_bond_amount (?m b)) - so_bond_amount q"
    unfolding map_option_upd using ok(1) by (simp add: amounts_put dom_map_option_fun d(3))
  have paid: "tok \<noteq> d \<and> tok \<in> fst ` set ?rs \<longleftrightarrow> tok \<noteq> d \<and> tok \<in> set (so_bond_tokens q) \<and> 0 < or0 (?x (a, tok))"
    by (auto simp: solver_refunds_eq intro!: image_eqI [of _ _ "(tok, or0 (?x (a, tok)))"])
  have col: "(\<lambda>b. (\<lambda>(b, t). if b = a \<and> t \<noteq> d \<and> t \<in> fst ` set ?rs then None else ?x (b, t)) (b, tok)) =
      (if tok \<noteq> d \<and> tok \<in> fst ` set ?rs then (\<lambda>b. ?x (b, tok))(a := None) else (\<lambda>b. ?x (b, tok)))"
    by (auto simp: fun_eq_iff)
  have x': "amounts (\<lambda>b. (\<lambda>(b, t). if b = a \<and> t \<noteq> d \<and> t \<in> fst ` set ?rs then None else ?x (b, t)) (b, tok)) =
      amounts (\<lambda>b. ?x (b, tok)) -
      (if tok \<noteq> d \<and> tok \<in> set (so_bond_tokens q) \<and> 0 < or0 (?x (a, tok)) then or0 (?x (a, tok)) else 0)"
    unfolding col paid using amounts_put [OF finite_column [OF ok(2)], of tok a None] by simp
  show "bonds_held tok (vault_of s') - bonds_held tok (vault_of s) = net_in tok (self e) tr"
    unfolding net sum d(5) v bonds_held.simps m' x' by auto
  have "finite (dom (\<lambda>(b, t). if b = a \<and> t \<noteq> d \<and> t \<in> fst ` set ?rs then None else ?x (b, t)))"
    by (rule finite_subset [OF _ ok(2)]) (auto split: if_splits)
  then show "vault_ok (vault_of s')"
    using assms(2) ok(1,5,6) unfolding v d(5) by (auto split: if_splits)
qed

section \<open>What handlers do to the escrows\<close>

lemma escrows_upd:
  assumes "finite (dom m)"
  shows "escrows tok (m(i := v)) = escrows tok m - or0 (map_option (escrow_of tok) (m i)) + or0 (map_option (escrow_of tok) v)"
  unfolding escrows_def map_option_upd using assms by (simp add: amounts_put dom_map_option_fun)

definition level :: "settlement \<Rightarrow> settlement \<Rightarrow> bool" where
  "level s s' \<longleftrightarrow> (finite (dom (bk_intents (book s))) \<longrightarrow>
     finite (dom (bk_intents (book s'))) \<and> (\<forall>tok. escrows tok (bk_intents (book s')) = escrows tok (bk_intents (book s))))"

lemma level_trans: "level s s1 \<Longrightarrow> level s1 s2 \<Longrightarrow> level s s2"
  by (simp add: level_def)

lemma level_same: "bk_intents (book s') = bk_intents (book s) \<Longrightarrow> level s s'"
  by (simp add: level_def)

lemma levelI:
  assumes "load_intent s i = Inr r" "bk_intents (book s') = (bk_intents (book s))(i \<mapsto> the (bk_intents (book s') i))"
    "\<forall>tok. escrow_of tok (the (bk_intents (book s') i)) = escrow_of tok r"
  shows "level s s'"
proof -
  have "bk_intents (book s) i = Some r" using assms(1) by (simp add: load_intent_def)
  with assms(3) show ?thesis
    by (subst level_def, subst (1 2) assms(2)) (simp add: escrows_upd)
qed

lemmas level_defs = counter_defs escrow_of_def

lemma accept_intent_body_level: "accept_intent_body w e a i b s = Inr s' \<Longrightarrow> level s s'"
  unfolding accept_intent_body_def Let_def
  by (elim rbindE guardE, erule levelI) (auto simp: level_defs dest!: book_kept)

lemma cancel_intent_core_level: "cancel_intent_core e u i s = Inr s' \<Longrightarrow> level s s'"
  unfolding cancel_intent_core_def Let_def
  by (elim rbindE guardE, erule levelI) (auto simp: level_defs)

lemma amend_intent_level: "amend_intent e u i m d s = Inr s' \<Longrightarrow> level s s'"
  unfolding amend_intent_def Let_def
  by (elim rbindE guardE, erule levelI) (auto simp: level_defs)

lemma expire_intent_level: "expire_intent e i s = Inr s' \<Longrightarrow> level s s'"
  unfolding expire_intent_def Let_def
  by (elim rbindE guardE, erule levelI) (auto simp: level_defs)

lemma dispute_fill_level: "dispute_fill e u i s = Inr s' \<Longrightarrow> level s s'"
  unfolding dispute_fill_def Let_def
  by (elim rbindE guardE, erule levelI) (auto simp: level_defs)

lemma request_extension_level: "request_extension w e a i s = Inr s' \<Longrightarrow> level s s'"
  unfolding request_extension_def Let_def
  by (elim rbindE guardE, erule levelI) (auto simp: level_defs)

lemma fill_intent_inner_level: "fill_intent_inner w e a i v p s = Inr (s', tr) \<Longrightarrow> level s s'"
  unfolding fill_intent_inner_def Let_def split_beta
  by (elim rbindE guardE guard_sumE; erule fill_outcomeE; erule levelI)
    (auto simp: level_defs check_fill_guards_Inr dest!: book_kept)

lemma submit_level:
  assumes "submit_intent_inner w e u c q v d m dl rf s = Inr (s', i)"
  shows "level s s'"
proof -
  obtain r where "bk_intents (book s) i = None" "fresh_order e r" "bk_intents (book s') = (bk_intents (book s))(i \<mapsto> r)"
    using submit_intent_inner_opens [OF assms] by (auto simp: opens_def ledger_of_def)
  then show ?thesis by (simp add: level_def escrows_upd escrow_of_def fresh_order_def)
qed

lemma close_level:
  assumes "close_intent e i s = Inr s'"
  shows "level s s'"
proof -
  obtain j r where "bk_intents (book s) j = Some r" "terminal r" "bk_intents (book s') = (bk_intents (book s))(j := None)"
    using close_intent_closes [OF assms] by (auto simp: closes_def ledger_of_def)
  then show ?thesis by (auto simp: level_def escrows_upd escrow_of_def terminal_def)
qed

text \<open>The three handlers that open and end an escrow.\<close>

lemma begin_fill_effect:
  assumes "begin_fill e a i v s = Inr (s', tr)" "exact_tokens e"
  obtains r r' where "authed e a" "0 < v" "bk_intents (book s) i = Some r" "in_state r = Accepted"
    "bk_intents (book s') = (bk_intents (book s))(i \<mapsto> r')" "in_state r' = Filling" "in_dst_token r' = in_dst_token r"
    "in_fill_amount r' = Some v" "tr = [sends (in_dst_token r) a (self e) v]"
  using assms(1) unfolding begin_fill_def Let_def split_beta
  by (elim rbindE guardE condE)
    (force simp: load_intent_def helper_defs dest!: pull_exact_exact [OF _ assms(2), unfolded prod.collapse] intro: that)+

lemma fee_within: "0 \<le> x \<Longrightarrow> 0 \<le> x * 5 sdiv 10000 \<and> x * 5 sdiv 10000 \<le> (x :: int)"
  using mult_div_le [of x 5 10000] mult_div_nonneg [of x 5 10000] by (simp add: sdiv_nonneg)

lemma net_out:
  "0 \<le> v \<Longrightarrow> - (if t = tok then v else 0) \<le> net_in tok me [sends t me b v]"
  "0 \<le> v \<Longrightarrow> - (if t = tok then v else 0) \<le> net_in tok me (sends_pos t me b v)"
  by (auto simp: sends_pos_def x_net_def)

text \<open>An escrow that ends: to whom it goes, and that the bonds stay or one is slashed.\<close>

lemma release_fill_effect:
  assumes "release_fill e i s = Inr (s', tr)"
  obtains r r' f fee where "bk_intents (book s) i = Some r" "in_state r \<in> {Filling, Disputed}"
    "bk_intents (book s') = (bk_intents (book s))(i \<mapsto> r')" "in_state r' \<in> {Filled, Resolved}"
    "fee = 0 \<or> fee = or0 (in_fill_amount r) * 5 sdiv 10000"
    "tr = sends (in_dst_token r) (self e) (in_user r) (or0 (in_fill_amount r) - fee) # sends_pos (in_dst_token r) (self e) f fee"
  using assms unfolding release_fill_def Let_def split_beta
  by (elim rbindE release_caseE guardE)
    (auto simp: load_intent_def helper_defs pay_escrow_Inr PROTOCOL_FEE_BPS_def dest!: protocol_fee_Inr intro: that)

lemma dismissed_effect:
  assumes "resolve_dispute e a i Dismissed s = Inr (s', tr)"
  obtains r r' f fee where "bk_intents (book s) i = Some r" "in_state r = Disputed"
    "bk_intents (book s') = (bk_intents (book s))(i \<mapsto> r')" "in_state r' = Resolved"
    "fee = or0 (in_fill_amount r) * 5 sdiv 10000"
    "tr = sends (in_dst_token r) (self e) (in_user r) (or0 (in_fill_amount r) - fee) # sends_pos (in_dst_token r) (self e) f fee"
  using assms unfolding resolve_dispute_def Let_def split_beta
  by (simp only: DisputeResolution.case, elim rbindE guardE condE)
    (auto simp: load_intent_def helper_defs pay_escrow_Inr PROTOCOL_FEE_BPS_def dest!: protocol_fee_Inr intro: that)

lemma upheld_parts:
  assumes "resolve_dispute e a i Upheld s = Inr (s', tr)"
  obtains r r' f sol q p where "bk_intents (book s) i = Some r" "in_state r = Disputed"
    "bo_solvers (bonds s) sol = Some q" "uphold e r (q\<lparr>so_active_intents := so_active_intents q - 1\<rparr>) s = Inr p"
    "bk_intents (book s') = (bk_intents (book (fst p)))(i \<mapsto> r')" "in_state r' = Resolved"
    "vault_of s' = vault_of (save_solver sol (fst (snd p)) (fst p))"
    "tr = sends (in_dst_token r) (self e) (in_user r) (or0 (in_fill_amount r)) #
       sends_pos (in_bond_token r) (self e) f (snd (snd p))"
  using assms unfolding resolve_dispute_def Let_def split_beta
  apply (simp only: DisputeResolution.case)
  apply (elim rbindE guardE)
  apply (drule maybe_transfer)
  apply (auto simp: load_intent_def helper_defs pay_escrow_Inr bond_part_def)
  done

lemma upheld_effect:
  assumes "resolve_dispute e a i Upheld s = Inr (s', tr)" "vault_ok (vault_of s)"
  obtains r r' f sol sl where "bk_intents (book s) i = Some r" "in_state r = Disputed"
    "bk_intents (book s') = (bk_intents (book s))(i \<mapsto> r')" "in_state r' = Resolved"
    "0 \<le> sl" "sl \<le> prior_bond sol (in_bond_token r) (vault_of s)"
    "bonded_to sol (in_bond_token r) (prior_bond sol (in_bond_token r) (vault_of s) - sl) (vault_of s) (vault_of s')"
    "tr = sends (in_dst_token r) (self e) (in_user r) (or0 (in_fill_amount r)) # sends_pos (in_bond_token r) (self e) f sl"
proof (rule upheld_parts [OF assms(1)])
  fix r r' f sol q p
  assume r: "bk_intents (book s) i = Some r" "in_state r = Disputed"
    "bo_solvers (bonds s) sol = Some q" "uphold e r (q\<lparr>so_active_intents := so_active_intents q - 1\<rparr>) s = Inr p"
    "bk_intents (book s') = (bk_intents (book (fst p)))(i \<mapsto> r')" "in_state r' = Resolved"
    "vault_of s' = vault_of (save_solver sol (fst (snd p)) (fst p))"
    "tr = sends (in_dst_token r) (self e) (in_user r) (or0 (in_fill_amount r)) #
       sends_pos (in_bond_token r) (self e) f (snd (snd p))"
  obtain s1 q1 sl where p: "p = (s1, q1, sl)" by (cases p)
  have "bond_part (q\<lparr>so_active_intents := so_active_intents q - 1\<rparr>) = bond_part q" by (simp add: bond_part_def)
  from uphold_effect [OF r(4) [unfolded p] assms(2) this r(3)] r(5-8) p show thesis
    by (intro that [OF r(1,2) _ r(6)]) auto
qed

section \<open>Every transaction is covered\<close>

definition covers :: "address \<Rightarrow> address \<Rightarrow> settlement \<Rightarrow> settlement \<Rightarrow> xfer list \<Rightarrow> bool" where
  "covers me tok s s' tr \<longleftrightarrow> vault_ok (vault_of s') \<and> st_owed tok s' - st_owed tok s \<le> net_in tok me tr"

definition st_good :: "settlement \<Rightarrow> bool" where
  "st_good s \<longleftrightarrow> vault_ok (vault_of s) \<and> counts_ok s \<and> roster_ok s \<and> blank_ok s \<and>
     ledger_ok (ledger_of s) \<and> ledger_delivered (ledger_of s)"

lemma good_finite: "st_good s \<Longrightarrow> finite (dom (bk_intents (book s)))"
  by (simp add: st_good_def counts_ok_def)

lemma covers_flat:
  assumes "touched (vault_of s) (vault_of s')" "level s s'" "0 \<le> net_in tok me tr" "st_good s"
  shows "covers me tok s s' tr"
  using touched_ok [OF assms(1)] touched_held [OF assms(1), of tok] assms(2-4) good_finite [OF assms(4)]
  by (simp add: covers_def st_owed_def level_def st_good_def)

lemma covers_still: "vault_of s' = vault_of s \<Longrightarrow> level s s' \<Longrightarrow> st_good s \<Longrightarrow> covers me tok s s' []"
  by (rule covers_flat) simp_all

text \<open>Bonds alone: a solver's bond moves with the transfer.\<close>

lemma covers_bond:
  assumes "bonded_to a t v (vault_of s) (vault_of s')" "0 \<le> v" "bk_intents (book s') = bk_intents (book s)" "st_good s"
    "(if tok = t then v - prior_bond a t (vault_of s) else 0) \<le> net_in tok me tr"
  shows "covers me tok s s' tr"
  using bonded_to_ok [OF assms(1) _ assms(2)] bonded_to_held [OF assms(1) _ assms(2), of tok] assms(3-5)
  by (simp add: covers_def st_owed_def st_good_def)

lemma register_covers:
  assumes "register_solver_inner w e a t v s = Inr (s', tr)" "st_good s" "exact_tokens e" "\<not> authed e (self e)"
  shows "covers (self e) tok s s' tr"
proof -
  have ok: "vault_ok (vault_of s)" using assms(2) by (simp add: st_good_def)
  from register_effect [OF assms(1) ok assms(3)] have r: "authed e a" "0 < v"
    "tr = [\<lparr>x_token = t, x_from = a, x_to = self e, x_amount = v\<rparr>]"
    "bonded_to a t (prior_bond a t (vault_of s) + v) (vault_of s) (vault_of s')" by auto
  have "a \<noteq> self e" using r(1) assms(4) by auto
  with r(2,3) prior_nonneg [OF ok, of a t] bonds_same_counts(1) [OF assms(1)] show ?thesis
    by (intro covers_bond [OF r(4) _ _ assms(2)]) (auto simp: same_counts_def x_net_def)
qed

lemma withdraw_covers:
  assumes "withdraw_bond_inner e a t v s = Inr (s', tr)" "st_good s" "\<not> authed e (self e)"
  shows "covers (self e) tok s s' tr"
proof -
  have ok: "vault_ok (vault_of s)" using assms(2) by (simp add: st_good_def)
  from withdraw_effect [OF assms(1) ok] have r: "authed e a" "0 < v" "v \<le> prior_bond a t (vault_of s)"
    "tr = [\<lparr>x_token = t, x_from = self e, x_to = a, x_amount = v\<rparr>]"
    "bonded_to a t (prior_bond a t (vault_of s) - v) (vault_of s) (vault_of s')" by auto
  have "a \<noteq> self e" using r(1) assms(3) by auto
  with r(2-4) bonds_same_counts(3) [OF assms(1)] show ?thesis
    by (intro covers_bond [OF r(5) _ _ assms(2)]) (auto simp: same_counts_def x_net_def)
qed

lemma deregister_covers:
  assumes "deregister_solver w e a s = Inr (s', tr)" "st_good s" "\<not> authed e (self e)"
  shows "covers (self e) tok s s' tr"
  using deregister_owed(1) [OF assms(1) _ assms(3), of tok] deregister_owed(2) [OF assms(1) _ assms(3)] bonds_same_counts(2) [OF assms(1)] assms(2)
  by (simp add: covers_def st_owed_def st_good_def same_counts_def)

text \<open>Escrows: what comes in is what is recorded, and what is recorded goes out.\<close>

lemma good_escrow:
  assumes "st_good s" "bk_intents (book s) i = Some r" "in_state r \<in> {Filling, Disputed}"
  shows "0 \<le> or0 (in_fill_amount r)"
  using assms by (force simp: st_good_def ledger_delivered_def delivered_ok_def fst_ledger_of)

lemma begin_fill_covers:
  assumes "begin_fill e a i v s = Inr (s', tr)" "st_good s" "exact_tokens e" "\<not> authed e (self e)"
  shows "covers (self e) tok s s' tr"
proof (rule begin_fill_effect [OF assms(1,3)])
  fix r r'
  assume r: "authed e a" "0 < v" "bk_intents (book s) i = Some r" "in_state r = Accepted"
    "bk_intents (book s') = (bk_intents (book s))(i \<mapsto> r')" "in_state r' = Filling" "in_dst_token r' = in_dst_token r"
    "in_fill_amount r' = Some v" "tr = [sends (in_dst_token r) a (self e) v]"
  have "a \<noteq> self e" using r(1) assms(4) by auto
  moreover have "vault_of s' = vault_of s" by (rule book_vault(6) [OF assms(1)])
  ultimately show ?thesis
    using r assms(2) by (simp add: covers_def st_owed_def st_good_def counts_ok_def escrows_upd escrow_of_def x_net_def)
qed

text \<open>The end of an escrow of \<open>r\<close>, paid out in two parts.\<close>

lemma covers_paid:
  assumes "touched (vault_of s) (vault_of s')" "st_good s" "bk_intents (book s) i = Some r" "in_state r \<in> {Filling, Disputed}"
    "bk_intents (book s') = (bk_intents (book s))(i \<mapsto> r')" "in_state r' \<in> {Filled, Resolved}"
    "fee = 0 \<or> fee = or0 (in_fill_amount r) * 5 sdiv 10000"
    "tr = sends (in_dst_token r) me (in_user r) (or0 (in_fill_amount r) - fee) # sends_pos (in_dst_token r) me f fee"
  shows "covers me tok s s' tr"
proof -
  let ?v = "or0 (in_fill_amount r)" and ?t = "in_dst_token r"
  have v: "0 \<le> ?v" by (rule good_escrow [OF assms(2-4)])
  with assms(7) fee_within have fee: "0 \<le> fee" "fee \<le> ?v" by auto
  have "escrows tok (bk_intents (book s')) = escrows tok (bk_intents (book s)) - (if ?t = tok then ?v else 0)"
    using assms(3-6) good_finite [OF assms(2)] by (auto simp: escrows_upd escrow_of_def)
  moreover have "- (if ?t = tok then ?v else 0) \<le> net_in tok me tr"
    using net_out(1) [of "?v - fee" ?t tok me "in_user r"] net_out(2) [of fee ?t tok me f] fee
    unfolding assms(8) by (auto simp: net_in_def split: if_splits)
  ultimately show ?thesis
    using touched_ok [OF assms(1)] touched_held [OF assms(1), of tok] assms(2)
    by (simp add: covers_def st_owed_def st_good_def)
qed

lemma release_covers:
  assumes "release_fill e i s = Inr (s', tr)" "st_good s"
  shows "covers (self e) tok s s' tr"
  by (rule release_fill_effect [OF assms(1)])
    (rule covers_paid [OF release_fill_touched [OF assms(1)] assms(2)], assumption+)

lemma resolve_covers:
  assumes "resolve_dispute e a i q s = Inr (s', tr)" "st_good s"
  shows "covers (self e) tok s s' tr"
proof (cases q)
  case Dismissed
  note d = assms(1) [unfolded Dismissed]
  show ?thesis
  proof (rule dismissed_effect [OF d])
    fix r r' f fee
    assume r: "bk_intents (book s) i = Some r" "in_state r = Disputed"
      "bk_intents (book s') = (bk_intents (book s))(i \<mapsto> r')" "in_state r' = Resolved"
      "fee = or0 (in_fill_amount r) * 5 sdiv 10000"
      "tr = sends (in_dst_token r) (self e) (in_user r) (or0 (in_fill_amount r) - fee) # sends_pos (in_dst_token r) (self e) f fee"
    show ?thesis
      by (rule covers_paid [OF dismissed_touched [OF d] assms(2) r(1) _ r(3) _ disjI2 [OF r(5)] r(6)]) (simp_all add: r(2,4))
  qed
next
  case Upheld
  have ok: "vault_ok (vault_of s)" using assms(2) by (simp add: st_good_def)
  show ?thesis
  proof (rule upheld_effect [OF assms(1) [unfolded Upheld] ok])
    fix r r' f sol sl
    assume r: "bk_intents (book s) i = Some r" "in_state r = Disputed"
      "bk_intents (book s') = (bk_intents (book s))(i \<mapsto> r')" "in_state r' = Resolved"
      "0 \<le> sl" "sl \<le> prior_bond sol (in_bond_token r) (vault_of s)"
      "bonded_to sol (in_bond_token r) (prior_bond sol (in_bond_token r) (vault_of s) - sl) (vault_of s) (vault_of s')"
      "tr = sends (in_dst_token r) (self e) (in_user r) (or0 (in_fill_amount r)) # sends_pos (in_bond_token r) (self e) f sl"
    let ?v = "or0 (in_fill_amount r)" and ?t = "in_dst_token r" and ?b = "in_bond_token r"
    have v: "0 \<le> ?v" using good_escrow [OF assms(2) r(1)] r(2) by simp
    have "escrows tok (bk_intents (book s')) = escrows tok (bk_intents (book s)) - (if ?t = tok then ?v else 0)"
      using r(1-4) good_finite [OF assms(2)] by (simp add: escrows_upd escrow_of_def)
    moreover have "bonds_held tok (vault_of s') = bonds_held tok (vault_of s) - (if ?b = tok then sl else 0)"
      using bonded_to_held [OF r(7) ok, of tok] r(6) by auto
    moreover have "- (if ?t = tok then ?v else 0) - (if ?b = tok then sl else 0) \<le> net_in tok (self e) tr"
      using net_out(1) [OF v, of ?t tok "self e" "in_user r"] net_out(2) [OF r(5), of ?b tok "self e" f]
      unfolding r(8) by (simp add: net_in_def)
    ultimately show ?thesis
      using bonded_to_ok [OF r(7) ok] r(6) by (simp add: covers_def st_owed_def)
  qed
qed

text \<open>Fills go from the solver to the user and to the fee recipient; the contract is not the solver.\<close>

lemma fill_inner_net:
  assumes "fill_intent_inner w e a i v p s = Inr (s', tr)" "authed e a" "\<not> authed e me"
  shows "0 \<le> net_in tok me tr"
proof -
  obtain r where r: "bk_intents (book s) i = Some r"
    using assms(1) unfolding fill_intent_inner_def by (elim rbindE) (simp add: load_intent_def)
  have "fill_intent w e a i v p s = Inr (s', tr)"
    using assms(1,2) by (simp add: fill_intent_def require_auth_def)
  from fill_intent_effect [OF this r] obtain f where "0 < v"
    "tr = sends (in_dst_token r) a (in_user r) v #
       sends_pos (in_dst_token r) a f (v * cf_protocol_fee_bps (load_config s) sdiv 10000)" by blast
  moreover have "a \<noteq> me" using assms(2,3) by auto
  ultimately show ?thesis by (auto simp: net_in_Cons x_net_def sends_pos_def)
qed

text \<open>A batch is one transaction: each of its items keeps the vault, the escrows and the sign.\<close>

definition steady :: "settlement \<Rightarrow> settlement \<Rightarrow> bool" where
  "steady s s' \<longleftrightarrow> touched (vault_of s) (vault_of s') \<and> level s s'"

lemma steady_refl [simp]: "steady s s"
  by (simp add: steady_def level_def)

lemma steady_trans: "steady s s1 \<Longrightarrow> steady s1 s2 \<Longrightarrow> steady s s2"
  by (auto simp: steady_def intro: touched_trans level_trans)

lemma each_steady:
  assumes "\<And>x p p'. f x p = Inr p' \<Longrightarrow> steady (g p) (g p')" "each f xs p = Inr p'"
  shows "steady (g p) (g p')"
  using assms(2) by (induction xs arbitrary: p) (auto intro: steady_trans dest: assms(1))

lemma steady_put [simp]: "steady s (stamp_cancel_cooldown u n t) = steady s t" "steady s (upd_extra g t) = steady s t"
  by (simp_all add: steady_def level_def vault_of_def helper_defs)

lemma item_steady:
  "accept_intent_body w e a i b s = Inr s1 \<Longrightarrow> steady s s1"
  "cancel_intent_core e u i s = Inr s2 \<Longrightarrow> steady s s2"
  "fill_intent_inner w e a i v p s = Inr (s3, tr) \<Longrightarrow> steady s s3"
  "submit_intent_inner w e u c q v d m dl rf s = Inr (s4, j) \<Longrightarrow> steady s s4"
  "amend_intent e u i m d s = Inr s5 \<Longrightarrow> steady s s5"
  "expire_intent e i s = Inr s6 \<Longrightarrow> steady s s6"
  "dispute_fill e u i s = Inr s7 \<Longrightarrow> steady s s7"
  "request_extension w e a i s = Inr s8 \<Longrightarrow> steady s s8"
  "close_intent e i s = Inr s9 \<Longrightarrow> steady s s9"
  by (simp_all add: steady_def accept_intent_body_touched accept_intent_body_level book_vault cancel_intent_core_level
      fill_intent_inner_touched fill_intent_inner_level submit_vault submit_level amend_intent_level expire_intent_level
      dispute_fill_level request_extension_level close_level)

lemma batch_steady:
  "cancel_intent e u i s = Inr s1 \<Longrightarrow> steady s s1"
  "batch_cancel_intent e u ids s = Inr s2 \<Longrightarrow> steady s s2"
  "batch_submit_intent w e u orders s = Inr (s3, js) \<Longrightarrow> steady s s3"
  "batch_accept_intent w e u ids s = Inr s4 \<Longrightarrow> steady s s4"
  "batch_fill_intent w e u fills s = Inr (s5, tr) \<Longrightarrow> steady s s5"
proof -
  show "cancel_intent e u i s = Inr s1 \<Longrightarrow> steady s s1"
    unfolding cancel_intent_def by (auto dest: item_steady(2))
  show "batch_cancel_intent e u ids s = Inr s2 \<Longrightarrow> steady s s2"
    unfolding batch_cancel_intent_def
    by (elim rbindE guardE, drule each_steady [where g = "\<lambda>s. s", rotated]) (auto dest: item_steady(2))
  show "batch_submit_intent w e u orders s = Inr (s3, js) \<Longrightarrow> steady s s3"
    unfolding batch_submit_intent_def
    by (elim rbindE guardE, drule each_steady [where g = fst, rotated]) (auto dest: item_steady(4))
  show "batch_accept_intent w e u ids s = Inr s4 \<Longrightarrow> steady s s4"
    unfolding batch_accept_intent_def accept_intent_inner_def
    by (elim rbindE guardE, drule each_steady [where g = "\<lambda>s. s", rotated]) (auto intro: steady_trans dest: item_steady(1))
  show "batch_fill_intent w e u fills s = Inr (s5, tr) \<Longrightarrow> steady s s5"
    unfolding batch_fill_intent_def
    by (elim rbindE guardE, drule each_steady [where g = fst, rotated]) (auto dest: item_steady(3))
qed

lemma batch_fill_net:
  assumes "batch_fill_intent w e a fills s = Inr (s', tr)" "\<not> authed e me"
  shows "0 \<le> net_in tok me tr"
proof -
  have each_net: "0 \<le> net_in tok me tr'" if "authed e a" "each (\<lambda>(i, v) (s, tr).
      rbind (fill_intent_inner w e a i v False s) (\<lambda>(s1, tr1). Inr (s1, tr @ tr1))) fs (s, tr) = Inr (s', tr')"
    "0 \<le> net_in tok me tr" for fs s tr s' tr'
    using that(2,3)
  proof (induction fs arbitrary: s tr)
    case (Cons x fs)
    obtain i v where x: "x = (i, v)" by (cases x)
    from Cons.prems(1) obtain s1 tr1 where "fill_intent_inner w e a i v False s = Inr (s1, tr1)"
      and rest: "each (\<lambda>(i, v) (s, tr). rbind (fill_intent_inner w e a i v False s) (\<lambda>(s1, tr1). Inr (s1, tr @ tr1)))
        fs (s1, tr @ tr1) = Inr (s', tr')" unfolding x by auto
    from fill_inner_net [OF this(1) that(1) assms(2)] have "0 \<le> net_in tok me tr1" .
    with Cons.prems(2) Cons.IH [OF rest] show ?case by simp
  qed simp
  from assms(1) have "authed e a" and "each (\<lambda>(i, v) (s, tr).
      rbind (fill_intent_inner w e a i v False s) (\<lambda>(s1, tr1). Inr (s1, tr @ tr1))) fills (s, []) = Inr (s', tr)"
    unfolding batch_fill_intent_def by (auto simp: require_auth_def split: if_splits)
  from each_net [OF this] show ?thesis by simp
qed

text \<open>Administration moves no bond and no escrow; its only transfer is the rescue of a token.\<close>

lemma admin_vault:
  "admin_apply w e a s = Inr (s', tr) \<Longrightarrow> (\<exists>x f b. a = AInit x f b) \<or>
     (vault_of s' = vault_of s \<and> bk_intents (book s') = bk_intents (book s) \<and>
       (tr = [] \<or> (\<exists>t u v. a = ARescue t u v \<and> tr = [sends t (self e) u v])))"
  by (cases a; simp add: admin_defs split_beta Let_def vault_of_def;
      (elim exE conjE guardE rbindE)?; (auto simp: upd_bonds_def transfer_eq_Inr; fail)?)

lemma init_vault:
  assumes "st_initialize w e a f b s = Inr s'" "blank_ok s"
  shows "vault_of s = (None, bo_solvers (bonds s), bo_extra (bonds s))" "vault_of s' = (Some b, bo_solvers (bonds s), bo_extra (bonds s))"
    "bk_intents (book s') = bk_intents (book s)"
  using assms by (auto simp: st_initialize_def blank_ok_def vault_of_def split: if_splits)

definition st_fair :: "address \<Rightarrow> st_event \<Rightarrow> bool" where
  "st_fair tok ev \<longleftrightarrow> (case ev of
      Slash _ \<Rightarrow> False
    | Admin (ARescue t _ _) \<Rightarrow> t \<noteq> tok
    | _ \<Rightarrow> True)"

lemma admin_covers:
  assumes "admin_apply w e a s = Inr (s', tr)" "st_good s" "st_fair tok (Admin a)"
  shows "covers (self e) tok s s' tr"
proof (cases "\<exists>x f b. a = AInit x f b")
  case True
  then obtain x f b where a: "a = AInit x f b" by blast
  with assms(1) have init: "st_initialize w e x f b s = Inr s'" "tr = []" by auto
  have blank: "blank_ok s" and ok: "vault_ok (vault_of s)" using assms(2) by (auto simp: st_good_def)
  from init_vault [OF init(1) blank] ok show ?thesis
    by (simp add: covers_def st_owed_def init(2))
next
  case False
  with admin_vault [OF assms(1)] have v: "vault_of s' = vault_of s" "bk_intents (book s') = bk_intents (book s)"
    "tr = [] \<or> (\<exists>t u v. a = ARescue t u v \<and> tr = [sends t (self e) u v])" by auto
  then have "net_in tok (self e) tr = 0" using assms(3) by (auto simp: st_fair_def x_net_def)
  with v(1,2) assms(2) show ?thesis by (simp add: covers_def st_owed_def st_good_def)
qed

text \<open>The other entry points.\<close>

lemma steady_covers: "steady s s' \<Longrightarrow> 0 \<le> net_in tok me tr \<Longrightarrow> st_good s \<Longrightarrow> covers me tok s s' tr"
  unfolding steady_def by (elim conjE) (rule covers_flat)

lemma bonds_steady: "bonds s' = bonds s \<and> same_counts s s' \<and> roles s' = roles s \<Longrightarrow> steady s s'"
  by (simp add: steady_def level_same same_counts_def vault_of_def)

lemma bid_steady: "bid_intent e a i v s = Inr s' \<Longrightarrow> steady s s'"
  by (rule bonds_steady [OF extras_books(3)])

lemma ledger_no_bids:
  assumes "ledger_ok (ledger_of s)"
  shows "settle_bids e i s \<noteq> Inr s'" "claim_backstop_compensation e i s \<noteq> Inr (s', tr)"
proof -
  have ok: "order_ok r" if "bk_intents (book s) i = Some r" for i r
    using assms that by (simp add: ledger_ok_def fst_ledger_of)
  show "settle_bids e i s \<noteq> Inr s'"
    using settle_needs [of e i s s'] ok by (auto simp: order_ok_def)
  show "claim_backstop_compensation e i s \<noteq> Inr (s', tr)"
    using claim_needs [of e i s s' tr] ok by (fastforce simp: order_ok_def)
qed

lemma good_no_bids:
  assumes "st_good s"
  shows "settle_bids e i s \<noteq> Inr s'" "claim_backstop_compensation e i s \<noteq> Inr (s', tr)"
  using assms ledger_no_bids by (auto simp: st_good_def)

lemmas steady_still = batch_steady(1-4) item_steady(1,4-9) bid_steady
  chain_books [THEN bonds_steady] extras_books [THEN bonds_steady]

lemma st_apply_covers:
  assumes "st_apply w e ev s = Inr (s', tr)" "st_good s" "st_fair tok ev" "exact_tokens e" "\<not> authed e (self e)"
  shows "covers (self e) tok s s' tr"
proof (cases "\<exists>a. ev = Admin a")
  case True
  then obtain a where a: "ev = Admin a" by blast
  show ?thesis using assms(1-3) unfolding a by (simp add: admin_covers)
next
  case False
  have still: "steady s s' \<Longrightarrow> covers (self e) tok s s' []"
    using assms(2) by (simp add: steady_covers)
  have fill: "fill_intent_inner w e a i v p s = Inr (s', tr) \<Longrightarrow> authed e a \<Longrightarrow> ?thesis" for a i v p
    by (rule steady_covers [OF item_steady(3) fill_inner_net assms(2)]) (use assms(5) in auto)
  have fills: "batch_fill_intent w e a fs s = Inr (s', tr) \<Longrightarrow> ?thesis" for a fs
    by (rule steady_covers [OF batch_steady(5) batch_fill_net assms(2)]) (use assms(5) in auto)
  show ?thesis
    using assms(1,3) False good_no_bids [OF assms(2)]
    by - (cases ev; simp add: register_solver_def register_solver_with_token_def withdraw_bond_def
        withdraw_bond_token_def submit_intent_def accept_intent_def accept_intent_with_bond_def accept_intent_inner_def
        fill_intent_def st_fair_def; (elim exE conjE)?;
      ((rule still, erule steady_still) | (rule register_covers withdraw_covers deregister_covers
          begin_fill_covers release_covers resolve_covers, assumption, rule assms, (rule assms)+)
        | (rule release_covers resolve_covers, assumption, rule assms) | (erule fill, assumption) | erule fills))
qed

section \<open>Every run is covered\<close>

definition st_handle :: "env \<Rightarrow> world \<times> st_event \<Rightarrow> settlement \<Rightarrow> (settlement \<times> xfer list) st" where
  "st_handle e ev s = st_apply (fst ev) e (snd ev) s"

text \<open>
  A transaction of somebody else, in tokens that move what they are told to, that is neither a
  slash, which pays the slashed bond out twice, nor the rescue of the token that is counted.
\<close>

definition st_ok :: "address \<Rightarrow> address \<Rightarrow> env \<Rightarrow> world \<times> st_event \<Rightarrow> bool" where
  "st_ok me tok e ev \<longleftrightarrow> self e = me \<and> \<not> authed e me \<and> exact_tokens e \<and> st_fair tok (snd ev)"

lemma st_empty_good: "st_good st_empty"
  using st_run_books [of "[]"]
  by (simp add: st_good_def vault_of_def ledger_ok_def ledger_delivered_def st_empty_ledger)
    (simp add: st_empty_def no_bonds_def)

lemma st_empty_owed: "st_owed tok st_empty = 0"
  by (simp add: st_owed_def vault_of_def escrows_def st_empty_def no_bonds_def no_book_def)

lemma st_apply_good:
  assumes "st_apply w e ev s = Inr (s', tr)" "st_good s" "st_fair tok ev" "exact_tokens e" "\<not> authed e (self e)"
  shows "st_good s'"
proof -
  have steps: "(ledger_step e)\<^sup>*\<^sup>* (ledger_of s) (ledger_of s')"
    using st_step_ledger [of e s "(w, ev)"] assms(1) by (simp add: st_step_def)
  have g: "ledger_ok (ledger_of s)" "ledger_delivered (ledger_of s)" using assms(2) by (simp_all add: st_good_def)
  have "ledger_ok (ledger_of s')" by (rule steps_keep [where P = ledger_ok, OF steps ledger_ok_step g(1)])
  moreover have "ledger_delivered (ledger_of s')"
    by (rule steps_keep [where P = ledger_delivered, OF steps ledger_delivered_step [OF _ assms(4)] g(2)])
  ultimately show ?thesis
    using st_apply_keeps [OF assms(1) g(1)] st_apply_covers [OF assms] assms(2)
    by (simp add: st_good_def keeps_books_def covers_def)
qed

interpretation st_tokens: covered_books st_handle st_empty st_good "st_ok me tok" me tok "st_owed tok" for me tok
proof
  show "st_good st_empty" by (rule st_empty_good)
  show "st_owed tok st_empty = 0" by (rule st_empty_owed)
next
  fix s e ev s' tr
  assume s: "st_good s" "st_ok me tok e ev" "st_handle e ev s = Inr (s', tr)"
  then have e: "self e = me" "\<not> authed e (self e)" "exact_tokens e" "st_fair tok (snd ev)"
    and ap: "st_apply (fst ev) e (snd ev) s = Inr (s', tr)" by (auto simp: st_ok_def st_handle_def)
  show "st_good s'" by (rule st_apply_good [OF ap s(1) e(4,3,2)])
  show "st_owed tok s' - st_owed tok s \<le> net_in tok me tr"
    using st_apply_covers [OF ap s(1) e(4,3,2)] by (simp add: covers_def e(1))
qed

text \<open>The run with its transfers passes through the states of the plain run.\<close>

lemma st_token_run: "fst (token_run st_handle s txs) = st_run txs s"
proof (induction txs rule: rev_induct)
  case (snoc tx txs)
  then show ?case
    by (cases tx) (simp add: contract_run_append token_step_def st_handle_def st_step_def split: sum.splits)
qed simp

text \<open>No single bond or escrow exceeds the sum.\<close>

lemma held_nonneg: "vault_ok v \<Longrightarrow> 0 \<le> prior_bond a t v \<and> prior_bond a t v \<le> bonds_held t v"
proof (cases v)
  fix d m x
  assume v: "v = (d, m, x)" and ok: "vault_ok v"
  have fin: "finite (dom m)" "finite (dom x)" using ok v by auto
  have m: "0 \<le> or0 (map_option so_bond_amount (m a))" for a using ok v by (cases "m a") auto
  have x: "0 \<le> or0 (x k)" for k using ok v by (cases k; cases "x k") (auto simp: less_imp_le)
  have "or0 (map_option so_bond_amount (m a)) \<le> amounts (\<lambda>a. map_option so_bond_amount (m a))"
    by (rule amounts_member) (simp_all add: dom_map_option_fun fin m)
  moreover have "or0 (x (a, t)) \<le> amounts (\<lambda>a. x (a, t))"
    by (rule amounts_member [of "\<lambda>a. x (a, t)" a]) (simp_all add: finite_column fin x)
  moreover have "0 \<le> amounts (\<lambda>a. map_option so_bond_amount (m a))" "0 \<le> amounts (\<lambda>a. x (a, t))"
    by (rule amounts_nonneg, simp add: m x)+
  ultimately show ?thesis using m [of a] x [of "(a, t)"] unfolding v by auto
qed

lemma good_escrow_of: "st_good s \<Longrightarrow> 0 \<le> or0 (map_option (escrow_of tok) (bk_intents (book s) i))"
  using good_escrow [of s i] by (cases "bk_intents (book s) i") (auto simp: escrow_of_def)

lemma escrow_within:
  assumes "st_good s"
  shows "0 \<le> escrows tok (bk_intents (book s)) \<and>
    or0 (map_option (escrow_of tok) (bk_intents (book s) i)) \<le> escrows tok (bk_intents (book s))"
  unfolding escrows_def
  using good_escrow_of [OF assms] good_finite [OF assms]
  by (auto simp: dom_map_option_fun intro!: amounts_nonneg amounts_member [of "\<lambda>i. map_option (escrow_of tok) (bk_intents (book s) i)" i])

lemma solver_bond_prior:
  assumes "vault_ok (vault_of s)" "get_solver_bond s a t = Inr b"
  shows "b \<le> prior_bond a t (vault_of s)"
proof (cases "bo_solvers (bonds s) a")
  case None
  with assms(2) prior_nonneg [OF assms(1)] show ?thesis by (simp add: get_solver_bond_def)
next
  case (Some q)
  with assms(2) have "get_solver_bond_amount s q t = Inr b" by (simp add: get_solver_bond_def)
  with get_bond_prior stored_bond(1,3) [OF assms(1) Some] show ?thesis by simp
qed

text \<open>An escrow is there.\<close>

lemma settlement_covered_escrow:
  assumes "\<forall>tx \<in> set txs. st_ok me (in_dst_token r) (fst tx) (snd tx)"
    "bk_intents (book (st_run txs st_empty)) i = Some r" "in_state r \<in> {Filling, Disputed}"
  shows "or0 (in_fill_amount r) \<le> net_in (in_dst_token r) me (snd (token_run st_handle st_empty txs))"
proof -
  have run: "st_good (st_run txs st_empty)" "st_owed (in_dst_token r) (st_run txs st_empty) \<le>
      net_in (in_dst_token r) me (snd (token_run st_handle st_empty txs))"
    using st_tokens.run_covered [OF assms(1)] by (simp_all add: st_token_run)
  then have "vault_ok (vault_of (st_run txs st_empty))" by (simp add: st_good_def)
  from held_nonneg [OF this, of me "in_dst_token r"] escrow_within [OF run(1), of "in_dst_token r" i] run(2) assms(2,3)
  show ?thesis by (auto simp: st_owed_def escrow_of_def)
qed

text \<open>A run to an escrow, by clients other than the contract.\<close>

definition client_run :: "(env \<times> world \<times> st_event) list" where
  "client_run = map (\<lambda>ev. (client_env 1000, demo_world, ev))
     [Admin (AInit 1 2 3), Register 8 600000000, Submit 7 ''stellar'' ''x'' 100 4 50 None None,
      AcceptIntent 8 9, BeginFill 8 9 60]"

lemma client_ok: "\<forall>tx \<in> set client_run. st_ok 5 t (fst tx) (snd tx)"
  by (simp add: client_run_def st_ok_def st_fair_def exact_tokens_def)

lemma client_filling:
  "map_option (\<lambda>r. (in_state r, in_dst_token r, in_fill_amount r)) (bk_intents (book (st_run client_run st_empty)) 9) =
     Some (Filling, 4, Some 60)"
  by (simp add: eval_escrow client_run_def)

section \<open>Properties\<close>

text \<open>
  C2: After any run of settlement transactions made by others, with tokens that move what they
  are told to, without slashes and without rescues of the token counted, the solvers' bonds in
  that token and the escrows in it together are at most what the transfers brought in; so each
  bond and each escrow is covered.
\<close>

theorem settlement_solvent:
  assumes "\<forall>tx \<in> set txs. st_ok me tok (fst tx) (snd tx)"
  shows "let s = st_run txs st_empty;
             held = net_in tok me (snd (token_run st_handle st_empty txs))
         in bonds_held tok (vault_of s) + escrows tok (bk_intents (book s)) \<le> held \<and>
            (\<forall>a b. get_solver_bond s a tok = Inr b \<longrightarrow> b \<le> held) \<and>
            (\<forall>i r. bk_intents (book s) i = Some r \<longrightarrow> in_state r \<in> {Filling, Disputed} \<longrightarrow> in_dst_token r = tok \<longrightarrow>
               or0 (in_fill_amount r) \<le> held)"
proof -
  let ?s = "st_run txs st_empty" and ?held = "net_in tok me (snd (token_run st_handle st_empty txs))"
  have run: "st_good ?s" "st_owed tok ?s \<le> ?held"
    using st_tokens.run_covered [OF assms] by (simp_all add: st_token_run)
  then have ok: "vault_ok (vault_of ?s)" by (simp add: st_good_def)
  have "b \<le> ?held" if "get_solver_bond ?s a tok = Inr b" for a b
    using solver_bond_prior [OF ok that] held_nonneg [OF ok, of a tok] escrow_within [OF run(1), of tok undefined] run(2)
    by (simp add: st_owed_def)
  moreover have "or0 (in_fill_amount r) \<le> ?held"
    if "bk_intents (book ?s) i = Some r" "in_state r \<in> {Filling, Disputed}" "in_dst_token r = tok" for i r
    using settlement_covered_escrow [of txs me r i] assms that by simp
  ultimately show ?thesis using run(2) by (simp add: Let_def st_owed_def)
qed

theorem settlement_solvent_witness:
  "\<exists>r. bk_intents (book (st_run client_run st_empty)) 9 = Some r \<and> in_state r = Filling \<and> in_fill_amount r = Some 60 \<and>
     60 \<le> net_in 4 5 (snd (token_run st_handle st_empty client_run))"
proof -
  obtain r where r: "bk_intents (book (st_run client_run st_empty)) 9 = Some r"
    "in_state r = Filling" "in_dst_token r = 4" "in_fill_amount r = Some 60"
    using client_filling by auto
  with settlement_solvent [OF client_ok, of 4] show ?thesis by (fastforce simp: Let_def)
qed

text \<open>
  The admin can rescue the token of an escrow that is still owed: only the default bond token
  is protected.
\<close>

theorem rescue_takes_escrow:
  "let txs = client_run @ [(client_env 1001, demo_world, Admin (ARescue 4 2 60))]
   in map_option (\<lambda>r. (in_state r, in_dst_token r, in_fill_amount r)) (bk_intents (book (st_run txs st_empty)) 9) = Some (Filling, 4, Some 60) \<and> net_in 4 5 (snd (token_run st_handle st_empty txs)) = 0"
  by (simp add: client_run_def eval_escrow token_run_def token_step_def st_handle_def rescue_tokens_def st_require_admin_def x_net_def)

text \<open>
  After a slash the bonds on the books exceed what the contract holds of the bond token,
  because the slash is paid out twice.
\<close>

theorem slash_overdraws:
  "let txs = take 4 client_run @ [(client_env 2000, demo_world, Slash 9)]
   in get_solver_bond (st_run txs st_empty) 8 3 = Inr 599999995 \<and>
      net_in 3 5 (snd (token_run st_handle st_empty txs)) = 599999990"
  by (simp add: client_run_def eval_run token_run_def token_step_def st_handle_def slash_solver_def slash_eligible_def
      st_slash_amount_def SLASH_BPS_def slash_payout_def get_solver_bond_def x_net_def)

end
