(* ===== verification/Settlement_Refunds.thy ===== *)
theory Settlement_Refunds
  imports Settlement_Solvency
begin

text \<open>
  What a solver that leaves is sent. In every reachable state of the settlement contract a bond in a
  further token belongs to a registered solver whose record lists that token, so the loop over the
  record's tokens in \<open>deregister_solver\<close> misses none of them.
\<close>

section \<open>Every further bond is listed\<close>

fun vault_listed :: "vault \<Rightarrow> bool" where
  "vault_listed (d, m, x) \<longleftrightarrow>
     (\<forall>a q. m a = Some q \<longrightarrow> so_address q = a \<and> distinct (so_bond_tokens q)) \<and>
     (\<forall>a t v. x (a, t) = Some v \<longrightarrow> 0 < v \<and> d \<noteq> Some t \<and> (\<exists>q. m a = Some q \<and> t \<in> set (so_bond_tokens q))) \<and>
     (d = None \<longrightarrow> m = Map.empty)"

lemma listed_record:
  "vault_listed (vault_of s) \<Longrightarrow> bo_solvers (bonds s) a = Some q \<Longrightarrow> so_address q = a \<and> distinct (so_bond_tokens q)"
  by (simp add: vault_of_def)

lemma listed_extra:
  assumes "vault_listed (vault_of s)" "bo_extra (bonds s) (a, t) = Some v"
  obtains q where "0 < v" "bo_token (bonds s) \<noteq> Some t" "bo_solvers (bonds s) a = Some q" "t \<in> set (so_bond_tokens q)"
  using assms unfolding vault_of_def vault_listed.simps by blast

lemma listed_none:
  assumes "vault_listed (vault_of s)" "bo_solvers (bonds s) a = None \<or> bo_token (bonds s) = Some t"
  shows "bo_extra (bonds s) (a, t) = None"
proof (rule ccontr)
  assume "bo_extra (bonds s) (a, t) \<noteq> None"
  then obtain v where "bo_extra (bonds s) (a, t) = Some v" by blast
  then show False by (rule listed_extra [OF assms(1)]) (use assms(2) in simp)
qed

text \<open>A record of solver \<open>a\<close> that could be stored.\<close>

definition fits :: "settlement \<Rightarrow> address \<Rightarrow> SolverRecord \<Rightarrow> bool" where
  "fits s a q \<longleftrightarrow> so_address q = a \<and> distinct (so_bond_tokens q) \<and>
     (\<forall>t v. bo_extra (bonds s) (a, t) = Some v \<longrightarrow> t \<in> set (so_bond_tokens q))"

lemma fits_part: "bond_part q' = bond_part q \<Longrightarrow> fits s a q' = fits s a q"
  by (simp add: fits_def bond_part_def)

lemma fits_stored: "vault_listed (vault_of s) \<Longrightarrow> bo_solvers (bonds s) a = Some q \<Longrightarrow> fits s a q"
  unfolding fits_def by (metis listed_record listed_extra option.inject)

lemma fits_new: "vault_listed (vault_of s) \<Longrightarrow> bo_solvers (bonds s) a = None \<Longrightarrow> fits s a (fresh_solver e a)"
  by (simp add: fits_def fresh_solver_def listed_none)

lemma touched_listed:
  assumes "touched v v'" "vault_listed v"
  shows "vault_listed v'"
proof (cases v; cases v')
  fix d m x d' m' x'
  assume v: "v = (d, m, x)" "v' = (d', m', x')"
  from assms(1) v have e: "d' = d" "x' = x" "\<forall>a. map_option bond_part (m' a) = map_option bond_part (m a)" by auto
  have same: "\<exists>q. m a = Some q \<and> bond_part q = bond_part q'" if "m' a = Some q'" for a q'
    using spec [OF e(3), of a] that by (cases "m a") auto
  have kept: "\<exists>q'. m' a = Some q' \<and> bond_part q' = bond_part q" if "m a = Some q" for a q
    using spec [OF e(3), of a] that by (cases "m' a") auto
  have "so_address q' = a \<and> distinct (so_bond_tokens q')" if "m' a = Some q'" for a q'
  proof -
    from same [OF that] obtain q where "m a = Some q" "bond_part q = bond_part q'" by blast
    with assms(2) v(1) show ?thesis unfolding bond_part_def by (metis prod.inject vault_listed.simps)
  qed
  moreover have "0 < w \<and> d \<noteq> Some t \<and> (\<exists>q. m' a = Some q \<and> t \<in> set (so_bond_tokens q))" if "x (a, t) = Some w" for a t w
  proof -
    have "0 < w \<and> d \<noteq> Some t \<and> (\<exists>q. m a = Some q \<and> t \<in> set (so_bond_tokens q))"
      using assms(2) that unfolding v(1) vault_listed.simps by blast
    then obtain q where "0 < w" "d \<noteq> Some t" "m a = Some q" "t \<in> set (so_bond_tokens q)" by blast
    with kept [of a q] show ?thesis by (auto simp: bond_part_def)
  qed
  moreover have "d = None \<Longrightarrow> m' = Map.empty"
    using touched_dom [OF e(3)] assms(2) v(1) by simp
  ultimately show "vault_listed v'" by (simp add: v(2) e(1,2))
qed

text \<open>Writing a bond through the helper keeps its token listed.\<close>

lemma put_bond_listed:
  assumes "set_solver_bond_amount s r t v = Inr p" "fits s a r" "bond_part q = bond_part (snd p)" "vault_listed (vault_of s)"
  shows "vault_listed (vault_of (save_solver a q (fst p)))" "fits (fst p) a (snd p)"
proof -
  obtain d where d: "bo_token (bonds s) = Some d"
    using assms(1) by (auto simp: set_solver_bond_amount_def load_bond_token_def)
  have q: "so_address q = so_address (snd p)" "so_bond_tokens q = so_bond_tokens (snd p)"
    using assms(3) by (simp_all add: bond_part_def)
  have p: "so_address (snd p) = a" "distinct (so_bond_tokens (snd p))"
    "vault_of (fst p) = (Some d, bo_solvers (bonds s), if t = d then bo_extra (bonds s)
       else (bo_extra (bonds s))((a, t) := (if v > 0 then Some v else None)))"
    using set_bond_shape [OF assms(1)] assms(2) d by (metis fits_def option.inject)+
  have toks: "u \<in> set (so_bond_tokens (snd p))"
    if "u \<in> set (so_bond_tokens r) \<and> u \<noteq> t \<or> u = t \<and> 0 < v" for u
    using assms(1) that by (auto simp: set_solver_bond_amount_def load_bond_token_def d need_def Let_def)
  have x: "bo_extra (bonds (fst p)) = (if t = d then bo_extra (bonds s)
       else (bo_extra (bonds s))((a, t) := (if v > 0 then Some v else None)))"
    using p(3) by (simp add: vault_of_def)
  have none: "bo_extra (bonds s) (b, d) = None" for b
    using listed_none [OF assms(4)] d by blast
  have listed: "u \<in> set (so_bond_tokens (snd p))" if "bo_extra (bonds (fst p)) (a, u) = Some w" for u w
    using that toks [of u] assms(2) none [of a] unfolding x fits_def by (cases "u = d") (auto split: if_splits)
  then show "fits (fst p) a (snd p)" using p(1,2) by (simp add: fits_def)
  have other: "\<exists>k. bo_solvers (bonds s) b = Some k \<and> u \<in> set (so_bond_tokens k)" "0 < w" "u \<noteq> d"
    if "bo_extra (bonds s) (b, u) = Some w" for b u w
    using listed_extra [OF assms(4) that] d by auto
  have "0 < w \<and> u \<noteq> d \<and> (\<exists>k. ((bo_solvers (bonds s))(a \<mapsto> q)) b = Some k \<and> u \<in> set (so_bond_tokens k))"
    if "bo_extra (bonds (fst p)) (b, u) = Some w" for b u w
  proof (cases "b = a")
    case True
    then show ?thesis using that listed [of u w] other [of a u w] q(2) unfolding x by (auto split: if_splits)
  next
    case False
    then show ?thesis using that other [of b u w] unfolding x by (auto split: if_splits)
  qed
  moreover have "so_address k = b \<and> distinct (so_bond_tokens k)" if "((bo_solvers (bonds s))(a \<mapsto> q)) b = Some k" for b k
    using that listed_record [OF assms(4), of b k] p(1,2) q by (auto split: if_splits)
  ultimately show "vault_listed (vault_of (save_solver a q (fst p)))"
    unfolding vault_simps p(3) by (simp only: fst_conv snd_conv vault_listed.simps option.inject x [symmetric]) auto
qed

section \<open>The handlers\<close>

definition keeps_listed :: "settlement \<Rightarrow> settlement \<Rightarrow> bool" where
  "keeps_listed s s' \<longleftrightarrow> (vault_listed (vault_of s) \<longrightarrow> vault_listed (vault_of s'))"

lemma listed_touched: "touched (vault_of s) (vault_of s') \<Longrightarrow> keeps_listed s s'"
  unfolding keeps_listed_def by (blast intro: touched_listed)

lemma listed_same: "vault_of s' = vault_of s \<Longrightarrow> keeps_listed s s'"
  by (simp add: keeps_listed_def)

lemma listed_steady: "steady s s' \<Longrightarrow> keeps_listed s s'"
  by (simp add: steady_def listed_touched)

lemma listed_bonds: "bonds s' = bonds s \<and> same_counts s s' \<and> roles s' = roles s \<Longrightarrow> keeps_listed s s'"
  by (rule listed_same) (simp add: vault_of_def)

lemma slash_payout_vault: "slash_payout e c t v s = Inr (s', tr) \<Longrightarrow> vault_of s' = vault_of s"
  unfolding slash_payout_def Let_def by (auto elim!: rbindE condE)

lemma slash_listed:
  assumes "slash_solver w e i s = Inr (s', tr)"
  shows "keeps_listed s s'"
proof -
  obtain a q t v p q' where "bo_solvers (bonds s) a = Some q" "set_solver_bond_amount s q t v = Inr p"
    "bond_part q' = bond_part (snd p)" "vault_of s' = vault_of (save_solver a q' (fst p))"
  proof (atomize_elim, goal_cases)
    case 1
    have "\<exists>a q t v p q'. vault_of s' = vault_of (save_solver a q' (fst p)) \<and> bo_solvers (bonds s) a = Some q \<and>
        set_solver_bond_amount s q t v = Inr p \<and> bond_part q' = bond_part (snd p)"
      using assms unfolding slash_solver_def Let_def split_beta
      apply (elim rbindE guardE)
      apply (drule slash_payout_vault)
      apply (drule vault_kept(1))
      apply (intro exI conjI)
      apply (simp only: vault_simps)
      apply simp
      apply assumption
      apply (simp add: bond_part_def)
      done
    then show ?case by blast
  qed
  then show ?thesis using put_bond_listed(1) fits_stored unfolding keeps_listed_def by metis
qed

lemma upheld_listed:
  assumes "resolve_dispute e a i Upheld s = Inr (s', tr)"
  shows "keeps_listed s s'"
proof (rule upheld_parts [OF assms])
  fix r r' f sol q p
  assume q: "bo_solvers (bonds s) sol = Some q" "uphold e r (q\<lparr>so_active_intents := so_active_intents q - 1\<rparr>) s = Inr p"
    and s': "vault_of s' = vault_of (save_solver sol (fst (snd p)) (fst p))"
  obtain v pb where pb: "set_solver_bond_amount s (q\<lparr>so_active_intents := so_active_intents q - 1\<rparr>) (in_bond_token r) v = Inr pb"
    "fst p = fst pb" "bond_part (fst (snd p)) = bond_part (snd pb)"
    using q(2) unfolding uphold_def Let_def split_beta by (auto simp: bond_part_def split: if_splits)
  have fit: "fits s sol (q\<lparr>so_active_intents := so_active_intents q - 1\<rparr>)" if "vault_listed (vault_of s)"
    using fits_stored [OF that q(1)] by (simp add: fits_def)
  show ?thesis
    unfolding keeps_listed_def s' pb(2) by (rule impI, rule put_bond_listed(1) [OF pb(1) fit pb(3)])
qed

lemma resolve_listed: "resolve_dispute e a i q s = Inr (s', tr) \<Longrightarrow> keeps_listed s s'"
  by (cases q) (auto intro: upheld_listed listed_touched dismissed_touched)

lemma withdraw_listed:
  assumes "withdraw_bond_inner e a t v s = Inr (s', tr)"
  shows "keeps_listed s s'"
proof -
  obtain q v p where "bo_solvers (bonds s) a = Some q" "set_solver_bond_amount s q t v = Inr p"
    "vault_of s' = vault_of (save_solver a (snd p) (fst p))"
    using assms unfolding withdraw_bond_inner_def Let_def split_beta load_solver_def
    by (elim rbindE guardE) (rule that, simp, assumption, simp)
  then show ?thesis using put_bond_listed(1) fits_stored unfolding keeps_listed_def by metis
qed

lemma register_listed:
  assumes "register_solver_inner w e a t v s = Inr (s', tr)"
  shows "keeps_listed s s'"
  unfolding keeps_listed_def
proof
  assume l: "vault_listed (vault_of s)"
  define r where "r = (case bo_solvers (bonds s) a of Some r \<Rightarrow> r\<lparr>so_active := True\<rparr> | None \<Rightarrow> fresh_solver e a)"
  have fit: "fits s a r"
    using fits_stored [OF l, of a] fits_new [OF l, of a e]
    by (cases "bo_solvers (bonds s) a") (simp_all add: r_def fits_def)
  have "\<exists>b p s4. set_solver_bond_amount s r t b = Inr p \<and> vault_of s4 = vault_of (save_solver a (snd p) (fst p)) \<and>
      (vault_of s' = vault_of s4 \<or> (\<exists>c p'. set_solver_bond_amount s4 (snd p) t c = Inr p' \<and>
       vault_of s' = vault_of (save_solver a (snd p') (fst p'))))"
    using assms unfolding register_solver_inner_def Let_def r_def [symmetric] split_beta
  proof (elim rbindE guardE, goal_cases)
    case (1 _ _ _ _ b _ p _ s4 pull)
    have "vault_of s4 = vault_of (save_solver a (snd p) (fst p))"
      using 1(13) by (auto dest!: vault_kept(4) split: if_splits)
    moreover from 1(15) have "vault_of s' = vault_of s4 \<or> (\<exists>c p'. set_solver_bond_amount s4 (snd p) t c = Inr p' \<and>
       vault_of s' = vault_of (save_solver a (snd p') (fst p')))"
      by (elim condE rbindE guardE) (simp only: sum.inject prod.inject split_beta, blast)+
    ultimately show ?case using 1(11) by blast
  qed
  then obtain b p s4 where p: "set_solver_bond_amount s r t b = Inr p" "vault_of s4 = vault_of (save_solver a (snd p) (fst p))"
    and s': "vault_of s' = vault_of s4 \<or> (\<exists>c p'. set_solver_bond_amount s4 (snd p) t c = Inr p' \<and>
       vault_of s' = vault_of (save_solver a (snd p') (fst p')))" by blast
  note first = put_bond_listed [OF p(1) fit refl l]
  then have l4: "vault_listed (vault_of s4)" using p(2) by simp
  have "bo_solvers (bonds s4) a = Some (snd p)"
    using p(2) by (simp add: vault_of_def)
  note fit4 = fits_stored [OF l4 this]
  from s' show "vault_listed (vault_of s')"
  proof (elim disjE exE conjE)
    fix c p'
    assume "set_solver_bond_amount s4 (snd p) t c = Inr p'" "vault_of s' = vault_of (save_solver a (snd p') (fst p'))"
    with put_bond_listed(1) [OF _ fit4 refl l4] show ?thesis by simp
  qed (use l4 in simp)
qed

text \<open>Leaving takes every bond of the solver off the books, and no other.\<close>

lemma leaves_nothing:
  assumes "deregister_solver w e a s = Inr (s', tr)" "vault_listed (vault_of s)"
  obtains q d where "authed e a" "bo_token (bonds s) = Some d" "bo_solvers (bonds s) a = Some q" "so_active_intents q = 0"
    "tr = map (\<lambda>(t, v). sends t (self e) a v) (solver_refunds s a q d)"
    "vault_of s' = (Some d, (bo_solvers (bonds s))(a := None), \<lambda>(b, t). if b = a then None else bo_extra (bonds s) (b, t))"
proof -
  from assms(1) obtain q d l where q: "authed e a" "bo_token (bonds s) = Some d" "bo_solvers (bonds s) a = Some q"
      "so_active_intents q = 0"
    and pay: "pay_refunds w e a (solver_refunds s a q d)
      (let s1 = clear_extras a d (solver_refunds s a q d) s;
           s2 = s1\<lparr>bonds := (bonds s1)\<lparr>bo_solvers := (bo_solvers (bonds s1))(a := None),
                  bo_total_solvers := Some (nat0 (bo_total_solvers (bonds s1)) - 1)\<rparr>\<rparr>
       in s2\<lparr>bonds := (bonds s2)\<lparr>bo_list := l\<rparr>\<rparr>) [] = Inr (s', tr)"
    unfolding deregister_solver_def Let_def load_solver_def load_bond_token_def
    by (elim rbindE guardE) auto
  have "vault_of s' = (Some d, (bo_solvers (bonds s))(a := None),
      snd (snd (vault_of (clear_extras a d (solver_refunds s a q d) s))))"
    using pay_refunds_vault [OF pay] clear_extras_vault [of a d "solver_refunds s a q d" s] q(2)
    by (simp add: vault_of_def Let_def)
  moreover have "t \<noteq> d \<and> t \<in> fst ` set (solver_refunds s a q d)" if "bo_extra (bonds s) (a, t) = Some v" for t v
    by (rule listed_extra [OF assms(2) that]) (use q(2,3) that in \<open>force simp: solver_refunds_eq\<close>)
  then have "(\<lambda>(b, t). if b = a \<and> t \<noteq> d \<and> t \<in> fst ` set (solver_refunds s a q d) then None else bo_extra (bonds s) (b, t)) =
      (\<lambda>(b, t). if b = a then None else bo_extra (bonds s) (b, t))"
    by (force simp: fun_eq_iff)
  ultimately show ?thesis
    using that [OF q] pay_refunds_transfers [OF pay] by (simp add: clear_extras_vault)
qed

lemma deregister_listed:
  assumes "deregister_solver w e a s = Inr (s', tr)"
  shows "keeps_listed s s'"
  unfolding keeps_listed_def
proof
  assume l: "vault_listed (vault_of s)"
  show "vault_listed (vault_of s')"
  proof (rule leaves_nothing [OF assms l])
    fix q d
    assume "bo_token (bonds s) = Some d"
      "vault_of s' = (Some d, (bo_solvers (bonds s))(a := None), \<lambda>(b, t). if b = a then None else bo_extra (bonds s) (b, t))"
    with l show ?thesis by (auto simp: vault_of_def split: if_splits)
  qed
qed

lemma claim_listed:
  assumes "claim_backstop_compensation e i s = Inr (s', tr)"
  shows "keeps_listed s s'"
proof (rule listed_same)
  show "vault_of s' = vault_of s"
    using assms unfolding claim_backstop_compensation_def Let_def
    by (elim rbindE guardE) (drule Inr_inject, elim Pair_inject, hypsubst, simp (no_asm))
qed

lemma admin_listed:
  assumes "admin_apply w e a s = Inr (s', tr)" "blank_ok s"
  shows "keeps_listed s s'"
proof (cases "\<exists>x f b. a = AInit x f b")
  case True
  then obtain x f b where a: "a = AInit x f b" by blast
  with assms(1) have "st_initialize w e x f b s = Inr s'" by auto
  from init_vault [OF this assms(2)] show ?thesis by (auto simp: keeps_listed_def)
next
  case False
  with admin_vault [OF assms(1)] show ?thesis by (auto intro: listed_same)
qed

lemmas tx_listed = batch_steady [THEN listed_steady] item_steady [THEN listed_steady] bid_steady [THEN listed_steady]
  book_vault [THEN listed_same] settle_bids_touched [THEN listed_touched] release_fill_touched [THEN listed_touched]
  slash_listed resolve_listed withdraw_listed register_listed deregister_listed claim_listed
  chain_books [THEN listed_bonds] extras_books [THEN listed_bonds]

lemma st_apply_listed:
  assumes "st_apply w e ev s = Inr (s', tr)" "blank_ok s"
  shows "keeps_listed s s'"
  using assms
  by - (cases ev; simp add: register_solver_def register_solver_with_token_def withdraw_bond_def
      withdraw_bond_token_def submit_intent_def accept_intent_def accept_intent_with_bond_def accept_intent_inner_def
      fill_intent_def; (elim exE conjE)?; (erule tx_listed | (rule admin_listed, assumption+)))

lemma run_listed: "vault_listed (vault_of (st_run txs st_empty))"
proof (induction txs rule: rev_induct)
  case Nil
  show ?case by (simp add: vault_of_def st_empty_def no_bonds_def)
next
  case (snoc tx txs)
  obtain e ev where tx: "tx = (e, ev)" by (cases tx)
  have "keeps_listed (st_run txs st_empty) (st_step e ev (st_run txs st_empty))"
    using st_apply_listed [of "fst ev" e "snd ev" "st_run txs st_empty"] st_run_books [of txs]
    by (auto simp: st_step_def listed_same split: sum.splits)
  with snoc show ?case by (simp add: tx contract_run_append keeps_listed_def)
qed

section \<open>Leaving\<close>

text \<open>The two loops over the record's tokens find the same bonds.\<close>

lemma get_solver_bonds_refunds:
  "bo_solvers (bonds s) a = Some q \<Longrightarrow> bo_token (bonds s) = Some d \<Longrightarrow> get_solver_bonds s a = Inr (solver_refunds s a q d)"
  by (simp add: get_solver_bonds_def solver_refunds_def load_bond_token_def need_def bonds_loop_eq refund_loop_eq)

lemma refunds_distinct: "distinct (so_bond_tokens q) \<Longrightarrow> distinct (map fst (solver_refunds s a q d))"
proof -
  have "map fst (filter (\<lambda>(_, v). v > 0) (map (\<lambda>t. (t, g t)) ts)) = filter (\<lambda>t. g t > (0 :: int)) ts" for g :: "address \<Rightarrow> int" and ts
    by (induction ts) auto
  then show "distinct (so_bond_tokens q) \<Longrightarrow> ?thesis" by (auto simp: solver_refunds_eq)
qed

lemma refunds_are_bonds:
  assumes "vault_listed (vault_of s)" "bo_solvers (bonds s) a = Some q" "bo_token (bonds s) = Some d"
  shows "set (solver_refunds s a q d) = {(t, v). get_solver_bond s a t = Inr v \<and> 0 < v}"
proof -
  have bond: "get_solver_bond s a t = Inr (if t = d then so_bond_amount q else or0 (bo_extra (bonds s) (a, t)))" for t
    using listed_record [OF assms(1,2)] assms(2,3)
    by (simp add: get_solver_bond_def get_solver_bond_amount_def load_bond_token_def need_def)
  have listed: "t \<noteq> d \<and> t \<in> set (so_bond_tokens q)" if "0 < or0 (bo_extra (bonds s) (a, t))" for t
  proof (cases "bo_extra (bonds s) (a, t)")
    case (Some v)
    then show ?thesis by (rule listed_extra [OF assms(1)]) (use assms(2,3) in auto)
  qed (use that in simp)
  show ?thesis
  proof (rule set_eqI, clarify)
    fix t v
    show "(t, v) \<in> set (solver_refunds s a q d) \<longleftrightarrow> (t, v) \<in> {(t, v). get_solver_bond s a t = Inr v \<and> 0 < v}"
      using listed [of t] unfolding bond by (auto simp: solver_refunds_eq)
  qed
qed

text \<open>
  C29: In every reachable state a solver that deregisters has signed, is registered and has no
  active intent; it is sent one transfer per bond token, and the amounts are exactly its
  positive bonds as \<open>get_solver_bond\<close> reports them and as
  \<open>get_solver_bonds\<close> lists them. Its record and every further bond of it are
  gone, and the records and further bonds of the other solvers are unchanged.
\<close>

theorem deregister_refunds_everything:
  assumes "deregister_solver w e a (st_run txs st_empty) = Inr (s', tr)"
  shows "let s = st_run txs st_empty
         in authed e a \<and> (\<exists>q. bo_solvers (bonds s) a = Some q \<and> so_active_intents q = 0) \<and>
            (\<exists>refunds. get_solver_bonds s a = Inr refunds \<and> distinct (map fst refunds) \<and>
               set refunds = {(t, v). get_solver_bond s a t = Inr v \<and> 0 < v} \<and>
               tr = map (\<lambda>(t, v). sends t (self e) a v) refunds) \<and>
            bo_solvers (bonds s') = (bo_solvers (bonds s))(a := None) \<and>
            (\<forall>t. bo_extra (bonds s') (a, t) = None) \<and>
            (\<forall>b t. b \<noteq> a \<longrightarrow> bo_extra (bonds s') (b, t) = bo_extra (bonds s) (b, t))"
proof (rule leaves_nothing [OF assms run_listed])
  let ?s = "st_run txs st_empty"
  fix q d
  assume q: "authed e a" "bo_token (bonds ?s) = Some d" "bo_solvers (bonds ?s) a = Some q" "so_active_intents q = 0"
    "tr = map (\<lambda>(t, v). sends t (self e) a v) (solver_refunds ?s a q d)"
    "vault_of s' = (Some d, (bo_solvers (bonds ?s))(a := None), \<lambda>(b, t). if b = a then None else bo_extra (bonds ?s) (b, t))"
  have "distinct (so_bond_tokens q)" using run_listed [of txs] q(3) by (simp add: vault_of_def)
  from refunds_distinct [OF this] get_solver_bonds_refunds [OF q(3,2)] refunds_are_bonds [OF run_listed q(3,2)] q(1,3-6)
  show ?thesis by (simp add: Let_def vault_of_def)
qed

text \<open>A solver with a bond in the default token 3 and one in token 6, which the admin has allowed.\<close>

definition two_bonds :: "(env \<times> world \<times> st_event) list" where
  "two_bonds = map (\<lambda>ev. (plain_env 1000, demo_world, ev))
     [Admin (AInit 1 2 3), Admin (AAddBondToken 6), Register 8 600000000, RegisterWith 8 6 700000000]"

theorem deregister_refunds_everything_witness:
  "\<exists>s' tr. deregister_solver demo_world (plain_env 2000) 8 (st_run two_bonds st_empty) = Inr (s', tr) \<and>
     tr = [sends 3 5 8 600000000, sends 6 5 8 700000000] \<and> (\<forall>t. bo_extra (bonds s') (8, t) = None)"
proof -
  let ?s = "st_run two_bonds st_empty"
  note eval = two_bonds_def eval_run add_allowed_bond_token_def st_require_admin_def upd_bonds_def
    register_solver_with_token_def get_solver_bonds_def
  obtain s' tr where ok: "deregister_solver demo_world (plain_env 2000) 8 ?s = Inr (s', tr)"
    by (simp add: eval deregister_solver_def solver_refunds_def paged_remove_def vec_set_def)
  have "get_solver_bonds ?s 8 = Inr [(3, 600000000), (6, 700000000)]"
    by (simp add: eval)
  with deregister_refunds_everything [OF ok] ok show ?thesis by (auto simp: Let_def)
qed

end
