(* ===== verification/Settlement_Engagements.thy ===== *)
theory Settlement_Engagements
  imports Settlement_Counters
begin

text \<open>
  Who works on what: the solver of an intent that is accepted, in escrow or disputed stays
  registered and bonded, and its counter of active intents is the number of such intents.
\<close>

section \<open>Intents a solver is engaged in\<close>

definition engaged :: "address \<Rightarrow> IntentRecord \<Rightarrow> bool" where
  "engaged a r \<longleftrightarrow> in_solver r = Some a \<and> in_state r \<in> {Accepted, Filling, Disputed}"

definition engaged_ids :: "address \<Rightarrow> settlement \<Rightarrow> bytes32 set" where
  "engaged_ids a s = {i. \<exists>r. bk_intents (book s) i = Some r \<and> engaged a r}"

text \<open>The counters; one that is not registered has none.\<close>

definition loads :: "settlement \<Rightarrow> address \<Rightarrow> nat" where
  "loads s = (\<lambda>a. case bo_solvers (bonds s) a of None \<Rightarrow> 0 | Some q \<Rightarrow> so_active_intents q)"

definition duties_ok :: "settlement \<Rightarrow> bool" where
  "duties_ok s \<longleftrightarrow> finite (dom (bk_intents (book s))) \<and> (\<forall>a. loads s a = card (engaged_ids a s))"

definition keeps_duties :: "settlement \<Rightarrow> settlement \<Rightarrow> bool" where
  "keeps_duties s s' \<longleftrightarrow> (duties_ok s \<longrightarrow> duties_ok s')"

lemma keeps_duties_refl [simp]: "keeps_duties s s"
  by (simp add: keeps_duties_def)

lemma keeps_duties_trans: "keeps_duties s s1 \<Longrightarrow> keeps_duties s1 s2 \<Longrightarrow> keeps_duties s s2"
  by (simp add: keeps_duties_def)

text \<open>One intent changes, and the counters follow.\<close>

lemma card_engaged_upd:
  assumes "finite (dom (bk_intents (book s)))" "bk_intents (book s) i = Some r"
    "bk_intents (book s') = (bk_intents (book s))(i \<mapsto> r')"
  shows "card (engaged_ids a s') = card (engaged_ids a s) + of_bool (engaged a r') - of_bool (engaged a r)"
proof -
  have fin: "finite (engaged_ids a s)"
    by (rule finite_subset [OF _ assms(1)]) (auto simp: engaged_ids_def)
  have "engaged_ids a s' = (if engaged a r' then insert i (engaged_ids a s) else engaged_ids a s - {i})"
    using assms(3) by (auto simp: engaged_ids_def split: if_splits)
  moreover have "i \<in> engaged_ids a s \<longleftrightarrow> engaged a r"
    using assms(2) by (simp add: engaged_ids_def)
  ultimately show ?thesis using fin
    by (cases "engaged a r"; cases "engaged a r'"; simp add: card_insert_if insert_absorb)
qed

lemma dutiesI:
  assumes "load_intent s i = Inr r"
    "fst (ledger_of s') = (fst (ledger_of s))(i \<mapsto> the (fst (ledger_of s') i))"
    "\<forall>a. loads s' a = loads s a + of_bool (engaged a (the (fst (ledger_of s') i))) - of_bool (engaged a r)"
  shows "keeps_duties s s'"
proof -
  let ?r' = "the (bk_intents (book s') i)"
  have r: "bk_intents (book s) i = Some r" using assms(1) by (simp add: load_intent_def)
  have upd: "bk_intents (book s') = (bk_intents (book s))(i \<mapsto> ?r')" using assms(2) by (simp add: fst_ledger_of)
  have "finite (dom (bk_intents (book s')))" if "duties_ok s"
    by (subst upd) (use that in \<open>simp add: duties_ok_def\<close>)
  with card_engaged_upd [OF _ r upd] assms(3) show ?thesis
    by (auto simp: keeps_duties_def duties_ok_def fst_ledger_of)
qed

lemma same_duties: "loads s' = loads s \<Longrightarrow> bk_intents (book s') = bk_intents (book s) \<Longrightarrow> keeps_duties s s'"
  by (simp add: keeps_duties_def duties_ok_def engaged_ids_def)

section \<open>The handlers\<close>

lemma loads_simps [simp]:
  "loads (save_intent i r t) = loads t" "loads (set_open n t) = loads t" "loads (set_volume v t) = loads t"
  "loads (set_exposure a v t) = loads t" "loads (set_total_bonded v t) = loads t"
  "loads (adjust_token_liabilities w a v t) = loads t" "loads (add_to_open_intent_list w i t) = loads t"
  "loads (remove_from_open_intent_list w i t) = loads t" "loads (release_exposure a v t) = loads t"
  "loads (stamp_cancel_cooldown a n t) = loads t" "loads (stamp_amendment_cooldown a n t) = loads t"
  "loads (upd_roles p t) = loads t" "loads (upd_allow l t) = loads t" "loads (upd_extra g t) = loads t"
  "loads (ctx_commit c t) = loads t" "loads (t\<lparr>book := k\<rparr>) = loads t"
  "loads (t\<lparr>bonds := (bonds u)\<lparr>bo_intents := li\<rparr>\<rparr>) = loads u" "loads (t\<lparr>bonds := (bonds u)\<lparr>bo_pool := po\<rparr>\<rparr>) = loads u"
  "loads (t\<lparr>bonds := (bonds u)\<lparr>bo_extra := x\<rparr>\<rparr>) = loads u"
  "loads (t\<lparr>bonds := (bonds u)\<lparr>bo_total_solvers := tn, bo_list := dir\<rparr>\<rparr>) = loads u"
  "loads (save_solver a q t) = (loads t)(a := so_active_intents q)"
  by (auto simp: loads_def helper_defs ctx_commit_def Let_def fun_eq_iff)

lemma loads_stored:
  "bo_solvers (bonds s) a = Some q \<Longrightarrow> loads s a = so_active_intents q"
  "load_solver s a = Inr q \<Longrightarrow> loads s a = so_active_intents q"
  by (auto simp: loads_def load_solver_def)

lemma loads_kept:
  "set_solver_bond_amount s r t v = Inr p \<Longrightarrow> loads (fst p) = loads s \<and> so_active_intents (snd p) = so_active_intents r"
  "solver_leaves a i s = Inr s1 \<Longrightarrow> loads s1 = loads s"
  "take_exposure w e c a q r' s = Inr s2 \<Longrightarrow> loads s2 = loads s"
  "slash_payout e c t v s = Inr (s3, tr) \<Longrightarrow> loads s3 = loads s"
  "count_new_solver a s = Inr s4 \<Longrightarrow> loads s4 = loads s"
  "user_intents_append u i s = Inr s5 \<Longrightarrow> loads s5 = loads s"
  unfolding set_solver_bond_amount_def solver_leaves_def take_exposure_def slash_payout_def count_new_solver_def
    user_intents_append_def Let_def
  by (auto elim!: rbindE guardE condE)

lemma duties_kept:
  "set_solver_bond_amount s r t v = Inr p \<Longrightarrow> ledger_of (fst p) = ledger_of s \<and> loads (fst p) = loads s \<and>
     so_active_intents (snd p) = so_active_intents r"
  "solver_leaves a i s = Inr s1 \<Longrightarrow> ledger_of s1 = ledger_of s \<and> loads s1 = loads s"
  "take_exposure w e c a q r' s = Inr s2 \<Longrightarrow> ledger_of s2 = ledger_of s \<and> loads s2 = loads s"
  "slash_payout e c t v s = Inr (s3, tr) \<Longrightarrow> ledger_of s3 = ledger_of s \<and> loads s3 = loads s"
  "count_new_solver a s = Inr s4 \<Longrightarrow> ledger_of s4 = ledger_of s \<and> loads s4 = loads s"
  by (auto dest: loads_kept helpers_quiet)

lemma accept_intent_body_duties: "accept_intent_body w e a i b s = Inr s' \<Longrightarrow> keeps_duties s s'"
  unfolding accept_intent_body_def Let_def
  by (elim rbindE guardE, erule dutiesI) (auto simp: engaged_def loads_stored dest!: duties_kept)

lemma fill_intent_inner_duties: "fill_intent_inner w e a i v p s = Inr (s', tr) \<Longrightarrow> keeps_duties s s'"
  unfolding fill_intent_inner_def Let_def split_beta
  by (elim rbindE guardE guard_sumE; erule fill_outcomeE; erule dutiesI)
    (auto simp: engaged_def loads_stored check_fill_guards_Inr dest!: duties_kept)

lemma slash_solver_duties: "slash_solver w e i s = Inr (s', tr) \<Longrightarrow> keeps_duties s s'"
  unfolding slash_solver_def Let_def split_beta
  by (elim rbindE guardE, erule dutiesI; drule duties_kept(4)) (auto simp: engaged_def loads_stored dest!: duties_kept)

lemma begin_fill_duties: "begin_fill e a i v s = Inr (s', tr) \<Longrightarrow> keeps_duties s s'"
  unfolding begin_fill_def Let_def split_beta
  by (elim rbindE guardE condE; erule dutiesI) (auto simp: engaged_def)

lemma resolve_dispute_duties: "resolve_dispute e a i q s = Inr (s', tr) \<Longrightarrow> keeps_duties s s'"
  unfolding resolve_dispute_def uphold_def credit_fill_def Let_def split_beta
  by (cases q; simp only: DisputeResolution.case; elim rbindE guardE condE; erule dutiesI)
    (auto simp: engaged_def loads_stored dest!: duties_kept)

lemma release_fill_duties: "release_fill e i s = Inr (s', tr) \<Longrightarrow> keeps_duties s s'"
  unfolding release_fill_def credit_fill_def Let_def split_beta
  by (elim rbindE release_caseE guardE; erule dutiesI) (auto simp: engaged_def loads_stored)

lemma order_duties:
  "cancel_intent_core e u i s = Inr s1 \<Longrightarrow> keeps_duties s s1"
  "amend_intent e u i m d s = Inr s2 \<Longrightarrow> keeps_duties s s2"
  "expire_intent e i s = Inr s3 \<Longrightarrow> keeps_duties s s3"
  "dispute_fill e u i s = Inr s4 \<Longrightarrow> keeps_duties s s4"
  "request_extension w e a i s = Inr s5 \<Longrightarrow> keeps_duties s s5"
  unfolding cancel_intent_core_def amend_intent_def expire_intent_def dispute_fill_def request_extension_def Let_def
  by (elim rbindE guardE; erule dutiesI; auto simp: engaged_def)+

lemma submit_duties:
  assumes "submit_intent_inner w e u c q v d m dl rf s = Inr (s', i)"
  shows "keeps_duties s s'"
proof -
  have "loads s' = loads s"
    using assms unfolding submit_intent_inner_def Let_def
    by (elim rbindE guardE case_optionE; (simp; fail)?) (auto dest!: loads_kept)
  moreover obtain r where "bk_intents (book s) i = None" "fresh_order e r" "bk_intents (book s') = (bk_intents (book s))(i \<mapsto> r)"
    using submit_intent_inner_opens [OF assms] by (auto simp: opens_def ledger_of_def)
  then have "engaged_ids a s' = engaged_ids a s \<and> dom (bk_intents (book s')) = insert i (dom (bk_intents (book s)))" for a
    by (auto simp: engaged_ids_def engaged_def fresh_order_def)
  ultimately show ?thesis by (simp add: keeps_duties_def duties_ok_def)
qed

lemma close_duties:
  assumes "close_intent e i s = Inr s'"
  shows "keeps_duties s s'"
proof -
  have "loads s' = loads s"
    using assms unfolding close_intent_def Let_def
    by (elim rbindE guardE case_optionE) (auto dest!: loads_kept)
  moreover obtain j r where "bk_intents (book s) j = Some r" "terminal r" "bk_intents (book s') = (bk_intents (book s))(j := None)"
    using close_intent_closes [OF assms] by (auto simp: closes_def ledger_of_def)
  then have "engaged_ids a s' = engaged_ids a s \<and> dom (bk_intents (book s')) = dom (bk_intents (book s)) - {j}" for a
    by (auto simp: engaged_ids_def engaged_def terminal_def)
  ultimately show ?thesis by (simp add: keeps_duties_def duties_ok_def)
qed

lemma pay_refunds_loads: "pay_refunds w e a rs s tr = Inr (s', tr') \<Longrightarrow> loads s' = loads s"
  by (drule pay_refunds_frame) (simp add: loads_def)

lemma register_loads: "register_solver_inner w e a t v s = Inr (s', tr) \<Longrightarrow> loads s' = loads s"
  unfolding register_solver_inner_def Let_def split_beta
  by (elim rbindE guardE condE; auto simp: fun_eq_iff loads_stored dest!: loads_kept split: option.splits;
      auto simp: loads_def fresh_solver_def)

lemma deregister_loads: "deregister_solver w e a s = Inr (s', tr) \<Longrightarrow> loads s' = loads s"
  unfolding deregister_solver_def Let_def split_beta
  by (elim rbindE guardE condE) (auto simp: loads_def load_solver_def fun_eq_iff dest!: pay_refunds_loads)

lemma withdraw_loads: "withdraw_bond_inner e a t v s = Inr (s', tr) \<Longrightarrow> loads s' = loads s"
  unfolding withdraw_bond_inner_def Let_def split_beta
  by (elim rbindE guardE) (auto simp: fun_eq_iff loads_stored dest!: loads_kept)

lemma same_counts_duties: "loads s' = loads s \<Longrightarrow> same_counts s s' \<Longrightarrow> keeps_duties s s'"
  by (simp add: same_duties same_counts_def)

lemma bonds_duties: "bonds s' = bonds s \<and> same_counts s s' \<and> roles s' = roles s \<Longrightarrow> keeps_duties s s'"
  by (simp add: same_counts_duties loads_def)

lemma solver_duties:
  "register_solver_inner w e a t v s = Inr (s1, tr) \<Longrightarrow> keeps_duties s s1"
  "deregister_solver w e a s = Inr (s2, tr) \<Longrightarrow> keeps_duties s s2"
  "withdraw_bond_inner e a t v s = Inr (s3, tr) \<Longrightarrow> keeps_duties s s3"
  by (rule same_counts_duties; erule register_loads deregister_loads withdraw_loads bonds_same_counts)+

lemma claim_duties:
  assumes "claim_backstop_compensation e i s = Inr (s', tr)"
  shows "keeps_duties s s'"
proof -
  have "loads s' = loads s"
    using assms unfolding claim_backstop_compensation_def Let_def
    by (elim rbindE guardE) (drule Inr_inject, elim Pair_inject, hypsubst, simp (no_asm))
  with claim_books [OF assms] show ?thesis by (simp add: same_counts_duties)
qed

lemma admin_duties:
  assumes "admin_apply w e a s = Inr (s', tr)"
  shows "keeps_duties s s'"
proof -
  have "loads s' = loads s \<and> bk_intents (book s') = bk_intents (book s)"
    using assms
    by (cases a; simp add: admin_defs split_beta Let_def loads_def;
        (elim exE conjE guardE rbindE)?; (auto simp: upd_bonds_def; fail)?)
  then show ?thesis by (simp add: same_duties)
qed

section \<open>Every transaction\<close>

lemma duties_put [simp]:
  "keeps_duties s (stamp_cancel_cooldown u n t) = keeps_duties s t" "keeps_duties s (upd_extra g t) = keeps_duties s t"
  by (simp_all add: keeps_duties_def duties_ok_def engaged_ids_def loads_def helper_defs)

lemma each_duties:
  assumes "\<And>x p p'. f x p = Inr p' \<Longrightarrow> keeps_duties (g p) (g p')" "each f xs p = Inr p'"
  shows "keeps_duties (g p) (g p')"
  using assms(2) by (induction xs arbitrary: p) (auto intro: keeps_duties_trans dest: assms(1))

lemma batch_duties:
  "cancel_intent e u i s = Inr s1 \<Longrightarrow> keeps_duties s s1"
  "batch_cancel_intent e u ids s = Inr s2 \<Longrightarrow> keeps_duties s s2"
  "batch_submit_intent w e u orders s = Inr (s3, js) \<Longrightarrow> keeps_duties s s3"
  "batch_accept_intent w e u ids s = Inr s4 \<Longrightarrow> keeps_duties s s4"
  "batch_fill_intent w e u fills s = Inr (s5, tr) \<Longrightarrow> keeps_duties s s5"
proof -
  show "cancel_intent e u i s = Inr s1 \<Longrightarrow> keeps_duties s s1"
    unfolding cancel_intent_def by (auto dest: order_duties(1))
  show "batch_cancel_intent e u ids s = Inr s2 \<Longrightarrow> keeps_duties s s2"
    unfolding batch_cancel_intent_def
    by (elim rbindE guardE, drule each_duties [where g = "\<lambda>s. s", rotated]) (auto dest: order_duties(1))
  show "batch_submit_intent w e u orders s = Inr (s3, js) \<Longrightarrow> keeps_duties s s3"
    unfolding batch_submit_intent_def
    by (elim rbindE guardE, drule each_duties [where g = fst, rotated]) (auto dest: submit_duties)
  show "batch_accept_intent w e u ids s = Inr s4 \<Longrightarrow> keeps_duties s s4"
    unfolding batch_accept_intent_def accept_intent_inner_def
    by (elim rbindE guardE, drule each_duties [where g = "\<lambda>s. s", rotated])
      (auto intro: keeps_duties_trans dest: accept_intent_body_duties)
  show "batch_fill_intent w e u fills s = Inr (s5, tr) \<Longrightarrow> keeps_duties s s5"
    unfolding batch_fill_intent_def
    by (elim rbindE guardE, drule each_duties [where g = fst, rotated]) (auto dest: fill_intent_inner_duties)
qed

lemmas tx_duties = accept_intent_body_duties fill_intent_inner_duties slash_solver_duties begin_fill_duties
  resolve_dispute_duties release_fill_duties order_duties submit_duties close_duties solver_duties claim_duties
  admin_duties batch_duties chain_books [THEN bonds_duties] extras_books [THEN bonds_duties]

lemma st_apply_duties:
  assumes "st_apply w e ev s = Inr (s', tr)" "ledger_ok (ledger_of s)"
  shows "keeps_duties s s'"
proof -
  have bids: False if "settle_bids e i s = Inr s'" for i
    using settle_bids_bidding [OF that] assms(2) by (auto simp: ledger_ok_def ledger_of_def order_ok_def)
  show ?thesis
    using assms
    by - (cases ev; simp add: register_solver_def register_solver_with_token_def withdraw_bond_def
        withdraw_bond_token_def submit_intent_def accept_intent_def accept_intent_with_bond_def accept_intent_inner_def
        fill_intent_def; (elim exE conjE)?; (erule tx_duties | (drule bids, simp)))
qed

lemma run_duties: "duties_ok (st_run txs st_empty)"
proof (induction txs rule: rev_induct)
  case Nil
  show ?case by (simp add: duties_ok_def engaged_ids_def loads_def st_empty_def no_book_def no_bonds_def)
next
  case (snoc tx txs)
  obtain e ev where tx: "tx = (e, ev)" by (cases tx)
  have "keeps_duties (st_run txs st_empty) (st_step e ev (st_run txs st_empty))"
    using st_apply_duties [of "fst ev" e "snd ev" "st_run txs st_empty"] run_ledger_ok [of txs]
    by (auto simp: st_step_def split: sum.splits)
  with snoc show ?case by (simp add: tx contract_run_append keeps_duties_def)
qed

section \<open>Property\<close>

lemma engaged_registered:
  assumes "duties_ok s" "bk_intents (book s) i = Some r" "engaged a r"
  obtains q where "bo_solvers (bonds s) a = Some q" "so_active_intents q = card (engaged_ids a s)" "0 < so_active_intents q"
proof -
  have "finite (engaged_ids a s)" "i \<in> engaged_ids a s"
    using assms finite_subset [of "engaged_ids a s" "dom (bk_intents (book s))"]
    by (auto simp: engaged_ids_def duties_ok_def)
  then have "0 < card (engaged_ids a s)" by (auto simp: card_gt_0_iff)
  with assms(1) have "loads s a = card (engaged_ids a s)" "0 < loads s a" by (auto simp: duties_ok_def)
  then show thesis using that by (cases "bo_solvers (bonds s) a") (auto simp: loads_def)
qed

text \<open>
  C3: In every reachable state the solver of an intent that is accepted, in escrow or disputed
  is registered, its counter of active intents is exactly the number of such intents, and it
  can neither deregister nor withdraw a bond in any token.
\<close>

theorem engaged_solver_stays_bonded:
  assumes "bk_intents (book (st_run txs st_empty)) i = Some r" "in_solver r = Some a"
    "in_state r \<in> {Accepted, Filling, Disputed}"
  shows "let s = st_run txs st_empty
         in (\<exists>q. bo_solvers (bonds s) a = Some q \<and> 0 < so_active_intents q \<and>
               so_active_intents q = card {j. \<exists>k. bk_intents (book s) j = Some k \<and> in_solver k = Some a \<and>
                 in_state k \<in> {Accepted, Filling, Disputed}}) \<and>
            \<not> is_ok (deregister_solver w e a s) \<and> \<not> is_ok (withdraw_bond_token e a t v s)"
proof -
  let ?s = "st_run txs st_empty"
  have "engaged a r" using assms(2,3) by (simp add: engaged_def)
  from engaged_registered [OF run_duties assms(1) this] obtain q where
    q: "bo_solvers (bonds ?s) a = Some q" "so_active_intents q = card (engaged_ids a ?s)" "0 < so_active_intents q" by blast
  have "\<not> is_ok (deregister_solver w e a ?s)"
    using q(1,3) by (auto simp: is_ok_iff deregister_solver_def load_solver_def Let_def elim!: rbindE guardE)
  moreover have "\<not> is_ok (withdraw_bond_token e a t v ?s)"
    using q(1,3) by (auto simp: is_ok_iff withdraw_bond_token_def withdraw_bond_inner_def load_solver_def Let_def
        elim!: rbindE guardE)
  ultimately show ?thesis using q by (auto simp: Let_def engaged_ids_def engaged_def)
qed

theorem engaged_solver_stays_bonded_witness:
  "bo_solvers (bonds (st_run (take 4 demo_run) st_empty)) 8 \<noteq> None \<and>
   \<not> is_ok (deregister_solver demo_world (plain_env 1000) 8 (st_run (take 4 demo_run) st_empty))"
proof -
  obtain r where "bk_intents (book (st_run (take 4 demo_run) st_empty)) 9 = Some r" "in_solver r = Some 8"
    "in_state r \<in> {Accepted, Filling, Disputed}" by (simp add: eval_run)
  from engaged_solver_stays_bonded [OF this, of demo_world "plain_env 1000"] show ?thesis by (auto simp: Let_def)
qed

end
