(* ===== verification/Settlement_Release.thy ===== *)
theory Settlement_Release
  imports Settlement_Solvency Settlement_Engagements
begin

text \<open>
  An escrow can always be released: what the contract owes is there (solvency), the assigned solver
  is still registered (engagements), and the fee recipient is known, so the release fails only when
  the token refuses to pay out what the contract holds.
\<close>

section \<open>The fee recipient\<close>

definition fee_known :: "settlement \<Rightarrow> bool" where
  "fee_known s \<longleftrightarrow> (ro_admin (roles s) \<noteq> None \<longrightarrow> ro_fee_recipient (roles s) \<noteq> None)"

lemma fee_known_step: "installed s \<Longrightarrow> fee_known s \<Longrightarrow> fee_known (st_step e ev s)"
proof (cases rule: st_step_roles [of e ev s])
  case (2 a)
  moreover assume "installed s" "fee_known s"
  ultimately show ?thesis by (cases a) (auto simp: fee_known_def installed_def)
qed (simp add: fee_known_def)

lemma run_fee_known: "installed (st_run txs st_empty) \<and> fee_known (st_run txs st_empty)"
proof (induction txs rule: rev_induct)
  case Nil
  show ?case by (simp add: installed_def fee_known_def st_empty_def no_roles_def)
next
  case (snoc tx txs)
  then show ?case
    by (cases tx) (simp add: contract_run_append installed_step fee_known_step)
qed

text \<open>A contract with a solver has been initialised.\<close>

lemma solver_has_fee:
  assumes "st_good s" "fee_known s" "bo_solvers (bonds s) a = Some q"
  obtains f where "ro_fee_recipient (roles s) = Some f"
proof -
  have "bo_token (bonds s) \<noteq> None"
    using assms(1,3) by (cases "bo_token (bonds s)") (simp_all add: st_good_def vault_of_def)
  then have "ro_admin (roles s) \<noteq> None"
    using assms(1) by (auto simp: st_good_def blank_ok_def)
  with assms(2) that show ?thesis by (auto simp: fee_known_def)
qed

section \<open>What the token owes the contract\<close>

text \<open>
  The token lets the contract send what it holds: after the transfers \<open>hist\<close> and \<open>tr\<close> it accepts
  every transfer by the contract that these cover.
\<close>

definition pays_holdings :: "env \<Rightarrow> address \<Rightarrow> xfer list \<Rightarrow> bool" where
  "pays_holdings e tok hist \<longleftrightarrow>
     (\<forall>tr x. x_token x = tok \<longrightarrow> x_from x = self e \<longrightarrow> 0 \<le> x_amount x \<longrightarrow>
        x_amount x \<le> net_in tok (self e) (hist @ tr) \<longrightarrow> tok_ok e tr x)"

lemma holdings_release:
  assumes "pays_holdings e (in_dst_token r) hist" "or0 (in_fill_amount r) \<le> net_in (in_dst_token r) (self e) hist"
  shows "accepts_release e r f"
proof -
  let ?t = "in_dst_token r" and ?v = "or0 (in_fill_amount r)"
  let ?x = "\<lambda>fee. sends ?t (self e) (in_user r) (?v - fee)"
  have "tok_ok e [] (?x fee) \<and> tok_ok e [?x fee] (sends ?t (self e) f fee)" if "0 \<le> fee" "fee \<le> ?v" for fee
  proof -
    have "net_in ?t (self e) (hist @ [?x fee]) \<ge> net_in ?t (self e) hist - (?v - fee)"
      using that by (simp add: net_in_append x_net_def)
    with assms(2) that have "fee \<le> net_in ?t (self e) (hist @ [?x fee])" by linarith
    then show ?thesis
      using assms that unfolding pays_holdings_def by (simp del: net_in_append)
  qed
  then show ?thesis by (simp add: accepts_release_def Let_def)
qed

section \<open>Property\<close>

text \<open>
  C16: After any run of settlement transactions made by others, with tokens that move what
  they are told to, without slashes and without rescues of the escrow's token, an escrow whose
  dispute window has closed, or whose dispute the arbiter has left alone for a day, can be
  released by anyone, if the token lets the contract send what it holds, the clock fits u64,
  the counter of completed fills is below its maximum, and the escrow, the delivered total and
  both volumes are at most 10^37 (the volumes not negative): \<open>release_fill\<close>
  succeeds, the whole escrow goes to the user and the fee recipient, and the intent becomes
  terminal. That the escrow is there, that its solver is registered and that a fee recipient
  is set is proved, not assumed.
\<close>

theorem escrow_always_releasable:
  assumes "\<forall>tx \<in> set txs. st_ok (self e) (in_dst_token r) (fst tx) (snd tx)"
    "bk_intents (book (st_run txs st_empty)) i = Some r"
    "in_state r = Filling \<and> nat0 (in_dispute_deadline r) \<le> now e \<or>
     in_state r = Disputed \<and> nat0 (in_dispute_raised_at r) + ARBITER_WINDOW \<le> now e"
    "pays_holdings e (in_dst_token r) (snd (token_run st_handle st_empty txs))"
    "now e \<le> u64_max" "or0 (in_fill_amount r) \<le> 10 ^ 37" "in_total_filled r \<le> 10 ^ 37"
    "or0 (bk_volume (book (st_run txs st_empty))) \<in> {0..10 ^ 37}"
    "\<forall>a q. in_solver r = Some a \<and> bo_solvers (bonds (st_run txs st_empty)) a = Some q \<longrightarrow>
       so_completed q < u32_max \<and> so_volume q \<in> {0..10 ^ 37}"
  shows "\<exists>s' tr r' f. release_fill e i (st_run txs st_empty) = Inr (s', tr) \<and>
    ro_fee_recipient (roles (st_run txs st_empty)) = Some f \<and> bk_intents (book s') i = Some r' \<and>
    in_state r' = (if in_state r = Filling then Filled else Resolved) \<and>
    (\<Sum>x\<leftarrow>tr. x_amount x) = or0 (in_fill_amount r) \<and>
    (\<forall>x \<in> set tr. x_token x = in_dst_token r \<and> x_from x = self e \<and> x_to x \<in> {in_user r, f})"
proof -
  let ?s = "st_run txs st_empty"
  have good: "st_good ?s"
    using st_tokens.run_covered [OF assms(1)] by (simp add: st_token_run)
  have open': "in_state r \<in> {Filling, Disputed}" using assms(3) by auto
  have order: "order_ok r" by (rule run_order_ok [OF assms(2)])
  obtain a where a: "in_solver r = Some a" using order open' by (auto simp: order_ok_def)
  have "engaged a r" using a open' by (simp add: engaged_def)
  from engaged_registered [OF run_duties assms(2) this] obtain q where q: "bo_solvers (bonds ?s) a = Some q" by blast
  obtain f where f: "ro_fee_recipient (roles ?s) = Some f"
    using solver_has_fee [OF good _ q] run_fee_known by blast
  have "or0 (in_fill_amount r) \<le> net_in (in_dst_token r) (self e) (snd (token_run st_handle st_empty txs))"
    using settlement_covered_escrow [OF assms(1,2) open'] by simp
  from holdings_release [OF assms(4) this] have tok: "accepts_release e r f" .
  have total: "0 \<le> in_total_filled r"
    using good assms(2) by (simp add: st_good_def ledger_delivered_def delivered_ok_def fst_ledger_of)
  from assms(9) a q have "so_completed q < u32_max" "0 \<le> so_volume q" "so_volume q \<le> 10 ^ 37" by auto
  from release_succeeds [OF assms(2,3) a q f tok assms(5) this(1) good_escrow [OF good assms(2) open'] assms(6) total assms(7) this(2,3)]
    assms(8) f show ?thesis by auto
qed

text \<open>A token that keeps the balance of the contract of the example run and refuses to overdraw it.\<close>

definition strict_env :: "nat \<Rightarrow> env" where
  "strict_env t = (client_env t)\<lparr>tok_ok := (\<lambda>tr x. x_from x = 5 \<longrightarrow>
     x_amount x \<le> net_in (x_token x) 5 (snd (token_run st_handle st_empty client_run) @ tr))\<rparr>"

theorem escrow_always_releasable_witness:
  "\<exists>s' tr r'. release_fill (strict_env 4600) 9 (st_run client_run st_empty) = Inr (s', tr) \<and>
     bk_intents (book s') 9 = Some r' \<and> in_state r' = Filled \<and> (\<Sum>x\<leftarrow>tr. x_amount x) = 60"
proof -
  let ?s = "st_run client_run st_empty"
  obtain r where r: "bk_intents (book ?s) 9 = Some r" "in_state r = Filling" "in_dst_token r = 4"
      "in_dispute_deadline r = Some 4600" "in_solver r = Some 8" "in_fill_amount r = Some 60" "in_total_filled r = 0"
    by (simp add: eval_escrow client_run_def)
  have q: "\<forall>q. bo_solvers (bonds ?s) 8 = Some q \<longrightarrow> so_completed q < u32_max \<and> so_volume q \<in> {0..10 ^ 37}"
    and vol: "or0 (bk_volume (book ?s)) = 0"
    by (simp_all add: eval_escrow client_run_def)
  have "pays_holdings (strict_env 4600) (in_dst_token r) (snd (token_run st_handle st_empty client_run))"
    by (simp add: pays_holdings_def strict_env_def)
  moreover have "\<forall>tx \<in> set client_run. st_ok (self (strict_env 4600)) (in_dst_token r) (fst tx) (snd tx)"
    using client_ok by (simp add: strict_env_def)
  ultimately show ?thesis
    using escrow_always_releasable [of client_run "strict_env 4600" r 9] r q vol
    by (simp add: strict_env_def u64_max_def or0_def) blast
qed

end
