(* ===== verification/Settlement_Deliveries.thy ===== *)
theory Settlement_Deliveries
  imports Settlement_Release
begin

text \<open>
  What the users are really sent. The counter of an intent adds up gross amounts, but the release
  of an escrow takes the protocol fee out of the user's share; over a whole run the transfers to a
  user cover the minimum outputs of its filled and resolved intents up to that fee.
\<close>

section \<open>Receipts\<close>

definition received :: "address \<Rightarrow> address \<Rightarrow> xfer list \<Rightarrow> int" where
  "received d u tr = (\<Sum>x\<leftarrow>tr. if x_token x = d \<and> x_to x = u then x_amount x else 0)"

text \<open>An amount less the protocol fee on it.\<close>

definition less_fee :: "int \<Rightarrow> int" where
  "less_fee v = v - v * 5 div 10000"

text \<open>The part of an intent that user \<open>u\<close> has been credited in token \<open>d\<close>, less the fee.\<close>

definition share_of :: "address \<Rightarrow> address \<Rightarrow> IntentRecord \<Rightarrow> int" where
  "share_of d u r = (if in_dst_token r = d \<and> in_user r = u then less_fee (in_total_filled r) else 0)"

definition shares :: "address \<Rightarrow> address \<Rightarrow> settlement \<Rightarrow> int" where
  "shares d u s = amounts (\<lambda>i. map_option (share_of d u) (bk_intents (book s) i))"

lemma received_simps [simp]:
  "received d u [] = 0"
  "received d u (x # tr) = (if x_token x = d \<and> x_to x = u then x_amount x else 0) + received d u tr"
  "received d u (tr @ tr') = received d u tr + received d u tr'"
  by (simp_all add: received_def)

definition no_negatives :: "xfer list \<Rightarrow> bool" where
  "no_negatives tr \<longleftrightarrow> (\<forall>x \<in> set tr. 0 \<le> x_amount x)"

lemma received_nonneg: "no_negatives tr \<Longrightarrow> 0 \<le> received d u tr"
  by (induction tr) (auto simp: no_negatives_def)

lemma no_negatives_simps [simp]:
  "no_negatives []" "no_negatives (x # tr) \<longleftrightarrow> 0 \<le> x_amount x \<and> no_negatives tr"
  "no_negatives (tr @ tr') \<longleftrightarrow> no_negatives tr \<and> no_negatives tr'"
  "no_negatives (sends_pos t a b v)"
  by (auto simp: no_negatives_def sends_pos_def)

lemma less_fee_mono: "v \<le> w \<Longrightarrow> less_fee v \<le> less_fee w"
proof -
  assume "v \<le> w"
  then have "w * 5 div 10000 \<le> (v * 5 + (w - v) * 10000) div 10000" by (intro zdiv_mono1) simp_all
  also have "\<dots> = v * 5 div 10000 + (w - v)" by simp
  finally show ?thesis by (simp add: less_fee_def)
qed

lemma less_fee_nonneg: "0 \<le> v \<Longrightarrow> 0 \<le> less_fee v"
  using less_fee_mono [of 0 v] by (simp add: less_fee_def)

lemma less_fee_add: "less_fee (v + w) \<le> less_fee v + (w - w * 5 div 10000)"
proof -
  have "v * 5 div 10000 + w * 5 div 10000 \<le> (v * 5 + w * 5) div 10000"
    using div_add1_eq [of "v * 5" "w * 5" 10000] by (simp add: pos_imp_zdiv_nonneg_iff)
  then show ?thesis by (simp add: less_fee_def algebra_simps)
qed

lemma less_fee_gross: "0 \<le> w \<Longrightarrow> less_fee (v + w) \<le> less_fee v + w"
  using less_fee_add [of v w] pos_imp_zdiv_nonneg_iff [of 10000 "w * 5"] by simp

section \<open>What each handler pays\<close>

definition pays_for :: "settlement \<Rightarrow> settlement \<Rightarrow> xfer list \<Rightarrow> bool" where
  "pays_for s s' tr \<longleftrightarrow> (finite (dom (bk_intents (book s))) \<longrightarrow>
     finite (dom (bk_intents (book s'))) \<and> (\<forall>d u. shares d u s' - shares d u s \<le> received d u tr))"

lemma pays_for_trans: "pays_for s s1 tr \<Longrightarrow> pays_for s1 s2 tr' \<Longrightarrow> pays_for s s2 (tr @ tr')"
  unfolding pays_for_def received_simps by (smt (verit))

lemma pays_for_still: "pays_for s s1 [] \<Longrightarrow> pays_for s1 s2 [] \<Longrightarrow> pays_for s s2 []"
  using pays_for_trans [of s s1 "[]" s2 "[]"] by simp

lemma pays_same: "bk_intents (book s') = bk_intents (book s) \<Longrightarrow> pays_for s s' []"
  by (simp add: pays_for_def shares_def)

lemma shares_upd:
  assumes "finite (dom (bk_intents (book s)))" "bk_intents (book s') = (bk_intents (book s))(i := v)"
  shows "shares d u s' = shares d u s - or0 (map_option (share_of d u) (bk_intents (book s) i)) + or0 (map_option (share_of d u) v)"
  unfolding shares_def assms(2) map_option_upd using assms(1) by (simp add: amounts_put dom_map_option_fun)

text \<open>One intent moves on, and its user is sent what its counter gained, less the fee at most.\<close>

lemma pays_move:
  assumes "bk_intents (book s) i = Some r" "bk_intents (book s') = (bk_intents (book s))(i \<mapsto> r')"
    "in_user r' = in_user r" "in_dst_token r' = in_dst_token r"
    "less_fee (in_total_filled r') - less_fee (in_total_filled r) \<le> received (in_dst_token r) (in_user r) tr" "no_negatives tr"
  shows "pays_for s s' tr"
  unfolding pays_for_def
proof (intro impI conjI allI)
  assume fin: "finite (dom (bk_intents (book s)))"
  then show "finite (dom (bk_intents (book s')))" by (simp add: assms(2))
  fix d u
  show "shares d u s' - shares d u s \<le> received d u tr"
    unfolding shares_upd [OF fin assms(2)] using assms(1,3-5) received_nonneg [OF assms(6), of d u]
    by (auto simp: share_of_def)
qed

lemma paysI:
  assumes "load_intent s i = Inr r" "bk_intents (book s') = (bk_intents (book s))(i \<mapsto> the (bk_intents (book s') i))"
    "in_user (the (bk_intents (book s') i)) = in_user r \<and> in_dst_token (the (bk_intents (book s') i)) = in_dst_token r \<and>
     in_total_filled (the (bk_intents (book s') i)) = in_total_filled r"
  shows "pays_for s s' []"
proof -
  have "bk_intents (book s) i = Some r" using assms(1) by (simp add: load_intent_def)
  from pays_move [OF this assms(2), of "[]"] assms(3) show ?thesis by simp
qed

lemma accept_pays: "accept_intent_body w e a i b s = Inr s' \<Longrightarrow> pays_for s s' []"
  unfolding accept_intent_body_def Let_def
  by (elim rbindE guardE, erule paysI) (auto simp: counter_defs dest!: book_kept)

lemma cancel_pays: "cancel_intent_core e u i s = Inr s' \<Longrightarrow> pays_for s s' []"
  unfolding cancel_intent_core_def Let_def
  by (elim rbindE guardE, erule paysI) (auto simp: counter_defs)

lemma amend_pays: "amend_intent e u i m d s = Inr s' \<Longrightarrow> pays_for s s' []"
  unfolding amend_intent_def Let_def
  by (elim rbindE guardE, erule paysI) (auto simp: counter_defs)

lemma expire_pays: "expire_intent e i s = Inr s' \<Longrightarrow> pays_for s s' []"
  unfolding expire_intent_def Let_def
  by (elim rbindE guardE, erule paysI) (auto simp: counter_defs)

lemma dispute_pays: "dispute_fill e u i s = Inr s' \<Longrightarrow> pays_for s s' []"
  unfolding dispute_fill_def Let_def
  by (elim rbindE guardE, erule paysI) (auto simp: counter_defs)

lemma extension_pays: "request_extension w e a i s = Inr s' \<Longrightarrow> pays_for s s' []"
  unfolding request_extension_def Let_def
  by (elim rbindE guardE, erule paysI) (auto simp: counter_defs)

lemma slash_pays: "slash_solver w e i s = Inr (s', tr) \<Longrightarrow> pays_for s s' []"
  unfolding slash_solver_def Let_def split_beta
  by (elim rbindE guardE, drule book_kept(4), erule paysI) (auto simp: counter_defs dest!: book_kept)

lemma begin_pays: "begin_fill e a i v s = Inr (s', tr) \<Longrightarrow> pays_for s s' []"
  unfolding begin_fill_def Let_def split_beta
  by (elim rbindE guardE condE; elim paysI) (auto simp: counter_defs)

lemma submit_pays:
  assumes "submit_intent_inner w e u c q v d m dl rf s = Inr (s', i)"
  shows "pays_for s s' []"
proof -
  obtain r where "bk_intents (book s) i = None" "fresh_order e r" "bk_intents (book s') = (bk_intents (book s))(i \<mapsto> r)"
    using submit_intent_inner_opens [OF assms] by (auto simp: opens_def ledger_of_def)
  then show ?thesis by (auto simp: pays_for_def shares_upd share_of_def less_fee_def fresh_order_def)
qed

lemma close_pays:
  assumes "close_intent e i s = Inr s'" "ledger_delivered (ledger_of s)"
  shows "pays_for s s' []"
proof -
  obtain j r where r: "bk_intents (book s) j = Some r" "bk_intents (book s') = (bk_intents (book s))(j := None)"
    using close_intent_closes [OF assms(1)] by (auto simp: closes_def ledger_of_def)
  have "0 \<le> in_total_filled r"
    using assms(2) r(1) by (auto simp: ledger_delivered_def delivered_ok_def fst_ledger_of)
  then have "0 \<le> share_of d u r" for d u by (simp add: share_of_def less_fee_nonneg)
  with r show ?thesis by (simp add: pays_for_def shares_upd)
qed

text \<open>The handlers that deliver: a fill in full, an escrow less the fee, an upheld dispute in full.\<close>

lemma fill_inner_parts:
  "fill_intent_inner w e a i v p s = Inr (s', tr) \<Longrightarrow>
   \<exists>r f fee. bk_intents (book s) i = Some r \<and>
    bk_intents (book s') = (bk_intents (book s))(i \<mapsto> the (bk_intents (book s') i)) \<and>
    in_user (the (bk_intents (book s') i)) = in_user r \<and> in_dst_token (the (bk_intents (book s') i)) = in_dst_token r \<and>
    in_total_filled (the (bk_intents (book s') i)) = in_total_filled r + v \<and> 0 < v \<and>
    tr = sends (in_dst_token r) a (in_user r) v # sends_pos (in_dst_token r) a f fee"
  unfolding fill_intent_inner_def Let_def split_beta
  by (elim rbindE guardE guard_sumE; erule fill_outcomeE; drule maybe_transfer)
    (auto simp: load_intent_def check_fill_guards_Inr counter_defs transfer_eq_Inr dest!: book_kept)

lemma fill_pays:
  assumes "fill_intent_inner w e a i v p s = Inr (s', tr)"
  shows "pays_for s s' tr"
proof -
  let ?r' = "the (bk_intents (book s') i)"
  from fill_inner_parts [OF assms] obtain r f fee where r: "bk_intents (book s) i = Some r"
    "bk_intents (book s') = (bk_intents (book s))(i \<mapsto> ?r')" "in_user ?r' = in_user r" "in_dst_token ?r' = in_dst_token r"
    "in_total_filled ?r' = in_total_filled r + v" "0 < v"
    "tr = sends (in_dst_token r) a (in_user r) v # sends_pos (in_dst_token r) a f fee" by blast
  show ?thesis
    using less_fee_gross [of v "in_total_filled r"] received_nonneg [of "sends_pos (in_dst_token r) a f fee" "in_dst_token r" "in_user r"] r(5-7)
    by (intro pays_move [OF r(1-4)]) auto
qed

lemma escrow_ends_total:
  "release_fill e i s = Inr (s1, tr1) \<Longrightarrow> bk_intents (book s) i = Some r \<Longrightarrow> bk_intents (book s1) i = Some r1 \<Longrightarrow>
     in_user r1 = in_user r \<and> in_dst_token r1 = in_dst_token r \<and> in_total_filled r1 = in_total_filled r + or0 (in_fill_amount r)"
  "resolve_dispute e a i q s = Inr (s2, tr2) \<Longrightarrow> bk_intents (book s) i = Some r \<Longrightarrow> bk_intents (book s2) i = Some r2 \<Longrightarrow>
     in_user r2 = in_user r \<and> in_dst_token r2 = in_dst_token r \<and> in_total_filled r2 = in_total_filled r + or0 (in_fill_amount r)"
proof -
  show "release_fill e i s = Inr (s1, tr1) \<Longrightarrow> bk_intents (book s) i = Some r \<Longrightarrow> bk_intents (book s1) i = Some r1 \<Longrightarrow>
     in_user r1 = in_user r \<and> in_dst_token r1 = in_dst_token r \<and> in_total_filled r1 = in_total_filled r + or0 (in_fill_amount r)"
    unfolding release_fill_def Let_def split_beta
    by (elim rbindE release_caseE guardE) (auto simp: load_intent_def counter_defs)
  show "resolve_dispute e a i q s = Inr (s2, tr2) \<Longrightarrow> bk_intents (book s) i = Some r \<Longrightarrow> bk_intents (book s2) i = Some r2 \<Longrightarrow>
     in_user r2 = in_user r \<and> in_dst_token r2 = in_dst_token r \<and> in_total_filled r2 = in_total_filled r + or0 (in_fill_amount r)"
    unfolding resolve_dispute_def Let_def split_beta
    by (elim rbindE guardE condE) (auto simp: load_intent_def counter_defs)
qed

text \<open>The end of an escrow \<open>v\<close> with a fee on it, or without one.\<close>

lemma escrow_pays:
  assumes "bk_intents (book s) i = Some r" "bk_intents (book s') = (bk_intents (book s))(i \<mapsto> r')"
    "in_user r' = in_user r \<and> in_dst_token r' = in_dst_token r \<and> in_total_filled r' = in_total_filled r + v"
    "0 \<le> v" "fee = 0 \<or> fee = v * 5 sdiv 10000" "no_negatives tr'"
    "tr = sends (in_dst_token r) me (in_user r) (v - fee) # tr'"
  shows "pays_for s s' tr"
proof (rule pays_move [OF assms(1,2)])
  have fee: "0 \<le> fee" "fee \<le> v" using assms(5) fee_within [OF assms(4)] assms(4) by auto
  then show "no_negatives tr" using assms(6,7) by simp
  have "less_fee (in_total_filled r + v) \<le> less_fee (in_total_filled r) + (v - fee)"
    using less_fee_add [of "in_total_filled r" v] less_fee_gross [OF assms(4), of "in_total_filled r"] assms(4,5)
    by (auto simp: sdiv_nonneg)
  with received_nonneg [OF assms(6), of "in_dst_token r" "in_user r"]
  show "less_fee (in_total_filled r') - less_fee (in_total_filled r) \<le> received (in_dst_token r) (in_user r) tr"
    using assms(3) by (simp add: assms(7))
qed (use assms(3) in simp_all)

lemma escrow_nonneg:
  assumes "ledger_delivered (ledger_of s)" "bk_intents (book s) i = Some r" "in_state r \<in> {Filling, Disputed}"
  shows "0 \<le> or0 (in_fill_amount r)"
  using assms by (force simp: ledger_delivered_def delivered_ok_def fst_ledger_of)

lemma release_pays:
  assumes "release_fill e i s = Inr (s', tr)" "ledger_delivered (ledger_of s)"
  shows "pays_for s s' tr"
proof (rule release_fill_effect [OF assms(1)])
  fix r r' f fee
  assume r: "bk_intents (book s) i = Some r" "in_state r \<in> {Filling, Disputed}" "bk_intents (book s') = (bk_intents (book s))(i \<mapsto> r')"
    and pay: "fee = 0 \<or> fee = or0 (in_fill_amount r) * 5 sdiv 10000"
    "tr = sends (in_dst_token r) (self e) (in_user r) (or0 (in_fill_amount r) - fee) # sends_pos (in_dst_token r) (self e) f fee"
  have "bk_intents (book s') i = Some r'" using r(3) by simp
  from escrow_pays [OF r(1,3) escrow_ends_total(1) [OF assms(1) r(1) this] escrow_nonneg [OF assms(2) r(1,2)] pay(1) _ pay(2)]
  show ?thesis by simp
qed

lemma resolve_pays:
  assumes "resolve_dispute e a i q s = Inr (s', tr)" "ledger_delivered (ledger_of s)"
  shows "pays_for s s' tr"
proof (cases q)
  case Dismissed
  show ?thesis
  proof (rule dismissed_effect [OF assms(1) [unfolded Dismissed]])
    fix r r' f fee
    assume r: "bk_intents (book s) i = Some r" "in_state r = Disputed" "bk_intents (book s') = (bk_intents (book s))(i \<mapsto> r')"
      and pay: "fee = or0 (in_fill_amount r) * 5 sdiv 10000"
      "tr = sends (in_dst_token r) (self e) (in_user r) (or0 (in_fill_amount r) - fee) # sends_pos (in_dst_token r) (self e) f fee"
    have "bk_intents (book s') i = Some r'" using r(3) by simp
    from escrow_pays [OF r(1,3) escrow_ends_total(2) [OF assms(1) r(1) this] _ disjI2 [OF pay(1)] _ pay(2)]
      escrow_nonneg [OF assms(2) r(1)] r(2) show ?thesis by simp
  qed
next
  case Upheld
  show ?thesis
  proof (rule upheld_parts [OF assms(1) [unfolded Upheld]])
    fix r r' f sol q0 p
    assume r: "bk_intents (book s) i = Some r" "in_state r = Disputed"
      and q: "uphold e r (q0\<lparr>so_active_intents := so_active_intents q0 - 1\<rparr>) s = Inr p"
      and r': "bk_intents (book s') = (bk_intents (book (fst p)))(i \<mapsto> r')"
      and pay: "tr = sends (in_dst_token r) (self e) (in_user r) (or0 (in_fill_amount r)) #
        sends_pos (in_bond_token r) (self e) f (snd (snd p))"
    have "bk_intents (book (fst p)) = bk_intents (book s)"
      using uphold_facts [OF q] by (metis fst_ledger_of)
    then have "bk_intents (book s') = (bk_intents (book s))(i \<mapsto> r')" "bk_intents (book s') i = Some r'" using r' by simp_all
    from escrow_pays [OF r(1) this(1) escrow_ends_total(2) [OF assms(1) r(1) this(2)] _ disjI1 [OF refl]]
      escrow_nonneg [OF assms(2) r(1)] r(2) pay show ?thesis by simp
  qed
qed

text \<open>The handlers of the bonds and of the administration leave the intents alone.\<close>

lemma bonds_pay:
  "register_solver_inner w e a t v s = Inr (s1, tr1) \<Longrightarrow> pays_for s s1 []"
  "deregister_solver w e a s = Inr (s2, tr2) \<Longrightarrow> pays_for s s2 []"
  "withdraw_bond_inner e a t v s = Inr (s3, tr3) \<Longrightarrow> pays_for s s3 []"
  by (rule pays_same; drule bonds_same_counts; simp add: same_counts_def)+

lemma pays_quiet: "bonds s' = bonds s \<and> same_counts s s' \<and> roles s' = roles s \<Longrightarrow> pays_for s s' []"
  by (rule pays_same) (simp_all add: same_counts_def)

lemma admin_pays:
  assumes "admin_apply w e a s = Inr (s', tr)" "blank_ok s"
  shows "pays_for s s' []"
proof (cases "\<exists>x f b. a = AInit x f b")
  case True
  then obtain x f b where a: "a = AInit x f b" by blast
  with assms(1) have init: "st_initialize w e x f b s = Inr s'" by auto
  from init_vault(3) [OF init assms(2)] show ?thesis by (simp add: pays_same)
next
  case False
  with admin_vault [OF assms(1)] show ?thesis by (auto intro!: pays_same)
qed

text \<open>The batches.\<close>

lemma each_pays:
  assumes "\<And>x p p'. f x p = Inr p' \<Longrightarrow> pays_for (g p) (g p') []" "each f xs p = Inr p'"
  shows "pays_for (g p) (g p') []"
  using assms(2)
proof (induction xs arbitrary: p)
  case (Cons x xs)
  then show ?case by (auto intro: pays_for_still dest: assms(1))
qed (simp add: pays_same)

lemma pays_put [simp]: "pays_for s (stamp_cancel_cooldown u n t) tr = pays_for s t tr" "pays_for s (upd_extra g t) tr = pays_for s t tr"
  by (simp_all add: pays_for_def shares_def helper_defs)

lemma batch_pays:
  "cancel_intent e u i s = Inr s1 \<Longrightarrow> pays_for s s1 []"
  "batch_cancel_intent e u ids s = Inr s2 \<Longrightarrow> pays_for s s2 []"
  "batch_submit_intent w e u orders s = Inr (s3, js) \<Longrightarrow> pays_for s s3 []"
  "batch_accept_intent w e u ids s = Inr s4 \<Longrightarrow> pays_for s s4 []"
proof -
  show "cancel_intent e u i s = Inr s1 \<Longrightarrow> pays_for s s1 []"
    unfolding cancel_intent_def by (auto dest: cancel_pays)
  show "batch_cancel_intent e u ids s = Inr s2 \<Longrightarrow> pays_for s s2 []"
    unfolding batch_cancel_intent_def
    by (elim rbindE guardE, drule each_pays [where g = "\<lambda>s. s", rotated]) (auto dest: cancel_pays)
  show "batch_submit_intent w e u orders s = Inr (s3, js) \<Longrightarrow> pays_for s s3 []"
    unfolding batch_submit_intent_def
    by (elim rbindE guardE, drule each_pays [where g = fst, rotated]) (auto dest: submit_pays)
  show "batch_accept_intent w e u ids s = Inr s4 \<Longrightarrow> pays_for s s4 []"
    unfolding batch_accept_intent_def accept_intent_inner_def
    by (elim rbindE guardE, drule each_pays [where g = "\<lambda>s. s", rotated]) (auto intro: pays_for_still dest: accept_pays)
qed

lemma batch_fill_pays:
  assumes "batch_fill_intent w e a fills s = Inr (s', tr)"
  shows "pays_for s s' tr"
proof -
  have each_fills: "pays_for s0 s' tr'" if "pays_for s0 s tr" "each (\<lambda>(i, v) (s, tr).
      rbind (fill_intent_inner w e a i v False s) (\<lambda>(s1, tr1). Inr (s1, tr @ tr1))) fs (s, tr) = Inr (s', tr')"
    for fs s0 s tr s' tr'
    using that
  proof (induction fs arbitrary: s tr)
    case (Cons x fs)
    obtain i v where x: "x = (i, v)" by (cases x)
    from Cons.prems(2) obtain s1 tr1 where "fill_intent_inner w e a i v False s = Inr (s1, tr1)"
      and rest: "each (\<lambda>(i, v) (s, tr). rbind (fill_intent_inner w e a i v False s) (\<lambda>(s1, tr1). Inr (s1, tr @ tr1)))
        fs (s1, tr @ tr1) = Inr (s', tr')" unfolding x by auto
    from Cons.IH [OF pays_for_trans [OF Cons.prems(1) fill_pays [OF this(1)]] rest] show ?case .
  qed simp
  from assms have "each (\<lambda>(i, v) (s, tr).
      rbind (fill_intent_inner w e a i v False s) (\<lambda>(s1, tr1). Inr (s1, tr @ tr1))) fills (s, []) = Inr (s', tr)"
    unfolding batch_fill_intent_def by (auto simp: require_auth_def split: if_splits)
  from each_fills [OF _ this] show ?thesis by (simp add: pays_same)
qed

section \<open>Every transaction\<close>

text \<open>The transactions that deliver to a user: fills, the release of an escrow, the end of a dispute.\<close>

fun delivers :: "st_event \<Rightarrow> bool" where
  "delivers (Fill a i v p) = True"
| "delivers (BatchFill a fills) = True"
| "delivers (Release i) = True"
| "delivers (Resolve a i q) = True"
| "delivers _ = False"

text \<open>A transaction, with its transfers if it is one of those.\<close>

definition st_deliver :: "env \<Rightarrow> world \<times> st_event \<Rightarrow> settlement \<Rightarrow> (settlement \<times> xfer list) st" where
  "st_deliver e ev s =
     rbind (st_handle e ev s) (\<lambda>(s', tr). Inr (s', if delivers (snd ev) then tr else []))"

lemma st_deliver_run: "fst (token_run st_deliver s txs) = st_run txs s"
proof (induction txs rule: rev_induct)
  case (snoc tx txs)
  then show ?case
    by (cases tx) (simp add: contract_run_append token_step_def st_deliver_def st_handle_def st_step_def split_beta
        split: sum.splits)
qed simp

lemmas still_pays = accept_pays amend_pays expire_pays dispute_pays extension_pays slash_pays begin_pays
  submit_pays bonds_pay batch_pays chain_books [THEN pays_quiet] extras_books [THEN pays_quiet]

lemma st_apply_pays:
  assumes "st_apply w e ev s = Inr (s', tr)" "ledger_ok (ledger_of s)" "ledger_delivered (ledger_of s)" "blank_ok s"
  shows "pays_for s s' (if delivers ev then tr else [])"
  using assms(1) ledger_no_bids [OF assms(2)]
  by - (cases ev; simp add: register_solver_def register_solver_with_token_def withdraw_bond_def
      withdraw_bond_token_def submit_intent_def accept_intent_def accept_intent_with_bond_def accept_intent_inner_def
      fill_intent_def; (elim exE conjE)?;
    (erule still_pays fill_pays batch_fill_pays | (erule close_pays release_pays resolve_pays admin_pays, (rule assms)+)))

lemma run_pays:
  assumes "\<forall>(e, ev) \<in> set txs. exact_tokens e"
  shows "shares d u (st_run txs st_empty) \<le> received d u (snd (token_run st_deliver st_empty txs))"
  using assms
proof (induction txs rule: rev_induct)
  case Nil
  show ?case by (simp add: shares_def st_empty_def no_book_def)
next
  case (snoc tx txs)
  let ?s = "st_run txs st_empty"
  obtain e ev where tx: "tx = (e, ev)" by (cases tx)
  from snoc have IH: "shares d u ?s \<le> received d u (snd (token_run st_deliver st_empty txs))"
    and exact: "\<forall>(e, ev) \<in> set txs. exact_tokens e" by auto
  show ?case
  proof (cases st_deliver tx "token_run st_deliver st_empty txs" rule: token_step_cases)
    case aborted
    then show ?thesis using IH by (simp add: st_deliver_run [symmetric])
  next
    case (committed s' tr)
    then obtain tr0 where ap: "st_apply (fst ev) e (snd ev) ?s = Inr (s', tr0)" "tr = (if delivers (snd ev) then tr0 else [])"
      by (auto simp: tx st_deliver_def st_handle_def st_deliver_run)
    from st_apply_pays [OF ap(1) run_ledger_ok run_delivered [OF exact]] st_run_books [of txs]
    have "shares d u s' - shares d u ?s \<le> received d u tr" by (simp add: pays_for_def counts_ok_def ap(2))
    with IH committed(2) show ?thesis by (simp add: st_deliver_run [symmetric])
  qed
qed

section \<open>Property\<close>

text \<open>The minimum output, less the protocol fee on it, that a finished intent of a user promised.\<close>

definition promised :: "address \<Rightarrow> address \<Rightarrow> IntentRecord \<Rightarrow> int" where
  "promised d u r = (if in_dst_token r = d \<and> in_user r = u \<and> in_state r \<in> {Filled, Resolved}
     then in_min_dst r - in_min_dst r * 5 div 10000 else 0)"

lemma amounts_mono:
  assumes "finite (dom m)" "\<And>i r. m i = Some r \<Longrightarrow> f r \<le> g r"
  shows "amounts (\<lambda>i. map_option f (m i)) \<le> amounts (\<lambda>i. map_option g (m i))"
  unfolding amounts_def dom_map_option_fun using assms by (intro sum_mono) auto

lemma promised_within: "delivered_ok r \<Longrightarrow> promised d u r \<le> share_of d u r"
  using less_fee_mono [of "in_min_dst r" "in_total_filled r"] less_fee_nonneg [of "in_total_filled r"]
  by (auto simp: promised_def share_of_def delivered_ok_def less_fee_def)

text \<open>
  C5: When tokens move exactly what they are asked to, then in every reachable state the
  counter of a filled or resolved intent has reached the minimum output, and an escrowed
  intent holds enough to reach it. For every user and token, what the transfers of fills,
  escrow releases and dispute resolutions sent to that user is at least the sum of the minimum
  outputs of all its stored filled and resolved intents in the token, each less the fee of 5
  basis points (rounded down) that the end of an escrow takes out of the user's share. The
  full minimum is not guaranteed: filled_short_of_minimum is a filled intent with a minimum of
  10000 whose user was sent 9995.
\<close>

theorem filled_means_delivered:
  assumes "\<forall>(e, ev) \<in> set txs. exact_tokens e"
  shows "let s = st_run txs st_empty;
             sent = snd (token_run st_deliver st_empty txs)
         in (\<forall>i r. bk_intents (book s) i = Some r \<longrightarrow> 0 \<le> in_total_filled r \<and>
               (in_state r \<in> {Filled, Resolved} \<longrightarrow> in_min_dst r \<le> in_total_filled r) \<and>
               (in_state r \<in> {Filling, Disputed} \<longrightarrow> in_min_dst r \<le> in_total_filled r + or0 (in_fill_amount r))) \<and>
            (\<forall>d u. amounts (\<lambda>i. map_option (promised d u) (bk_intents (book s) i)) \<le> received d u sent)"
proof -
  let ?s = "st_run txs st_empty"
  have ok: "delivered_ok r" if "bk_intents (book ?s) i = Some r" for i r
    using run_delivered [OF assms] that by (auto simp: ledger_delivered_def fst_ledger_of)
  have "finite (dom (bk_intents (book ?s)))" using st_run_books [of txs] by (simp add: counts_ok_def)
  from amounts_mono [OF this promised_within [OF ok]] run_pays [OF assms]
  have "amounts (\<lambda>i. map_option (promised d u) (bk_intents (book ?s) i)) \<le>
      received d u (snd (token_run st_deliver st_empty txs))" for d u
    unfolding shares_def by (rule order_trans)
  with ok show ?thesis by (auto simp: Let_def delivered_ok_def)
qed

text \<open>An order with a minimum of 10000 that its solver fills with exactly that, by way of an escrow.\<close>

definition exact_run :: "(env \<times> world \<times> st_event) list" where
  "exact_run = map (\<lambda>ev. (client_env 1000, demo_world, ev))
     [Admin (AInit 1 2 3), Register 8 600000000, Submit 7 ''stellar'' ''x'' 20000 4 10000 None None,
      AcceptIntent 8 9, BeginFill 8 9 10000] @ [(client_env 4600, demo_world, Release 9)]"

lemma exact_filled:
  "\<exists>r. bk_intents (book (st_run exact_run st_empty)) = [9 \<mapsto> r] \<and> in_state r = Filled \<and> in_min_dst r = 10000 \<and>
     in_total_filled r = 10000 \<and> in_user r = 7 \<and> in_dst_token r = 4"
  by (simp add: exact_run_def eval_escrow release_fill_def credit_fill_def pay_escrow_def, rule exI, rule conjI, rule refl, simp)

theorem filled_means_delivered_witness:
  "9995 \<le> received 4 7 (snd (token_run st_deliver st_empty exact_run))"
proof -
  obtain r where r: "bk_intents (book (st_run exact_run st_empty)) = [9 \<mapsto> r]" "in_state r = Filled" "in_min_dst r = 10000"
    "in_total_filled r = 10000" "in_user r = 7" "in_dst_token r = 4" using exact_filled by blast
  have "\<forall>(e, ev) \<in> set exact_run. exact_tokens e" by (simp add: exact_run_def exact_tokens_def)
  from filled_means_delivered [OF this] have "amounts (\<lambda>i. map_option (promised 4 7) (bk_intents (book (st_run exact_run st_empty)) i)) \<le>
      received 4 7 (snd (token_run st_deliver st_empty exact_run))" by (simp add: Let_def)
  then show ?thesis unfolding r(1) map_option_upd using r(2-) by (simp add: amounts_upd promised_def)
qed

text \<open>
  The fee of 5 comes out of the user's share: the intent is filled, its counter stands at the
  minimum of 10000, and its user has been sent 9995.
\<close>

theorem filled_short_of_minimum:
  "map_option (\<lambda>r. (in_state r, in_min_dst r, in_total_filled r)) (bk_intents (book (st_run exact_run st_empty)) 9) =
     Some (Filled, 10000, 10000) \<and>
   received 4 7 (snd (token_run st_deliver st_empty exact_run)) = 9995"
proof -
  have "snd (token_run st_deliver st_empty exact_run) =
      [sends 4 5 7 9995, sends 4 5 2 5]"
    by (simp add: exact_run_def token_run_def token_step_def st_deliver_def st_handle_def eval_escrow release_fill_def credit_fill_def
        pay_escrow_def)
  with exact_filled show ?thesis by auto
qed

end
