(* ===== verification/User_Index.thy ===== *)
theory User_Index
  imports Settlement_Counters
begin

text \<open>
  The settlement contract's list of intents per user: pages of 64 slots, appended to by
  submissions, with a slot emptied when its intent is closed. In every reachable state the pages
  are the buckets of one list, which holds each live intent of the user once.
\<close>

section \<open>Buckets of a list\<close>

definition bucket :: "nat \<Rightarrow> 'a list \<Rightarrow> 'a list" where
  "bucket b xs = take USER_INTENT_BUCKET_SIZE (drop (USER_INTENT_BUCKET_SIZE * b) xs)"

definition live :: "'a option list \<Rightarrow> 'a list" where
  "live xs = map the (filter (\<lambda>x. x \<noteq> None) xs)"

definition erased :: "'a \<Rightarrow> 'a option list \<Rightarrow> 'a option list" where
  "erased i = map (\<lambda>x. if x = Some i then None else x)"

lemma live_simps [simp]:
  "live [] = []" "live (Some i # xs) = i # live xs" "live (None # xs) = live xs" "live (xs @ ys) = live xs @ live ys"
  by (simp_all add: live_def)

lemma set_live: "i \<in> set (live xs) \<longleftrightarrow> Some i \<in> set xs"
  by (force simp: live_def)

lemma bucket_erased: "bucket b (erased i xs) = erased i (bucket b xs)"
  by (simp add: bucket_def erased_def take_map drop_map)

lemma erased_id: "Some i \<notin> set xs \<Longrightarrow> erased i xs = xs"
  by (auto simp: erased_def intro!: map_idI)

lemma set_erased: "Some j \<in> set (erased i xs) \<longleftrightarrow> Some j \<in> set xs \<and> j \<noteq> i"
  by (auto simp: erased_def)

lemma erased_simps [simp]:
  "erased i [] = []" "erased i (None # xs) = None # erased i xs"
  "erased i (Some j # xs) = (if j = i then None else Some j) # erased i xs"
  by (simp_all add: erased_def)

lemma live_erased: "live (erased i xs) = filter (\<lambda>j. j \<noteq> i) (live xs)"
proof (induction xs)
  case (Cons x xs)
  then show ?case by (cases x) auto
qed simp

lemma length_erased [simp]: "length (erased i xs) = length xs"
  by (simp add: erased_def)

lemma bucket_parts: "xs = take (USER_INTENT_BUCKET_SIZE * b) xs @ bucket b xs @ drop USER_INTENT_BUCKET_SIZE (drop (USER_INTENT_BUCKET_SIZE * b) xs)"
  by (simp only: bucket_def append_take_drop_id)

lemma distinct_bucket:
  assumes "distinct (live xs)"
  shows "distinct (live (bucket b xs))"
  using assms by (subst (asm) bucket_parts [of _ b]) simp

lemma set_bucket: "set (bucket b xs) \<subseteq> set xs"
  unfolding bucket_def by (meson set_drop_subset set_take_subset subset_trans)

lemma scan_reaches:
  assumes "x \<in> set (bucket b xs)" "length xs \<le> 4294967232"
  shows "b \<in> set [0 ..< sat_u32 (length xs + (USER_INTENT_BUCKET_SIZE - 1)) div USER_INTENT_BUCKET_SIZE]"
proof -
  have "bucket b xs \<noteq> []" using assms(1) by auto
  then have "USER_INTENT_BUCKET_SIZE * b < length xs" by (simp add: bucket_def)
  with assms(2) show ?thesis by (simp add: USER_INTENT_BUCKET_SIZE_def sat_u32_def u32_max_def)
qed

lemma bucket_unique:
  assumes "distinct (live xs)" "Some i \<in> set (bucket b xs)" "Some i \<in> set (bucket b' xs)"
  shows "b = b'"
proof -
  have lt: False if less: "b < b'" and b: "Some i \<in> set (bucket b xs)" and b': "Some i \<in> set (bucket b' xs)" for b b'
  proof -
    let ?n = "USER_INTENT_BUCKET_SIZE * b'"
    have "USER_INTENT_BUCKET_SIZE * b + USER_INTENT_BUCKET_SIZE \<le> ?n"
      using less mult_le_mono2 [of "Suc b" b' USER_INTENT_BUCKET_SIZE] by simp
    then have "bucket b xs = take USER_INTENT_BUCKET_SIZE (drop (USER_INTENT_BUCKET_SIZE * b) (take ?n xs))"
      by (simp add: bucket_def take_drop min_def)
    with b have "Some i \<in> set (take ?n xs)" by (metis in_set_dropD in_set_takeD)
    moreover have "Some i \<in> set (drop ?n xs)" using b' unfolding bucket_def by (rule in_set_takeD)
    moreover have "distinct (live (take ?n xs) @ live (drop ?n xs))"
      using assms(1) by (metis append_take_drop_id live_simps(4))
    ultimately show False by (auto simp flip: set_live)
  qed
  from lt [of b b'] lt [of b' b] assms(2,3) show ?thesis by (meson linorder_cases)
qed

lemma bucket_snoc:
  "bucket b (xs @ [x]) = (if b = length xs div USER_INTENT_BUCKET_SIZE then bucket b xs @ [x] else bucket b xs)"
proof -
  let ?n = USER_INTENT_BUCKET_SIZE
  have len: "?n * (length xs div ?n) \<le> length xs" "length xs < ?n * (length xs div ?n) + ?n"
    by (simp_all add: USER_INTENT_BUCKET_SIZE_def)
  consider "b = length xs div ?n" | "b < length xs div ?n" | "length xs div ?n < b" by linarith
  then show ?thesis
  proof cases
    case 1
    with len show ?thesis by (auto simp: bucket_def)
  next
    case 2
    then have "?n * Suc b \<le> ?n * (length xs div ?n)" by (intro mult_le_mono2) simp
    then have "?n * b + ?n \<le> length xs" using len(1) unfolding mult_Suc_right by linarith
    then have "?n * b \<le> length xs" "?n \<le> length xs - ?n * b" by linarith+
    with 2 show ?thesis by (simp add: bucket_def)
  next
    case 3
    then have "?n * Suc (length xs div ?n) \<le> ?n * b" by (intro mult_le_mono2) simp
    with len(2) 3 show ?thesis by (auto simp: bucket_def)
  qed
qed

section \<open>Emptying a slot\<close>

lemma clear_slot_erased:
  "distinct (live xs) \<Longrightarrow> clear_slot i xs = (if Some i \<in> set xs then Some (erased i xs) else None)"
proof (induction xs)
  case (Cons x xs)
  then show ?case by (cases x) (auto simp: erased_id set_live)
qed simp

abbreviation slots :: "(address \<times> nat \<Rightarrow> bytes32 option list option) \<Rightarrow> address \<Rightarrow> nat \<Rightarrow> bytes32 option list" where
  "slots pages u b \<equiv> (case pages (u, b) of None \<Rightarrow> [] | Some p \<Rightarrow> p)"

lemma clear_in_buckets_erased:
  assumes "distinct (live xs)" "\<And>b. slots pages u b = bucket b xs"
    "\<And>b. Some i \<in> set (bucket b xs) \<Longrightarrow> b \<in> set bs"
  shows "slots (clear_in_buckets u i bs pages) u b = bucket b (erased i xs)"
  using assms(3)
proof (induction bs)
  case Nil
  then have "Some i \<notin> set (bucket b xs)" by auto
  with assms(2) show ?case by (simp add: bucket_erased erased_id)
next
  case (Cons c bs)
  have c: "Option.bind (pages (u, c)) (clear_slot i) =
      (if Some i \<in> set (bucket c xs) then Some (erased i (bucket c xs)) else None)"
    using assms(2) [of c] clear_slot_erased [OF distinct_bucket [OF assms(1)], of i c]
    by (cases "pages (u, c)") (auto simp: clear_slot_erased)
  show ?case
  proof (cases "Some i \<in> set (bucket c xs)")
    case True
    have "Some i \<notin> set (bucket b xs)" if "b \<noteq> c"
      using bucket_unique [OF assms(1) True, of b] that by auto
    with c True assms(2) show ?thesis by (auto simp: bucket_erased erased_id)
  next
    case False
    with Cons.prems have "\<And>b. Some i \<in> set (bucket b xs) \<Longrightarrow> b \<in> set bs" by fastforce
    from Cons.IH [OF this] False c show ?thesis by simp
  qed
qed

lemma clear_other_user: "u' \<noteq> u \<Longrightarrow> clear_in_buckets u i bs pages (u', b) = pages (u', b)"
  by (induction bs) (auto split: option.splits)

section \<open>The index of a user\<close>

definition owners :: "settlement \<Rightarrow> bytes32 \<Rightarrow> address option" where
  "owners s i = map_option in_user (bk_intents (book s) i)"

definition index_of :: "settlement \<Rightarrow> (address \<times> nat \<Rightarrow> bytes32 option list option) \<times> (address \<Rightarrow> nat option)" where
  "index_of s = (bk_user_pages (book s), bk_user_count (book s))"

text \<open>The pages of \<open>u\<close> are the buckets of \<open>xs\<close>, which holds each of the user's intents once.\<close>

definition logged :: "settlement \<Rightarrow> address \<Rightarrow> bytes32 option list \<Rightarrow> bool" where
  "logged s u xs \<longleftrightarrow> nat0 (bk_user_count (book s) u) = length xs \<and>
     (\<forall>b. slots (bk_user_pages (book s)) u b = bucket b xs) \<and> distinct (live xs) \<and>
     (\<forall>i. i \<in> set (live xs) \<longleftrightarrow> owners s i = Some u)"

text \<open>
  Closing scans the pages up to a number that saturates at the end of \<open>u32\<close>: beyond this
  many submissions of one user it would not reach the last page.
\<close>

definition INDEX_LIMIT :: nat where "INDEX_LIMIT = 4294967232"

definition index_ok :: "address \<Rightarrow> settlement \<Rightarrow> bool" where
  "index_ok u s \<longleftrightarrow> (nat0 (bk_user_count (book s) u) \<le> INDEX_LIMIT \<longrightarrow> (\<exists>xs. logged s u xs))"

definition keeps_index :: "settlement \<Rightarrow> settlement \<Rightarrow> bool" where
  "keeps_index s s' \<longleftrightarrow> (\<forall>u. index_ok u s \<longrightarrow> index_ok u s')"

lemma keeps_index_refl [simp]: "keeps_index s s"
  by (simp add: keeps_index_def)

lemma keeps_index_trans: "keeps_index s s1 \<Longrightarrow> keeps_index s1 s2 \<Longrightarrow> keeps_index s s2"
  by (simp add: keeps_index_def)

lemma same_index: "index_of s' = index_of s \<Longrightarrow> owners s' = owners s \<Longrightarrow> keeps_index s s'"
  by (simp add: keeps_index_def index_ok_def logged_def index_of_def)

lemma moves_owners: "moves e s s' \<Longrightarrow> owners s' = owners s"
  unfolding moves_def
  by (auto simp: owners_def ledger_of_def fun_eq_iff order_of_def dest!: intent_step_order)

lemma moves_index: "moves e s s' \<Longrightarrow> index_of s' = index_of s \<Longrightarrow> keeps_index s s'"
  by (simp add: same_index moves_owners)

section \<open>Submitting and closing\<close>

lemma append_keeps:
  assumes "bk_user_pages (book s') = (bk_user_pages (book s))((u, nat0 (bk_user_count (book s) u) div USER_INTENT_BUCKET_SIZE) \<mapsto>
      slots (bk_user_pages (book s)) u (nat0 (bk_user_count (book s) u) div USER_INTENT_BUCKET_SIZE) @ [Some i])"
    "bk_user_count (book s') = (bk_user_count (book s))(u \<mapsto> nat0 (bk_user_count (book s) u) + 1)"
    "owners s i = None" "owners s' = (owners s)(i \<mapsto> u)"
  shows "keeps_index s s'"
  unfolding keeps_index_def index_ok_def
proof (intro allI impI)
  fix a
  assume ok: "nat0 (bk_user_count (book s) a) \<le> INDEX_LIMIT \<longrightarrow> (\<exists>xs. logged s a xs)"
    and le: "nat0 (bk_user_count (book s') a) \<le> INDEX_LIMIT"
  from le have "nat0 (bk_user_count (book s) a) \<le> INDEX_LIMIT" by (auto simp: assms(2) split: if_splits)
  with ok obtain xs where xs: "logged s a xs" by blast
  show "\<exists>xs. logged s' a xs"
  proof (cases "a = u")
    case True
    have "Some i \<notin> set xs" using xs assms(3) by (auto simp: logged_def simp flip: set_live)
    with True xs have "logged s' a (xs @ [Some i])"
      by (auto simp: logged_def assms(1,2,4) bucket_snoc set_live)
    then show ?thesis by blast
  next
    case False
    with xs assms(3) have "logged s' a xs" by (auto simp: logged_def assms(1,2,4))
    then show ?thesis by blast
  qed
qed

lemma erase_keeps:
  assumes "bk_user_pages (book s') = clear_in_buckets u i
      [0 ..< sat_u32 (nat0 (bk_user_count (book s) u) + (USER_INTENT_BUCKET_SIZE - 1)) div USER_INTENT_BUCKET_SIZE]
      (bk_user_pages (book s))"
    "bk_user_count (book s') = bk_user_count (book s)" "owners s i = Some u" "owners s' = (owners s)(i := None)"
  shows "keeps_index s s'"
  unfolding keeps_index_def index_ok_def
proof (intro allI impI)
  fix a
  assume ok: "nat0 (bk_user_count (book s) a) \<le> INDEX_LIMIT \<longrightarrow> (\<exists>xs. logged s a xs)"
    and le: "nat0 (bk_user_count (book s') a) \<le> INDEX_LIMIT"
  with assms(2) obtain xs where xs: "logged s a xs" by auto
  show "\<exists>xs. logged s' a xs"
  proof (cases "a = u")
    case True
    let ?bs = "[0 ..< sat_u32 (nat0 (bk_user_count (book s) u) + (USER_INTENT_BUCKET_SIZE - 1)) div USER_INTENT_BUCKET_SIZE]"
    have "b \<in> set ?bs" if "Some i \<in> set (bucket b xs)" for b
      using scan_reaches [OF that] xs le True assms(2) by (simp add: logged_def INDEX_LIMIT_def)
    with xs True have "slots (bk_user_pages (book s')) u b = bucket b (erased i xs)" for b
      unfolding assms(1) by (intro clear_in_buckets_erased) (auto simp: logged_def)
    with xs True have "logged s' a (erased i xs)"
      by (auto simp: logged_def assms(2,4) live_erased)
    then show ?thesis by blast
  next
    case False
    with xs assms(3) have "logged s' a xs" by (auto simp: logged_def assms(1,2,4) clear_other_user)
    then show ?thesis by blast
  qed
qed

section \<open>The handlers\<close>

lemma index_simps [simp]:
  "index_of (save_intent i r t) = index_of t" "index_of (set_open n t) = index_of t" "index_of (set_volume v t) = index_of t"
  "index_of (set_exposure a v t) = index_of t" "index_of (set_total_bonded v t) = index_of t"
  "index_of (adjust_token_liabilities w a v t) = index_of t" "index_of (add_to_open_intent_list w i t) = index_of t"
  "index_of (remove_from_open_intent_list w i t) = index_of t" "index_of (release_exposure a v t) = index_of t"
  "index_of (stamp_cancel_cooldown a n t) = index_of t" "index_of (stamp_amendment_cooldown a n t) = index_of t"
  "index_of (upd_roles p t) = index_of t" "index_of (upd_allow l t) = index_of t" "index_of (upd_extra g t) = index_of t"
  "index_of (upd_bonds f t) = index_of t" "index_of (ctx_commit c t) = index_of t" "index_of (t\<lparr>bonds := k\<rparr>) = index_of t"
  "index_of (save_solver a q t) = index_of t"
  by (simp_all add: index_of_def helper_defs ctx_commit_def Let_def)

lemma index_of_book [simp]:
  "index_of (t\<lparr>book := (book u)\<lparr>bk_best_bid := v1\<rparr>\<rparr>) = index_of u"
  "index_of (t\<lparr>book := (book u)\<lparr>bk_nonce := v2\<rparr>\<rparr>) = index_of u"
  "index_of (t\<lparr>book := (book u)\<lparr>bk_total := v3\<rparr>\<rparr>) = index_of u"
  "index_of (t\<lparr>book := (book u)\<lparr>bk_bid_enabled := v4\<rparr>\<rparr>) = index_of u"
  "index_of (t\<lparr>roles := r, bonds := bo, book := (book u)\<lparr>bk_total := v3, bk_volume := v7, bk_open := v8\<rparr>\<rparr>) = index_of u"
  "index_of (t\<lparr>roles := r\<rparr>) = index_of t" "index_of (t\<lparr>allow := l\<rparr>) = index_of t" "index_of (t\<lparr>extra := g\<rparr>) = index_of t"
  by (simp_all add: index_of_def)

lemma index_book: "book t = book s \<Longrightarrow> index_of t = index_of s"
  by (simp add: index_of_def)

lemmas index_kept = book_kept [THEN index_book]

lemma accept_intent_body_index: "accept_intent_body w e a i b s = Inr s' \<Longrightarrow> index_of s' = index_of s"
  unfolding accept_intent_body_def Let_def
  by (elim rbindE guardE) (auto dest!: index_kept)

lemma fill_intent_inner_index: "fill_intent_inner w e a i v p s = Inr (s', tr) \<Longrightarrow> index_of s' = index_of s"
  unfolding fill_intent_inner_def Let_def split_beta
  by (elim rbindE guardE guard_sumE; erule fill_outcomeE) (auto dest!: index_kept)

lemma slash_solver_index: "slash_solver w e i s = Inr (s', tr) \<Longrightarrow> index_of s' = index_of s"
  unfolding slash_solver_def Let_def split_beta
  by (elim rbindE guardE; drule index_kept(4)) (auto dest!: index_kept)

lemma resolve_dispute_index: "resolve_dispute e a i q s = Inr (s', tr) \<Longrightarrow> index_of s' = index_of s"
  unfolding resolve_dispute_def uphold_def Let_def split_beta
  by (cases q; simp only: DisputeResolution.case; elim rbindE guardE condE) (auto dest!: index_kept)

lemma release_fill_index: "release_fill e i s = Inr (s', tr) \<Longrightarrow> index_of s' = index_of s"
  unfolding release_fill_def Let_def split_beta
  by (elim rbindE release_caseE guardE) (auto dest!: index_kept)

lemma settle_bids_index: "settle_bids e i s = Inr s' \<Longrightarrow> index_of s' = index_of s"
  unfolding settle_bids_def Let_def
  by (elim rbindE guardE case_optionE) (auto dest!: index_kept)

lemma order_index:
  "cancel_intent_core e u i s = Inr s1 \<Longrightarrow> index_of s1 = index_of s"
  "amend_intent e u i m d s = Inr s2 \<Longrightarrow> index_of s2 = index_of s"
  "expire_intent e i s = Inr s3 \<Longrightarrow> index_of s3 = index_of s"
  "dispute_fill e u i s = Inr s4 \<Longrightarrow> index_of s4 = index_of s"
  "request_extension w e a i s = Inr s5 \<Longrightarrow> index_of s5 = index_of s"
  "begin_fill e a i v s = Inr (s6, tr) \<Longrightarrow> index_of s6 = index_of s"
  "bid_intent e a i v s = Inr s7 \<Longrightarrow> index_of s7 = index_of s"
  unfolding cancel_intent_core_def amend_intent_def expire_intent_def dispute_fill_def request_extension_def
    begin_fill_def bid_intent_def Let_def split_beta
  by (elim rbindE guardE condE case_optionE; auto simp: index_of_def helper_defs dest!: index_kept)+

lemma bonds_index:
  "register_solver_inner w e a t v s = Inr (s1, tr) \<Longrightarrow> index_of s1 = index_of s"
  "deregister_solver w e a s = Inr (s2, tr) \<Longrightarrow> index_of s2 = index_of s"
  "withdraw_bond_inner e a t v s = Inr (s3, tr) \<Longrightarrow> index_of s3 = index_of s"
  unfolding register_solver_inner_def deregister_solver_def withdraw_bond_inner_def Let_def split_beta
  by (elim rbindE guardE condE; auto dest!: index_kept; auto simp: index_of_def helper_defs dest!: pay_refunds_frame)+

lemma chain_index:
  "propose_chain_onboarding e c s = Inr s1 \<Longrightarrow> index_of s1 = index_of s"
  "execute_chain_onboarding w e n s = Inr s2 \<Longrightarrow> index_of s2 = index_of s"
  "execute_chain_offboarding w e n s = Inr s3 \<Longrightarrow> index_of s3 = index_of s"
  unfolding propose_chain_onboarding_def execute_chain_onboarding_def execute_chain_offboarding_def
    Let_def split_beta
  by (elim rbindE guardE; auto)+

lemma extras_index:
  "set_intent_retention e k s = Inr s4 \<Longrightarrow> index_of s4 = index_of s"
  "set_solver_routes e a cs ts s = Inr s5 \<Longrightarrow> index_of s5 = index_of s"
  "submit_outbound_intent w e u t v cn q r m dl s = Inr (s7, oid) \<Longrightarrow> index_of s7 = index_of s"
  "accept_outbound_intent w e a i v t s = Inr s8 \<Longrightarrow> index_of s8 = index_of s"
  unfolding set_intent_retention_def by_admin_def set_solver_routes_def
    submit_outbound_intent_def accept_outbound_intent_def Let_def
  by (elim rbindE guardE case_optionE; auto)+

lemma claim_index: "claim_backstop_compensation e i s = Inr (s', tr) \<Longrightarrow> index_of s' = index_of s"
  unfolding claim_backstop_compensation_def Let_def
  by (elim rbindE guardE, drule Inr_inject, elim Pair_inject, hypsubst) (simp (no_asm))

lemma admin_index: "admin_apply w e a s = Inr (s', tr) \<Longrightarrow> index_of s' = index_of s \<and> bk_intents (book s') = bk_intents (book s)"
  by (cases a; simp add: admin_defs split_beta Let_def;
      (elim exE conjE guardE rbindE)?; (auto; fail)?)

lemma submit_intent_index:
  assumes "submit_intent_inner w e u c q v d m dl rf s = Inr (s', i)"
  shows "keeps_index s s'"
proof -
  have "bk_user_pages (book s') = (bk_user_pages (book s))((u, nat0 (bk_user_count (book s) u) div USER_INTENT_BUCKET_SIZE) \<mapsto>
      slots (bk_user_pages (book s)) u (nat0 (bk_user_count (book s) u) div USER_INTENT_BUCKET_SIZE) @ [Some i]) \<and>
    bk_user_count (book s') = (bk_user_count (book s))(u \<mapsto> nat0 (bk_user_count (book s) u) + 1) \<and>
    bk_intents (book s) i = None \<and> (\<exists>r. bk_intents (book s') = (bk_intents (book s))(i \<mapsto> r) \<and> in_user r = u)"
    using assms unfolding submit_intent_inner_def Let_def
    by (elim rbindE guardE case_optionE; (simp; fail)?)
      (auto simp: helper_defs user_intents_append_def Let_def)
  then show ?thesis by (intro append_keeps [of s' s u i]) (auto simp: owners_def)
qed

lemma close_intent_index:
  assumes "close_intent e i s = Inr s'"
  shows "keeps_index s s'"
proof -
  have "\<exists>r. bk_intents (book s) i = Some r \<and> bk_intents (book s') = (bk_intents (book s))(i := None) \<and>
      bk_user_count (book s') = bk_user_count (book s) \<and>
      bk_user_pages (book s') = clear_in_buckets (in_user r) i
        [0 ..< sat_u32 (nat0 (bk_user_count (book s) (in_user r)) + (USER_INTENT_BUCKET_SIZE - 1)) div USER_INTENT_BUCKET_SIZE]
        (bk_user_pages (book s))"
    using assms unfolding close_intent_def Let_def
    by (elim rbindE guardE case_optionE) (auto simp: load_intent_def helper_defs dest!: book_kept)
  then obtain r where r: "bk_intents (book s) i = Some r" "bk_intents (book s') = (bk_intents (book s))(i := None)"
    "bk_user_count (book s') = bk_user_count (book s)"
    "bk_user_pages (book s') = clear_in_buckets (in_user r) i
        [0 ..< sat_u32 (nat0 (bk_user_count (book s) (in_user r)) + (USER_INTENT_BUCKET_SIZE - 1)) div USER_INTENT_BUCKET_SIZE]
        (bk_user_pages (book s))" by blast
  show ?thesis by (rule erase_keeps [OF r(4,3)]) (simp_all add: owners_def fun_eq_iff r(1,2))
qed

section \<open>Every transaction\<close>

lemma intent_index:
  "accept_intent_body w e a i b s = Inr s1 \<Longrightarrow> keeps_index s s1"
  "cancel_intent_core e a i s = Inr s2 \<Longrightarrow> keeps_index s s2"
  "amend_intent e a i v d s = Inr s3 \<Longrightarrow> keeps_index s s3"
  "expire_intent e i s = Inr s4 \<Longrightarrow> keeps_index s s4"
  "dispute_fill e a i s = Inr s5 \<Longrightarrow> keeps_index s s5"
  "request_extension w e a i s = Inr s6 \<Longrightarrow> keeps_index s s6"
  "fill_intent_inner w e a i v p s = Inr (s7, tr) \<Longrightarrow> keeps_index s s7"
  "slash_solver w e i s = Inr (s8, tr) \<Longrightarrow> keeps_index s s8"
  "begin_fill e a i v s = Inr (s9, tr) \<Longrightarrow> keeps_index s s9"
  "resolve_dispute e a i q s = Inr (s10, tr) \<Longrightarrow> keeps_index s s10"
  "release_fill e i s = Inr (s11, tr) \<Longrightarrow> keeps_index s s11"
  "settle_bids e i s = Inr s12 \<Longrightarrow> keeps_index s s12"
  by (rule moves_index; erule accept_intent_body_moves accept_intent_body_index cancel_intent_core_moves amend_intent_moves
        expire_intent_moves dispute_fill_moves request_extension_moves fill_intent_inner_moves fill_intent_inner_index
        slash_solver_moves slash_solver_index begin_fill_moves resolve_dispute_moves resolve_dispute_index
        release_fill_moves release_fill_index settle_bids_moves settle_bids_index order_index)+

lemma index_put [simp]:
  "keeps_index s (stamp_cancel_cooldown u n t) = keeps_index s t" "keeps_index s (upd_extra g t) = keeps_index s t"
  by (simp_all add: keeps_index_def index_ok_def logged_def owners_def helper_defs)

lemma each_index:
  assumes "\<And>x p p'. f x p = Inr p' \<Longrightarrow> keeps_index (g p) (g p')" "each f xs p = Inr p'"
  shows "keeps_index (g p) (g p')"
  using assms(2) by (induction xs arbitrary: p) (auto intro: keeps_index_trans dest: assms(1))

lemma batch_index:
  "cancel_intent e u i s = Inr s1 \<Longrightarrow> keeps_index s s1"
  "batch_cancel_intent e u ids s = Inr s2 \<Longrightarrow> keeps_index s s2"
  "batch_submit_intent w e u orders s = Inr (s3, js) \<Longrightarrow> keeps_index s s3"
  "batch_accept_intent w e u ids s = Inr s4 \<Longrightarrow> keeps_index s s4"
  "batch_fill_intent w e u fills s = Inr (s5, tr) \<Longrightarrow> keeps_index s s5"
proof -
  show "cancel_intent e u i s = Inr s1 \<Longrightarrow> keeps_index s s1"
    unfolding cancel_intent_def by (auto dest: intent_index(2))
  show "batch_cancel_intent e u ids s = Inr s2 \<Longrightarrow> keeps_index s s2"
    unfolding batch_cancel_intent_def
    by (elim rbindE guardE, drule each_index [where g = "\<lambda>s. s", rotated]) (auto dest: intent_index(2))
  show "batch_submit_intent w e u orders s = Inr (s3, js) \<Longrightarrow> keeps_index s s3"
    unfolding batch_submit_intent_def
    by (elim rbindE guardE, drule each_index [where g = fst, rotated]) (auto dest: submit_intent_index)
  show "batch_accept_intent w e u ids s = Inr s4 \<Longrightarrow> keeps_index s s4"
    unfolding batch_accept_intent_def accept_intent_inner_def
    by (elim rbindE guardE, drule each_index [where g = "\<lambda>s. s", rotated]) (auto intro: keeps_index_trans dest: intent_index(1))
  show "batch_fill_intent w e u fills s = Inr (s5, tr) \<Longrightarrow> keeps_index s s5"
    unfolding batch_fill_intent_def
    by (elim rbindE guardE, drule each_index [where g = fst, rotated]) (auto dest: intent_index(7))
qed

lemma quiet_index: "index_of s' = index_of s \<Longrightarrow> bk_intents (book s') = bk_intents (book s) \<Longrightarrow> keeps_index s s'"
  by (rule same_index) (simp_all add: owners_def fun_eq_iff)

lemma same_counts_index: "index_of s' = index_of s \<Longrightarrow> same_counts s s' \<Longrightarrow> keeps_index s s'"
  by (simp add: quiet_index same_counts_def)

lemma admin_keeps_index: "admin_apply w e a s = Inr (s', tr) \<Longrightarrow> keeps_index s s'"
  using admin_index by (auto intro: quiet_index)

lemma other_index:
  "register_solver_inner w e a t v s = Inr (s1, tr) \<Longrightarrow> keeps_index s s1"
  "deregister_solver w e a s = Inr (s2, tr) \<Longrightarrow> keeps_index s s2"
  "withdraw_bond_inner e a t v s = Inr (s3, tr) \<Longrightarrow> keeps_index s s3"
  "propose_chain_onboarding e c s = Inr s4 \<Longrightarrow> keeps_index s s4"
  "execute_chain_onboarding w e n s = Inr s5 \<Longrightarrow> keeps_index s s5"
  "execute_chain_offboarding w e n s = Inr s6 \<Longrightarrow> keeps_index s s6"
  "set_intent_retention e k s = Inr s7 \<Longrightarrow> keeps_index s s7"
  "set_solver_routes e a cs ts s = Inr s8 \<Longrightarrow> keeps_index s s8"
  "bid_intent e a i v s = Inr s9 \<Longrightarrow> keeps_index s s9"
  "submit_outbound_intent w e u t v cn q r m dl s = Inr (s10, oid) \<Longrightarrow> keeps_index s s10"
  "accept_outbound_intent w e a i v t s = Inr s11 \<Longrightarrow> keeps_index s s11"
  "claim_backstop_compensation e i s = Inr (s12, tr) \<Longrightarrow> keeps_index s s12"
  by (rule same_counts_index; (erule bonds_index bonds_same_counts chain_index extras_index order_index claim_index |
        (drule chain_books extras_books claim_books, simp)))+

lemma st_apply_index: "st_apply w e ev s = Inr (s', tr) \<Longrightarrow> keeps_index s s'"
  by (cases ev; simp add: register_solver_def register_solver_with_token_def withdraw_bond_def
      withdraw_bond_token_def submit_intent_def accept_intent_def accept_intent_with_bond_def accept_intent_inner_def
      fill_intent_def; (elim exE conjE)?;
    (erule admin_keeps_index other_index batch_index intent_index submit_intent_index close_intent_index))

lemma run_index: "index_ok u (st_run txs st_empty)"
proof (induction txs rule: rev_induct)
  case Nil
  have "logged st_empty u []"
    by (simp add: logged_def bucket_def owners_def st_empty_def no_book_def)
  then show ?case by (auto simp: index_ok_def)
next
  case (snoc tx txs)
  obtain e ev where tx: "tx = (e, ev)" by (cases tx)
  have "keeps_index s (st_step e ev s)" for s
    using st_apply_index [of "fst ev" e "snd ev" s] by (auto simp: st_step_def split: sum.splits)
  with snoc show ?case by (simp add: tx contract_run_append keeps_index_def)
qed

section \<open>The view\<close>

lemma page_read:
  assumes "\<forall>b. slots pages u b = bucket b xs" "k < length xs"
  shows "Option.bind (pages (u, k div USER_INTENT_BUCKET_SIZE)) (\<lambda>page.
      Option.bind (vec_get page (k mod USER_INTENT_BUCKET_SIZE)) (\<lambda>entry. entry)) = xs ! k"
proof -
  let ?b = "k div USER_INTENT_BUCKET_SIZE" and ?m = "k mod USER_INTENT_BUCKET_SIZE"
  have m: "?m < USER_INTENT_BUCKET_SIZE" "k = USER_INTENT_BUCKET_SIZE * ?b + ?m"
    by (simp_all add: USER_INTENT_BUCKET_SIZE_def)
  have len: "USER_INTENT_BUCKET_SIZE * ?b \<le> length xs" "?m < length xs - USER_INTENT_BUCKET_SIZE * ?b"
    using assms(2) m(2) by linarith+
  have b: "bucket ?b xs ! ?m = xs ! k" "?m < length (bucket ?b xs)"
    using m len by (simp_all add: bucket_def)
  from assms(1) have "slots pages u ?b = bucket ?b xs" ..
  with b show ?thesis by (cases "pages (u, ?b)") (auto simp: vec_get_def)
qed

lemma map_filter_congr: "(\<And>x. x \<in> set xs \<Longrightarrow> f x = g x) \<Longrightarrow> List.map_filter f xs = List.map_filter g xs"
  by (induction xs) (auto simp: List.map_filter_def)

lemma map_filter_nth:
  assumes "n \<le> length xs"
  shows "List.map_filter (\<lambda>k. xs ! k) [m ..< n] = live (take (n - m) (drop m xs))"
proof -
  have "List.map_filter (\<lambda>k. xs ! k) [m ..< n] = live (map (\<lambda>k. xs ! k) [m ..< n])"
    by (simp add: List.map_filter_def live_def filter_map comp_def)
  also have "map (\<lambda>k. xs ! k) [m ..< n] = take (n - m) (drop m xs)"
    using assms by (intro nth_equalityI) auto
  finally show ?thesis .
qed

lemma list_view:
  assumes "logged s u xs" "length xs \<le> u32_max"
  shows "list_intents_by_user s u start limit = live (take (min limit MAX_PAGE_SIZE) (drop start xs))"
proof (cases "start \<ge> length xs \<or> min limit MAX_PAGE_SIZE = 0")
  case True
  then show ?thesis using assms(1) by (auto simp: list_intents_by_user_def logged_def Let_def)
next
  case False
  let ?stop = "min (sat_u32 (start + min limit MAX_PAGE_SIZE)) (length xs)"
  have "List.map_filter (\<lambda>k. Option.bind (bk_user_pages (book s) (u, k div USER_INTENT_BUCKET_SIZE)) (\<lambda>page.
      Option.bind (vec_get page (k mod USER_INTENT_BUCKET_SIZE)) (\<lambda>entry. entry))) [start ..< ?stop] =
    List.map_filter (\<lambda>k. xs ! k) [start ..< ?stop]"
    using assms(1) by (intro map_filter_congr) (auto simp: logged_def page_read)
  also have "\<dots> = live (take (?stop - start) (drop start xs))" by (rule map_filter_nth) simp
  also have "take (?stop - start) (drop start xs) = take (min limit MAX_PAGE_SIZE) (drop start xs)"
    using False assms(2) by (auto simp: sat_u32_def min_def)
  finally show ?thesis using False assms(1) by (simp add: list_intents_by_user_def logged_def Let_def)
qed

section \<open>Pruning a known slot\<close>

text \<open>Emptying the slot at a known index, against the scan that closing makes.\<close>

definition user_intents_prune :: "address \<Rightarrow> bytes32 \<Rightarrow> nat \<Rightarrow> (address \<times> nat \<Rightarrow> bytes32 option list option)
    \<Rightarrow> address \<times> nat \<Rightarrow> bytes32 option list option" where
  "user_intents_prune user intent_id flat_idx pages =
     (let bucket = flat_idx div USER_INTENT_BUCKET_SIZE;
          slot = flat_idx mod USER_INTENT_BUCKET_SIZE
      in case pages (user, bucket) of
           None \<Rightarrow> pages
         | Some page \<Rightarrow>
             if (case vec_get page slot of None \<Rightarrow> None | Some entry \<Rightarrow> entry) = Some intent_id
             then pages((user, bucket) \<mapsto> page[slot := None])
             else pages)"

lemma erased_nth:
  assumes "distinct (live xs)" "k < length xs" "xs ! k = Some i"
  shows "erased i xs = xs[k := None]"
proof (rule nth_equalityI)
  fix j
  assume j: "j < length (erased i xs)"
  show "erased i xs ! j = xs[k := None] ! j"
  proof (cases "j = k")
    case False
    have "xs ! j \<noteq> Some i"
    proof
      assume "xs ! j = Some i"
      then have twice: "Some i \<in> set (take (max j k) xs)" "Some i \<in> set (drop (max j k) xs)"
        using False j assms(2,3) by (auto simp: in_set_conv_nth max_def intro: exI [of _ j] exI [of _ k] exI [of _ 0])
      have "distinct (live (take (max j k) xs) @ live (drop (max j k) xs))"
        using assms(1) by (metis append_take_drop_id live_simps(4))
      with twice show False by (auto simp flip: set_live)
    qed
    with j False show ?thesis by (simp add: erased_def)
  qed (use assms(2,3) in \<open>simp add: erased_def\<close>)
qed simp

lemma bucket_update:
  assumes "k < length xs"
  shows "(bucket (k div USER_INTENT_BUCKET_SIZE) xs)[k mod USER_INTENT_BUCKET_SIZE := x] =
    bucket (k div USER_INTENT_BUCKET_SIZE) (xs[k := x])"
proof -
  have "drop (USER_INTENT_BUCKET_SIZE * (k div USER_INTENT_BUCKET_SIZE)) (xs[k := x]) =
      (drop (USER_INTENT_BUCKET_SIZE * (k div USER_INTENT_BUCKET_SIZE)) xs)[k mod USER_INTENT_BUCKET_SIZE := x]"
    by (simp add: drop_update_swap minus_mult_div_eq_mod)
  then show ?thesis by (simp add: bucket_def take_update_swap)
qed

section \<open>Property\<close>

text \<open>
  C31: The paged list of a user's intents refines one list of slots: in every reachable state
  in which the user has made at most 4294967232 submissions, every call of
  \<open>list_intents_by_user\<close> returns the live entries of a slice of it, and its live
  entries are exactly the user's stored intents, each once.
\<close>

theorem user_directory_exact:
  assumes "nat0 (bk_user_count (book (st_run txs st_empty)) u) \<le> 4294967232"
  shows "let s = st_run txs st_empty
         in \<exists>xs. length xs = nat0 (bk_user_count (book s) u) \<and>
              (\<forall>start limit. list_intents_by_user s u start limit = live (take (min limit MAX_PAGE_SIZE) (drop start xs))) \<and>
              distinct (live xs) \<and> set (live xs) = {i. \<exists>r. bk_intents (book s) i = Some r \<and> in_user r = u}"
proof -
  let ?s = "st_run txs st_empty"
  obtain xs where xs: "logged ?s u xs"
    using run_index [of u txs] assms by (auto simp: index_ok_def INDEX_LIMIT_def)
  then have "length xs \<le> u32_max" using assms by (simp add: logged_def u32_max_def)
  from list_view [OF xs this] have
    "\<forall>start limit. list_intents_by_user ?s u start limit = live (take (min limit MAX_PAGE_SIZE) (drop start xs))" by simp
  moreover have "set (live xs) = {i. \<exists>r. bk_intents (book ?s) i = Some r \<and> in_user r = u}"
    using xs by (auto simp: logged_def owners_def)
  ultimately show ?thesis using xs unfolding Let_def by (intro exI [of _ xs]) (simp add: logged_def)
qed

theorem user_directory_exact_witness:
  "\<exists>xs. length xs = 1 \<and> set (live xs) = {9} \<and> list_intents_by_user (st_run (take 3 demo_run) st_empty) 7 0 100 = live xs"
proof -
  let ?s = "st_run (take 3 demo_run) st_empty"
  have count: "nat0 (bk_user_count (book ?s) 7) = 1" and ids: "{i. \<exists>r. bk_intents (book ?s) i = Some r \<and> in_user r = 7} = {9}"
    by (simp_all add: eval_run)
  then have "nat0 (bk_user_count (book ?s) 7) \<le> 4294967232" by simp
  from user_directory_exact [OF this] obtain xs where xs: "length xs = 1" "set (live xs) = {9}"
    "list_intents_by_user ?s 7 0 100 = live (take (min 100 MAX_PAGE_SIZE) xs)"
    unfolding Let_def count ids by (metis drop0)
  then show ?thesis by (intro exI [of _ xs]) (simp add: MAX_PAGE_SIZE_def)
qed

text \<open>
  When the index of the slot is known, pruning it leaves the user's list as the scan of a
  close does: the same pages, for every bucket.
\<close>

theorem prune_is_scan:
  assumes "logged s u xs" "k < length xs" "xs ! k = Some i" "length xs \<le> 4294967232"
  shows "slots (user_intents_prune u i k (bk_user_pages (book s))) u b =
    slots (clear_in_buckets u i [0 ..< sat_u32 (length xs + (USER_INTENT_BUCKET_SIZE - 1)) div USER_INTENT_BUCKET_SIZE]
      (bk_user_pages (book s))) u b"
proof -
  let ?p = "bk_user_pages (book s)" and ?c = "k div USER_INTENT_BUCKET_SIZE" and ?m = "k mod USER_INTENT_BUCKET_SIZE"
  have d: "distinct (live xs)" and pages: "\<And>b. slots ?p u b = bucket b xs" using assms(1) by (auto simp: logged_def)
  have read: "Option.bind (?p (u, ?c)) (\<lambda>page. Option.bind (vec_get page ?m) (\<lambda>entry. entry)) = Some i"
    using page_read [of ?p u xs k] pages assms(2,3) by simp
  then obtain page where page: "?p (u, ?c) = Some page" "vec_get page ?m = Some (Some i)"
    by (auto simp: bind_eq_Some_conv)
  have "page = bucket ?c xs" using pages [of ?c] page(1) by simp
  then have upd: "page[?m := None] = bucket ?c (erased i xs)"
    by (simp add: bucket_update assms(2) erased_nth [OF d assms(2,3)])
  have other: "bucket b xs = bucket b (erased i xs)" if "b \<noteq> ?c"
  proof -
    have "Some i \<in> set (bucket ?c xs)"
      using page(2) \<open>page = bucket ?c xs\<close> by (auto simp: vec_get_def in_set_conv_nth split: if_splits)
    then have "Some i \<notin> set (bucket b xs)" using bucket_unique [OF d, of i b ?c] that by auto
    then show ?thesis by (simp add: bucket_erased erased_id)
  qed
  have "user_intents_prune u i k ?p = ?p((u, ?c) \<mapsto> page[?m := None])"
    unfolding user_intents_prune_def Let_def page option.case by (simp only: refl if_True)
  then have "slots (user_intents_prune u i k ?p) u b = bucket b (erased i xs)"
    using upd other pages by (cases "b = ?c") simp_all
  moreover have "slots (clear_in_buckets u i [0 ..< sat_u32 (length xs + (USER_INTENT_BUCKET_SIZE - 1)) div
      USER_INTENT_BUCKET_SIZE] ?p) u b = bucket b (erased i xs)"
    by (rule clear_in_buckets_erased [OF d pages scan_reaches [OF _ assms(4)]])
  ultimately show ?thesis by simp
qed

end
