(* ===== verification/Settlement_Offers.thy ===== *)
theory Settlement_Offers
  imports Settlement_Money
begin

text \<open>
  Pricing, exclusivity and deposits of an intent, and two further readings of a source chain's
  name: helpers and views of the settlement contract beside its life cycle. The price of a
  Dutch auction and the numbering of chains are written twice in the sources; the two versions
  are compared here. An amendment is the one way to change an order's price.
\<close>

section \<open>The auction\<close>

text \<open>The fields of an intent that only these helpers read.\<close>

record OfferRecord = IntentRecord +
  in_exclusive_solver :: "address option"
  in_exclusivity_deadline :: "nat option"
  in_start_dst :: "int option"
  in_decay_start :: "nat option"
  in_decay_end :: "nat option"

definition current_min_dst :: "env \<Rightarrow> (bytes32 \<Rightarrow> OfferRecord option) \<Rightarrow> bytes32 \<Rightarrow> int st" where
  "current_min_dst e offers intent_id =
     rbind (need IntentNotFound (offers intent_id)) (\<lambda>intent.
       case (in_start_dst intent, in_decay_start intent, in_decay_end intent) of
         (Some start, Some decay_start, Some decay_end) \<Rightarrow>
           if now e \<ge> decay_end then Inr (in_min_dst intent)
           else if now e \<le> decay_start then Inr start
           else
             let elapsed = now e - decay_start; total_duration = decay_end - decay_start
             in rbind (i128 (start - in_min_dst intent)) (\<lambda>decay_amount.
                rbind (i128 (decay_amount * int elapsed)) (\<lambda>p.
                  i128 (start - p sdiv int total_duration)))
       | _ \<Rightarrow> Inr (in_min_dst intent))"

definition check_exclusivity :: "env \<Rightarrow> OfferRecord \<Rightarrow> address \<Rightarrow> bool" where
  "check_exclusivity e intent solver =
     (case (in_exclusive_solver intent, in_exclusivity_deadline intent) of
        (Some exclusive_solver, Some exclusivity_deadline) \<Rightarrow>
          \<not> (now e < exclusivity_deadline \<and> exclusive_solver \<noteq> solver)
      | _ \<Rightarrow> True)"

section \<open>The deposit\<close>

text \<open>The deposit that the configuration asks for, and the table of the recorded ones.\<close>

definition collect_deposit :: "env \<Rightarrow> address \<Rightarrow> address option \<Rightarrow> int \<Rightarrow> xfer list st" where
  "collect_deposit e user submission_deposit_token submission_deposit_amount =
     (case submission_deposit_token of
        None \<Rightarrow> Inr []
      | Some token \<Rightarrow>
          if submission_deposit_amount > 0
          then transfer e token user (self e) submission_deposit_amount []
          else Inr [])"

type_synonym deposits = "bytes32 \<Rightarrow> (address \<times> int \<times> address) option"

definition refund_deposit :: "env \<Rightarrow> bytes32 \<Rightarrow> address \<Rightarrow> deposits \<Rightarrow> (deposits \<times> xfer list) st" where
  "refund_deposit e intent_id user ds =
     (case ds intent_id of
        None \<Rightarrow> Inr (ds, [])
      | Some (_, amount, token) \<Rightarrow>
          rbind (transfer e token (self e) user amount []) (\<lambda>tr. Inr (ds(intent_id := None), tr)))"

section \<open>Signed orders and chain names\<close>

text \<open>Whether the host accepts the signature is a parameter; it traps when it does not.\<close>

definition submit_intent_signed :: "(bytes32 \<Rightarrow> byte list \<Rightarrow> byte list \<Rightarrow> bool) \<Rightarrow> byte list \<Rightarrow> bytes32 \<Rightarrow> byte list
    \<Rightarrow> settlement \<Rightarrow> bytes32 st" where
  "submit_intent_signed ed25519_verify payload public_key signature s =
     rbind (require_not_paused s) (\<lambda>_.
       if \<not> ed25519_verify public_key payload signature then Inl HostTrap else Inr 0)"

text \<open>The comparison of a name with a literal, character by character.\<close>

function chain_from :: "string \<Rightarrow> string \<Rightarrow> nat \<Rightarrow> bool" where
  "chain_from src_chain literal i =
     (if i < length src_chain then
        (if src_chain ! i \<noteq> literal ! i then False else chain_from src_chain literal (i + 1))
      else True)"
  by pat_completeness auto
termination by (relation "measure (\<lambda>(src_chain, literal, i). length src_chain - i)") auto

declare chain_from.simps [simp del]

definition chain_is :: "string \<Rightarrow> string \<Rightarrow> bool" where
  "chain_is src_chain literal =
     (if length src_chain \<noteq> length literal then False else chain_from src_chain literal 0)"

definition src_chain_to_wormhole_id :: "string \<Rightarrow> nat st" where
  "src_chain_to_wormhole_id src_chain =
     (if chain_is src_chain ''ethereum'' then Inr 2
      else if chain_is src_chain ''base'' then Inr 30
      else if chain_is src_chain ''polygon'' then Inr 5
      else if chain_is src_chain ''arbitrum'' then Inr 23
      else if chain_is src_chain ''optimism'' then Inr 24
      else if chain_is src_chain ''avalanche'' then Inr 6
      else if chain_is src_chain ''bsc'' then Inr 4
      else if chain_is src_chain ''solana'' then Inr 1
      else Inl (Error SrcChainNotSupported))"

section \<open>The two versions agree\<close>

lemma chain_from_eq:
  "length src_chain = length literal \<Longrightarrow> chain_from src_chain literal i \<longleftrightarrow> drop i src_chain = drop i literal"
proof (induction src_chain literal i rule: chain_from.induct)
  case (1 src_chain literal i)
  show ?case
  proof (cases "i < length src_chain")
    case True
    then have "drop i src_chain = src_chain ! i # drop (i + 1) src_chain" "drop i literal = literal ! i # drop (i + 1) literal"
      using 1(2) by (simp_all add: Cons_nth_drop_Suc)
    with 1 True show ?thesis by (subst chain_from.simps) simp
  next
    case False
    with 1(2) show ?thesis by (subst chain_from.simps) simp
  qed
qed

lemma chain_is_eq: "chain_is src_chain literal \<longleftrightarrow> src_chain = literal"
  by (auto simp: chain_is_def chain_from_eq)

text \<open>
  The view that numbers a source chain, which compares the name with each supported one
  character by character, and the table that the proof check uses give the same number or fail
  alike, for every name.
\<close>

theorem chain_numbers_agree: "src_chain_to_wormhole_id src_chain = wormhole_chain_id src_chain"
proof (cases "src_chain \<in> {''solana'', ''ethereum'', ''bsc'', ''polygon'', ''avalanche'', ''arbitrum'', ''optimism'', ''base''}")
  case True
  then show ?thesis by (auto simp: src_chain_to_wormhole_id_def wormhole_chain_id_def chain_is_eq)
next
  case False
  then show ?thesis by (simp add: src_chain_to_wormhole_id_def wormhole_chain_id_def chain_is_eq)
qed

text \<open>
  The view that prices an auction and the routine of the math module agree on every intent
  that is no auction or whose decay has a duration and starts at the minimum or above.
\<close>

theorem auction_views_agree:
  assumes "offers i = Some r"
    and "\<And>p a b. in_start_dst r = Some p \<Longrightarrow> in_decay_start r = Some a \<Longrightarrow> in_decay_end r = Some b \<Longrightarrow>
      in_min_dst r \<le> p \<and> a < b"
  shows "current_min_dst e offers i =
    dutch_decay (now e) (in_start_dst r) (in_min_dst r) (in_decay_start r) (in_decay_end r)"
  using assms by (auto simp: current_min_dst_def dutch_decay_def need_def Let_def split: option.splits)

text \<open>
  With a start below the minimum the view quotes less than the minimum before the decay begins,
  where the routine of the math module keeps to the minimum.
\<close>

definition demo_offer :: OfferRecord where
  "demo_offer = IntentRecord.extend
     \<lparr>in_id = 9, in_user = 7, in_src_chain = ''stellar'', in_src_token = ''x'', in_src_amount = 100, in_dst_token = 4,
      in_min_dst = 50, in_solver = None, in_state = Open, in_created_at = 0, in_deadline = 3600, in_filled_at = None,
      in_fill_amount = None, in_total_filled = 0, in_bond_token = 3, in_dispute_deadline = None,
      in_dispute_raised_at = None, in_resolution = None, in_solver_tier = 0, in_referrer = None,
      in_slash_cycles = 0, in_terminal_at = None\<rparr>
     \<lparr>in_exclusive_solver = None, in_exclusivity_deadline = None, in_start_dst = Some 10, in_decay_start = Some 100,
      in_decay_end = Some 200\<rparr>"

theorem auction_quotes_below_minimum:
  "current_min_dst (plain_env 50) [9 \<mapsto> demo_offer] 9 = Inr 10 \<and>
   dutch_decay 50 (in_start_dst demo_offer) (in_min_dst demo_offer) (in_decay_start demo_offer) (in_decay_end demo_offer) =
     (Inr 50 :: int st)"
  by (simp add: current_min_dst_def demo_offer_def dutch_decay_def need_def IntentRecord.defs)

text \<open>A deposit that is on the books is paid out once and to the user.\<close>

theorem deposit_refunded_once:
  assumes "ds i = Some (a, v, t)" "refund_deposit e i u ds = Inr (ds', tr)"
  shows "tr = [sends t (self e) u v] \<and> refund_deposit e' i u' ds' = Inr (ds', [])"
  using assms by (auto simp: refund_deposit_def transfer_eq_Inr)

text \<open>During an exclusive period only the chosen solver passes, afterwards everybody does.\<close>

theorem exclusivity_ends:
  assumes "in_exclusive_solver r = Some x" "in_exclusivity_deadline r = Some d"
  shows "check_exclusivity e r a \<longleftrightarrow> d \<le> now e \<or> a = x"
  using assms by (auto simp: check_exclusivity_def)

section \<open>Amendments\<close>

text \<open>
  An amendment of an open order is accepted with any new minimum, negative or beyond the
  largest amount a submission may have, and without asking the policy.
\<close>

theorem amendment_unchecked:
  assumes "bk_intents (book s) i = Some r" "in_state r = Open" "authed e (in_user r)"
    and "bk_amend_cooldown (book s) (in_user r) = None"
    and "now e < d" "d \<le> now e + cf_intent_expiry (load_config s)" "now e + cf_intent_expiry (load_config s) \<le> u64_max"
  shows "\<exists>s' r'. amend_intent e (in_user r) i v d s = Inr s' \<and> bk_intents (book s') i = Some r' \<and>
    in_state r' = Open \<and> in_min_dst r' = v"
  using assms by (simp add: amend_intent_def check_amendment_cooldown_def load_intent_def stamp_amendment_cooldown_def save_intent_def)

theorem amendment_unchecked_witness:
  "\<exists>s' r'. amend_intent (plain_env 1000) 7 9 (- 5) 1200 (st_run (take 3 demo_run) st_empty) = Inr s' \<and>
     bk_intents (book s') 9 = Some r' \<and> in_state r' = Open \<and> in_min_dst r' = - 5"
proof -
  let ?s = "st_run (take 3 demo_run) st_empty"
  obtain r where r: "bk_intents (book ?s) 9 = Some r" "in_state r = Open" "in_user r = 7"
    by (simp add: eval_run)
  have "bk_amend_cooldown (book ?s) 7 = None" "cf_intent_expiry (load_config ?s) = 1800"
    by (simp_all add: eval_run)
  with amendment_unchecked [OF r(1,2), of "plain_env 1000" 1200 "- 5"] r(3) show ?thesis
    by (simp add: u64_max_def)
qed

end
