(* ===== verification/Reputation_Badge.thy ===== *)
theory Reputation_Badge
  imports Timelocked_Slot
begin

text \<open>
  The soulbound tier badges of \<open>reputation_badge/src/lib.rs\<close>: minted and burned by the admin or
  the solver registry, and never moved. Time-to-live extensions and events are not modelled.
\<close>

datatype Tier = Bronze | Silver | Gold | Platinum

datatype RbError = AlreadyInitialized | Unauthorized | NotInitialized | BadgeNotFound

record badges =
  rb_admin :: "address option"
  rb_registry :: "address option"
  rb_badge :: "address \<Rightarrow> Tier option"

definition rb_require_admin :: "env \<Rightarrow> badges \<Rightarrow> (RbError, unit) res" where
  "rb_require_admin e s = rbind (need NotInitialized (rb_admin s)) (require_auth e)"

definition require_admin_or_registry :: "env \<Rightarrow> address \<Rightarrow> badges \<Rightarrow> (RbError, unit) res" where
  "require_admin_or_registry e caller s =
     rbind (need NotInitialized (rb_admin s)) (\<lambda>admin.
       if caller \<noteq> admin \<and> rb_registry s \<noteq> Some caller then Inl (Error Unauthorized)
       else require_auth e caller)"

definition rb_initialize :: "env \<Rightarrow> address \<Rightarrow> address option \<Rightarrow> badges \<Rightarrow> (RbError, badges) res" where
  "rb_initialize e admin solver_registry s =
     (if rb_admin s \<noteq> None then Inl (Error AlreadyInitialized)
      else rbind (require_auth e admin) (\<lambda>_.
        let s1 = s\<lparr>rb_admin := Some admin\<rparr>
        in Inr (case solver_registry of None \<Rightarrow> s1 | Some r \<Rightarrow> s1\<lparr>rb_registry := Some r\<rparr>)))"

definition rb_set_solver_registry :: "env \<Rightarrow> address \<Rightarrow> badges \<Rightarrow> (RbError, badges) res" where
  "rb_set_solver_registry e solver_registry s =
     rbind (rb_require_admin e s) (\<lambda>_. Inr (s\<lparr>rb_registry := Some solver_registry\<rparr>))"

definition rb_get_solver_registry :: "badges \<Rightarrow> address option" where
  "rb_get_solver_registry s = rb_registry s"

definition mint_badge :: "env \<Rightarrow> address \<Rightarrow> address \<Rightarrow> Tier \<Rightarrow> badges \<Rightarrow> (RbError, badges) res" where
  "mint_badge e caller solver tier s =
     rbind (require_admin_or_registry e caller s) (\<lambda>_. Inr (s\<lparr>rb_badge := (rb_badge s)(solver \<mapsto> tier)\<rparr>))"

definition burn_badge :: "env \<Rightarrow> address \<Rightarrow> address \<Rightarrow> badges \<Rightarrow> (RbError, badges) res" where
  "burn_badge e caller solver s =
     rbind (require_admin_or_registry e caller s) (\<lambda>_.
       if rb_badge s solver = None then Inl (Error BadgeNotFound)
       else Inr (s\<lparr>rb_badge := (rb_badge s)(solver := None)\<rparr>))"

definition get_badge :: "badges \<Rightarrow> address \<Rightarrow> Tier option" where
  "get_badge s solver = rb_badge s solver"

datatype rb_event =
    RbInitialize address "address option" | RbSetRegistry address
  | Mint address address Tier | Burn address address

fun rb_handle :: "env \<Rightarrow> rb_event \<Rightarrow> badges \<Rightarrow> (RbError, badges) res" where
  "rb_handle e (RbInitialize a r) s = rb_initialize e a r s"
| "rb_handle e (RbSetRegistry r) s = rb_set_solver_registry e r s"
| "rb_handle e (Mint c a t) s = mint_badge e c a t s"
| "rb_handle e (Burn c a) s = burn_badge e c a s"

definition rb_step :: "env \<Rightarrow> rb_event \<Rightarrow> badges \<Rightarrow> badges" where
  "rb_step e ev s = commit s (rb_handle e ev s)"

definition rb_empty :: badges where
  "rb_empty = \<lparr>rb_admin = None, rb_registry = None, rb_badge = Map.empty\<rparr>"

text \<open>
  A badge changes only in a transaction signed by the admin or the registry, which becomes what
  the call names; no other badge changes with it.
\<close>

definition signed_by_issuer :: "env \<Rightarrow> badges \<Rightarrow> bool" where
  "signed_by_issuer e s \<longleftrightarrow> (\<exists>c. authed e c \<and> (rb_admin s = Some c \<or> rb_registry s = Some c))"

lemma issuer_Inr: "require_admin_or_registry e c s = Inr u \<Longrightarrow> signed_by_issuer e s"
  by (auto simp: require_admin_or_registry_def signed_by_issuer_def split: if_splits elim!: rbindE)

text \<open>
  A badge changes only in a transaction signed by the admin or the registry, which mints or
  burns that badge and touches no other.
\<close>

theorem badge_only_from_issuer:
  assumes "get_badge (rb_step e ev s) a \<noteq> get_badge s a"
  shows "signed_by_issuer e s \<and> (\<forall>b. b \<noteq> a \<longrightarrow> get_badge (rb_step e ev s) b = get_badge s b) \<and>
    ((\<exists>c t. ev = Mint c a t \<and> get_badge (rb_step e ev s) a = Some t) \<or>
     (\<exists>c. ev = Burn c a \<and> get_badge (rb_step e ev s) a = None))"
proof (cases "rb_handle e ev s")
  case (Inr s')
  then show ?thesis
    using assms
    by (cases ev) (auto simp: rb_step_def get_badge_def rb_initialize_def rb_set_solver_registry_def mint_badge_def
        burn_badge_def Let_def dest: issuer_Inr split: if_splits option.splits elim!: rbindE)
qed (use assms in \<open>simp add: rb_step_def\<close>)

theorem badge_only_from_issuer_witness:
  "signed_by_issuer (plain_env 2) (rb_step (plain_env 1) (RbInitialize 1 (Some 9)) rb_empty) \<and>
   get_badge (rb_step (plain_env 2) (Mint 9 7 Gold) (rb_step (plain_env 1) (RbInitialize 1 (Some 9)) rb_empty)) 7 = Some Gold"
proof -
  let ?s = "rb_step (plain_env 1) (RbInitialize 1 (Some 9)) rb_empty"
  have run: "get_badge ?s 7 = None" "get_badge (rb_step (plain_env 2) (Mint 9 7 Gold) ?s) 7 = Some Gold"
    by (simp_all add: rb_step_def rb_initialize_def mint_badge_def require_admin_or_registry_def need_def require_auth_def
        get_badge_def rb_empty_def)
  with badge_only_from_issuer [of "plain_env 2" "Mint 9 7 Gold" ?s 7] show ?thesis by simp
qed

end
