(* ===== verification/Intent_Periphery.thy ===== *)
theory Intent_Periphery
  imports Timelocked_Slot
begin

text \<open>
  The view contract of \<open>intent_periphery/src/lib.rs\<close>: it keeps the address of the settlement
  contract, installed by the admin in two steps after a version handshake, and forwards views to
  it. The contracts it calls are a parameter: what a call of a function with some arguments returns
  at that moment, \<open>None\<close> when it traps. A symbol is a string.
\<close>

section \<open>Data\<close>

definition INTERFACE_VERSION :: nat where "INTERFACE_VERSION = 1"
definition SNAPSHOT_KEY_STATS :: string where "SNAPSHOT_KEY_STATS = ''stats''"
definition SNAPSHOT_KEY_PROTOCOL_HEALTH :: string where "SNAPSHOT_KEY_PROTOCOL_HEALTH = ''protocol_health''"

datatype IpError =
    AlreadyInitialized | NotInitialized | Unauthorized | InterfaceVersionMismatch | NoPendingSettlement

record periphery =
  ip_admin :: "address option"
  ip_settlement :: "address option"
  ip_pending :: "address option"

text \<open>An argument of a call: the three kinds the proxies convert, or a raw value.\<close>

datatype 'v view_arg = U32 nat | AddressVal address | BytesVal bytes32 | Raw 'v

record 'v view_callees =
  invoke :: "address \<Rightarrow> string \<Rightarrow> 'v view_arg list \<Rightarrow> 'v option"
  as_u32 :: "'v \<Rightarrow> nat option"

definition invoke_contract :: "'v view_callees \<Rightarrow> address \<Rightarrow> string \<Rightarrow> 'v view_arg list \<Rightarrow> (IpError, 'v) res" where
  "invoke_contract w a f xs = (case invoke w a f xs of None \<Rightarrow> Inl HostTrap | Some v \<Rightarrow> Inr v)"

section \<open>The settlement pointer\<close>

definition verify_interface_version :: "'v view_callees \<Rightarrow> address \<Rightarrow> (IpError, unit) res" where
  "verify_interface_version w settlement =
     rbind (invoke_contract w settlement ''get_interface_version'' []) (\<lambda>v.
       case as_u32 w v of
         None \<Rightarrow> Inl HostTrap
       | Some version \<Rightarrow>
           if version \<noteq> INTERFACE_VERSION then Inl (Error InterfaceVersionMismatch) else Inr ())"

definition load_settlement :: "periphery \<Rightarrow> (IpError, address) res" where
  "load_settlement s = need NotInitialized (ip_settlement s)"

definition ip_initialize :: "'v view_callees \<Rightarrow> env \<Rightarrow> address \<Rightarrow> address \<Rightarrow> periphery \<Rightarrow> (IpError, periphery) res" where
  "ip_initialize w e admin settlement s =
     (if ip_admin s \<noteq> None then Inl (Error AlreadyInitialized)
      else
        rbind (require_auth e admin) (\<lambda>_.
        rbind (verify_interface_version w settlement) (\<lambda>_.
          Inr (s\<lparr>ip_admin := Some admin, ip_settlement := Some settlement\<rparr>))))"

definition propose_settlement :: "'v view_callees \<Rightarrow> env \<Rightarrow> address \<Rightarrow> periphery \<Rightarrow> (IpError, periphery) res" where
  "propose_settlement w e settlement s =
     rbind (need NotInitialized (ip_admin s)) (\<lambda>admin.
     rbind (require_auth e admin) (\<lambda>_.
     rbind (verify_interface_version w settlement) (\<lambda>_. Inr (s\<lparr>ip_pending := Some settlement\<rparr>))))"

definition accept_settlement :: "env \<Rightarrow> periphery \<Rightarrow> (IpError, periphery) res" where
  "accept_settlement e s =
     rbind (need NotInitialized (ip_admin s)) (\<lambda>admin.
     rbind (require_auth e admin) (\<lambda>_.
     rbind (need NoPendingSettlement (ip_pending s)) (\<lambda>settlement.
       Inr (s\<lparr>ip_settlement := Some settlement, ip_pending := None\<rparr>))))"

definition get_settlement :: "periphery \<Rightarrow> address option" where
  "get_settlement s = ip_settlement s"

definition get_pending_settlement :: "periphery \<Rightarrow> address option" where
  "get_pending_settlement s = ip_pending s"

definition ip_get_interface_version :: nat where
  "ip_get_interface_version = INTERFACE_VERSION"

section \<open>Views\<close>

definition get_stats :: "'v view_callees \<Rightarrow> periphery \<Rightarrow> (IpError, 'v) res" where
  "get_stats w s = rbind (load_settlement s) (\<lambda>a. invoke_contract w a ''get_stats'' [])"

definition ip_list_solvers :: "'v view_callees \<Rightarrow> nat \<Rightarrow> nat \<Rightarrow> periphery \<Rightarrow> (IpError, 'v) res" where
  "ip_list_solvers w start limit s =
     rbind (load_settlement s) (\<lambda>a. invoke_contract w a ''list_solvers'' [U32 start, U32 limit])"

definition list_open_intents :: "'v view_callees \<Rightarrow> nat \<Rightarrow> nat \<Rightarrow> periphery \<Rightarrow> (IpError, 'v) res" where
  "list_open_intents w start limit s =
     rbind (load_settlement s) (\<lambda>a. invoke_contract w a ''list_open_intents'' [U32 start, U32 limit])"

definition ip_list_intents_by_user :: "'v view_callees \<Rightarrow> address \<Rightarrow> nat \<Rightarrow> nat \<Rightarrow> periphery \<Rightarrow> (IpError, 'v) res" where
  "ip_list_intents_by_user w user start limit s =
     rbind (load_settlement s) (\<lambda>a.
       invoke_contract w a ''list_intents_by_user'' [AddressVal user, U32 start, U32 limit])"

definition get_fee_schedule :: "'v view_callees \<Rightarrow> address \<Rightarrow> periphery \<Rightarrow> (IpError, 'v) res" where
  "get_fee_schedule w solver s =
     rbind (load_settlement s) (\<lambda>a. invoke_contract w a ''get_fee_schedule'' [AddressVal solver])"

definition get_solver :: "'v view_callees \<Rightarrow> address \<Rightarrow> periphery \<Rightarrow> (IpError, 'v) res" where
  "get_solver w solver s =
     rbind (load_settlement s) (\<lambda>a. invoke_contract w a ''get_solver'' [AddressVal solver])"

definition get_intent :: "'v view_callees \<Rightarrow> bytes32 \<Rightarrow> periphery \<Rightarrow> (IpError, 'v) res" where
  "get_intent w intent_id s =
     rbind (load_settlement s) (\<lambda>a. invoke_contract w a ''get_intent'' [BytesVal intent_id])"

definition get_protocol_health :: "'v view_callees \<Rightarrow> periphery \<Rightarrow> (IpError, 'v) res" where
  "get_protocol_health w s =
     rbind (load_settlement s) (\<lambda>a. invoke_contract w a ''get_protocol_health'' [])"

text \<open>Two views of one settlement in one call; the first one to trap aborts the call.\<close>

definition both_views :: "'v view_callees \<Rightarrow> string \<Rightarrow> 'v view_arg list \<Rightarrow> string \<Rightarrow> 'v view_arg list \<Rightarrow> periphery
    \<Rightarrow> (IpError, 'v \<times> 'v) res" where
  "both_views w f1 xs1 f2 xs2 s =
     rbind (load_settlement s) (\<lambda>a.
     rbind (invoke_contract w a f1 xs1) (\<lambda>r1.
     rbind (invoke_contract w a f2 xs2) (\<lambda>r2. Inr (r1, r2))))"

definition get_dashboard_snapshot :: "'v view_callees \<Rightarrow> periphery \<Rightarrow> (IpError, string \<Rightarrow> 'v option) res" where
  "get_dashboard_snapshot w s =
     rbind (load_settlement s) (\<lambda>a.
     rbind (invoke_contract w a ''get_stats'' []) (\<lambda>stats.
     rbind (invoke_contract w a ''get_protocol_health'' []) (\<lambda>protocol_health.
       Inr (Map.empty(SNAPSHOT_KEY_STATS \<mapsto> stats, SNAPSHOT_KEY_PROTOCOL_HEALTH \<mapsto> protocol_health)))))"

definition batch_get_stats_and_health :: "'v view_callees \<Rightarrow> periphery \<Rightarrow> (IpError, 'v \<times> 'v) res" where
  "batch_get_stats_and_health w s = both_views w ''get_stats'' [] ''get_protocol_health'' [] s"

definition batch_list_solvers_and_intents :: "'v view_callees \<Rightarrow> nat \<Rightarrow> nat \<Rightarrow> periphery \<Rightarrow> (IpError, 'v \<times> 'v) res" where
  "batch_list_solvers_and_intents w start limit s =
     both_views w ''list_solvers'' [U32 start, U32 limit] ''list_open_intents'' [U32 start, U32 limit] s"

definition batch_get_solver_and_fee_schedule :: "'v view_callees \<Rightarrow> address \<Rightarrow> periphery \<Rightarrow> (IpError, 'v \<times> 'v) res" where
  "batch_get_solver_and_fee_schedule w solver s =
     both_views w ''get_solver'' [AddressVal solver] ''get_fee_schedule'' [AddressVal solver] s"

definition batch_get_intent_and_health :: "'v view_callees \<Rightarrow> bytes32 \<Rightarrow> periphery \<Rightarrow> (IpError, 'v \<times> 'v) res" where
  "batch_get_intent_and_health w intent_id s =
     both_views w ''get_intent'' [BytesVal intent_id] ''get_protocol_health'' [] s"

definition batch_two_views :: "'v view_callees \<Rightarrow> string \<Rightarrow> 'v view_arg list \<Rightarrow> string \<Rightarrow> 'v view_arg list \<Rightarrow> periphery
    \<Rightarrow> (IpError, 'v \<times> 'v) res" where
  "batch_two_views w fn1 args1 fn2 args2 s = both_views w fn1 args1 fn2 args2 s"

text \<open>A batch is the pair of its views, errors included.\<close>

definition pair_of :: "('e, 'a) res \<Rightarrow> ('e, 'b) res \<Rightarrow> ('e, 'a \<times> 'b) res" where
  "pair_of m n = rbind m (\<lambda>x. rbind n (\<lambda>y. Inr (x, y)))"

lemma both_views_pair:
  "both_views w f1 xs1 f2 xs2 s =
     pair_of (rbind (load_settlement s) (\<lambda>a. invoke_contract w a f1 xs1))
       (rbind (load_settlement s) (\<lambda>a. invoke_contract w a f2 xs2))"
  by (cases "load_settlement s") (simp_all add: both_views_def pair_of_def)

lemma snapshot_pair:
  "get_dashboard_snapshot w s = rbind (pair_of (get_stats w s) (get_protocol_health w s))
     (\<lambda>(x, y). Inr [''stats'' \<mapsto> x, ''protocol_health'' \<mapsto> y])"
  by (cases "load_settlement s"; cases "invoke_contract w (projr (load_settlement s)) ''get_stats'' []";
      cases "invoke_contract w (projr (load_settlement s)) ''get_protocol_health'' []")
    (auto simp: get_dashboard_snapshot_def pair_of_def get_stats_def get_protocol_health_def SNAPSHOT_KEY_STATS_def
      SNAPSHOT_KEY_PROTOCOL_HEALTH_def split: sum.splits)

section \<open>Runs\<close>

datatype ip_event = IpInitialize address address | ProposeSettlement address | AcceptSettlement

fun ip_handle :: "env \<Rightarrow> 'v view_callees \<times> ip_event \<Rightarrow> periphery \<Rightarrow> (IpError, periphery) res" where
  "ip_handle e (w, IpInitialize a c) s = ip_initialize w e a c s"
| "ip_handle e (w, ProposeSettlement c) s = propose_settlement w e c s"
| "ip_handle e (w, AcceptSettlement) s = accept_settlement e s"

definition ip_step :: "env \<Rightarrow> 'v view_callees \<times> ip_event \<Rightarrow> periphery \<Rightarrow> periphery" where
  "ip_step e ev s = commit s (ip_handle e ev s)"

definition ip_empty :: periphery where
  "ip_empty = \<lparr>ip_admin = None, ip_settlement = None, ip_pending = None\<rparr>"

text \<open>The contract answered the handshake with the right version, in some transaction of the run.\<close>

definition answers :: "'v view_callees \<Rightarrow> address \<Rightarrow> bool" where
  "answers w a \<longleftrightarrow> (\<exists>v. invoke w a ''get_interface_version'' [] = Some v \<and> as_u32 w v = Some INTERFACE_VERSION)"

lemma verify_eq_Inr: "verify_interface_version w a = Inr u \<longleftrightarrow> answers w a"
  by (auto simp: verify_interface_version_def invoke_contract_def answers_def split: option.splits if_splits)

definition vetted :: "(env \<times> 'v view_callees \<times> ip_event) list \<Rightarrow> address option \<Rightarrow> bool" where
  "vetted txs p \<longleftrightarrow> (\<forall>a. p = Some a \<longrightarrow> (\<exists>(e, w, ev) \<in> set txs. answers w a \<and> (\<exists>adm. authed e adm)))"

lemma ip_handle_pointers:
  assumes "ip_handle e (w, ev) s = Inr s'"
  shows "(ip_settlement s' = ip_settlement s \<or> ip_settlement s' = ip_pending s \<or>
      (\<exists>a adm. ip_settlement s' = Some a \<and> answers w a \<and> authed e adm)) \<and>
    (ip_pending s' = ip_pending s \<or> ip_pending s' = None \<or> (\<exists>a adm. ip_pending s' = Some a \<and> answers w a \<and> authed e adm))"
  using assms
  by (cases ev) (auto simp: ip_initialize_def propose_settlement_def accept_settlement_def verify_eq_Inr
      split: if_splits elim!: rbindE)

lemma vetted_later: "vetted txs p \<Longrightarrow> vetted (txs @ txs') p"
  by (fastforce simp: vetted_def)

lemma vetted_now: "answers w a \<Longrightarrow> authed e adm \<Longrightarrow> vetted (txs @ [(e, w, ev)]) (Some a)"
  by (auto simp: vetted_def)

lemma vetted_none: "vetted txs None"
  by (simp add: vetted_def)

lemma ip_step_vetted:
  assumes "vetted txs (ip_settlement s)" "vetted txs (ip_pending s)"
  shows "vetted (txs @ [(e, w, ev)]) (ip_settlement (ip_step e (w, ev) s)) \<and>
    vetted (txs @ [(e, w, ev)]) (ip_pending (ip_step e (w, ev) s))"
proof (cases "ip_handle e (w, ev) s")
  case (Inr s')
  then have "ip_step e (w, ev) s = s'" by (simp add: ip_step_def)
  with ip_handle_pointers [OF Inr] assms [THEN vetted_later] show ?thesis by (auto intro: vetted_now vetted_none)
qed (use assms [THEN vetted_later] in \<open>simp add: ip_step_def\<close>)

lemma ip_run_vetted:
  "vetted txs (ip_settlement (contract_run ip_step txs ip_empty)) \<and>
   vetted txs (ip_pending (contract_run ip_step txs ip_empty))"
proof (induction txs rule: rev_induct)
  case (snoc tx txs)
  obtain e w ev where "tx = (e, w, ev)" by (cases tx)
  with ip_step_vetted [of txs "contract_run ip_step txs ip_empty" e w ev] snoc show ?case
    by (simp add: contract_run_append)
qed (simp add: vetted_def ip_empty_def)

section \<open>Properties\<close>

text \<open>
  The settlement address the view contract reads from has answered the version handshake in a
  transaction of the run.
\<close>

theorem settlement_always_vetted:
  assumes "get_settlement (contract_run ip_step txs ip_empty) = Some a"
  shows "\<exists>(e, w, ev) \<in> set txs. answers w a"
  using ip_run_vetted [of txs] assms by (fastforce simp: vetted_def get_settlement_def)

text \<open>
  Each batched view returns what its two single views return, errors included.
\<close>

theorem batches_are_pairs_of_views:
  "get_dashboard_snapshot w s = rbind (pair_of (get_stats w s) (get_protocol_health w s))
     (\<lambda>(x, y). Inr [''stats'' \<mapsto> x, ''protocol_health'' \<mapsto> y]) \<and>
   batch_get_stats_and_health w s = pair_of (get_stats w s) (get_protocol_health w s) \<and>
   batch_list_solvers_and_intents w i n s = pair_of (ip_list_solvers w i n s) (list_open_intents w i n s) \<and>
   batch_get_solver_and_fee_schedule w sol s = pair_of (get_solver w sol s) (get_fee_schedule w sol s) \<and>
   batch_get_intent_and_health w iid s = pair_of (get_intent w iid s) (get_protocol_health w s)"
  by (simp add: snapshot_pair both_views_pair batch_get_stats_and_health_def batch_list_solvers_and_intents_def
      batch_get_solver_and_fee_schedule_def batch_get_intent_and_health_def get_stats_def get_protocol_health_def
      ip_list_solvers_def list_open_intents_def get_solver_def get_fee_schedule_def get_intent_def)

theorem settlement_always_vetted_witness:
  "\<exists>w :: nat view_callees. get_settlement (contract_run ip_step
       [(plain_env 1, w, IpInitialize 1 8), (plain_env 2, w, ProposeSettlement 9), (plain_env 3, w, AcceptSettlement)] ip_empty) =
     Some 9 \<and> answers w 9"
proof -
  let ?w = "\<lparr>invoke = (\<lambda>a f xs. if f = ''get_interface_version'' then Some 1 else None), as_u32 = Some\<rparr> :: nat view_callees"
  let ?txs = "[(plain_env 1, ?w, IpInitialize 1 8), (plain_env 2, ?w, ProposeSettlement 9), (plain_env 3, ?w, AcceptSettlement)]"
  have "get_settlement (contract_run ip_step ?txs ip_empty) = Some 9"
    by (simp add: ip_step_def ip_initialize_def propose_settlement_def accept_settlement_def verify_interface_version_def
        invoke_contract_def INTERFACE_VERSION_def need_def require_auth_def ip_empty_def get_settlement_def)
  with settlement_always_vetted [OF this] show ?thesis by (intro exI [of _ ?w]) auto
qed

end
