(* ===== verification/Directory.thy ===== *)
theory Directory
  imports Timelocked_Slot
begin

text \<open>
  The address book of \<open>directory/src/lib.rs\<close>: the protocol's contracts by name, with a list of
  the names in use. Time-to-live extensions and events are not modelled.
\<close>

section \<open>Data\<close>

datatype DrError = AlreadyInitialized | NotInitialized | NotFound | NoPendingAdmin

record directory =
  dr_admin :: "address option"
  dr_pending :: "address option"
  dr_names :: "string list option"
  dr_entry :: "string \<Rightarrow> address option"

section \<open>Entry points\<close>

definition names :: "directory \<Rightarrow> string list" where
  "names s = (case dr_names s of None \<Rightarrow> [] | Some xs \<Rightarrow> xs)"

definition dr_load_admin :: "directory \<Rightarrow> (DrError, address) res" where
  "dr_load_admin s = need NotInitialized (dr_admin s)"

definition dr_require_admin :: "env \<Rightarrow> directory \<Rightarrow> (DrError, unit) res" where
  "dr_require_admin e s = rbind (dr_load_admin s) (require_auth e)"

definition dr_initialize :: "address \<Rightarrow> directory \<Rightarrow> (DrError, directory) res" where
  "dr_initialize admin s =
     (if dr_admin s \<noteq> None then Inl (Error AlreadyInitialized) else Inr (s\<lparr>dr_admin := Some admin\<rparr>))"

definition set_address :: "env \<Rightarrow> string \<Rightarrow> address \<Rightarrow> directory \<Rightarrow> (DrError, directory) res" where
  "set_address e name addr s =
     rbind (dr_require_admin e s) (\<lambda>_.
       let s1 = (if dr_entry s name = None then s\<lparr>dr_names := Some (names s @ [name])\<rparr> else s)
       in Inr (s1\<lparr>dr_entry := (dr_entry s1)(name \<mapsto> addr)\<rparr>))"

definition remove_address :: "env \<Rightarrow> string \<Rightarrow> directory \<Rightarrow> (DrError, directory) res" where
  "remove_address e name s =
     rbind (dr_require_admin e s) (\<lambda>_.
       if dr_entry s name = None then Inl (Error NotFound)
       else Inr (s\<lparr>dr_entry := (dr_entry s)(name := None),
                   dr_names := Some (filter (\<lambda>n. n \<noteq> name) (names s))\<rparr>))"

definition find_address :: "directory \<Rightarrow> string \<Rightarrow> address option" where
  "find_address s name = dr_entry s name"

definition get_address :: "directory \<Rightarrow> string \<Rightarrow> (DrError, address) res" where
  "get_address s name = need NotFound (find_address s name)"

definition list_names :: "directory \<Rightarrow> string list" where
  "list_names s = names s"

definition dr_propose_admin :: "env \<Rightarrow> address \<Rightarrow> directory \<Rightarrow> (DrError, directory) res" where
  "dr_propose_admin e new_admin s = rbind (dr_require_admin e s) (\<lambda>_. Inr (s\<lparr>dr_pending := Some new_admin\<rparr>))"

definition dr_accept_admin :: "env \<Rightarrow> directory \<Rightarrow> (DrError, directory) res" where
  "dr_accept_admin e s =
     rbind (need NoPendingAdmin (dr_pending s)) (\<lambda>pending.
     rbind (require_auth e pending) (\<lambda>_. Inr (s\<lparr>dr_admin := Some pending, dr_pending := None\<rparr>)))"

datatype dr_event =
    DrInitialize address | SetAddress string address | RemoveAddress string
  | DrPropose address | DrAccept

fun dr_handle :: "env \<Rightarrow> dr_event \<Rightarrow> directory \<Rightarrow> (DrError, directory) res" where
  "dr_handle e (DrInitialize a) s = dr_initialize a s"
| "dr_handle e (SetAddress n a) s = set_address e n a s"
| "dr_handle e (RemoveAddress n) s = remove_address e n s"
| "dr_handle e (DrPropose a) s = dr_propose_admin e a s"
| "dr_handle e DrAccept s = dr_accept_admin e s"

definition dr_step :: "env \<Rightarrow> dr_event \<Rightarrow> directory \<Rightarrow> directory" where
  "dr_step e ev s = commit s (dr_handle e ev s)"

definition dr_empty :: directory where
  "dr_empty = \<lparr>dr_admin = None, dr_pending = None, dr_names = None, dr_entry = Map.empty\<rparr>"

section \<open>The book as a map\<close>

text \<open>The list of names is the domain of the map, each name once.\<close>

definition listed :: "directory \<Rightarrow> bool" where
  "listed s \<longleftrightarrow> distinct (names s) \<and> (\<forall>n. n \<in> set (names s) \<longleftrightarrow> (\<exists>a. dr_entry s n = Some a))"

lemma dr_handle_listed: "dr_handle e ev s = Inr s' \<Longrightarrow> listed s \<Longrightarrow> listed s'"
  by (cases ev) (auto simp: listed_def names_def dr_initialize_def set_address_def remove_address_def
      dr_propose_admin_def dr_accept_admin_def Let_def split: if_splits option.splits elim!: rbindE)

lemma dr_step_listed: "listed s \<Longrightarrow> listed (dr_step e ev s)"
  using dr_handle_listed [of e ev s] by (cases "dr_handle e ev s") (auto simp: dr_step_def)

text \<open>What a transaction asks of the map, when the admin signed it.\<close>

fun asked :: "dr_event \<Rightarrow> (string \<Rightarrow> address option) \<Rightarrow> string \<Rightarrow> address option" where
  "asked (SetAddress n a) m = m(n \<mapsto> a)"
| "asked (RemoveAddress n) m = m(n := None)"
| "asked _ m = m"

lemma dr_step_entry:
  "dr_entry (dr_step e ev s) =
     (if \<exists>a. dr_admin s = Some a \<and> authed e a then asked ev (dr_entry s) else dr_entry s)"
  by (cases ev; cases "dr_admin s"; cases "dr_pending s")
    (auto simp: dr_step_def dr_initialize_def set_address_def remove_address_def dr_propose_admin_def
      dr_accept_admin_def dr_require_admin_def dr_load_admin_def need_def require_auth_def Let_def)

section \<open>Properties\<close>

text \<open>
  The address book is a map: the list of names is its domain, each name once, and a
  transaction changes it exactly as asked when the admin signed it and not at all otherwise.
\<close>

theorem directory_is_a_map:
  assumes "contract_run dr_step txs dr_empty = s"
  shows "distinct (list_names s) \<and> (n \<in> set (list_names s) \<longleftrightarrow> (\<exists>a. get_address s n = Inr a)) \<and>
    find_address (dr_step e ev s) n =
      (if \<exists>a. dr_admin s = Some a \<and> authed e a then asked ev (find_address s) n else find_address s n)"
proof -
  have "listed s"
    unfolding assms [symmetric]
    by (rule contract_run_invariant [where P = listed], erule dr_step_listed) (simp add: listed_def dr_empty_def names_def)
  moreover have "find_address s = dr_entry s" by (simp add: fun_eq_iff find_address_def)
  ultimately show ?thesis
    by (auto simp: list_names_def get_address_def find_address_def listed_def need_def dr_step_entry split: option.splits)
qed

theorem directory_is_a_map_witness:
  "\<exists>s. contract_run dr_step [(plain_env 1, DrInitialize 1), (plain_env 2, SetAddress ''timelock'' 7)] dr_empty = s \<and>
     list_names s = [''timelock''] \<and> find_address (dr_step (plain_env 3) (RemoveAddress ''timelock'') s) ''timelock'' = None"
proof -
  obtain s where s: "contract_run dr_step [(plain_env 1, DrInitialize 1), (plain_env 2, SetAddress ''timelock'' 7)] dr_empty = s"
    "dr_admin s = Some 1" "list_names s = [''timelock'']"
    by (simp add: dr_step_def dr_initialize_def set_address_def dr_require_admin_def dr_load_admin_def need_def
        require_auth_def Let_def names_def list_names_def dr_empty_def)
  from directory_is_a_map [OF s(1)] s show ?thesis by simp
qed

end
