(* ===== verification/Policy_Daily_Cap.thy ===== *)
theory Policy_Daily_Cap
  imports Timelocked_Slot
begin

text \<open>
  The reference policy contract of \<open>examples/policy_daily_cap/src/lib.rs\<close>: the settlement asks it
  before it takes an order, and it answers no when the user's volume in the current window would
  exceed the cap. A window begins with the first order after the last one has run out.
\<close>

section \<open>Data and entry points\<close>

definition DAY_SECS :: nat where "DAY_SECS = 86400"

datatype PcError = AlreadyInitialized | NotInitialized | Unauthorized | ZeroAmount

record policy =
  pc_admin :: "address option"
  pc_cap :: "int option"
  pc_volume :: "address \<Rightarrow> (nat \<times> int) option"

definition pc_initialize :: "env \<Rightarrow> address \<Rightarrow> int \<Rightarrow> policy \<Rightarrow> (PcError, policy) res" where
  "pc_initialize e admin daily_cap s =
     (if pc_admin s \<noteq> None then Inl (Error AlreadyInitialized)
      else if daily_cap \<le> 0 then Inl (Error ZeroAmount)
      else rbind (require_auth e admin) (\<lambda>_. Inr (s\<lparr>pc_admin := Some admin, pc_cap := Some daily_cap\<rparr>)))"

definition set_daily_cap :: "env \<Rightarrow> int \<Rightarrow> policy \<Rightarrow> (PcError, policy) res" where
  "set_daily_cap e daily_cap s =
     rbind (need NotInitialized (pc_admin s)) (\<lambda>admin.
     rbind (require_auth e admin) (\<lambda>_.
       if daily_cap \<le> 0 then Inl (Error ZeroAmount) else Inr (s\<lparr>pc_cap := Some daily_cap\<rparr>)))"

definition get_daily_cap :: "policy \<Rightarrow> int" where
  "get_daily_cap s = or0 (pc_cap s)"

text \<open>The window in force at the time \<open>t\<close>.\<close>

definition window_at :: "nat \<Rightarrow> (nat \<times> int) option \<Rightarrow> (PcError, nat \<times> int) res" where
  "window_at t v =
     (let (window_start, cumulative) = (case v of None \<Rightarrow> (t, 0) | Some w \<Rightarrow> w)
      in rbind (u64 (window_start + DAY_SECS)) (\<lambda>close_at.
           Inr (if t \<ge> close_at then (t, 0) else (window_start, cumulative))))"

definition check_intent :: "env \<Rightarrow> address \<Rightarrow> address \<Rightarrow> int \<Rightarrow> policy \<Rightarrow> (PcError, policy \<times> bool) res" where
  "check_intent e user dst_token amount s =
     rbind (need NotInitialized (pc_cap s)) (\<lambda>daily_cap.
       if amount \<le> 0 then Inr (s, False)
       else
         rbind (window_at (now e) (pc_volume s user)) (\<lambda>(effective_start, effective_cumulative).
           let new_total = sat_i128 (effective_cumulative + amount)
           in if new_total > daily_cap then Inr (s, False)
              else Inr (s\<lparr>pc_volume := (pc_volume s)(user \<mapsto> (effective_start, new_total))\<rparr>, True)))"

definition get_user_volume :: "env \<Rightarrow> address \<Rightarrow> policy \<Rightarrow> (PcError, nat \<times> int) res" where
  "get_user_volume e user s = window_at (now e) (pc_volume s user)"

section \<open>Runs\<close>

datatype pc_event = PcInitialize address int | PcSetCap int | PcCheck address address int

text \<open>A run keeps the list of the orders it has let through: when, for whom, how much.\<close>

type_synonym orders = "(nat \<times> address \<times> int) list"

fun pc_step :: "env \<Rightarrow> pc_event \<Rightarrow> policy \<times> orders \<Rightarrow> policy \<times> orders" where
  "pc_step e (PcInitialize a c) (s, os) = (commit s (pc_initialize e a c s), os)"
| "pc_step e (PcSetCap c) (s, os) = (commit s (set_daily_cap e c s), os)"
| "pc_step e (PcCheck u tok a) (s, os) =
     (case check_intent e u tok a s of
        Inl _ \<Rightarrow> (s, os)
      | Inr (s', ok) \<Rightarrow> (s', if ok then os @ [(now e, u, a)] else os))"

definition pc_empty :: policy where
  "pc_empty = \<lparr>pc_admin = None, pc_cap = None, pc_volume = Map.empty\<rparr>"

definition volume :: "address \<Rightarrow> nat \<Rightarrow> nat \<Rightarrow> orders \<Rightarrow> int" where
  "volume u from to os = (\<Sum>(t, v, a)\<leftarrow>os. if v = u \<and> from \<le> t \<and> t < to then a else 0)"

lemma volume_Nil [simp]: "volume u f t [] = 0"
  by (simp add: volume_def)

lemma volume_snoc [simp]:
  "volume u f t (os @ [(x, v, a)]) = volume u f t os + (if v = u \<and> f \<le> x \<and> x < t then a else 0)"
  by (simp add: volume_def)

lemma volume_mono:
  assumes "\<forall>(t, v, a) \<in> set os. 0 < a" "f' \<le> f" "t \<le> t'"
  shows "volume u f t os \<le> volume u f' t' os"
  unfolding volume_def by (rule sum_list_mono) (use assms in \<open>auto split: prod.splits\<close>)

lemma volume_split:
  assumes "f \<le> m" "m \<le> t"
  shows "volume u f t os = volume u f m os + volume u m t os"
  using assms by (induction os) (auto simp: volume_def)

lemma volume_late:
  assumes "\<forall>(t, v, a) \<in> set os. v = u \<longrightarrow> t < m" "m \<le> f"
  shows "volume u f t os = 0"
  using assms by (induction os) (auto simp: volume_def)

lemma volume_until:
  assumes "\<forall>(t, v, a) \<in> set os. v = u \<longrightarrow> t < m" "m \<le> t"
  shows "volume u f t os = volume u f m os"
  using assms by (induction os) (auto simp: volume_def)

text \<open>
  What the books say of one user, with every cap so far at most \<open>c\<close>: the stored total is the
  volume since the window began; what lies in the day before the window is at most one cap.
\<close>

definition booked :: "int \<Rightarrow> nat \<Rightarrow> address \<Rightarrow> (nat \<times> int) option \<Rightarrow> orders \<Rightarrow> bool" where
  "booked c t u w os \<longleftrightarrow>
     (\<forall>(x, v, a) \<in> set os. 0 < a \<and> x \<le> t) \<and> (\<forall>f. volume u f (f + DAY_SECS) os \<le> 2 * c) \<and>
     (case w of
        None \<Rightarrow> \<forall>(x, v, a) \<in> set os. v \<noteq> u
      | Some (start, tot) \<Rightarrow>
          start \<le> t \<and> tot = volume u start (start + DAY_SECS) os \<and> tot \<le> c \<and> 0 \<le> tot \<and>
          (\<forall>(x, v, a) \<in> set os. v = u \<longrightarrow> x < start + DAY_SECS) \<and>
          (\<forall>f. start < f + DAY_SECS \<longrightarrow> volume u f start os \<le> c))"

lemma sat_i128_below: "0 \<le> x \<Longrightarrow> sat_i128 x \<le> c \<Longrightarrow> c < i128_max \<Longrightarrow> sat_i128 x = x"
  by (auto simp: sat_i128_def i128_min_def i128_max_def min_def max_def split: if_splits)

lemma volume_none: "\<forall>(x, v, a) \<in> set os. v \<noteq> u \<Longrightarrow> volume u f t os = 0"
  by (induction os) (auto simp: volume_def)

text \<open>A window, current or new, at the time of the next order.\<close>

lemma booked_window:
  assumes "booked c t u w os" "t \<le> t'" "window_at t' w = Inr (start, tot)" "0 \<le> c"
  shows "booked c t' u (Some (start, tot)) os \<and> t' < start + DAY_SECS"
proof (cases w)
  case None
  with assms have "start = t'" "tot = 0" by (auto simp: window_at_def DAY_SECS_def elim!: rbindE split: if_splits)
  moreover have "\<forall>(x, v, a) \<in> set os. v \<noteq> u" using assms(1) None by (simp add: booked_def)
  ultimately show ?thesis using assms(1,2,4) by (fastforce simp: booked_def volume_none DAY_SECS_def)
next
  case (Some st)
  obtain start0 tot0 where w: "w = Some (start0, tot0)" using Some by (cases st) auto
  note b = assms(1) [unfolded booked_def w, simplified]
  show ?thesis
  proof (cases "start0 + DAY_SECS \<le> t'")
    case True
    with assms(3) have new: "start = t'" "tot = 0" by (auto simp: window_at_def w elim!: rbindE split: if_splits)
    have old: "\<forall>(x, v, a) \<in> set os. v = u \<longrightarrow> x < start0 + DAY_SECS" using b by blast
    have "volume u f t' os \<le> c" if "t' < f + DAY_SECS" for f
    proof -
      have "volume u f t' os \<le> volume u start0 t' os" using that True b by (intro volume_mono) auto
      also have "\<dots> = tot0" using volume_until [OF old True, of start0] b by simp
      finally show ?thesis using b by simp
    qed
    moreover have "volume u t' (t' + DAY_SECS) os = 0" using volume_late [OF old True] .
    ultimately show ?thesis using b assms(2,4) True new by (fastforce simp: booked_def DAY_SECS_def)
  next
    case False
    with assms(3) have "start = start0" "tot = tot0" by (auto simp: window_at_def w elim!: rbindE split: if_splits)
    with b False assms(2) show ?thesis by (fastforce simp: booked_def)
  qed
qed

lemma booked_order:
  assumes b: "booked c t u (Some (start, tot)) os" and "t < start + DAY_SECS" "0 < a" "tot + a \<le> c"
  shows "booked c t u (Some (start, tot + a)) (os @ [(t, u, a)])"
proof -
  note b = b [unfolded booked_def, simplified]
  have "volume u f (f + DAY_SECS) (os @ [(t, u, a)]) \<le> 2 * c" for f
  proof (cases "f \<le> t \<and> t < f + DAY_SECS")
    case False
    with b show ?thesis by auto
  next
    case True
    have pos: "\<forall>(x, v, a) \<in> set os. 0 < a" using b by auto
    show ?thesis
    proof (cases "f < start")
      case True
      have "volume u f (f + DAY_SECS) os \<le> volume u f start os + volume u start (start + DAY_SECS) os"
        using volume_mono [OF pos, of f f "f + DAY_SECS" "start + DAY_SECS" u] volume_split [of f start "start + DAY_SECS" u os]
          True by simp
      moreover have "volume u f start os \<le> c" using b \<open>f \<le> t \<and> t < f + DAY_SECS\<close> by auto
      ultimately show ?thesis using b assms(4) True by auto
    next
      case False
      have "volume u f (f + DAY_SECS) os = volume u f (max (start + DAY_SECS) (f + DAY_SECS)) os"
        using False by (simp add: max_def)
      also have "\<dots> = volume u f (start + DAY_SECS) os"
        by (rule volume_until) (use b in auto)
      also have "\<dots> \<le> tot" using volume_mono [OF pos, of start f "start + DAY_SECS" "start + DAY_SECS" u] False b by simp
      finally show ?thesis using assms(3,4) b by auto
    qed
  qed
  with b assms(2-4) show ?thesis by (auto simp: booked_def)
qed

lemma booked_later: "booked c t u w os \<Longrightarrow> t \<le> t' \<Longrightarrow> booked c t' u w os"
  by (fastforce simp: booked_def split: option.splits)

lemma booked_other: "booked c t u w os \<Longrightarrow> v \<noteq> u \<Longrightarrow> 0 < a \<Longrightarrow> booked c t u w (os @ [(t, v, a)])"
  by (auto simp: booked_def split: option.splits)

definition accounts_ok :: "int \<Rightarrow> nat \<Rightarrow> policy \<times> orders \<Rightarrow> bool" where
  "accounts_ok c t x \<longleftrightarrow> (\<forall>cap. pc_cap (fst x) = Some cap \<longrightarrow> cap \<le> c) \<and> (\<forall>u. booked c t u (pc_volume (fst x) u) (snd x))"

fun cap_set :: "pc_event \<Rightarrow> int" where
  "cap_set (PcInitialize _ c) = c" | "cap_set (PcSetCap c) = c" | "cap_set _ = 0"

lemma check_intent_Inr:
  assumes "check_intent e u tok a s = Inr (s', ok)"
  obtains (no) "\<not> ok" "s' = s"
  | (yes) cap start tot where "ok" "pc_cap s = Some cap" "0 < a" "window_at (now e) (pc_volume s u) = Inr (start, tot)"
      "sat_i128 (tot + a) \<le> cap" "s' = s\<lparr>pc_volume := (pc_volume s)(u \<mapsto> (start, sat_i128 (tot + a)))\<rparr>"
  using assms unfolding check_intent_def Let_def by (elim rbindE condE) (auto split: if_splits elim!: rbindE)

lemma cap_Inr:
  "pc_initialize e a cap s = Inr s' \<Longrightarrow> pc_cap s' = Some cap \<and> pc_volume s' = pc_volume s"
  "set_daily_cap e cap s = Inr s' \<Longrightarrow> pc_cap s' = Some cap \<and> pc_volume s' = pc_volume s"
  by (auto simp: pc_initialize_def set_daily_cap_def split: if_splits elim!: rbindE)

lemma pc_step_ok:
  assumes "accounts_ok c t x" "t \<le> now e" "cap_set ev \<le> c" "0 \<le> c" "c < i128_max"
  shows "accounts_ok c (now e) (pc_step e ev x)"
proof -
  obtain s os where x: "x = (s, os)" by (cases x)
  have ok: "accounts_ok c (now e) (s, os)"
    using assms(1) booked_later [OF _ assms(2)] by (simp add: accounts_ok_def x)
  show ?thesis
  proof (cases ev)
    case (PcInitialize a cap)
    with ok assms(3) show ?thesis
      by (cases "pc_initialize e a cap s") (auto simp: x accounts_ok_def dest!: cap_Inr)
  next
    case (PcSetCap cap)
    with ok assms(3) show ?thesis
      by (cases "set_daily_cap e cap s") (auto simp: x accounts_ok_def dest!: cap_Inr)
  next
    case (PcCheck u tok a)
    show ?thesis
    proof (cases "check_intent e u tok a s")
      case (Inr p)
      obtain s' ans where p: "p = (s', ans)" by (cases p)
      from Inr [unfolded p] show ?thesis
      proof (cases rule: check_intent_Inr)
        case (yes cap start tot)
        have w: "booked c (now e) u (Some (start, tot)) os" "now e < start + DAY_SECS"
          using booked_window [OF _ assms(2) yes(4) assms(4)] assms(1) by (auto simp: x accounts_ok_def)
        have "cap \<le> c" using ok yes(2) by (simp add: accounts_ok_def)
        moreover have "0 \<le> tot" using w(1) by (simp add: booked_def)
        ultimately have sat: "sat_i128 (tot + a) = tot + a" "tot + a \<le> c"
          using sat_i128_below [of "tot + a" c] yes(3,5) assms(5) by auto
        from booked_order [OF w yes(3) sat(2)] ok yes Inr show ?thesis
          by (auto simp: PcCheck x p accounts_ok_def sat(1) booked_other)
      qed (use Inr ok in \<open>simp add: PcCheck x p\<close>)
    qed (use ok in \<open>simp add: PcCheck x\<close>)
  qed
qed

lemma pc_run_ok:
  assumes "accounts_ok c t x" "sorted (t # map (\<lambda>tx. now (fst tx)) txs)" "\<forall>tx \<in> set txs. cap_set (snd tx) \<le> c"
    "0 \<le> c" "c < i128_max"
  shows "\<exists>t'. accounts_ok c t' (contract_run pc_step txs x)"
  using assms(1-3)
proof (induction txs arbitrary: t x)
  case (Cons tx txs)
  obtain e ev where tx: "tx = (e, ev)" by (cases tx)
  have "accounts_ok c (now e) (pc_step e ev x)"
    using Cons.prems assms(4,5) by (intro pc_step_ok) (auto simp: tx)
  from Cons.IH [OF this] Cons.prems(2,3) show ?case by (simp add: tx)
qed auto

section \<open>Properties\<close>

text \<open>
  C26: With caps of at most \<open>c\<close>, a user's orders that the policy lets through
  within any day add up to at most twice \<open>c\<close>, and the stored total is the volume
  since the window began and at most \<open>c\<close>.
\<close>

theorem daily_cap_bounds_volume:
  assumes "sorted (map (\<lambda>tx. now (fst tx)) txs)" "\<forall>tx \<in> set txs. cap_set (snd tx) \<le> c" "0 \<le> c" "c < i128_max"
    "contract_run pc_step txs (pc_empty, []) = (s, os)"
  shows "volume u f (f + DAY_SECS) os \<le> 2 * c \<and>
    (\<forall>start tot. pc_volume s u = Some (start, tot) \<longrightarrow> tot = volume u start (start + DAY_SECS) os \<and> tot \<le> c)"
proof -
  have "accounts_ok c 0 (pc_empty, [])" using assms(3) by (simp add: accounts_ok_def pc_empty_def booked_def)
  from pc_run_ok [OF this _ assms(2-4)] assms(1,5) obtain t where "accounts_ok c t (s, os)" by auto
  then have "booked c t u (pc_volume s u) os" by (simp add: accounts_ok_def)
  then show ?thesis by (auto simp: booked_def)
qed

definition pc_demo :: "(env \<times> pc_event) list" where
  "pc_demo = [(plain_env 0, PcInitialize 1 100), (plain_env 0, PcCheck 7 4 1), (plain_env 86399, PcCheck 7 4 99),
     (plain_env 86399, PcCheck 7 4 1), (plain_env 86400, PcCheck 7 4 100)]"

lemma pc_demo_run:
  "contract_run pc_step pc_demo (pc_empty, []) =
     (\<lparr>pc_admin = Some 1, pc_cap = Some 100, pc_volume = [7 \<mapsto> (86400, 100)]\<rparr>, [(0, 7, 1), (86399, 7, 99), (86400, 7, 100)])"
  by (simp add: pc_demo_def pc_initialize_def check_intent_def window_at_def need_def require_auth_def pc_empty_def
      u64_def u64_max_def DAY_SECS_def sat_i128_def i128_min_def i128_max_def)

text \<open>
  With a cap of 100, orders over 199 pass within two seconds: the window is not the rolling
  day the comment describes.
\<close>

theorem rolling_day_exceeds_cap:
  "\<exists>s os. contract_run pc_step pc_demo (pc_empty, []) = (s, os) \<and> pc_cap s = Some 100 \<and>
     volume 7 86399 86401 os = 199"
  by (simp add: pc_demo_run volume_def)

theorem daily_cap_bounds_volume_witness:
  "\<exists>s os. contract_run pc_step pc_demo (pc_empty, []) = (s, os) \<and> volume 7 1 (1 + DAY_SECS) os \<le> 200 \<and>
     volume 7 1 (1 + DAY_SECS) os = 199"
proof -
  have "sorted (map (\<lambda>tx. now (fst tx)) pc_demo)" "\<forall>tx \<in> set pc_demo. cap_set (snd tx) \<le> 100"
    by (simp_all add: pc_demo_def)
  from daily_cap_bounds_volume [OF this _ _ pc_demo_run, of 7 1] show ?thesis
    by (simp add: pc_demo_run i128_max_def volume_def DAY_SECS_def)
qed

end
