(* ===== verification/Spec_Check.thy ===== *)
theory Spec_Check
  imports Main "HOL-Library.List_Lexorder" "HOL-Library.Char_ord"
begin

text \<open>
  The interface checker of \<open>tools/spec-check/src/lib.rs\<close>: the comparison of a committed contract
  specification with the current one, and the filter for changes that an allowlist excuses. An
  ordered map is the list of its entries in key order, with \<open>map_of\<close> for its lookup; strings
  are ASCII. The second half is the command-line tool of \<open>main.rs\<close>, which has a comparison of
  its own, over signatures as text. Reading files, JSON and the contract's binary, and building
  it, is not modelled.
\<close>

section \<open>Data\<close>

record SpecParam =
  pm_name :: string
  pm_type :: string

datatype SpecEntry =
    Function string "SpecParam list" "SpecParam list"
  | Udt string "SpecParam list" "string list"
  | Error nat string
  | Event string "SpecParam list"

record ContractSpec =
  sp_functions :: "(string \<times> SpecEntry) list"
  sp_udts :: "(string \<times> SpecEntry) list"
  sp_errors :: "(nat \<times> SpecEntry) list"
  sp_events :: "(string \<times> SpecEntry) list"

datatype ChangeKind = Additive | Breaking

record SpecChange =
  sc_kind :: ChangeKind
  sc_path :: string
  sc_detail :: string

record AllowlistEntry =
  aw_path :: string
  aw_issue :: string

section \<open>The comparison\<close>

definition change :: "ChangeKind \<Rightarrow> string \<Rightarrow> string \<Rightarrow> SpecChange" where
  "change k p d = \<lparr>sc_kind = k, sc_path = p, sc_detail = d\<rparr>"

text \<open>The decimal form of a code, as \<open>format!\<close> prints it.\<close>

fun decimal :: "nat \<Rightarrow> string" where
  "decimal n = (if n < 10 then [char_of (48 + n)] else decimal (n div 10) @ [char_of (48 + n mod 10)])"

declare decimal.simps [simp del]

definition diff_functions :: "ContractSpec \<Rightarrow> ContractSpec \<Rightarrow> SpecChange list" where
  "diff_functions baseline current =
     concat (map (\<lambda>(name, base).
       case map_of (sp_functions current) name of
         None \<Rightarrow> [change Breaking (''functions.'' @ name) ''function removed or renamed'']
       | Some cur \<Rightarrow>
           (case (base, cur) of
              (Function _ bi bo, Function _ ci co) \<Rightarrow>
                (if bi \<noteq> ci then [change Breaking (''functions.'' @ name @ ''.inputs'') ''argument types changed''] else []) @
                (if bo \<noteq> co then [change Breaking (''functions.'' @ name @ ''.outputs'') ''return types changed''] else [])
            | _ \<Rightarrow> [])) (sp_functions baseline)) @
     map (\<lambda>(name, _). change Additive (''functions.'' @ name) ''function added'')
       (filter (\<lambda>(name, _). map_of (sp_functions baseline) name = None) (sp_functions current))"

definition has_field :: "SpecParam list \<Rightarrow> string \<Rightarrow> bool" where
  "has_field fs n = list_ex (\<lambda>f. pm_name f = n) fs"

definition diff_udts :: "ContractSpec \<Rightarrow> ContractSpec \<Rightarrow> SpecChange list" where
  "diff_udts baseline current =
     concat (map (\<lambda>(name, base).
       case map_of (sp_udts current) name of
         None \<Rightarrow> [change Breaking (''udts.'' @ name) ''type removed or renamed'']
       | Some cur \<Rightarrow>
           (case (base, cur) of
              (Udt _ bf bv, Udt _ cf cv) \<Rightarrow>
                map (\<lambda>f. change Breaking (''udts.'' @ name @ ''.fields.'' @ pm_name f) ''struct field removed'')
                  (filter (\<lambda>f. \<not> has_field cf (pm_name f)) bf) @
                map (\<lambda>f. change Additive (''udts.'' @ name @ ''.fields.'' @ pm_name f) ''struct field added'')
                  (filter (\<lambda>f. \<not> has_field bf (pm_name f)) cf) @
                (if bv \<noteq> cv then [change Breaking (''udts.'' @ name @ ''.variants'') ''enum variants reordered or changed''] else [])
            | _ \<Rightarrow> [])) (sp_udts baseline)) @
     map (\<lambda>(name, _). change Additive (''udts.'' @ name) ''type added'')
       (filter (\<lambda>(name, _). map_of (sp_udts baseline) name = None) (sp_udts current))"

definition diff_errors :: "ContractSpec \<Rightarrow> ContractSpec \<Rightarrow> SpecChange list" where
  "diff_errors baseline current =
     concat (map (\<lambda>(code, base).
       case map_of (sp_errors current) code of
         None \<Rightarrow> [change Breaking (''errors.'' @ decimal code) ''error code removed'']
       | Some cur \<Rightarrow>
           (case (base, cur) of
              (Error _ bn, Error _ cn) \<Rightarrow>
                if bn \<noteq> cn
                then [change Breaking (''errors.'' @ decimal code) (''error code reassigned from `'' @ bn @ ''` to `'' @ cn @ ''`'')]
                else []
            | _ \<Rightarrow> [])) (sp_errors baseline)) @
     map (\<lambda>(code, _). change Additive (''errors.'' @ decimal code) ''error code added'')
       (filter (\<lambda>(code, _). map_of (sp_errors baseline) code = None) (sp_errors current))"

definition diff_events :: "ContractSpec \<Rightarrow> ContractSpec \<Rightarrow> SpecChange list" where
  "diff_events baseline current =
     concat (map (\<lambda>(name, base).
       case map_of (sp_events current) name of
         None \<Rightarrow> [change Breaking (''events.'' @ name) ''event removed or renamed'']
       | Some cur \<Rightarrow>
           (case (base, cur) of
              (Event _ bi, Event _ ci) \<Rightarrow>
                if bi \<noteq> ci then [change Breaking (''events.'' @ name @ ''.inputs'') ''event payload changed''] else []
            | _ \<Rightarrow> [])) (sp_events baseline)) @
     map (\<lambda>(name, _). change Additive (''events.'' @ name) ''event added'')
       (filter (\<lambda>(name, _). map_of (sp_events baseline) name = None) (sp_events current))"

definition diff_specs :: "ContractSpec \<Rightarrow> ContractSpec \<Rightarrow> SpecChange list" where
  "diff_specs baseline current =
     diff_functions baseline current @ diff_udts baseline current @
     diff_errors baseline current @ diff_events baseline current"

text \<open>An issue reference counts when it is not blank.\<close>

definition blank :: "string \<Rightarrow> bool" where
  "blank s = list_all (\<lambda>c. of_char c = (32 :: nat) \<or> (9 \<le> (of_char c :: nat) \<and> of_char c \<le> (13 :: nat))) s"

definition unallowlisted_breaking :: "SpecChange list \<Rightarrow> AllowlistEntry list \<Rightarrow> SpecChange list" where
  "unallowlisted_breaking changes allowlist =
     filter (\<lambda>c. \<not> list_ex (\<lambda>a. aw_path a = sc_path c \<and> \<not> blank (aw_issue a)) allowlist)
       (filter (\<lambda>c. sc_kind c = Breaking) changes)"

section \<open>The command-line tool\<close>

record CliEntry =
  ce_kind :: string
  ce_name :: string
  ce_signature :: string

record CliAllow =
  ca_crate :: string
  ca_entry :: string
  ca_issue :: string

record CliChange =
  cc_kind :: ChangeKind
  cc_entry :: string
  cc_detail :: string

definition entry_id :: "CliEntry \<Rightarrow> string" where
  "entry_id e = ce_kind e @ '':'' @ ce_name e"

text \<open>Collecting into an ordered map: a later entry replaces an earlier one with its key.\<close>

fun bt_insert :: "'k::linorder \<Rightarrow> 'a \<Rightarrow> ('k \<times> 'a) list \<Rightarrow> ('k \<times> 'a) list" where
  "bt_insert k v [] = [(k, v)]"
| "bt_insert k v ((j, w) # m) =
     (if k < j then (k, v) # (j, w) # m
      else if k = j then (k, v) # m
      else (j, w) # bt_insert k v m)"

definition collect :: "CliEntry list \<Rightarrow> (string \<times> CliEntry) list" where
  "collect es = fold (\<lambda>e. bt_insert (entry_id e) e) es []"

definition compare_entry :: "(string \<times> CliEntry) list \<Rightarrow> string \<times> CliEntry \<Rightarrow> CliChange list" where
  "compare_entry cur p =
     (let (i, old) = p
      in case map_of cur i of
           None \<Rightarrow> [\<lparr>cc_kind = Breaking, cc_entry = i, cc_detail = ''entry removed or renamed''\<rparr>]
         | Some new \<Rightarrow>
             if ce_signature new \<noteq> ce_signature old
             then [\<lparr>cc_kind = Breaking, cc_entry = i,
                    cc_detail = ''signature changed: `'' @ ce_signature old @ ''` -> `'' @ ce_signature new @ ''`''\<rparr>]
             else [])"

definition cli_diff :: "CliEntry list \<Rightarrow> CliEntry list \<Rightarrow> CliChange list" where
  "cli_diff baseline current =
     (let base = collect baseline; cur = collect current
      in concat (map (compare_entry cur) base) @
         map (\<lambda>(i, _). \<lparr>cc_kind = Additive, cc_entry = i, cc_detail = ''new entry''\<rparr>)
           (filter (\<lambda>(i, _). map_of base i = None) cur))"

definition is_allowed :: "CliAllow list \<Rightarrow> string \<Rightarrow> string \<Rightarrow> bool" where
  "is_allowed allowlist crate entry =
     list_ex (\<lambda>a. ca_crate a = crate \<and> ca_entry a = entry \<and> \<not> blank (ca_issue a)) allowlist"

text \<open>The loop of \<open>check_crate\<close> over the changes, for the entries it has read.\<close>

fun check_changes :: "CliAllow list \<Rightarrow> string \<Rightarrow> CliChange list \<Rightarrow> bool \<Rightarrow> bool" where
  "check_changes allowlist crate [] ok = ok"
| "check_changes allowlist crate (c # cs) ok =
     check_changes allowlist crate cs
       (case cc_kind c of
          Additive \<Rightarrow> ok
        | Breaking \<Rightarrow> if is_allowed allowlist crate (cc_entry c) then ok else False)"

definition check_entries :: "CliAllow list \<Rightarrow> string \<Rightarrow> CliEntry list \<Rightarrow> CliEntry list \<Rightarrow> bool" where
  "check_entries allowlist crate baseline current = check_changes allowlist crate (cli_diff baseline current) True"

section \<open>What the check means\<close>

text \<open>
  A table extends_table another under \<open>keeps\<close> when every entry of the old one is kept. What a caller
  relies on: signatures, event payloads and error names unchanged, variants in order, and every
  field name still there.
\<close>

definition extends_table :: "(SpecEntry \<Rightarrow> SpecEntry \<Rightarrow> bool) \<Rightarrow> ('k \<times> SpecEntry) list \<Rightarrow> ('k \<times> SpecEntry) list \<Rightarrow> bool" where
  "extends_table keeps old new \<longleftrightarrow> (\<forall>(k, b) \<in> set old. \<exists>c. map_of new k = Some c \<and> keeps b c)"

fun keeps_entry :: "SpecEntry \<Rightarrow> SpecEntry \<Rightarrow> bool" where
  "keeps_entry (Function _ bi bo) (Function _ ci co) \<longleftrightarrow> bi = ci \<and> bo = co"
| "keeps_entry (Udt _ bf bv) (Udt _ cf cv) \<longleftrightarrow> bv = cv \<and> pm_name ` set bf \<subseteq> pm_name ` set cf"
| "keeps_entry (Error _ bn) (Error _ cn) \<longleftrightarrow> bn = cn"
| "keeps_entry (Event _ bi) (Event _ ci) \<longleftrightarrow> bi = ci"
| "keeps_entry _ _ \<longleftrightarrow> False"

definition compatible :: "ContractSpec \<Rightarrow> ContractSpec \<Rightarrow> bool" where
  "compatible b c \<longleftrightarrow>
     extends_table keeps_entry (sp_functions b) (sp_functions c) \<and> extends_table keeps_entry (sp_udts b) (sp_udts c) \<and>
     extends_table keeps_entry (sp_errors b) (sp_errors c) \<and> extends_table keeps_entry (sp_events b) (sp_events c)"

text \<open>What the extraction produces: ordered keys are distinct, and each table holds its own kind.\<close>

fun is_function where "is_function (Function _ _ _) = True" | "is_function _ = False"
fun is_udt where "is_udt (Udt _ _ _) = True" | "is_udt _ = False"
fun is_error where "is_error (Error _ _) = True" | "is_error _ = False"
fun is_event where "is_event (Event _ _) = True" | "is_event _ = False"

definition table :: "(SpecEntry \<Rightarrow> bool) \<Rightarrow> ('k \<times> SpecEntry) list \<Rightarrow> bool" where
  "table kind t \<longleftrightarrow> distinct (map fst t) \<and> list_all (\<lambda>(_, e). kind e) t"

definition spec_ok :: "ContractSpec \<Rightarrow> bool" where
  "spec_ok s \<longleftrightarrow> table is_function (sp_functions s) \<and> table is_udt (sp_udts s) \<and>
     table is_error (sp_errors s) \<and> table is_event (sp_events s)"

section \<open>Lemmas\<close>

definition has_breaking :: "SpecChange list \<Rightarrow> bool" where
  "has_breaking cs \<longleftrightarrow> (\<exists>c \<in> set cs. sc_kind c = Breaking)"

lemma has_breaking_simps [simp]:
  "has_breaking [] = False" "has_breaking (change k p d # cs) \<longleftrightarrow> k = Breaking \<or> has_breaking cs"
  "has_breaking (xs @ ys) \<longleftrightarrow> has_breaking xs \<or> has_breaking ys"
  "has_breaking (concat (map f zs)) \<longleftrightarrow> (\<exists>z \<in> set zs. has_breaking (f z))"
  by (auto simp: has_breaking_def change_def)

lemma has_breaking_map: "has_breaking (map (\<lambda>x. change k (p x) (d x)) xs) \<longleftrightarrow> k = Breaking \<and> xs \<noteq> []"
  by (cases xs) (auto simp: has_breaking_def change_def)

lemma has_breaking_additions [simp]: "\<not> has_breaking (map (\<lambda>(n, _). change Additive (p n) d) xs)"
  by (auto simp: has_breaking_def change_def)

lemma table_kind: "table kind t \<Longrightarrow> (k, e) \<in> set t \<Longrightarrow> kind e"
  by (auto simp: table_def list_all_iff)

lemma table_lookup_kind: "table kind t \<Longrightarrow> map_of t k = Some e \<Longrightarrow> kind e"
  by (auto dest: map_of_SomeD table_kind)

text \<open>The four comparisons have one shape: per entry, breaking exactly when the entry is not kept.\<close>

lemma table_breaking:
  assumes "table kind old" "table kind new"
    and "\<And>k. has_breaking (removed k)"
    and "\<And>k b c. kind b \<Longrightarrow> kind c \<Longrightarrow> has_breaking (diff k b c) \<longleftrightarrow> \<not> keeps_entry b c"
  shows "has_breaking (concat (map (\<lambda>(k, b). case map_of new k of None \<Rightarrow> removed k | Some c \<Rightarrow> diff k b c) old))
    \<longleftrightarrow> \<not> extends_table keeps_entry old new"
proof -
  have "has_breaking (case map_of new k of None \<Rightarrow> removed k | Some c \<Rightarrow> diff k b c) \<longleftrightarrow>
      \<not> (\<exists>c. map_of new k = Some c \<and> keeps_entry b c)" if "(k, b) \<in> set old" for k b
    using table_kind [OF assms(1) that] table_lookup_kind [OF assms(2)] assms(3,4)
    by (auto split: option.split)
  then show ?thesis by (auto simp: extends_table_def split: prod.splits) blast+
qed

lemma has_field_iff: "has_field fs n \<longleftrightarrow> n \<in> pm_name ` set fs"
  by (auto simp: has_field_def list_ex_iff)

lemma diff_functions_breaking:
  assumes "spec_ok b" "spec_ok c"
  shows "has_breaking (diff_functions b c) \<longleftrightarrow> \<not> extends_table keeps_entry (sp_functions b) (sp_functions c)"
proof -
  have e: "is_function x \<longleftrightarrow> (\<exists>n i p. x = Function n i p)" for x by (cases x) auto
  show ?thesis
    unfolding diff_functions_def has_breaking_simps(3)
    by (subst table_breaking [where kind = is_function])
      (use assms in \<open>auto simp: spec_ok_def e\<close>)
qed

lemma diff_udts_breaking:
  assumes "spec_ok b" "spec_ok c"
  shows "has_breaking (diff_udts b c) \<longleftrightarrow> \<not> extends_table keeps_entry (sp_udts b) (sp_udts c)"
proof -
  have e: "is_udt x \<longleftrightarrow> (\<exists>n i p. x = Udt n i p)" for x by (cases x) auto
  show ?thesis
    unfolding diff_udts_def has_breaking_simps(3)
    by (subst table_breaking [where kind = is_udt])
      (use assms in \<open>auto simp: spec_ok_def e has_breaking_map filter_empty_conv has_field_iff image_subset_iff\<close>)
qed

lemma diff_errors_breaking:
  assumes "spec_ok b" "spec_ok c"
  shows "has_breaking (diff_errors b c) \<longleftrightarrow> \<not> extends_table keeps_entry (sp_errors b) (sp_errors c)"
proof -
  have e: "is_error x \<longleftrightarrow> (\<exists>n i. x = Error n i)" for x by (cases x) auto
  show ?thesis
    unfolding diff_errors_def has_breaking_simps(3)
    by (subst table_breaking [where kind = is_error])
      (use assms in \<open>auto simp: spec_ok_def e\<close>)
qed

lemma diff_events_breaking:
  assumes "spec_ok b" "spec_ok c"
  shows "has_breaking (diff_events b c) \<longleftrightarrow> \<not> extends_table keeps_entry (sp_events b) (sp_events c)"
proof -
  have e: "is_event x \<longleftrightarrow> (\<exists>n i. x = Event n i)" for x by (cases x) auto
  show ?thesis
    unfolding diff_events_def has_breaking_simps(3)
    by (subst table_breaking [where kind = is_event])
      (use assms in \<open>auto simp: spec_ok_def e\<close>)
qed

lemma diff_specs_breaking:
  "spec_ok b \<Longrightarrow> spec_ok c \<Longrightarrow> has_breaking (diff_specs b c) \<longleftrightarrow> \<not> compatible b c"
  by (simp add: diff_specs_def compatible_def diff_functions_breaking diff_udts_breaking diff_errors_breaking
      diff_events_breaking)

lemma keeps_entry_trans: "keeps_entry a b \<Longrightarrow> keeps_entry b c \<Longrightarrow> keeps_entry a c"
  by (cases a; cases b; cases c) auto

lemma extends_tableD: "extends_table keeps old new \<Longrightarrow> (k, b) \<in> set old \<Longrightarrow> \<exists>c. map_of new k = Some c \<and> keeps b c"
  by (auto simp: extends_table_def)

lemma extends_table_trans:
  assumes ab: "extends_table keeps_entry a b" and bc: "extends_table keeps_entry b c"
  shows "extends_table keeps_entry a c"
proof -
  have "\<exists>z. map_of c k = Some z \<and> keeps_entry x z" if x: "(k, x) \<in> set a" for k x
  proof -
    from extends_tableD [OF ab x] obtain y where y: "map_of b k = Some y" "keeps_entry x y" by blast
    from extends_tableD [OF bc map_of_SomeD [OF y(1)]] y(2) show ?thesis by (auto intro: keeps_entry_trans)
  qed
  then show ?thesis by (auto simp: extends_table_def)
qed

lemma compatible_trans: "compatible a b \<Longrightarrow> compatible b c \<Longrightarrow> compatible a c"
  unfolding compatible_def by (intro conjI; elim conjE; erule (1) extends_table_trans)

lemma no_allowlist: "unallowlisted_breaking cs [] = [] \<longleftrightarrow> \<not> has_breaking cs"
  by (auto simp: unallowlisted_breaking_def has_breaking_def filter_empty_conv)

section \<open>The tool\<close>

lemma map_of_bt_insert: "map_of (bt_insert k v m) = (map_of m)(k \<mapsto> v)"
  by (induction k v m rule: bt_insert.induct) (auto simp: fun_eq_iff)

lemma keys_bt_insert: "set (map fst (bt_insert k v m)) = insert k (set (map fst m))"
  by (induction k v m rule: bt_insert.induct) auto

lemma sorted_bt_insert:
  fixes m :: "('k::linorder \<times> 'a) list"
  shows "sorted_wrt (<) (map fst m) \<Longrightarrow> sorted_wrt (<) (map fst (bt_insert k v m))"
proof (induction m)
  case (Cons p m)
  obtain j w where p: "p = (j, w)" by (cases p)
  show ?case
  proof (cases "k < j \<or> k = j")
    case True
    with Cons.prems show ?thesis by (auto simp: p)
  next
    case False
    then have "j < k" by auto
    moreover have "j < x" if "x \<in> set (map fst (bt_insert k v m))" for x
      using that Cons.prems \<open>j < k\<close> unfolding keys_bt_insert by (auto simp: p)
    ultimately show ?thesis using Cons False by (simp add: p)
  qed
qed simp

lemma find_snoc: "find P (xs @ [x]) = (case find P xs of None \<Rightarrow> if P x then Some x else None | Some y \<Rightarrow> Some y)"
  by (induction xs) auto

lemma map_of_collect: "map_of (collect es) i = find (\<lambda>e. entry_id e = i) (rev es)"
proof -
  have "map_of (fold (\<lambda>e. bt_insert (entry_id e) e) es m) i =
      (case find (\<lambda>e. entry_id e = i) (rev es) of None \<Rightarrow> map_of m i | Some e \<Rightarrow> Some e)" for m
    by (induction es arbitrary: m) (auto simp: map_of_bt_insert find_snoc split: option.splits)
  then show ?thesis by (auto simp: collect_def split: option.splits)
qed

lemma collect_distinct: "distinct (map fst (collect es))"
proof -
  have "sorted_wrt (<) (map fst (fold (\<lambda>e. bt_insert (entry_id e) e) es m))"
    if "sorted_wrt (<) (map fst m)" for m :: "(string \<times> CliEntry) list"
    using that by (induction es arbitrary: m) (simp_all add: sorted_bt_insert)
  from this [of "[]"] show ?thesis by (simp add: collect_def strict_sorted_iff)
qed

lemma collect_mem: "(i, e) \<in> set (collect es) \<longleftrightarrow> find (\<lambda>e. entry_id e = i) (rev es) = Some e"
  using map_of_eq_Some_iff [OF collect_distinct, of es i e] by (simp add: map_of_collect)

lemma check_changes_iff:
  "check_changes al crate cs ok \<longleftrightarrow> ok \<and> (\<forall>c \<in> set cs. cc_kind c = Breaking \<longrightarrow> is_allowed al crate (cc_entry c))"
  by (induction cs arbitrary: ok) (auto split: ChangeKind.splits)

text \<open>The entry a list holds under an identifier: the last one.\<close>

definition entry_of :: "CliEntry list \<Rightarrow> string \<Rightarrow> CliEntry option" where
  "entry_of es i = find (\<lambda>e. entry_id e = i) (rev es)"

lemma compare_entry_breaking:
  "(\<exists>x \<in> set (compare_entry cur (j, old)). cc_kind x = Breaking \<and> cc_entry x = i) \<longleftrightarrow>
     j = i \<and> (\<forall>new. map_of cur i = Some new \<longrightarrow> ce_signature new \<noteq> ce_signature old)"
  by (auto simp: compare_entry_def split: option.split)

lemma cli_diff_breaking:
  "(\<exists>x \<in> set (cli_diff b c). cc_kind x = Breaking \<and> cc_entry x = i) \<longleftrightarrow>
     (\<exists>old. entry_of b i = Some old \<and> (\<forall>new. entry_of c i = Some new \<longrightarrow> ce_signature new \<noteq> ce_signature old))"
proof -
  have "(\<exists>x \<in> set (cli_diff b c). cc_kind x = Breaking \<and> cc_entry x = i) \<longleftrightarrow>
      (\<exists>p \<in> set (collect b). \<exists>x \<in> set (compare_entry (collect c) p). cc_kind x = Breaking \<and> cc_entry x = i)"
    by (auto simp: cli_diff_def Let_def)
  also have "\<dots> \<longleftrightarrow> (\<exists>j old. (j, old) \<in> set (collect b) \<and>
      (\<exists>x \<in> set (compare_entry (collect c) (j, old)). cc_kind x = Breaking \<and> cc_entry x = i))"
    by (auto simp del: not_None_eq)
  also have "\<dots> \<longleftrightarrow> (\<exists>old. entry_of b i = Some old \<and>
      (\<forall>new. entry_of c i = Some new \<longrightarrow> ce_signature new \<noteq> ce_signature old))"
    unfolding compare_entry_breaking by (auto simp: collect_mem map_of_collect entry_of_def)
  finally show ?thesis .
qed

section \<open>Properties\<close>

text \<open>
  C24: For well-formed specifications the check without an allowlist passes exactly when the
  new interface keeps every function's signature, every type's variants and field names, every
  error's name and every event's payload; and checks of successive versions compose.
\<close>

theorem gate_means_compatible:
  assumes "spec_ok b" "spec_ok c" "spec_ok d"
  shows "(unallowlisted_breaking (diff_specs b c) [] = [] \<longleftrightarrow> compatible b c) \<and>
    (unallowlisted_breaking (diff_specs b c) [] = [] \<and> unallowlisted_breaking (diff_specs c d) [] = []
      \<longrightarrow> unallowlisted_breaking (diff_specs b d) [] = [])"
  using assms by (auto simp: no_allowlist diff_specs_breaking intro: compatible_trans)

text \<open>
  The command-line check passes exactly when every entry of the baseline is there with the
  same signature, or an allowlist entry with an issue names it.
\<close>

theorem cli_check_exact:
  "check_entries al crate b c \<longleftrightarrow>
     (\<forall>i old. entry_of b i = Some old \<longrightarrow>
        (\<exists>new. entry_of c i = Some new \<and> ce_signature new = ce_signature old) \<or> is_allowed al crate i)"
proof -
  have "check_entries al crate b c \<longleftrightarrow>
      (\<forall>i. (\<exists>x \<in> set (cli_diff b c). cc_kind x = Breaking \<and> cc_entry x = i) \<longrightarrow> is_allowed al crate i)"
    by (auto simp: check_entries_def check_changes_iff)
  then show ?thesis unfolding cli_diff_breaking by blast
qed

text \<open>
  A change of a struct field's type is no change for the library's comparison.
\<close>

theorem field_type_change_unseen:
  "\<exists>b c n f t t'. spec_ok b \<and> spec_ok c \<and> t \<noteq> t' \<and>
     map_of (sp_udts b) n = Some (Udt n [\<lparr>pm_name = f, pm_type = t\<rparr>] []) \<and>
     map_of (sp_udts c) n = Some (Udt n [\<lparr>pm_name = f, pm_type = t'\<rparr>] []) \<and> diff_specs b c = []"
proof -
  let ?s = "\<lambda>t. \<lparr>sp_functions = [], sp_udts = [(''Config'', Udt ''Config'' [\<lparr>pm_name = ''fee'', pm_type = t\<rparr>] [])],
    sp_errors = [], sp_events = []\<rparr>"
  show ?thesis
    by (intro exI [of _ "?s ''i128''"] exI [of _ "?s ''u64''"] exI [of _ "''Config''"] exI [of _ "''fee''"]
        exI [of _ "''i128''"] exI [of _ "''u64''"])
      (simp add: spec_ok_def table_def diff_specs_def diff_functions_def diff_udts_def diff_errors_def diff_events_def
        has_field_def)
qed

theorem gate_means_compatible_witness:
  "\<exists>b c. spec_ok b \<and> spec_ok c \<and> b \<noteq> c \<and> unallowlisted_breaking (diff_specs b c) [] = [] \<and>
     unallowlisted_breaking (diff_specs c b) [] \<noteq> []"
proof -
  let ?b = "\<lparr>sp_functions = [], sp_udts = [], sp_errors = [], sp_events = []\<rparr>"
  let ?c = "?b\<lparr>sp_functions := [(''pause'', Function ''pause'' [] [])]\<rparr>"
  have ok: "spec_ok ?b" "spec_ok ?c" by (simp_all add: spec_ok_def table_def)
  have "compatible ?b ?c" "\<not> compatible ?c ?b" by (simp_all add: compatible_def extends_table_def)
  with gate_means_compatible [OF ok ok(1)] gate_means_compatible [OF ok(2,1) ok(1)] ok show ?thesis
    by (intro exI [of _ ?b] exI [of _ ?c]) simp
qed

end
