(* ===== verification/Spec_Normalize.thy ===== *)
theory Spec_Normalize
  imports Spec_Check "HOL-Library.Multiset"
begin

text \<open>
  From the entries of a contract's specification section to the tables that the interface checker
  of \<open>tools/spec-check/src/lib.rs\<close> compares, and the checker on top of that extraction. Parsing
  the binary belongs to the library that the source calls: the datatype lists the parts of its
  entries that the source reads, with names and types already printed.
\<close>

section \<open>Entries\<close>

record ScSpecParam =
  rp_name :: string
  rp_type :: string

datatype ScSpecEntry =
    FunctionV0 string "ScSpecParam list" "ScSpecParam list"
  | UdtStructV0 string "ScSpecParam list"
  | UdtEnumV0 string "string list"
  | UdtUnionV0 string "string list"
  | ErrorV0 nat string
  | EventV0 string "ScSpecParam list"

definition normalize_param :: "ScSpecParam \<Rightarrow> SpecParam" where
  "normalize_param p = \<lparr>pm_name = rp_name p, pm_type = rp_type p\<rparr>"

fun normalize_entry :: "ScSpecEntry \<Rightarrow> ContractSpec \<Rightarrow> ContractSpec" where
  "normalize_entry (FunctionV0 name inputs outputs) spec =
     spec\<lparr>sp_functions := bt_insert name
       (Function name (map normalize_param inputs) (map normalize_param outputs)) (sp_functions spec)\<rparr>"
| "normalize_entry (UdtStructV0 name struct_fields) spec =
     spec\<lparr>sp_udts := bt_insert name (Udt name (sort_key pm_name (map normalize_param struct_fields)) []) (sp_udts spec)\<rparr>"
| "normalize_entry (UdtEnumV0 name cases) spec = spec\<lparr>sp_udts := bt_insert name (Udt name [] cases) (sp_udts spec)\<rparr>"
| "normalize_entry (UdtUnionV0 name cases) spec = spec\<lparr>sp_udts := bt_insert name (Udt name [] cases) (sp_udts spec)\<rparr>"
| "normalize_entry (ErrorV0 code name) spec = spec\<lparr>sp_errors := bt_insert code (Error code name) (sp_errors spec)\<rparr>"
| "normalize_entry (EventV0 name params) spec =
     spec\<lparr>sp_events := bt_insert name (Event name (map normalize_param params)) (sp_events spec)\<rparr>"

definition no_spec :: ContractSpec where
  "no_spec = \<lparr>sp_functions = [], sp_udts = [], sp_errors = [], sp_events = []\<rparr>"

definition normalize_entries :: "ScSpecEntry list \<Rightarrow> ContractSpec" where
  "normalize_entries entries = fold normalize_entry entries no_spec"

section \<open>One table at a time\<close>

text \<open>What an entry adds to each of the four tables.\<close>

fun to_function :: "ScSpecEntry \<Rightarrow> (string \<times> SpecEntry) option" where
  "to_function (FunctionV0 name inputs outputs) =
     Some (name, Function name (map normalize_param inputs) (map normalize_param outputs))"
| "to_function _ = None"

fun to_udt :: "ScSpecEntry \<Rightarrow> (string \<times> SpecEntry) option" where
  "to_udt (UdtStructV0 name struct_fields) = Some (name, Udt name (sort_key pm_name (map normalize_param struct_fields)) [])"
| "to_udt (UdtEnumV0 name cases) = Some (name, Udt name [] cases)"
| "to_udt (UdtUnionV0 name cases) = Some (name, Udt name [] cases)"
| "to_udt _ = None"

fun to_error :: "ScSpecEntry \<Rightarrow> (nat \<times> SpecEntry) option" where
  "to_error (ErrorV0 code name) = Some (code, Error code name)"
| "to_error _ = None"

fun to_event :: "ScSpecEntry \<Rightarrow> (string \<times> SpecEntry) option" where
  "to_event (EventV0 name params) = Some (name, Event name (map normalize_param params))"
| "to_event _ = None"

definition insert_opt :: "('k::linorder \<times> 'v) option \<Rightarrow> ('k \<times> 'v) list \<Rightarrow> ('k \<times> 'v) list" where
  "insert_opt x m = (case x of None \<Rightarrow> m | Some (k, v) \<Rightarrow> bt_insert k v m)"

definition table_of :: "('r \<Rightarrow> ('k::linorder \<times> 'v) option) \<Rightarrow> 'r list \<Rightarrow> ('k \<times> 'v) list" where
  "table_of f rs = fold (\<lambda>r. insert_opt (f r)) rs []"

lemma table_of_simps [simp]: "table_of f [] = []" "table_of f (rs @ [r]) = insert_opt (f r) (table_of f rs)"
  by (simp_all add: table_of_def)

lemma normalize_tables:
  "sp_functions (normalize_entries es) = table_of to_function es" "sp_udts (normalize_entries es) = table_of to_udt es"
  "sp_errors (normalize_entries es) = table_of to_error es" "sp_events (normalize_entries es) = table_of to_event es"
proof -
  have "sp_functions (normalize_entries es) = table_of to_function es \<and> sp_udts (normalize_entries es) = table_of to_udt es \<and>
      sp_errors (normalize_entries es) = table_of to_error es \<and> sp_events (normalize_entries es) = table_of to_event es"
  proof (induction es rule: rev_induct)
    case (snoc e es)
    then show ?case by (cases e) (simp_all add: normalize_entries_def insert_opt_def)
  qed (simp add: normalize_entries_def no_spec_def)
  then show "sp_functions (normalize_entries es) = table_of to_function es" "sp_udts (normalize_entries es) = table_of to_udt es"
    "sp_errors (normalize_entries es) = table_of to_error es" "sp_events (normalize_entries es) = table_of to_event es"
    by blast+
qed

text \<open>The last declaration under a key.\<close>

definition declared :: "('r \<Rightarrow> ('k \<times> 'v) option) \<Rightarrow> 'r list \<Rightarrow> 'k \<Rightarrow> 'v option" where
  "declared f rs k = Option.bind (find (\<lambda>r. map_option fst (f r) = Some k) (rev rs)) (\<lambda>r. map_option snd (f r))"

lemma declared_snoc:
  "declared f (rs @ [r]) k = (if map_option fst (f r) = Some k then map_option snd (f r) else declared f rs k)"
  by (simp add: declared_def)

lemma map_of_table: "map_of (table_of f rs) = declared f rs"
proof (induction rs rule: rev_induct)
  case (snoc r rs)
  then show ?case
    by (cases "f r") (auto simp: declared_snoc insert_opt_def map_of_bt_insert fun_eq_iff split: prod.splits)
qed (simp add: declared_def fun_eq_iff)

lemma sorted_table: "sorted_wrt (<) (map fst (table_of f rs))"
  by (induction rs rule: rev_induct) (auto simp: insert_opt_def sorted_bt_insert split: option.split prod.split)

lemma distinct_table: "distinct (map fst (table_of f rs))"
  using sorted_table [of f rs] by (simp add: strict_sorted_iff)

text \<open>Two ordered tables with the same lookup are the same.\<close>

lemma sorted_tables_eq:
  fixes m m' :: "('k::linorder \<times> 'v) list"
  assumes "sorted_wrt (<) (map fst m)" "sorted_wrt (<) (map fst m')" "map_of m = map_of m'"
  shows "m = m'"
proof -
  have d: "distinct (map fst m)" "distinct (map fst m')" using assms(1,2) by (simp_all add: strict_sorted_iff)
  have "set m = set m'" using map_of_eq_Some_iff [OF d(1)] map_of_eq_Some_iff [OF d(2)] assms(3) by auto
  moreover from this have "map fst m = map fst m'"
    using assms(1,2) strict_sorted_equal [of "map fst m" "map fst m'"] by simp
  moreover have "m = map (\<lambda>k. (k, the (map_of m k))) (map fst m)" if "distinct (map fst m)" for m :: "('k \<times> 'v) list"
    using that by (auto simp: comp_def intro!: map_idI [symmetric])
  ultimately show ?thesis using d assms(3) by metis
qed

section \<open>What the extraction guarantees\<close>

lemma declared_from: "declared f rs k = Some v \<Longrightarrow> \<exists>r \<in> set rs. f r = Some (k, v)"
  by (induction rs rule: rev_induct) (auto simp: declared_snoc declared_def split: if_splits)

lemma table_ok:
  assumes "\<And>r k v. f r = Some (k, v) \<Longrightarrow> kind v"
  shows "table kind (table_of f rs)"
proof -
  have "kind v" if "(k, v) \<in> set (table_of f rs)" for k v
    using that map_of_eq_Some_iff [OF distinct_table, of f rs k v] declared_from [of f rs k v] assms
    by (auto simp: map_of_table)
  then show ?thesis by (auto simp: table_def distinct_table list_all_iff)
qed

lemma normalize_ok: "spec_ok (normalize_entries es)"
  unfolding spec_ok_def normalize_tables
proof (intro conjI table_ok)
  fix r :: ScSpecEntry and k v
  show "to_function r = Some (k, v) \<Longrightarrow> is_function v" by (cases r) auto
  show "to_udt r = Some (k, v) \<Longrightarrow> is_udt v" by (cases r) auto
  show "to_event r = Some (k, v) \<Longrightarrow> is_event v" by (cases r) auto
next
  fix r :: ScSpecEntry and k v
  show "to_error r = Some (k, v) \<Longrightarrow> is_error v" by (cases r) auto
qed

text \<open>Every declaration of the old contract is still there and kept.\<close>

definition keeps_declared :: "('r \<Rightarrow> ('k \<times> SpecEntry) option) \<Rightarrow> 'r list \<Rightarrow> 'r list \<Rightarrow> bool" where
  "keeps_declared f b c \<longleftrightarrow>
     (\<forall>k v. declared f b k = Some v \<longrightarrow> (\<exists>v'. declared f c k = Some v' \<and> keeps_entry v v'))"

lemma extends_declared: "extends_table keeps_entry (table_of f b) (table_of f c) \<longleftrightarrow> keeps_declared f b c"
  using map_of_eq_Some_iff [OF distinct_table, of f b]
  by (fastforce simp: extends_table_def keeps_declared_def map_of_table)

text \<open>No two entries of one table share a key.\<close>

definition one_each :: "('r \<Rightarrow> ('k \<times> 'v) option) \<Rightarrow> 'r list \<Rightarrow> bool" where
  "one_each f rs \<longleftrightarrow> distinct (map fst (List.map_filter f rs))"

lemma map_filter_snoc: "List.map_filter f (rs @ [r]) = List.map_filter f rs @ (case f r of None \<Rightarrow> [] | Some x \<Rightarrow> [x])"
  by (auto simp: List.map_filter_def split: option.split)

lemma declared_one_each: "one_each f rs \<Longrightarrow> declared f rs = map_of (List.map_filter f rs)"
proof (induction rs rule: rev_induct)
  case (snoc r rs)
  then show ?case
    by (cases "f r") (auto simp: one_each_def declared_snoc map_filter_snoc map_add_def fun_eq_iff split: option.splits
        dest: map_of_SomeD intro: rev_image_eqI)
qed (simp add: declared_def List.map_filter_def fun_eq_iff)

lemma declared_order_free:
  assumes "mset rs = mset rs'" "one_each f rs"
  shows "declared f rs = declared f rs'"
proof -
  have m: "mset (List.map_filter f rs) = mset (List.map_filter f rs')"
    using assms(1) by (simp add: List.map_filter_def)
  then have "mset (map fst (List.map_filter f rs)) = mset (map fst (List.map_filter f rs'))" by simp
  then have one: "one_each f rs'" using assms(2) unfolding one_each_def by (metis mset_eq_imp_distinct_iff)
  have "set (List.map_filter f rs) = set (List.map_filter f rs')" using m by (rule mset_eq_setD)
  then have "map_of (List.map_filter f rs) k = Some v \<longleftrightarrow> map_of (List.map_filter f rs') k = Some v" for k v
    using assms(2) one by (simp add: one_each_def)
  then have "map_of (List.map_filter f rs) = map_of (List.map_filter f rs')"
    by (intro ext) (metis not_Some_eq)
  with declared_one_each [OF assms(2)] declared_one_each [OF one] show ?thesis by simp
qed

lemma table_order_free:
  assumes "mset rs = mset rs'" "one_each f rs"
  shows "table_of f rs = table_of f rs'"
  using declared_order_free [OF assms] by (intro sorted_tables_eq sorted_table) (simp add: map_of_table)

text \<open>The same entries, with the fields of structs in another order.\<close>

fun reorders :: "ScSpecEntry \<Rightarrow> ScSpecEntry \<Rightarrow> bool" where
  "reorders (UdtStructV0 n fs) e \<longleftrightarrow>
     (\<exists>fs'. e = UdtStructV0 n fs' \<and> mset fs' = mset fs \<and> distinct (map rp_name fs))"
| "reorders e e' \<longleftrightarrow> e' = e"

lemma struct_order_free:
  assumes "mset fs' = mset fs" "distinct (map rp_name fs)"
  shows "sort_key pm_name (map normalize_param fs') = sort_key pm_name (map normalize_param fs)"
proof (rule sort_key_inj_key_eq)
  show "mset (map normalize_param fs') = mset (sort_key pm_name (map normalize_param fs))" using assms(1) by simp
  have "inj_on rp_name (set fs')" using assms by (metis distinct_map set_mset_mset)
  then show "inj_on pm_name (set (map normalize_param fs'))" by (auto simp: inj_on_def normalize_param_def)
  show "sorted (map pm_name (sort_key pm_name (map normalize_param fs)))" by (rule sorted_sort_key)
qed

lemma reorders_same:
  assumes "reorders e e'"
  shows "to_function e' = to_function e" "to_udt e' = to_udt e" "to_error e' = to_error e" "to_event e' = to_event e"
proof -
  have "e' = e \<or> (\<exists>n fs fs'. e = UdtStructV0 n fs \<and> e' = UdtStructV0 n fs' \<and> mset fs' = mset fs \<and> distinct (map rp_name fs))"
    using assms by (cases e) auto
  then show "to_function e' = to_function e" "to_udt e' = to_udt e" "to_error e' = to_error e" "to_event e' = to_event e"
    by (auto dest: struct_order_free)
qed

lemma table_reorders:
  assumes "list_all2 reorders es es'" "\<And>e e'. reorders e e' \<Longrightarrow> f e' = f e"
  shows "List.map_filter f es' = List.map_filter f es" "table_of f es' = table_of f es"
proof -
  show "List.map_filter f es' = List.map_filter f es"
    using assms(1) by (induction rule: list_all2_induct) (auto simp: List.map_filter_def assms(2))
  have "fold (\<lambda>r. insert_opt (f r)) es' m = fold (\<lambda>r. insert_opt (f r)) es m" for m
    using assms(1) by (induction arbitrary: m rule: list_all2_induct) (auto simp: assms(2))
  then show "table_of f es' = table_of f es" by (simp add: table_of_def)
qed

section \<open>Properties\<close>

text \<open>
  Between the raw specifications of two builds of a contract the check without an allowlist
  passes exactly when each function, type, error and event that the old one declares, the last
  declaration counting, is declared by the new one and kept by it; no assumption on the
  specifications is needed.
\<close>

theorem gate_on_entries:
  "(unallowlisted_breaking (diff_specs (normalize_entries b) (normalize_entries c)) [] = [] \<longleftrightarrow>
     keeps_declared to_function b c \<and> keeps_declared to_udt b c \<and> keeps_declared to_error b c \<and> keeps_declared to_event b c)"
  by (auto simp: no_allowlist diff_specs_breaking normalize_ok compatible_def normalize_tables extends_declared)

text \<open>
  The extracted interface does not depend on the order of the entries in the specification
  section nor on the order of the fields within a struct, as long as no name or code is
  declared twice.
\<close>

theorem normalize_order_free:
  assumes "list_all2 reorders es ms" "mset ms = mset es'"
    "one_each to_function es" "one_each to_udt es" "one_each to_error es" "one_each to_event es"
  shows "normalize_entries es' = normalize_entries es"
proof -
  have t: "table_of f es' = table_of f es"
    if "one_each f es" "\<And>e e'. reorders e e' \<Longrightarrow> f e' = f e" for f :: "ScSpecEntry \<Rightarrow> (('k::linorder) \<times> SpecEntry) option"
    using table_order_free [OF assms(2), of f] table_reorders [OF assms(1), of f] that by (simp add: one_each_def)
  have "sp_functions (normalize_entries es') = sp_functions (normalize_entries es)"
    unfolding normalize_tables by (rule t [OF assms(3) reorders_same(1)])
  moreover have "sp_udts (normalize_entries es') = sp_udts (normalize_entries es)"
    unfolding normalize_tables by (rule t [OF assms(4) reorders_same(2)])
  moreover have "sp_errors (normalize_entries es') = sp_errors (normalize_entries es)"
    unfolding normalize_tables by (rule t [OF assms(5) reorders_same(3)])
  moreover have "sp_events (normalize_entries es') = sp_events (normalize_entries es)"
    unfolding normalize_tables by (rule t [OF assms(6) reorders_same(4)])
  ultimately show ?thesis by (cases "normalize_entries es'"; cases "normalize_entries es") simp
qed

theorem normalize_order_free_witness:
  "\<exists>es es'. es \<noteq> es' \<and> es \<noteq> rev es' \<and> normalize_entries es' = normalize_entries es \<and> sp_udts (normalize_entries es) \<noteq> []"
proof -
  let ?a = "\<lparr>rp_name = ''fee'', rp_type = ''i128''\<rparr>" and ?b = "\<lparr>rp_name = ''cap'', rp_type = ''u32''\<rparr>"
  let ?es = "[UdtStructV0 ''Config'' [?a, ?b], EventV0 ''paused'' []]"
  let ?ms = "[UdtStructV0 ''Config'' [?b, ?a], EventV0 ''paused'' []]"
  let ?es' = "rev ?ms"
  have "normalize_entries ?es' = normalize_entries ?es"
    by (rule normalize_order_free [of ?es ?ms]) (simp_all add: one_each_def List.map_filter_def)
  moreover have "sp_udts (normalize_entries ?es) \<noteq> []" by (simp add: normalize_entries_def no_spec_def)
  ultimately show ?thesis by (intro exI [of _ ?es] exI [of _ ?es']) simp
qed

end
