(* ===== verification/Spec_Extract.thy ===== *)
theory Spec_Extract
  imports Spec_Normalize "HOL-Library.Product_Lexorder"
begin

text \<open>
  The command-line tool's own reading of a contract's specification (\<open>tools/spec-check/src/main.rs\<close>):
  one signature, as text, per function, type, error enum and event; and where its verdict differs
  from the library's. The records list what the tool reads of the parsed specification.
\<close>

section \<open>The specification the tool reads\<close>

record SpecFunction =
  fn_name :: string
  fn_inputs :: "ScSpecParam list"
  fn_outputs :: "string list"

datatype UdtBody =
    Struct "ScSpecParam list"
  | Enum "(string \<times> nat) list"
  | Union "(string \<times> nat) list"

record SpecUdt =
  ut_name :: string
  ut_body :: UdtBody

record SpecErrorEnum =
  er_name :: string
  er_cases :: "(string \<times> nat) list"

record SpecEventEntry =
  ev_name :: string
  ev_params :: "ScSpecParam list"

record WasmSpec =
  ws_functions :: "SpecFunction list"
  ws_udt :: "SpecUdt list"
  ws_error_enums :: "SpecErrorEnum list"
  ws_events :: "SpecEventEntry list"

fun join :: "string \<Rightarrow> string list \<Rightarrow> string" where
  "join sep [] = []"
| "join sep [x] = x"
| "join sep (x # y # xs) = x @ sep @ join sep (y # xs)"

definition show_param :: "ScSpecParam \<Rightarrow> string" where
  "show_param p = rp_name p @ '':'' @ rp_type p"

definition show_case :: "string \<Rightarrow> string \<times> nat \<Rightarrow> string" where
  "show_case sep c = fst c @ sep @ decimal (snd c)"

definition entry :: "string \<Rightarrow> string \<Rightarrow> string \<Rightarrow> CliEntry" where
  "entry kind name signature = \<lparr>ce_kind = kind, ce_name = name, ce_signature = signature\<rparr>"

definition udt_entry :: "SpecUdt \<Rightarrow> CliEntry" where
  "udt_entry udt =
     (case ut_body udt of
        Struct struct_fields \<Rightarrow> entry ''struct'' (ut_name udt) (join '','' (sort (map show_param struct_fields)))
      | Enum cases \<Rightarrow> entry ''enum'' (ut_name udt) (join '','' (map (show_case '':'') cases))
      | Union cases \<Rightarrow> entry ''union'' (ut_name udt) (join '','' (map (show_case '':'') cases)))"

definition extract_entries :: "WasmSpec \<Rightarrow> CliEntry list" where
  "extract_entries spec =
     sort_key (\<lambda>e. (ce_kind e, ce_name e))
       (map (\<lambda>func. entry ''function'' (fn_name func)
          (''('' @ join '','' (map show_param (fn_inputs func)) @ '')->'' @ join '','' (fn_outputs func)))
          (ws_functions spec) @
        map udt_entry (ws_udt spec) @
        map (\<lambda>err. entry ''error'' (er_name err) (join '','' (map (show_case ''='') (er_cases err)))) (ws_error_enums spec) @
        map (\<lambda>event. entry ''event'' (ev_name event) (join '','' (map show_param (ev_params event)))) (ws_events spec))"

section \<open>Properties\<close>

text \<open>Two types that differ at most in the order in which a struct declares its fields.\<close>

definition same_udt :: "SpecUdt \<Rightarrow> SpecUdt \<Rightarrow> bool" where
  "same_udt u v \<longleftrightarrow> ut_name u = ut_name v \<and>
     (case (ut_body u, ut_body v) of (Struct fs, Struct gs) \<Rightarrow> mset fs = mset gs | (x, y) \<Rightarrow> x = y)"

lemma sorted_params: "mset fs = mset gs \<Longrightarrow> sort (map show_param fs) = sort (map show_param gs)"
  by (rule properties_for_sort) simp_all

lemma same_udt_entry:
  assumes "same_udt u v"
  shows "udt_entry u = udt_entry v"
proof (cases "ut_body u")
  case (Struct fs)
  with assms obtain gs where "ut_body v = Struct gs" "mset fs = mset gs" "ut_name u = ut_name v"
    by (cases "ut_body v") (simp_all add: same_udt_def)
  then show ?thesis by (simp add: udt_entry_def Struct sorted_params [of fs gs])
next
  case (Enum cs)
  with assms have "ut_body v = Enum cs" "ut_name u = ut_name v" by (cases "ut_body v"; simp add: same_udt_def)+
  then show ?thesis by (simp add: udt_entry_def Enum)
next
  case (Union cs)
  with assms have "ut_body v = Union cs" "ut_name u = ut_name v" by (cases "ut_body v"; simp add: same_udt_def)+
  then show ?thesis by (simp add: udt_entry_def Union)
qed

text \<open>
  The tool's verdict does not depend on the order of struct fields: neither on that of the
  baseline nor on that of the contract that is checked.
\<close>

theorem field_order_unseen:
  assumes "list_all2 same_udt us vs"
  shows "check_entries al crate (extract_entries (s\<lparr>ws_udt := us\<rparr>)) c = check_entries al crate (extract_entries (s\<lparr>ws_udt := vs\<rparr>)) c \<and>
    check_entries al crate c (extract_entries (s\<lparr>ws_udt := us\<rparr>)) = check_entries al crate c (extract_entries (s\<lparr>ws_udt := vs\<rparr>))"
proof -
  have "map udt_entry us = map udt_entry vs"
    using assms by (induction rule: list_all2_induct) (simp_all add: same_udt_entry)
  then have "extract_entries (s\<lparr>ws_udt := us\<rparr>) = extract_entries (s\<lparr>ws_udt := vs\<rparr>)"
    by (simp add: extract_entries_def)
  then show ?thesis by simp
qed

text \<open>
  A new error code in an existing enum is additive for the library and a broken signature for the
  tool.
\<close>

definition errors_spec :: "(string \<times> nat) list \<Rightarrow> WasmSpec" where
  "errors_spec cases = \<lparr>ws_functions = [], ws_udt = [], ws_error_enums = [\<lparr>er_name = ''Error'', er_cases = cases\<rparr>], ws_events = []\<rparr>"

definition errors_entries :: "(string \<times> nat) list \<Rightarrow> ScSpecEntry list" where
  "errors_entries cases = map (\<lambda>(name, code). ErrorV0 code name) cases"

theorem new_error_code_breaks_tool:
  "\<not> check_entries [] crate (extract_entries (errors_spec [(''Paused'', 1)])) (extract_entries (errors_spec [(''Paused'', 1), (''Stale'', 2)])) \<and>
   unallowlisted_breaking (diff_specs (normalize_entries (errors_entries [(''Paused'', 1)]))
     (normalize_entries (errors_entries [(''Paused'', 1), (''Stale'', 2)]))) [] = []"
proof
  show "\<not> check_entries [] crate (extract_entries (errors_spec [(''Paused'', 1)])) (extract_entries (errors_spec [(''Paused'', 1), (''Stale'', 2)]))"
    by (simp add: check_entries_def check_changes_iff cli_diff_def collect_def compare_entry_def extract_entries_def
        errors_spec_def entry_def entry_id_def show_case_def is_allowed_def decimal.simps)
  show "unallowlisted_breaking (diff_specs (normalize_entries (errors_entries [(''Paused'', 1)]))
     (normalize_entries (errors_entries [(''Paused'', 1), (''Stale'', 2)]))) [] = []"
    unfolding gate_on_entries
    by (auto simp: keeps_declared_def declared_def errors_entries_def split: if_splits)
qed

end
