(* ===== verification/Spec2Isabelle.thy ===== *)
theory Spec2Isabelle
  imports Settlement_Safety Panel_Settlement Timelock Fee_Router Solver_Registry Governor Backstop_Vault
    Treasury_Streams Proven_Fills Settlement_Refunds Settlement_Deliveries User_Index Settlement_Offers Reputation_Badge Intent_Periphery Directory Policy_Daily_Cap Spec_Extract
begin

text \<open>
  A model of the Vortex contracts, an intent settlement protocol written in Rust for Soroban
  (Stellar). A user submits an intent: an amount on a source chain against a minimum output of
  a token on Stellar. A bonded solver accepts it and delivers the output, either directly or
  through an escrow that the user may dispute; a solver that does not deliver is slashed.
  Disputes go to a panel of bonded arbiters, which votes and resolves them on the settlement
  contract; proofs of the deposits on the source chain come in through a registry of verified
  bridge messages. Around these stand a solver registry with bonds and reputation tiers, soulbound
  tier badges, a router for the protocol fees, a backstop vault that insures users, vesting streams
  for the treasury, a governor whose proposals are voted with staked bonds and queued into a
  timelock, an address book, a view contract and an example policy that the settlement may ask.

  \<^bold>\<open>Conventions.\<close> An entry point is a function from its arguments, an environment and the
  contract's storage to a result (\<open>Prelude\<close>): either an abort, after which the host discards
  every write, or the new storage with the list of token transfers made. \<open>i128\<close> is \<open>int\<close>
  and \<open>u64\<close>/\<open>u32\<close> are \<open>nat\<close>, with every range check written out: the workspace builds
  with overflow checks, so a plain operator that overflows aborts (\<open>i128\<close>, \<open>u64\<close>,
  \<open>u32\<close>), \<open>checked_*\<close> gives \<open>None\<close> and \<open>saturating_*\<close> clamps. \<open>/\<close> on signed
  integers truncates (\<open>sdiv\<close>). Storage keys are fields of a record: a plain key is an
  option, a family of keys a map. Addresses are numbers, hashes 256-bit words. The environment
  \<open>env\<close> holds the ledger time, the contract's own address, the signatures of the
  transaction, and the token contracts, which are not part of the repository: whether a
  transfer goes through and what the receiver's balance gains may depend on all transfers made
  before. Events and storage lifetimes (TTL bumps) have no effect in the model. There is no
  fuel: a loop over a list is structural recursion, and the two \<open>while\<close> loops over indices (the
  governor's binary search and the paging of streams) are functions with a measure.

  \<^bold>\<open>Theories.\<close>

  \<^item> \<open>Prelude\<close>: aborts and results, integers, environment, transfers, the elimination rules
    that invert a handler.
  \<^item> \<open>Vortex_Common\<close> (\<open>vortex-common/src/lib.rs\<close>): basis-point arithmetic with its
    rounding modes. \<open>Settlement_Math\<close> (\<open>intent_settlement/src/math.rs\<close>): slash amounts,
    fill windows, fees, discounts, the Dutch decay, decoding of proof payloads; the lemmas give
    exact values, bounds and monotonicity.
  \<^item> \<open>Timelock\<close> (\<open>timelock/src/lib.rs\<close>): roles, operations, schedule, cancel, execute; the
    lemmas cover histories of transactions.
  \<^item> \<open>Fee_Router\<close> (\<open>fee_router/src/lib.rs\<close>): sinks, claims, proposals of new weights.
  \<^item> \<open>Timelocked_Slot\<close>: the propose/accept pattern as a locale, with the theorem that a
    change was announced; interpreted for the registry's admin and writer and for the
    settlement's admin and fee recipient.
  \<^item> \<open>Solver_Registry\<close> (\<open>solver_registry/src/lib.rs\<close>): solvers, bonds, scores, tiers,
    obligations, slashes, and the invariants of every run.
  \<^item> \<open>Indexed_Sets\<close>: the two indexed collections of the settlement contract (paged
    directories, a solver's accepted intents with positions); the second refines a set.
  \<^item> \<open>Settlement_State\<close>: the records and keys of \<open>intent_settlement/src/lib.rs\<close>, in five
    groups (\<open>roles\<close>, \<open>allow\<close>, \<open>bonds\<close>, \<open>book\<close>, \<open>extra\<close>), and the record
    \<open>world\<close> of what the contract calls. \<open>Settlement_Helpers\<close>: its private helpers and the
    oracle adapter (\<open>oracle.rs\<close>). \<open>Settlement_Admin\<close>: initialisation, timelocked changes,
    configuration, allowlists, pausing, rescue. \<open>Settlement_Bonds\<close>: registering, withdrawing,
    deregistering. \<open>Settlement_Intents\<close>: submit, accept, fill, cancel, amend, slash, expire,
    bids. \<open>Settlement_Disputes\<close>: the escrowed fill and its disputes. \<open>Settlement_Extras\<close>:
    chain onboarding, batches, extensions, backstop claims, closing, outbound intents, views.
  \<^item> \<open>Intent_Machine\<close>: the abstract specification of the settlement: the steps of one intent
    and of the ledger of intents and tombstones, with their invariants by rule induction.
    \<open>Settlement_Frames\<close>: what the helpers leave alone. \<open>Settlement_Lifecycle\<close>: one event
    per entry point, and each handler as steps of the machine. \<open>Settlement_Runs\<close>: runs of
    transactions, the refinement, a concrete run. \<open>Settlement_Safety\<close>,
    \<open>Settlement_Roles\<close>, \<open>Settlement_Money\<close>: the properties of the intents, of the
    privileged addresses and the configuration, and of what is paid to whom.
  \<^item> What holds of the whole settlement contract in every run, each an invariant kept by every
    entry point: \<open>Settlement_Counters\<close> (the counters that the views report),
    \<open>Settlement_Engagements\<close> (a solver with accepted work stays registered and bonded),
    \<open>User_Index\<close> (the paged list of a user's intents), \<open>Settlement_Solvency\<close> (bonds and
    escrows are covered by what was sent in), \<open>Settlement_Refunds\<close> (every further bond is listed
    in its solver's record, so leaving refunds all of them), \<open>Settlement_Release\<close> (an escrow that
    is due can be released), \<open>Settlement_Deliveries\<close> (what users are really sent, against the
    minimum outputs of their filled intents). \<open>Settlement_Offers\<close>: the helpers beside the life
    cycle (auction price, exclusivity, deposits, signed submission, the second numbering of
    chains) and what an amendment may change.

  \<^item> \<open>Token_Runs\<close>: runs of a contract that records its transfers, and the locale of a contract
    whose books are covered by what it was sent (\<open>covered_books\<close>, with \<open>token_contract\<close> as
    the common case); interpreted for the settlement and for the three contracts that hold
    deposits. \<open>Backstop_Vault\<close> (\<open>backstop_vault/src/lib.rs\<close>): shares, withdrawals and the
    emergency queue, cover and income; \<open>Treasury_Streams\<close> (\<open>treasury_streams/src/lib.rs\<close>):
    vesting, cancelling, extending, paging; \<open>Arbiter_Panel\<close> (\<open>arbiter_panel/src/lib.rs\<close>):
    registration, the draw of a panel, votes, the tally with its slashes.
  \<^item> \<open>Panel_Settlement\<close>: the panel on the settlement contract, its client calls instantiated with
    that contract's \<open>dispute_parties\<close> and \<open>resolve_dispute\<close>.
  \<^item> \<open>Governor\<close> (\<open>governor/src/lib.rs\<close>): checkpoints of voting power with their binary search,
    proposals, votes, queueing and execution. \<open>Proof_Registry\<close> (\<open>proof_registry/src/lib.rs\<close>):
    authorised emitters, decoding and storing of proofs, replay protection. \<open>Proven_Fills\<close>: fills
    of the settlement that ask for a proof, reading the registry's records.
  \<^item> \<open>Reputation_Badge\<close>, \<open>Directory\<close>, \<open>Intent_Periphery\<close>, \<open>Policy_Daily_Cap\<close>
    (\<open>examples/policy_daily_cap\<close>): the small contracts, each with its runs and one main
    invariant. \<open>Spec_Check\<close> (\<open>tools/spec-check\<close>): the comparison of contract interfaces in the
    library and in the command-line tool, and what passing the check means.
    \<open>Spec_Normalize\<close>: from the entries of a specification to the library's tables, that their
    order does not matter, and the check on top. \<open>Spec_Extract\<close>: the tool's own extraction, and
    where its verdict differs from the library's.

  \<^bold>\<open>Parameters.\<close> Token contracts (in \<open>env\<close>); SHA-256, XDR and the network id; in \<open>world\<close>
  the oracle's prices, token decimals, the policy contract, and the answers of the contracts
  the settlement addresses by a stored address (registry, proof registry). The settlement calls
  three helpers and uses two constants that its source does not define
  (\<open>adjust_token_liabilities\<close>, \<open>add_to_open_intent_list\<close>,
  \<open>remove_from_open_intent_list\<close>; \<open>SLASH_GRACE_SECS\<close>, \<open>MAX_TOTAL_EXTENSION\<close>): they
  are fields of \<open>world\<close>, and the helpers may change only the key they name. The governor's calls
  of the registry and the timelock, the bridge's core contract, the panel's random generator and
  the contracts behind the view contract are arguments of the definitions that use them.

  \<^bold>\<open>The source as it stands.\<close> \<open>intent_settlement/src/lib.rs\<close> carries both sides of several
  merges and does not compile at this commit. Where a function is declared twice the model
  takes one declaration: for \<open>begin_fill\<close> the second one, which escrows the output (the
  first ends in the middle); for \<open>fill_intent_inner\<close> the header with \<open>require_proof\<close>,
  which its body uses; for \<open>compute_intent_id\<close>, \<open>validate_proof\<close> and the block of
  helpers that is repeated, the first; for \<open>batch_fill_intent\<close> and
  \<open>batch_cancel_intent\<close>, the first; for \<open>get_solver_intents\<close>, the paginated one.
  \<open>batch_accept_intent\<close> is modelled with both calls its body makes. A handler that reads
  \<open>cfg\<close> or \<open>fee_recipient\<close> without binding them is given the invocation context's.
  \<open>IntentRecord\<close> has the fields that the code constructs.

  \<open>accept_intent\<close>, \<open>accept_intent_with_bond\<close> and \<open>batch_accept_intent\<close> ask for the
  solver's signature and then call \<open>accept_intent_inner\<close>, which asks again in the same frame. The
  comments of that file say that the host rejects a second request; the model's
  \<open>require_auth\<close> only tests whether the address has signed, so its acceptances are those of a host
  that grants the second request. The governor's \<open>set_config\<close> and the vault's
  \<open>set_emergency_mode\<close> call \<open>require_admin\<close> with two arguments where \<open>vortex-common\<close>
  declares three: the model compares with the admin under the contract's own key.
  \<open>execute_upgrade\<close> removes the pending upgrade; the new code has no effect on later transactions
  of a run, so the properties of runs are about runs of this code.

  \<^bold>\<open>Bounds.\<close> The scan that closes an intent stops where its page count saturates \<open>u32\<close>, so the
  property of a user's list is limited to 4294967232 submissions of one user; the solvency of
  the settlement leaves out slashes, which pay twice, and rescues of the token counted, which
  may take an escrow: both are shown on concrete runs. The release of an escrow rests on that
  solvency, so it has the same exceptions, and on a token that pays out what the contract holds.
  The minimum output of a filled intent is delivered up to the protocol fee of 5 basis points,
  which the end of an escrow takes out of the user's share.

  \<^bold>\<open>Not modelled.\<close> Of the settlement contract: the statistics per token (no handler writes
  their keys) and getters that return one key. Of the interface checker: parsing binaries, JSON
  and files, and running the build. The getters of single keys, events and storage lifetimes of
  all contracts, tests and benchmarks.
\<close>

end
